(* ===== verification/Prelude.thy ===== *)
theory Prelude
  imports Main "HOL-Library.Char_ord" "HOL-Library.List_Lexorder" "HOL-Library.Sublist"
    "HOL-Library.Multiset"
begin

text \<open>
  Shared vocabulary of the development: the operations of Go's packages \<open>strings\<close>,
  \<open>unicode\<close> and \<open>sort\<close> that the backend calls, over byte strings, and the generic
  lemmas the component theories use.

  A Go string is a sequence of bytes and is modelled as \<open>string\<close>, a list of 8-bit
  characters; \<open>len\<close> is \<open>length\<close> and slicing is \<open>take\<close>/\<open>drop\<close>. Case mapping and white
  space are those of ASCII: bytes from 128 on, the parts of multi-byte UTF-8 sequences,
  are neither letters nor white space here, so the model agrees with the code on text
  whose non-ASCII characters have no case and are not Unicode spaces, and every text
  entering the program is valid UTF-8 (it is decoded JSON or configuration).
\<close>

subsection \<open>Collections of facts\<close>

named_theorems go_string_simps \<open>conditional rewrite rules for cutting and decoding strings\<close>

subsection \<open>White space and case\<close>

definition go_space :: "char \<Rightarrow> bool" where
  "go_space c \<longleftrightarrow> c = CHR '' '' \<or> c = CHR 0x09 \<or> c = CHR 0x0A \<or> c = CHR 0x0B
     \<or> c = CHR 0x0C \<or> c = CHR 0x0D"

definition char_between :: "char \<Rightarrow> char \<Rightarrow> char \<Rightarrow> bool" where
  "char_between lo hi c \<longleftrightarrow> (of_char lo :: nat) \<le> of_char c \<and> (of_char c :: nat) \<le> of_char hi"

definition lower_char :: "char \<Rightarrow> char" where
  "lower_char c = (if char_between CHR ''A'' CHR ''Z'' c then char_of (of_char c + 32 :: nat) else c)"

definition upper_char :: "char \<Rightarrow> char" where
  "upper_char c = (if char_between CHR ''a'' CHR ''z'' c then char_of (of_char c - 32 :: nat) else c)"

definition is_digit :: "char \<Rightarrow> bool" where
  "is_digit c \<longleftrightarrow> char_between CHR ''0'' CHR ''9'' c"

definition is_letter :: "char \<Rightarrow> bool" where
  "is_letter c \<longleftrightarrow> char_between CHR ''a'' CHR ''z'' c \<or> char_between CHR ''A'' CHR ''Z'' c"

definition to_lower :: "string \<Rightarrow> string" where
  "to_lower s = map lower_char s"

definition to_upper :: "string \<Rightarrow> string" where
  "to_upper s = map upper_char s"

definition equal_fold :: "string \<Rightarrow> string \<Rightarrow> bool" where
  "equal_fold s t \<longleftrightarrow> to_lower s = to_lower t"

definition trim_left_by :: "(char \<Rightarrow> bool) \<Rightarrow> string \<Rightarrow> string" where
  "trim_left_by P s = dropWhile P s"

definition trim_right_by :: "(char \<Rightarrow> bool) \<Rightarrow> string \<Rightarrow> string" where
  "trim_right_by P s = rev (dropWhile P (rev s))"

definition trim_by :: "(char \<Rightarrow> bool) \<Rightarrow> string \<Rightarrow> string" where
  "trim_by P s = trim_left_by P (trim_right_by P s)"

definition trim_space :: "string \<Rightarrow> string" where
  "trim_space s = trim_by go_space s"

subsection \<open>Searching, cutting, splitting\<close>

definition has_prefix :: "string \<Rightarrow> string \<Rightarrow> bool" where
  "has_prefix s p \<longleftrightarrow> take (length p) s = p"

definition has_suffix :: "string \<Rightarrow> string \<Rightarrow> bool" where
  "has_suffix s p \<longleftrightarrow> length p \<le> length s \<and> drop (length s - length p) s = p"

definition trim_prefix :: "string \<Rightarrow> string \<Rightarrow> string" where
  "trim_prefix s p = (if has_prefix s p then drop (length p) s else s)"

definition trim_suffix :: "string \<Rightarrow> string \<Rightarrow> string" where
  "trim_suffix s p = (if has_suffix s p then take (length s - length p) s else s)"

fun str_index :: "string \<Rightarrow> string \<Rightarrow> nat option" where
  "str_index [] sub = (if sub = [] then Some 0 else None)"
| "str_index (c # cs) sub =
     (if has_prefix (c # cs) sub then Some 0 else map_option Suc (str_index cs sub))"

fun str_last_index :: "string \<Rightarrow> string \<Rightarrow> nat option" where
  "str_last_index [] sub = (if sub = [] then Some 0 else None)"
| "str_last_index (c # cs) sub =
     (case str_last_index cs sub of
        Some i \<Rightarrow> Some (Suc i)
      | None \<Rightarrow> if has_prefix (c # cs) sub then Some 0 else None)"

definition contains_str :: "string \<Rightarrow> string \<Rightarrow> bool" where
  "contains_str s sub \<longleftrightarrow> str_index s sub \<noteq> None"

fun index_by :: "(char \<Rightarrow> bool) \<Rightarrow> string \<Rightarrow> nat option" where
  "index_by P [] = None"
| "index_by P (c # cs) = (if P c then Some 0 else map_option Suc (index_by P cs))"

definition index_any :: "string \<Rightarrow> string \<Rightarrow> nat option" where
  "index_any s chars = index_by (\<lambda>c. c \<in> set chars) s"

definition contains_any :: "string \<Rightarrow> string \<Rightarrow> bool" where
  "contains_any s chars \<longleftrightarrow> (\<exists>c\<in>set s. c \<in> set chars)"

definition str_cut :: "string \<Rightarrow> string \<Rightarrow> (string \<times> string) option" where
  "str_cut s sep = (case str_index s sep of
      None \<Rightarrow> None
    | Some i \<Rightarrow> Some (take i s, drop (i + length sep) s))"

fun split_by :: "(char \<Rightarrow> bool) \<Rightarrow> string \<Rightarrow> string list" where
  "split_by P [] = [[]]"
| "split_by P (c # cs) =
     (if P c then [] # split_by P cs
      else (case split_by P cs of [] \<Rightarrow> [[c]] | w # ws \<Rightarrow> (c # w) # ws))"

definition split_char :: "char \<Rightarrow> string \<Rightarrow> string list" where
  "split_char d s = split_by (\<lambda>c. c = d) s"

definition fields_by :: "(char \<Rightarrow> bool) \<Rightarrow> string \<Rightarrow> string list" where
  "fields_by P s = filter (\<lambda>w. w \<noteq> []) (split_by P s)"

definition str_fields :: "string \<Rightarrow> string list" where
  "str_fields s = fields_by go_space s"

fun join_with :: "string \<Rightarrow> string list \<Rightarrow> string" where
  "join_with sep [] = []"
| "join_with sep [x] = x"
| "join_with sep (x # y # zs) = x @ sep @ join_with sep (y # zs)"

definition replace_char :: "char \<Rightarrow> string \<Rightarrow> string \<Rightarrow> string" where
  "replace_char c r s = concat (map (\<lambda>x. if x = c then r else [x]) s)"

text \<open>\<open>strings.ReplaceAll\<close> for a non-empty old string (the empty one is not used by the program).\<close>

function replace_str :: "string \<Rightarrow> string \<Rightarrow> string \<Rightarrow> string" where
  "replace_str old new [] = []"
| "replace_str old new (c # cs) =
     (if old \<noteq> [] \<and> has_prefix (c # cs) old then new @ replace_str old new (drop (length old) (c # cs))
      else c # replace_str old new cs)"
  by pat_completeness auto
termination replace_str by (relation "measure (\<lambda>(_, _, s). length s)") auto

text \<open>\<open>strings.CutPrefix\<close>.\<close>

definition cut_prefix :: "string \<Rightarrow> string \<Rightarrow> string option" where
  "cut_prefix s p = (if has_prefix s p then Some (drop (length p) s) else None)"

text \<open>
  \<open>if i := strings.IndexAny(s, chars); i >= 0 { s = s[:i] }\<close>, and \<open>url.PathUnescape\<close> with its
  error as \<open>None\<close>; \<open>unescape_or_keep\<close> is the code's use of it.
\<close>

definition before_any :: "string \<Rightarrow> string \<Rightarrow> string" where
  "before_any s chars = (case index_any s chars of None \<Rightarrow> s | Some i \<Rightarrow> take i s)"

definition hex_value :: "char \<Rightarrow> nat option" where
  "hex_value c =
     (if char_between CHR ''0'' CHR ''9'' c then Some (of_char c - 48)
      else if char_between CHR ''a'' CHR ''f'' c then Some (of_char c - 87)
      else if char_between CHR ''A'' CHR ''F'' c then Some (of_char c - 55)
      else None)"

fun path_unescape :: "string \<Rightarrow> string option" where
  "path_unescape [] = Some []"
| "path_unescape (c # cs) =
     (if c = CHR ''%''
      then (case cs of
              a # b # rest \<Rightarrow>
                (case (hex_value a, hex_value b) of
                   (Some x, Some y) \<Rightarrow> map_option (\<lambda>s. char_of (16 * x + y) # s) (path_unescape rest)
                 | _ \<Rightarrow> None)
            | _ \<Rightarrow> None)
      else map_option (\<lambda>s. c # s) (path_unescape cs))"

definition unescape_or_keep :: "string \<Rightarrow> string" where
  "unescape_or_keep s = (case path_unescape s of Some d \<Rightarrow> d | None \<Rightarrow> s)"

text \<open>The slices of a loop \<open>for i := 0; i < len(xs); i += n\<close>.\<close>

definition chunked :: "nat \<Rightarrow> 'a list \<Rightarrow> 'a list list" where
  "chunked n xs = map (\<lambda>k. take n (drop (n * k) xs)) [0..<(length xs + n - 1) div n]"

subsection \<open>Lemmas: lists and folds\<close>

lemma nth_list_update_if: "xs[i := x] ! j = (if i = j \<and> j < length xs then x else xs ! j)"
  by (cases "i < length xs") (auto simp: nth_list_update list_update_beyond)

lemma fold_invariant:
  "(\<And>x s. x \<in> set xs \<Longrightarrow> I s \<Longrightarrow> I (f x s)) \<Longrightarrow> I s \<Longrightarrow> I (fold f xs s)"
  by (induction xs arbitrary: s) auto

lemma chunked_concat:
  assumes "0 < n"
  shows "concat (chunked n xs) = xs"
proof -
  have "concat (map (\<lambda>k. take n (drop (n * k) xs)) [0..<m]) = take (n * m) xs" for m
  proof (induction m)
    case (Suc m)
    have "take (n * m) xs @ take n (drop (n * m) xs) = take (n * Suc m) xs"
      by (metis add.commute mult_Suc_right take_add)
    with Suc show ?case by simp
  qed simp
  moreover have "length xs \<le> n * ((length xs + n - 1) div n)"
  proof -
    have "(length xs + n - 1) mod n < n" using assms by simp
    moreover have "n * ((length xs + n - 1) div n) + (length xs + n - 1) mod n = length xs + n - 1" by simp
    ultimately show ?thesis using assms by linarith
  qed
  ultimately show ?thesis by (simp add: chunked_def)
qed

lemma chunked_subset: "chunk \<in> set (chunked n xs) \<Longrightarrow> set chunk \<subseteq> set xs"
  by (auto simp: chunked_def dest!: in_set_takeD in_set_dropD)

subsection \<open>Lemmas: case and trimming\<close>

lemma lower_char_idem [simp]: "lower_char (lower_char c) = lower_char c"
  by (auto simp: lower_char_def char_between_def)

lemma go_space_lower [simp]: "go_space (lower_char c) = go_space c"
proof (cases "char_between CHR ''A'' CHR ''Z'' c")
  case True
  then have "(of_char (lower_char c) :: nat) = of_char c + 32" "97 \<le> (of_char c + 32 :: nat)"
      "65 \<le> (of_char c :: nat)"
    by (auto simp: lower_char_def char_between_def)
  then have "(of_char (lower_char c) :: nat) \<ge> 97" "65 \<le> (of_char c :: nat)" by simp_all
  then show ?thesis by (auto simp: go_space_def)
next
  case False
  then show ?thesis by (simp add: lower_char_def)
qed

lemma to_lower_idem [simp]: "to_lower (to_lower s) = to_lower s"
  by (simp add: to_lower_def)

lemma to_lower_simps [simp]:
  "to_lower [] = []"
  "to_lower (c # cs) = lower_char c # to_lower cs"
  "to_lower (s @ t) = to_lower s @ to_lower t"
  by (simp_all add: to_lower_def)

lemma length_to_lower [simp]: "length (to_lower s) = length s"
  by (simp add: to_lower_def)

lemma length_to_upper [simp]: "length (to_upper s) = length s"
  by (simp add: to_upper_def)

lemma to_lower_take: "to_lower (take n s) = take n (to_lower s)"
  by (simp add: to_lower_def take_map)

lemma to_lower_eq_Nil [simp]: "to_lower s = [] \<longleftrightarrow> s = []"
  by (simp add: to_lower_def)

lemma dropWhile_idem_P [simp]: "dropWhile P (dropWhile P s) = dropWhile P s"
  by (induction s) auto

lemma dropWhile_noop: "s = [] \<or> \<not> P (hd s) \<Longrightarrow> dropWhile P s = s"
  by (cases s) auto

lemma dropWhile_hd: "dropWhile P s = [] \<or> \<not> P (hd (dropWhile P s))"
  using hd_dropWhile[of P s] by blast

lemma trim_by_noop:
  assumes "s = [] \<or> \<not> P (hd s) \<and> \<not> P (last s)"
  shows "trim_by P s = s"
proof -
  have "dropWhile P (rev s) = rev s"
    by (rule dropWhile_noop) (use assms in \<open>auto simp: hd_rev\<close>)
  moreover have "dropWhile P s = s"
    by (rule dropWhile_noop) (use assms in auto)
  ultimately show ?thesis
    by (simp add: trim_by_def trim_left_by_def trim_right_by_def)
qed

lemma trim_right_last: "trim_right_by P s = [] \<or> \<not> P (last (trim_right_by P s))"
  using dropWhile_hd[of P "rev s"]
  by (auto simp: trim_right_by_def last_rev)

lemma dropWhile_last: "dropWhile P s \<noteq> [] \<Longrightarrow> last (dropWhile P s) = last s"
  by (metis dropWhile_eq_Nil_conv last_appendR takeWhile_dropWhile_id)

lemma trim_by_ends:
  "trim_by P s = [] \<or> \<not> P (hd (trim_by P s)) \<and> \<not> P (last (trim_by P s))"
proof -
  let ?r = "trim_right_by P s"
  have "trim_by P s = dropWhile P ?r"
    by (simp add: trim_by_def trim_left_by_def)
  then show ?thesis
    using dropWhile_hd[of P ?r] trim_right_last[of P s] dropWhile_last[of P ?r]
    by (cases "dropWhile P ?r = []") auto
qed

lemma trim_by_idem [simp]: "trim_by P (trim_by P s) = trim_by P s"
  by (rule trim_by_noop) (rule trim_by_ends)

lemma trim_space_idem [simp]: "trim_space (trim_space s) = trim_space s"
  by (simp add: trim_space_def)

lemma trim_space_ends:
  "trim_space s = [] \<or> \<not> go_space (hd (trim_space s)) \<and> \<not> go_space (last (trim_space s))"
  unfolding trim_space_def by (rule trim_by_ends)

lemma trim_space_Nil [simp]: "trim_space [] = []"
  by (simp add: trim_space_def trim_by_def trim_left_by_def trim_right_by_def)

lemma trim_space_noop:
  "s = [] \<or> \<not> go_space (hd s) \<and> \<not> go_space (last s) \<Longrightarrow> trim_space s = s"
  unfolding trim_space_def by (rule trim_by_noop)

lemma dropWhile_map_lower: "dropWhile go_space (map lower_char s) = map lower_char (dropWhile go_space s)"
  by (induction s) auto

lemma trim_space_to_lower: "trim_space (to_lower s) = to_lower (trim_space s)"
  by (simp add: trim_space_def trim_by_def trim_left_by_def trim_right_by_def to_lower_def
      rev_map dropWhile_map_lower)

lemma set_trim_space: "set (trim_space s) \<subseteq> set s"
  by (auto simp: trim_space_def trim_by_def trim_left_by_def trim_right_by_def
      dest!: set_dropWhileD)

subsection \<open>Lemmas: prefixes, searching, splitting\<close>

lemma has_prefix_iff: "has_prefix s p \<longleftrightarrow> (\<exists>t. s = p @ t)"
  by (metis append_eq_conv_conj append_take_drop_id has_prefix_def)

lemma has_suffix_iff: "has_suffix s p \<longleftrightarrow> (\<exists>t. s = t @ p)"
proof
  assume "has_suffix s p"
  then have "s = take (length s - length p) s @ p"
    by (metis append_take_drop_id has_suffix_def)
  then show "\<exists>t. s = t @ p" by blast
qed (auto simp: has_suffix_def)

lemma has_prefix_append [simp]: "has_prefix (p @ t) p"
  by (simp add: has_prefix_def)

lemma has_suffix_append [simp]: "has_suffix (t @ p) p"
  by (simp add: has_suffix_def)

lemma has_prefix_Nil [simp]: "has_prefix s []"
  by (simp add: has_prefix_def)

lemma str_index_Some:
  "str_index s sub = Some i \<Longrightarrow> i + length sub \<le> length s \<and> take (length sub) (drop i s) = sub"
proof (induction s arbitrary: i)
  case Nil
  then show ?case by (auto split: if_splits)
next
  case (Cons c cs)
  show ?case
  proof (cases "has_prefix (c # cs) sub")
    case True
    then have "length sub \<le> length (c # cs)"
      by (metis has_prefix_iff length_append le_add1)
    with True Cons.prems show ?thesis by (auto simp: has_prefix_def)
  next
    case False
    with Cons show ?thesis by auto
  qed
qed

lemma str_index_first:
  "str_index s sub = Some i \<Longrightarrow> j < i \<Longrightarrow> \<not> has_prefix (drop j s) sub"
proof (induction s arbitrary: i j)
  case Nil
  then show ?case by (auto split: if_splits)
next
  case (Cons c cs)
  then show ?case by (cases j) (auto split: if_splits)
qed

lemma str_index_None: "str_index s sub = None \<Longrightarrow> \<not> has_prefix (drop j s) sub"
proof (induction s arbitrary: j)
  case Nil
  then show ?case by (auto simp: has_prefix_def split: if_splits)
next
  case (Cons c cs)
  then show ?case by (cases j) (auto split: if_splits)
qed

lemma contains_str_iff: "contains_str s sub \<longleftrightarrow> (\<exists>u v. s = u @ sub @ v)"
proof
  assume "contains_str s sub"
  then obtain i where "str_index s sub = Some i"
    by (auto simp: contains_str_def)
  then have "take (length sub) (drop i s) = sub"
    using str_index_Some by blast
  then have "s = take i s @ sub @ drop (length sub) (drop i s)"
    by (metis append_take_drop_id)
  then show "\<exists>u v. s = u @ sub @ v" by blast
next
  assume "\<exists>u v. s = u @ sub @ v"
  then obtain u v where "s = u @ sub @ v" by blast
  then have "has_prefix (drop (length u) s) sub" by simp
  then show "contains_str s sub"
    using str_index_None[of s sub "length u"] by (auto simp: contains_str_def)
qed

lemma contains_str_single [simp]: "contains_str s [c] \<longleftrightarrow> c \<in> set s"
  by (simp add: contains_str_iff in_set_conv_decomp)

lemma split_by_nonempty [simp]: "split_by P s \<noteq> []"
  by (induction s) (auto split: list.splits)

lemma split_by_no_sep: "w \<in> set (split_by P s) \<Longrightarrow> c \<in> set w \<Longrightarrow> \<not> P c"
proof (induction s arbitrary: w)
  case Nil
  then show ?case by simp
next
  case (Cons x xs)
  then show ?case
    by (cases "split_by P xs") (fastforce split: if_splits)+
qed

lemma split_by_word: "\<forall>c\<in>set w. \<not> P c \<Longrightarrow> split_by P w = [w]"
  by (induction w) auto

lemma split_by_append:
  "\<forall>c\<in>set w. \<not> P c \<Longrightarrow> P d \<Longrightarrow> split_by P (w @ d # s) = w # split_by P s"
  by (induction w) auto

lemma join_with_Cons: "ws \<noteq> [] \<Longrightarrow> join_with sep (w # ws) = w @ sep @ join_with sep ws"
  by (cases ws) auto

lemma join_split_char: "join_with [d] (split_char d s) = s"
  unfolding split_char_def
proof (induction s)
  case Nil
  then show ?case by simp
next
  case (Cons c cs)
  then show ?case
    by (cases "split_by (\<lambda>c. c = d) cs"; cases "tl (split_by (\<lambda>c. c = d) cs)")
      (auto simp: join_with_Cons)
qed

lemma split_char_join:
  assumes "ws \<noteq> []" and "\<forall>w\<in>set ws. d \<notin> set w"
  shows "split_char d (join_with [d] ws) = ws"
  using assms unfolding split_char_def
proof (induction ws)
  case Nil
  then show ?case by simp
next
  case (Cons w ws)
  then have w: "\<forall>c\<in>set w. \<not> c = d" by auto
  show ?case
  proof (cases "ws = []")
    case True
    with split_by_word[OF w] show ?thesis by simp
  next
    case False
    with Cons split_by_append[OF w, of d "join_with [d] ws"] show ?thesis
      by (simp add: join_with_Cons)
  qed
qed

lemma set_split_char: "w \<in> set (split_char d s) \<Longrightarrow> set w \<subseteq> set s - {d}"
proof -
  have sub: "w \<in> set (split_by P s) \<Longrightarrow> set w \<subseteq> set s" for P
  proof (induction s arbitrary: w)
    case Nil
    then show ?case by simp
  next
    case (Cons x xs)
    then show ?case by (cases "split_by P xs") (fastforce split: if_splits)+
  qed
  assume "w \<in> set (split_char d s)"
  then show ?thesis
    using sub[of "\<lambda>c. c = d"] split_by_no_sep[of w "\<lambda>c. c = d" s]
    unfolding split_char_def by blast
qed

subsection \<open>Lemmas: lists and folds\<close>


lemma sorted_distinct_mset_unique:
  fixes xs :: "'a::linorder list"
  shows "sorted xs \<Longrightarrow> sorted ys \<Longrightarrow> mset xs = mset ys \<Longrightarrow> xs = ys"
  by (metis properties_for_sort)

lemma sort_eq_iff_mset:
  fixes xs :: "'a::linorder list"
  shows "sort xs = sort ys \<longleftrightarrow> mset xs = mset ys"
  by (metis mset_sort properties_for_sort sorted_sort)

lemma mset_filter_partition: "mset (filter P xs) + mset (filter (\<lambda>x. \<not> P x) xs) = mset xs"
  by (induction xs) auto


subsection \<open>Lemmas: cutting and decoding\<close>

lemma index_by_None: "index_by P s = None \<longleftrightarrow> (\<forall>c \<in> set s. \<not> P c)"
  by (induction s) auto

lemma index_by_append:
  "\<forall>c \<in> set u. \<not> P c \<Longrightarrow> index_by P (u @ v) = map_option (\<lambda>i. length u + i) (index_by P v)"
  by (induction u; cases "index_by P v") auto

lemma before_any_none [go_string_simps]: "\<forall>c \<in> set s. c \<notin> set chars \<Longrightarrow> before_any s chars = s"
  by (simp add: before_any_def index_any_def index_by_None [THEN iffD2])

lemma set_before_any: "c \<in> set (before_any s chars) \<Longrightarrow> c \<in> set s \<and> c \<notin> set chars"
proof (induction s)
  case (Cons a s)
  then show ?case
    by (auto simp: before_any_def index_any_def split: option.splits if_splits)
qed (simp add: before_any_def index_any_def)

lemma path_unescape_plain [go_string_simps]: "CHR ''%'' \<notin> set s \<Longrightarrow> path_unescape s = Some s"
  by (induction s) auto

lemma unescape_plain [simp]: "CHR ''%'' \<notin> set s \<Longrightarrow> unescape_or_keep s = s"
  by (simp add: unescape_or_keep_def path_unescape_plain)

lemma str_last_index_None: "str_last_index s [c] = None \<longleftrightarrow> c \<notin> set s"
  by (induction s) (auto simp: has_prefix_iff split: option.splits)

lemma str_last_index_split [go_string_simps]:
  "c \<notin> set v \<Longrightarrow> str_last_index (u @ c # v) [c] = Some (length u)"
proof (induction u)
  case Nil
  then have "str_last_index v [c] = None" by (simp add: str_last_index_None)
  then show ?case by (simp add: has_prefix_iff)
qed simp

lemma str_last_index_Some:
  "str_last_index s [c] = Some i \<Longrightarrow> i < length s \<and> s = take i s @ c # drop (Suc i) s \<and> c \<notin> set (drop (Suc i) s)"
proof (induction s arbitrary: i)
  case (Cons a s)
  show ?case
  proof (cases "str_last_index s [c]")
    case None
    then have "c \<notin> set s" by (simp add: str_last_index_None)
    then show ?thesis using Cons.prems None by (auto simp: has_prefix_iff split: if_splits)
  next
    case (Some j)
    then show ?thesis using Cons by auto
  qed
qed simp


lemma str_index_single [go_string_simps]: "d \<notin> set a \<Longrightarrow> str_index (a @ d # b) [d] = Some (length a)"
  by (induction a) (auto simp: has_prefix_iff)

lemma str_index_single_none [go_string_simps]: "d \<notin> set a \<Longrightarrow> str_index a [d] = None"
  by (induction a) (auto simp: has_prefix_iff)

lemma str_cut_single [go_string_simps]: "d \<notin> set a \<Longrightarrow> str_cut (a @ d # b) [d] = Some (a, b)"
  by (simp add: str_cut_def str_index_single)

lemma str_cut_single_none [go_string_simps]: "d \<notin> set a \<Longrightarrow> str_cut a [d] = None"
  by (simp add: str_cut_def str_index_single_none)

lemma trim_space_plain [go_string_simps]: "\<forall>c \<in> set s. \<not> go_space c \<Longrightarrow> trim_space s = s"
  by (cases "s = []") (auto simp: trim_space_Nil intro!: trim_space_noop)

end
