(* ===== verification/License_Expression.thy ===== *)
theory License_Expression
  imports Prelude
begin

text \<open>
  The SPDX license expression engine of \<open>backend/internal/license/expression.go\<close>: expression
  modes, tokenizer, recursive-descent parser and the evaluation that folds an expression tree
  into one compliance category. The parser keeps the code's state (the token slice and a
  position); its loops are functions with a termination proof. The grammar of the code's
  comment is stated as inductive relations and proved equivalent to the parser.
\<close>

subsection \<open>Categories and expression modes\<close>

datatype category = Permissive | Copyleft | Unapproved | Unknown

datatype expression_mode = ModeStrict | ModePermissiveWins | ModeOff

fun mode_string :: "expression_mode \<Rightarrow> string" where
  "mode_string ModeStrict = ''strict''"
| "mode_string ModePermissiveWins = ''permissive-wins''"
| "mode_string ModeOff = ''off''"

definition default_expression_mode :: expression_mode where
  "default_expression_mode = ModeStrict"

text \<open>\<open>Inl\<close> carries the offending input, as the Go error message does.\<close>

definition parse_expression_mode :: "string \<Rightarrow> string + expression_mode" where
  "parse_expression_mode s =
     (let m = to_lower (trim_space s)
      in if m = [] then Inr default_expression_mode
         else if m = ''strict'' then Inr ModeStrict
         else if m = ''permissive-wins'' then Inr ModePermissiveWins
         else if m = ''off'' then Inr ModeOff
         else Inl s)"

subsection \<open>Tokenizer\<close>

datatype token = TokId string | TokAnd | TokOr | TokWith | TokLParen | TokRParen

definition flush_word :: "string \<Rightarrow> token list" where
  "flush_word w =
     (if w = [] then []
      else if to_upper w = ''AND'' then [TokAnd]
      else if to_upper w = ''OR'' then [TokOr]
      else if to_upper w = ''WITH'' then [TokWith]
      else [TokId w])"

fun tokenize_loop :: "string \<Rightarrow> string \<Rightarrow> token list" where
  "tokenize_loop w [] = flush_word w"
| "tokenize_loop w (r # rs) =
     (if r = CHR ''('' then flush_word w @ TokLParen # tokenize_loop [] rs
      else if r = CHR '')'' then flush_word w @ TokRParen # tokenize_loop [] rs
      else if r = CHR '','' then flush_word w @ TokAnd # tokenize_loop [] rs
      else if r = CHR '' '' \<or> r = CHR 0x09 \<or> r = CHR 0x0A \<or> r = CHR 0x0D
      then flush_word w @ tokenize_loop [] rs
      else tokenize_loop (w @ [r]) rs)"

definition tokenize :: "string \<Rightarrow> token list" where
  "tokenize expr = tokenize_loop [] expr"

fun is_id :: "token \<Rightarrow> bool" where
  "is_id (TokId _) = True"
| "is_id _ = False"

definition has_operator :: "token list \<Rightarrow> bool" where
  "has_operator toks \<longleftrightarrow> (\<exists>t\<in>set toks. \<not> is_id t)"

subsection \<open>Parser\<close>

datatype expr_node = Leaf string | AndNode "expr_node list" | OrNode "expr_node list"

datatype parse_error =
    EmptyExpression
  | UnexpectedToken nat
  | WithNeedsException
  | WithAfterCompound
  | UnexpectedEnd
  | MissingRParen
  | UnexpectedOperator nat

definition peek :: "token list \<Rightarrow> nat \<Rightarrow> token option" where
  "peek toks pos = (if pos \<ge> length toks then None else Some (toks ! pos))"

fun is_leaf :: "expr_node \<Rightarrow> bool" where
  "is_leaf (Leaf _) = True"
| "is_leaf _ = False"

fun leaf_id :: "expr_node \<Rightarrow> string" where
  "leaf_id (Leaf i) = i"
| "leaf_id _ = []"

lemma peek_less: "peek toks pos = Some t \<Longrightarrow> pos < length toks"
  by (auto simp: peek_def split: if_splits)

text \<open>
  The four parser methods and the two \<open>for\<close> loops. Every call returns an error or the node
  and the new position; the loops carry the children collected so far.
\<close>

function (sequential)
  parse_or :: "token list \<Rightarrow> nat \<Rightarrow> parse_error + expr_node \<times> nat" and
  parse_or_loop :: "token list \<Rightarrow> expr_node list \<Rightarrow> nat \<Rightarrow> parse_error + expr_node \<times> nat" and
  parse_and :: "token list \<Rightarrow> nat \<Rightarrow> parse_error + expr_node \<times> nat" and
  parse_and_loop :: "token list \<Rightarrow> expr_node list \<Rightarrow> nat \<Rightarrow> parse_error + expr_node \<times> nat" and
  parse_with :: "token list \<Rightarrow> nat \<Rightarrow> parse_error + expr_node \<times> nat" and
  parse_primary :: "token list \<Rightarrow> nat \<Rightarrow> parse_error + expr_node \<times> nat"
where
  "parse_or toks pos =
     (case parse_and toks pos of
        Inl e \<Rightarrow> Inl e
      | Inr (left, pos') \<Rightarrow> parse_or_loop toks [left] pos')"
| "parse_or_loop toks children pos =
     (if peek toks pos = Some TokOr
      then (case parse_and toks (Suc pos) of
              Inl e \<Rightarrow> Inl e
            | Inr (right, pos') \<Rightarrow> parse_or_loop toks (children @ [right]) pos')
      else Inr (if length children = 1 then hd children else OrNode children, pos))"
| "parse_and toks pos =
     (case parse_with toks pos of
        Inl e \<Rightarrow> Inl e
      | Inr (left, pos') \<Rightarrow> parse_and_loop toks [left] pos')"
| "parse_and_loop toks children pos =
     (if peek toks pos = Some TokAnd
      then (case parse_with toks (Suc pos) of
              Inl e \<Rightarrow> Inl e
            | Inr (right, pos') \<Rightarrow> parse_and_loop toks (children @ [right]) pos')
      else Inr (if length children = 1 then hd children else AndNode children, pos))"
| "parse_with toks pos =
     (case parse_primary toks pos of
        Inl e \<Rightarrow> Inl e
      | Inr (prim, pos') \<Rightarrow>
          if peek toks pos' \<noteq> Some TokWith then Inr (prim, pos')
          else (case peek toks (Suc pos') of
                  Some (TokId exc) \<Rightarrow>
                    if \<not> is_leaf prim then Inl WithAfterCompound
                    else Inr (Leaf (leaf_id prim @ '' WITH '' @ exc), Suc (Suc pos'))
                | _ \<Rightarrow> Inl WithNeedsException))"
| "parse_primary toks pos =
     (case peek toks pos of
        None \<Rightarrow> Inl UnexpectedEnd
      | Some TokLParen \<Rightarrow>
          (case parse_or toks (Suc pos) of
             Inl e \<Rightarrow> Inl e
           | Inr (inner, pos') \<Rightarrow>
               if peek toks pos' = Some TokRParen then Inr (inner, Suc pos')
               else Inl MissingRParen)
      | Some (TokId i) \<Rightarrow> Inr (Leaf i, Suc pos)
      | Some _ \<Rightarrow> Inl (UnexpectedOperator pos))"
  by pat_completeness auto

text \<open>
  Each method consumes a token, the loops give none back. Proved on the function's domain, it
  is what makes the parser's termination measure decrease over the nested calls.
\<close>

lemma parse_consumes:
  "parse_or_parse_or_loop_parse_and_parse_and_loop_parse_with_parse_primary_dom
     (Inl (Inl (toks, pos))) \<Longrightarrow> parse_or toks pos = Inr (n, pos') \<Longrightarrow> pos < pos'"
  "parse_or_parse_or_loop_parse_and_parse_and_loop_parse_with_parse_primary_dom
     (Inl (Inr (Inl (toks, cs, pos)))) \<Longrightarrow> parse_or_loop toks cs pos = Inr (n, pos') \<Longrightarrow> pos \<le> pos'"
  "parse_or_parse_or_loop_parse_and_parse_and_loop_parse_with_parse_primary_dom
     (Inl (Inr (Inr (toks, pos)))) \<Longrightarrow> parse_and toks pos = Inr (n, pos') \<Longrightarrow> pos < pos'"
  "parse_or_parse_or_loop_parse_and_parse_and_loop_parse_with_parse_primary_dom
     (Inr (Inl (toks, cs, pos))) \<Longrightarrow> parse_and_loop toks cs pos = Inr (n, pos') \<Longrightarrow> pos \<le> pos'"
  "parse_or_parse_or_loop_parse_and_parse_and_loop_parse_with_parse_primary_dom
     (Inr (Inr (Inl (toks, pos)))) \<Longrightarrow> parse_with toks pos = Inr (n, pos') \<Longrightarrow> pos < pos'"
  "parse_or_parse_or_loop_parse_and_parse_and_loop_parse_with_parse_primary_dom
     (Inr (Inr (Inr (toks, pos)))) \<Longrightarrow> parse_primary toks pos = Inr (n, pos') \<Longrightarrow> pos < pos'"
proof (induction toks pos and toks cs pos and toks pos and toks cs pos and toks pos and toks pos
    arbitrary: n pos' and n pos' and n pos' and n pos' and n pos' and n pos'
    rule: parse_or_parse_or_loop_parse_and_parse_and_loop_parse_with_parse_primary.pinduct)
qed (fastforce simp: parse_or.psimps parse_or_loop.psimps parse_and.psimps parse_and_loop.psimps
       parse_with.psimps parse_primary.psimps
     split: sum.splits if_splits option.splits token.splits prod.splits)+

text \<open>
  Termination: lexicographically, the tokens left and then the depth of the method in the
  grammar. A loop runs only on a position after a consumed token.
\<close>

termination parse_or
proof (relation "measures [\<lambda>x. case x of
      Inl (Inl (toks, pos)) \<Rightarrow> length toks - pos
    | Inl (Inr (Inl (toks, cs, pos))) \<Rightarrow> length toks - pos
    | Inl (Inr (Inr (toks, pos))) \<Rightarrow> length toks - pos
    | Inr (Inl (toks, cs, pos)) \<Rightarrow> length toks - pos
    | Inr (Inr (Inl (toks, pos))) \<Rightarrow> length toks - pos
    | Inr (Inr (Inr (toks, pos))) \<Rightarrow> length toks - pos,
    \<lambda>x. case x of
      Inl (Inl _) \<Rightarrow> 5 | Inl (Inr (Inl _)) \<Rightarrow> 4 | Inl (Inr (Inr _)) \<Rightarrow> 3
    | Inr (Inl _) \<Rightarrow> 2 | Inr (Inr (Inl _)) \<Rightarrow> 1 | Inr (Inr (Inr _)) \<Rightarrow> 0]", goal_cases)
  case (3 toks pos x left pos')
  then show ?case using parse_consumes(3) by fastforce
qed (auto dest!: peek_less parse_consumes)


lemmas parser_induct =
  parse_or_parse_or_loop_parse_and_parse_and_loop_parse_with_parse_primary.induct

declare parse_or.simps [simp del] parse_or_loop.simps [simp del] parse_and.simps [simp del]
  parse_and_loop.simps [simp del] parse_with.simps [simp del] parse_primary.simps [simp del]

lemmas parser_simps = parse_or.simps parse_or_loop.simps parse_and.simps parse_and_loop.simps
  parse_with.simps parse_primary.simps

definition parse_expression :: "string \<Rightarrow> parse_error + expr_node" where
  "parse_expression expr =
     (let toks = tokenize expr
      in if toks = [] then Inl EmptyExpression
         else (case parse_or toks 0 of
                 Inl e \<Rightarrow> Inl e
               | Inr (n, pos) \<Rightarrow>
                   if pos \<noteq> length toks then Inl (UnexpectedToken pos) else Inr n))"

fun leaf_ids :: "expr_node \<Rightarrow> string list" where
  "leaf_ids (Leaf i) = [i]"
| "leaf_ids (AndNode ns) = concat (map leaf_ids ns)"
| "leaf_ids (OrNode ns) = concat (map leaf_ids ns)"

subsection \<open>The grammar of the code's comment\<close>

text \<open>
  \<open>or-expr := and-expr (OR and-expr)*\<close>, \<open>and-expr := with-expr (AND with-expr)*\<close>,
  \<open>with-expr := primary (WITH ID)?\<close>, \<open>primary := '(' or-expr ')' | ID\<close>, each relating the tokens
  of a phrase to its tree. A list of one operand is that operand.
\<close>

definition collapse :: "(expr_node list \<Rightarrow> expr_node) \<Rightarrow> expr_node list \<Rightarrow> expr_node" where
  "collapse con ns = (if length ns = 1 then hd ns else con ns)"

inductive or_expr :: "token list \<Rightarrow> expr_node \<Rightarrow> bool"
  and or_list :: "token list \<Rightarrow> expr_node list \<Rightarrow> bool"
  and and_expr :: "token list \<Rightarrow> expr_node \<Rightarrow> bool"
  and and_list :: "token list \<Rightarrow> expr_node list \<Rightarrow> bool"
  and with_expr :: "token list \<Rightarrow> expr_node \<Rightarrow> bool"
  and primary :: "token list \<Rightarrow> expr_node \<Rightarrow> bool"
where
  or_exprI: "or_list ts ns \<Longrightarrow> or_expr ts (collapse OrNode ns)"
| or_one: "and_expr ts n \<Longrightarrow> or_list ts [n]"
| or_more: "or_list ts ns \<Longrightarrow> and_expr us n \<Longrightarrow> or_list (ts @ TokOr # us) (ns @ [n])"
| and_exprI: "and_list ts ns \<Longrightarrow> and_expr ts (collapse AndNode ns)"
| and_one: "with_expr ts n \<Longrightarrow> and_list ts [n]"
| and_more: "and_list ts ns \<Longrightarrow> with_expr us n \<Longrightarrow> and_list (ts @ TokAnd # us) (ns @ [n])"
| with_plain: "primary ts n \<Longrightarrow> with_expr ts n"
| with_exception: "primary ts (Leaf l) \<Longrightarrow>
    with_expr (ts @ [TokWith, TokId e]) (Leaf (l @ '' WITH '' @ e))"
| primary_id: "primary [TokId i] (Leaf i)"
| primary_paren: "or_expr ts n \<Longrightarrow> primary (TokLParen # ts @ [TokRParen]) n"

lemmas grammar_intros = or_exprI or_one or_more and_exprI and_one and_more
  with_plain with_exception primary_id primary_paren

definition slice :: "'a list \<Rightarrow> nat \<Rightarrow> nat \<Rightarrow> 'a list" where
  "slice xs i j = take (j - i) (drop i xs)"

lemma slice_snoc:
  assumes "i \<le> j" and "peek xs j = Some t"
  shows "slice xs i (Suc j) = slice xs i j @ [t]"
proof -
  have "j - i < length (drop i xs)" and "drop i xs ! (j - i) = t"
    using assms by (auto simp: peek_def split: if_splits)
  then show ?thesis
    using assms(1) by (simp add: slice_def Suc_diff_le take_Suc_conv_app_nth)
qed

lemma slice_append:
  assumes "i \<le> j" and "j \<le> k"
  shows "slice xs i k = slice xs i j @ slice xs j k"
proof -
  have k: "k - i = (j - i) + (k - j)" and j: "(j - i) + i = j" using assms by auto
  have "take (k - i) (drop i xs) = take (j - i) (drop i xs) @ take (k - j) (drop (j - i) (drop i xs))"
    unfolding k by (rule take_add)
  then show ?thesis by (simp add: slice_def j)
qed

lemma slice_one: "peek xs j = Some t \<Longrightarrow> slice xs j (Suc j) = [t]"
  using slice_snoc[of j j xs t] by (simp add: slice_def)

lemma peek_head: "peek (pre @ ts) (length pre) = (case ts of [] \<Rightarrow> None | t # _ \<Rightarrow> Some t)"
  by (auto simp: peek_def nth_append split: list.splits)

lemma peek_head': "n = length pre \<Longrightarrow> peek (pre @ ts) n = (case ts of [] \<Rightarrow> None | t # _ \<Rightarrow> Some t)"
  by (simp add: peek_head)

subsection \<open>The parser and the grammar agree\<close>

lemma parser_sound:
  "parse_or toks pos = Inr (n, pos') \<Longrightarrow> pos < pos' \<and> pos' \<le> length toks \<and> or_expr (slice toks pos pos') n"
  "parse_or_loop toks cs q = Inr (m, q') \<Longrightarrow> q \<le> length toks \<Longrightarrow> p0 \<le> q \<Longrightarrow>
     or_list (slice toks p0 q) cs \<Longrightarrow> q \<le> q' \<and> q' \<le> length toks \<and> or_expr (slice toks p0 q') m"
  "parse_and toks pos2 = Inr (n2, pos2') \<Longrightarrow>
     pos2 < pos2' \<and> pos2' \<le> length toks \<and> and_expr (slice toks pos2 pos2') n2"
  "parse_and_loop toks cs2 q2 = Inr (m2, q2') \<Longrightarrow> q2 \<le> length toks \<Longrightarrow> p2 \<le> q2 \<Longrightarrow>
     and_list (slice toks p2 q2) cs2 \<Longrightarrow> q2 \<le> q2' \<and> q2' \<le> length toks \<and> and_expr (slice toks p2 q2') m2"
  "parse_with toks pos3 = Inr (n3, pos3') \<Longrightarrow>
     pos3 < pos3' \<and> pos3' \<le> length toks \<and> with_expr (slice toks pos3 pos3') n3"
  "parse_primary toks pos4 = Inr (n4, pos4') \<Longrightarrow>
     pos4 < pos4' \<and> pos4' \<le> length toks \<and> primary (slice toks pos4 pos4') n4"
proof (induction toks pos and toks cs q and toks pos2 and toks cs2 q2 and toks pos3 and toks pos4
    arbitrary: n pos' and m q' p0 and n2 pos2' and m2 q2' p2 and n3 pos3' and n4 pos4'
    rule: parser_induct)
  case (1 toks pos)
  then obtain l p where l: "parse_and toks pos = Inr (l, p)"
      "parse_or_loop toks [l] p = Inr (n, pos')"
    by (auto simp: parse_or.simps split: sum.splits)
  have a: "pos < p \<and> p \<le> length toks \<and> and_expr (slice toks pos p) l"
    by (rule "1.IH"(1)[OF l(1)])
  have "p \<le> pos' \<and> pos' \<le> length toks \<and> or_expr (slice toks pos pos') n"
    by (rule "1.IH"(2)[OF l(1) refl l(2)]) (use a in \<open>auto intro: grammar_intros\<close>)
  with a show ?case by auto
next
  case (2 toks cs q)
  show ?case
  proof (cases "peek toks q = Some TokOr")
    case True
    with "2.prems"(1) obtain r p where r: "parse_and toks (Suc q) = Inr (r, p)"
        "parse_or_loop toks (cs @ [r]) p = Inr (m, q')"
      by (auto simp: parse_or_loop.simps[of toks cs q] split: sum.splits)
    have a: "Suc q < p \<and> p \<le> length toks \<and> and_expr (slice toks (Suc q) p) r"
      by (rule "2.IH"(1)[OF True r(1)])
    have "slice toks p0 p = slice toks p0 q @ TokOr # slice toks (Suc q) p"
      using slice_append[of p0 "Suc q" p toks] slice_snoc[OF "2.prems"(3) True] a "2.prems"(3)
      by simp
    then have "or_list (slice toks p0 p) (cs @ [r])"
      using "2.prems"(4) a by (auto intro: grammar_intros)
    then have "p \<le> q' \<and> q' \<le> length toks \<and> or_expr (slice toks p0 q') m"
      using "2.IH"(2)[OF True r(1) refl r(2), of p0] a "2.prems"(3) by linarith
    with a show ?thesis by auto
  next
    case False
    with "2.prems"(1) have "m = collapse OrNode cs" and "q' = q"
      by (simp_all add: parse_or_loop.simps[of toks cs q] collapse_def)
    with "2.prems"(2-4) show ?thesis by (auto intro: or_exprI)
  qed
next
  case (3 toks pos)
  then obtain l p where l: "parse_with toks pos = Inr (l, p)"
      "parse_and_loop toks [l] p = Inr (n2, pos2')"
    by (auto simp: parse_and.simps split: sum.splits)
  have a: "pos < p \<and> p \<le> length toks \<and> with_expr (slice toks pos p) l"
    by (rule "3.IH"(1)[OF l(1)])
  have "p \<le> pos2' \<and> pos2' \<le> length toks \<and> and_expr (slice toks pos pos2') n2"
    by (rule "3.IH"(2)[OF l(1) refl l(2)]) (use a in \<open>auto intro: grammar_intros\<close>)
  with a show ?case by auto
next
  case (4 toks cs q)
  show ?case
  proof (cases "peek toks q = Some TokAnd")
    case True
    with "4.prems"(1) obtain r p where r: "parse_with toks (Suc q) = Inr (r, p)"
        "parse_and_loop toks (cs @ [r]) p = Inr (m2, q2')"
      by (auto simp: parse_and_loop.simps[of toks cs q] split: sum.splits)
    have a: "Suc q < p \<and> p \<le> length toks \<and> with_expr (slice toks (Suc q) p) r"
      by (rule "4.IH"(1)[OF True r(1)])
    have "slice toks p2 p = slice toks p2 q @ TokAnd # slice toks (Suc q) p"
      using slice_append[of p2 "Suc q" p toks] slice_snoc[OF "4.prems"(3) True] a "4.prems"(3)
      by simp
    then have "and_list (slice toks p2 p) (cs @ [r])"
      using "4.prems"(4) a by (auto intro: grammar_intros)
    then have "p \<le> q2' \<and> q2' \<le> length toks \<and> and_expr (slice toks p2 q2') m2"
      using "4.IH"(2)[OF True r(1) refl r(2), of p2] a "4.prems"(3) by linarith
    with a show ?thesis by auto
  next
    case False
    with "4.prems"(1) have "m2 = collapse AndNode cs" and "q2' = q"
      by (simp_all add: parse_and_loop.simps[of toks cs q] collapse_def)
    with "4.prems"(2-4) show ?thesis by (auto intro: and_exprI)
  qed
next
  case (5 toks pos)
  then obtain prim p where prim: "parse_primary toks pos = Inr (prim, p)"
    by (auto simp: parse_with.simps split: sum.splits)
  have a: "pos < p \<and> p \<le> length toks \<and> primary (slice toks pos p) prim"
    by (rule "5.IH"[OF prim])
  show ?case
  proof (cases "peek toks p = Some TokWith")
    case True
    with "5.prems" prim obtain e l where e: "peek toks (Suc p) = Some (TokId e)" "prim = Leaf l"
        "n3 = Leaf (l @ '' WITH '' @ e)" "pos3' = Suc (Suc p)"
      by (cases prim) (auto simp: parse_with.simps[of toks pos] split: option.splits token.splits)
    have "slice toks pos pos3' = slice toks pos p @ [TokWith, TokId e]"
      using slice_snoc[OF _ e(1), of pos] slice_snoc[OF _ True, of pos] a e(4) by simp
    with a e peek_less[OF e(1)] show ?thesis
      using with_exception[of "slice toks pos p" l e] by simp
  next
    case False
    with a prim "5.prems" show ?thesis
      by (auto simp: parse_with.simps[of toks pos] intro: grammar_intros)
  qed
next
  case (6 toks pos)
  then consider (paren) p where "peek toks pos = Some TokLParen"
      "parse_or toks (Suc pos) = Inr (n4, p)" "peek toks p = Some TokRParen" "pos4' = Suc p"
    | (ident) i where "peek toks pos = Some (TokId i)" "n4 = Leaf i" "pos4' = Suc pos"
    by (auto simp: parse_primary.simps[of toks pos]
        split: option.splits token.splits sum.splits if_splits)
  then show ?case
  proof cases
    case paren
    have a: "Suc pos < p \<and> p \<le> length toks \<and> or_expr (slice toks (Suc pos) p) n4"
      by (rule "6.IH"[OF paren(1) refl paren(2)])
    have "slice toks pos pos4' = TokLParen # slice toks (Suc pos) p @ [TokRParen]"
      using slice_append[of pos "Suc pos" p toks] slice_one[OF paren(1)] a
        slice_snoc[OF _ paren(3), of pos] paren(4) by simp
    with a paren(4) peek_less[OF paren(3)] show ?thesis by (auto intro: grammar_intros)
  next
    case ident
    then show ?thesis using slice_one[OF ident(1)] peek_less[OF ident(1)]
      by (auto intro: grammar_intros)
  qed
qed


text \<open>
  Completeness: a phrase of the grammar is parsed to its tree wherever it stands, provided the
  token after it does not continue the phrase.
\<close>

definition next_in :: "token list \<Rightarrow> token set \<Rightarrow> bool" where
  "next_in post T \<longleftrightarrow> (case post of [] \<Rightarrow> False | t # _ \<Rightarrow> t \<in> T)"

lemma next_in_simps [simp]:
  "\<not> next_in [] T" "next_in (t # ts) T \<longleftrightarrow> t \<in> T"
  by (simp_all add: next_in_def)

lemma peek_post:
  "n = length pre \<Longrightarrow> \<not> next_in post T \<Longrightarrow> t \<in> T \<Longrightarrow> peek (pre @ post) n \<noteq> Some t"
  by (auto simp: peek_head' split: list.splits)

lemma parser_complete:
  "or_expr ts n \<Longrightarrow> \<not> next_in post {TokOr, TokAnd, TokWith} \<Longrightarrow>
     parse_or (pre @ ts @ post) (length pre) = Inr (n, length pre + length ts)"
  "or_list ts ns \<Longrightarrow> \<not> next_in post {TokAnd, TokWith} \<Longrightarrow>
     parse_or (pre @ ts @ post) (length pre) =
     parse_or_loop (pre @ ts @ post) ns (length pre + length ts)"
  "and_expr ts n \<Longrightarrow> \<not> next_in post {TokAnd, TokWith} \<Longrightarrow>
     parse_and (pre @ ts @ post) (length pre) = Inr (n, length pre + length ts)"
  "and_list ts ns \<Longrightarrow> \<not> next_in post {TokWith} \<Longrightarrow>
     parse_and (pre @ ts @ post) (length pre) =
     parse_and_loop (pre @ ts @ post) ns (length pre + length ts)"
  "with_expr ts n \<Longrightarrow> \<not> next_in post {TokWith} \<Longrightarrow>
     parse_with (pre @ ts @ post) (length pre) = Inr (n, length pre + length ts)"
  "primary ts n \<Longrightarrow>
     parse_primary (pre @ ts @ post) (length pre) = Inr (n, length pre + length ts)"
proof (induction arbitrary: pre post and pre post and pre post and pre post and pre post and pre post
    rule: or_expr_or_list_and_expr_and_list_with_expr_primary.inducts)
  case (or_exprI ts ns)
  have "peek (pre @ ts @ post) (length pre + length ts) \<noteq> Some TokOr"
    using peek_post[of _ "pre @ ts" post "{TokOr, TokAnd, TokWith}" TokOr] or_exprI.prems by auto
  moreover have "\<not> next_in post {TokAnd, TokWith}"
    using or_exprI.prems by (cases post) auto
  ultimately show ?case
    using or_exprI.IH[of post pre] by (simp add: parse_or_loop.simps collapse_def)
next
  case (or_one ts n)
  then show ?case by (simp add: parse_or.simps)
next
  case (or_more ts ns us n)
  let ?toks = "pre @ ts @ TokOr # us @ post"
  have "parse_or ?toks (length pre) = parse_or_loop ?toks ns (length pre + length ts)"
    using or_more.IH(1)[of "TokOr # us @ post" pre] by simp
  moreover have "peek ?toks (length pre + length ts) = Some TokOr"
    using peek_head'[of _ "pre @ ts" "TokOr # us @ post"] by simp
  moreover have "parse_and ?toks (Suc (length pre + length ts))
      = Inr (n, Suc (length pre + length ts + length us))"
    using or_more.IH(2)[of post "pre @ ts @ [TokOr]"] or_more.prems by simp
  ultimately show ?case by (simp add: parse_or_loop.simps[of ?toks ns] add.assoc)
next
  case (and_exprI ts ns)
  have "peek (pre @ ts @ post) (length pre + length ts) \<noteq> Some TokAnd"
    using peek_post[of _ "pre @ ts" post "{TokAnd, TokWith}" TokAnd] and_exprI.prems by auto
  moreover have "\<not> next_in post {TokWith}"
    using and_exprI.prems by (cases post) auto
  ultimately show ?case
    using and_exprI.IH[of post pre] by (simp add: parse_and_loop.simps collapse_def)
next
  case (and_one ts n)
  then show ?case by (simp add: parse_and.simps)
next
  case (and_more ts ns us n)
  let ?toks = "pre @ ts @ TokAnd # us @ post"
  have "parse_and ?toks (length pre) = parse_and_loop ?toks ns (length pre + length ts)"
    using and_more.IH(1)[of "TokAnd # us @ post" pre] by simp
  moreover have "peek ?toks (length pre + length ts) = Some TokAnd"
    using peek_head'[of _ "pre @ ts" "TokAnd # us @ post"] by simp
  moreover have "parse_with ?toks (Suc (length pre + length ts))
      = Inr (n, Suc (length pre + length ts + length us))"
    using and_more.IH(2)[of post "pre @ ts @ [TokAnd]"] and_more.prems by simp
  ultimately show ?case by (simp add: parse_and_loop.simps[of ?toks ns] add.assoc)
next
  case (with_plain ts n)
  have "peek (pre @ ts @ post) (length pre + length ts) \<noteq> Some TokWith"
    using peek_post[of _ "pre @ ts" post "{TokWith}" TokWith] with_plain.prems by auto
  with with_plain.IH[of pre post] show ?case by (simp add: parse_with.simps)
next
  case (with_exception ts l e)
  let ?toks = "pre @ ts @ TokWith # TokId e # post"
  have "peek ?toks (length pre + length ts) = Some TokWith"
    using peek_head'[of _ "pre @ ts" "TokWith # TokId e # post"] by simp
  moreover have "peek ?toks (Suc (length pre + length ts)) = Some (TokId e)"
    using peek_head'[of _ "pre @ ts @ [TokWith]" "TokId e # post"] by simp
  ultimately show ?case
    using with_exception.IH[of pre "TokWith # TokId e # post"] by (simp add: parse_with.simps)
next
  case (primary_id i)
  then show ?case by (simp add: parse_primary.simps peek_head')
next
  case (primary_paren ts n)
  let ?toks = "pre @ TokLParen # ts @ TokRParen # post"
  have "parse_or ?toks (Suc (length pre)) = Inr (n, Suc (length pre + length ts))"
    using primary_paren.IH[of "TokRParen # post" "pre @ [TokLParen]"] by simp
  moreover have "peek ?toks (Suc (length pre + length ts)) = Some TokRParen"
    using peek_head'[of _ "pre @ TokLParen # ts" "TokRParen # post"] by simp
  ultimately show ?case by (simp add: parse_primary.simps peek_head')
qed

lemma or_expr_nonempty: "or_expr ts n \<Longrightarrow> ts \<noteq> []"
  using parser_complete(1)[of ts n "[]" "[]"] parser_sound(1)[of ts 0 n] by fastforce

lemma parse_expression_iff_grammar:
  "parse_expression s = Inr n \<longleftrightarrow> or_expr (tokenize s) n"
proof
  assume "parse_expression s = Inr n"
  then have "parse_or (tokenize s) 0 = Inr (n, length (tokenize s))"
    by (auto simp: parse_expression_def Let_def split: if_splits sum.splits)
  then show "or_expr (tokenize s) n"
    using parser_sound(1)[of "tokenize s" 0 n] by (simp add: slice_def)
next
  assume g: "or_expr (tokenize s) n"
  then show "parse_expression s = Inr n"
    using parser_complete(1)[OF g, of "[]" "[]"] or_expr_nonempty[OF g]
    by (simp add: parse_expression_def Let_def)
qed


subsection \<open>Evaluation\<close>

fun severity :: "category \<Rightarrow> nat" where
  "severity Permissive = 0"
| "severity Unknown = 1"
| "severity Unapproved = 2"
| "severity Copyleft = 3"

text \<open>
  The two folds index \<open>cats[0]\<close>, which panics on an empty slice: \<open>None\<close> is that panic.
\<close>

fun combine_choice :: "category list \<Rightarrow> category option" where
  "combine_choice [] = None"
| "combine_choice (b # cats) =
     Some (foldl (\<lambda>best c. if severity c < severity best then c else best) b cats)"

fun combine_conjunction :: "category list \<Rightarrow> category option" where
  "combine_conjunction [] = None"
| "combine_conjunction (w # cats) =
     Some (foldl (\<lambda>worst c. if severity c > severity worst then c else worst) w cats)"

definition is_no_license_info :: "string \<Rightarrow> bool" where
  "is_no_license_info s \<longleftrightarrow>
     (let u = to_upper (trim_space s)
      in u = [] \<or> u = ''NOASSERTION'' \<or> u = ''NONE'' \<or> u = ''UNKNOWN'')"

definition lookup_deprecated :: "string \<Rightarrow> (string \<Rightarrow> category) \<Rightarrow> category" where
  "lookup_deprecated i lookup =
     (case str_cut i ''-with-'' of
        Some (b, _) \<Rightarrow> if lookup b \<noteq> Unknown then lookup b else lookup (b @ ''-only'')
      | None \<Rightarrow> lookup (i @ ''-only''))"

definition resolve_leaf :: "string \<Rightarrow> (string \<Rightarrow> category) \<Rightarrow> category" where
  "resolve_leaf i lookup =
     (if lookup i \<noteq> Unknown then lookup i
      else (case str_cut i '' WITH '' of
              Some (base, _) \<Rightarrow> lookup base
            | None \<Rightarrow>
                if has_suffix i ''+''
                then (let base = trim_suffix i ''+''
                      in if lookup (base @ ''-or-later'') \<noteq> Unknown
                         then lookup (base @ ''-or-later'') else lookup base)
                else lookup_deprecated i lookup))"

definition lookup_leaf :: "string \<Rightarrow> (string \<Rightarrow> category) \<Rightarrow> category" where
  "lookup_leaf i lookup =
     (if resolve_leaf i lookup \<noteq> Unknown then resolve_leaf i lookup
      else if is_no_license_info i then Unknown
      else Unapproved)"

fun collect_some :: "'a option list \<Rightarrow> 'a list option" where
  "collect_some [] = Some []"
| "collect_some (x # xs) =
     (case x of None \<Rightarrow> None | Some v \<Rightarrow> map_option ((#) v) (collect_some xs))"

fun evaluate :: "expr_node \<Rightarrow> expression_mode \<Rightarrow> (string \<Rightarrow> category) \<Rightarrow> category option" where
  "evaluate (Leaf i) mode lookup = Some (lookup_leaf i lookup)"
| "evaluate (OrNode ns) mode lookup =
     Option.bind (collect_some (map (\<lambda>n. evaluate n mode lookup) ns)) combine_choice"
| "evaluate (AndNode ns) mode lookup =
     Option.bind (collect_some (map (\<lambda>n. evaluate n mode lookup) ns))
       (if mode = ModePermissiveWins then combine_choice else combine_conjunction)"

subsection \<open>Folding a preference\<close>

text \<open>
  Both folds keep the first operand that no later one beats. The interface is the strict
  preference \<open>beats\<close>; a client of it knows that the fold returns one of the operands and that
  no operand beats the result.
\<close>

locale preference =
  fixes beats :: "'a \<Rightarrow> 'a \<Rightarrow> bool"
  assumes beats_irrefl: "\<not> beats x x"
    and beats_trans: "beats x y \<Longrightarrow> beats y z \<Longrightarrow> beats x z"
    and beats_negtrans: "\<not> beats x y \<Longrightarrow> \<not> beats y z \<Longrightarrow> \<not> beats x z"
    and beats_total: "x \<noteq> y \<Longrightarrow> beats x y \<or> beats y x"
begin

lemma fold_in: "foldl (\<lambda>best c. if beats c best then c else best) b cs \<in> set (b # cs)"
  by (induction cs arbitrary: b) (auto split: if_splits)

lemma fold_unbeaten:
  "x \<in> set (b # cs) \<Longrightarrow> \<not> beats x (foldl (\<lambda>best c. if beats c best then c else best) b cs)"
proof (induction cs arbitrary: b x)
  case Nil
  then show ?case by (simp add: beats_irrefl)
next
  case (Cons c cs)
  define b' where "b' = (if beats c b then c else b)"
  let ?r = "foldl (\<lambda>best c. if beats c best then c else best) b' cs"
  have "\<not> beats b b'" and "\<not> beats c b'"
    using beats_irrefl beats_trans[of b c b] by (auto simp: b'_def)
  moreover have "\<not> beats b' ?r" using Cons.IH[of b' b'] by simp
  ultimately have "\<not> beats b ?r" and "\<not> beats c ?r"
    using beats_negtrans[of b b' ?r] beats_negtrans[of c b' ?r] by auto
  moreover have "x \<in> set cs \<Longrightarrow> \<not> beats x ?r" using Cons.IH[of x b'] by simp
  ultimately show ?case using Cons.prems by (auto simp: b'_def[symmetric])
qed

lemma fold_iff:
  "foldl (\<lambda>best c. if beats c best then c else best) b cs = y \<longleftrightarrow>
     y \<in> set (b # cs) \<and> (\<forall>x\<in>set (b # cs). \<not> beats x y)"
  using fold_in[of b cs] fold_unbeaten[of _ b cs] beats_total by blast

end

lemma severity_inject [simp]: "severity a = severity b \<longleftrightarrow> a = b"
  by (cases a; cases b) simp_all

interpretation choice: preference "\<lambda>c best. severity c < severity best"
  by unfold_locales (auto simp: nat_neq_iff[symmetric])

interpretation conjunction: preference "\<lambda>c worst. severity c > severity worst"
  by unfold_locales (auto simp: nat_neq_iff[symmetric])

lemma combine_choice_Some:
  "combine_choice cats = Some c \<longleftrightarrow> c \<in> set cats \<and> (\<forall>d\<in>set cats. severity c \<le> severity d)"
proof (cases cats)
  case (Cons b cs)
  then show ?thesis
    using choice.fold_iff[of b cs c] by (simp only: combine_choice.simps option.inject not_less)
qed simp

lemma combine_conjunction_Some:
  "combine_conjunction cats = Some c \<longleftrightarrow> c \<in> set cats \<and> (\<forall>d\<in>set cats. severity d \<le> severity c)"
proof (cases cats)
  case (Cons b cs)
  then show ?thesis
    using conjunction.fold_iff[of b cs c]
    by (simp only: combine_conjunction.simps option.inject not_less)
qed simp

lemma combine_choice_None [simp]: "combine_choice cats = None \<longleftrightarrow> cats = []"
  by (cases cats) auto

lemma combine_conjunction_None [simp]: "combine_conjunction cats = None \<longleftrightarrow> cats = []"
  by (cases cats) auto

lemma collect_some_Some: "collect_some xs = Some ys \<longleftrightarrow> xs = map Some ys"
  by (induction xs arbitrary: ys) (auto split: option.splits)

lemma collect_some_pick:
  "(\<exists>ds. collect_some (map f ns) = Some ds \<and> c \<in> set ds \<and> (\<forall>d\<in>set ds. R d)) \<longleftrightarrow>
     (\<forall>n\<in>set ns. \<exists>d. f n = Some d \<and> R d) \<and> (\<exists>n\<in>set ns. f n = Some c)"
  (is "?L \<longleftrightarrow> ?R")
proof
  assume ?L
  then obtain ds where ds: "map f ns = map Some ds" "c \<in> set ds" "\<forall>d\<in>set ds. R d"
    by (auto simp: collect_some_Some)
  have im: "f ` set ns = Some ` set ds"
    using arg_cong[OF ds(1), of set] by simp
  have "\<exists>d. f n = Some d \<and> R d" if "n \<in> set ns" for n
  proof -
    from that im have "f n \<in> Some ` set ds" by blast
    with ds(3) show ?thesis by auto
  qed
  moreover from ds(2) im have "Some c \<in> f ` set ns" by simp
  ultimately show ?R by (auto simp: image_iff eq_commute)
next
  assume R: ?R
  have "map f ns = map Some (map (\<lambda>n. the (f n)) ns)" using R by auto
  moreover have "c \<in> set (map (\<lambda>n. the (f n)) ns)" using R by force
  moreover have "\<forall>d\<in>set (map (\<lambda>n. the (f n)) ns). R d" using R by fastforce
  ultimately show ?L unfolding collect_some_Some by blast
qed

subsection \<open>Evaluation of parsed trees\<close>

fun wf_node :: "expr_node \<Rightarrow> bool" where
  "wf_node (Leaf _) = True"
| "wf_node (AndNode ns) \<longleftrightarrow> 2 \<le> length ns \<and> (\<forall>n\<in>set ns. wf_node n)"
| "wf_node (OrNode ns) \<longleftrightarrow> 2 \<le> length ns \<and> (\<forall>n\<in>set ns. wf_node n)"

lemma wf_collapse:
  "ns \<noteq> [] \<Longrightarrow> \<forall>n\<in>set ns. wf_node n \<Longrightarrow> con = OrNode \<or> con = AndNode \<Longrightarrow> wf_node (collapse con ns)"
  by (cases ns; cases "tl ns") (auto simp: collapse_def)

lemma grammar_wf:
  "or_expr ts n \<Longrightarrow> wf_node n"
  "or_list ts ns \<Longrightarrow> ns \<noteq> [] \<and> (\<forall>n\<in>set ns. wf_node n)"
  "and_expr ts n \<Longrightarrow> wf_node n"
  "and_list ts ns \<Longrightarrow> ns \<noteq> [] \<and> (\<forall>n\<in>set ns. wf_node n)"
  "with_expr ts n \<Longrightarrow> wf_node n"
  "primary ts n \<Longrightarrow> wf_node n"
  by (induction rule: or_expr_or_list_and_expr_and_list_with_expr_primary.inducts)
    (auto intro: wf_collapse)

lemma evaluate_total: "wf_node n \<Longrightarrow> \<exists>c. evaluate n mode lookup = Some c"
proof (induction n)
  case (Leaf i)
  then show ?case by simp
next
  case (AndNode ns)
  then have "\<forall>n\<in>set ns. \<exists>c. evaluate n mode lookup = Some c" by auto
  then obtain f where f: "\<forall>n\<in>set ns. evaluate n mode lookup = Some (f n)" by metis
  then have "collect_some (map (\<lambda>n. evaluate n mode lookup) ns) = Some (map f ns)"
    by (simp add: collect_some_Some)
  moreover have "ns \<noteq> []" using AndNode.prems by auto
  ultimately show ?case by (cases ns) auto
next
  case (OrNode ns)
  then have "\<forall>n\<in>set ns. \<exists>c. evaluate n mode lookup = Some c" by auto
  then obtain f where f: "\<forall>n\<in>set ns. evaluate n mode lookup = Some (f n)" by metis
  then have "collect_some (map (\<lambda>n. evaluate n mode lookup) ns) = Some (map f ns)"
    by (simp add: collect_some_Some)
  moreover have "ns \<noteq> []" using OrNode.prems by auto
  ultimately show ?case by (cases ns) auto
qed

lemma parsed_wf: "parse_expression s = Inr n \<Longrightarrow> wf_node n"
  by (auto simp: parse_expression_iff_grammar intro: grammar_wf)

lemma parsed_evaluate: "parse_expression s = Inr n \<Longrightarrow> \<exists>c. evaluate n mode lookup = Some c"
  by (rule evaluate_total[OF parsed_wf])

text \<open>How a node's category depends on its operands', in each mode.\<close>

lemma evaluate_or_Some:
  "evaluate (OrNode ns) mode lookup = Some c \<longleftrightarrow>
     (\<forall>n\<in>set ns. \<exists>d. evaluate n mode lookup = Some d \<and> severity c \<le> severity d)
     \<and> (\<exists>n\<in>set ns. evaluate n mode lookup = Some c)"
  using collect_some_pick[of "\<lambda>n. evaluate n mode lookup" ns c "\<lambda>d. severity c \<le> severity d"]
  by (simp add: bind_eq_Some_conv combine_choice_Some)

lemma evaluate_and_Some:
  "mode \<noteq> ModePermissiveWins \<Longrightarrow> evaluate (AndNode ns) mode lookup = Some c \<longleftrightarrow>
     (\<forall>n\<in>set ns. \<exists>d. evaluate n mode lookup = Some d \<and> severity d \<le> severity c)
     \<and> (\<exists>n\<in>set ns. evaluate n mode lookup = Some c)"
  using collect_some_pick[of "\<lambda>n. evaluate n mode lookup" ns c "\<lambda>d. severity d \<le> severity c"]
  by (simp add: bind_eq_Some_conv combine_conjunction_Some)

lemma evaluate_and_wins:
  "evaluate (AndNode ns) ModePermissiveWins lookup = evaluate (OrNode ns) ModePermissiveWins lookup"
  by simp

text \<open>
  The category of a tree, specified: the severity of a leaf is its own, an alternative has the
  least severity of its operands and a strict conjunction the greatest.
\<close>

fun severity_spec :: "expr_node \<Rightarrow> expression_mode \<Rightarrow> (string \<Rightarrow> category) \<Rightarrow> nat" where
  "severity_spec (Leaf i) mode lookup = severity (lookup_leaf i lookup)"
| "severity_spec (OrNode ns) mode lookup = Min (set (map (\<lambda>n. severity_spec n mode lookup) ns))"
| "severity_spec (AndNode ns) mode lookup =
     (if mode = ModePermissiveWins then Min else Max) (set (map (\<lambda>n. severity_spec n mode lookup) ns))"

lemma severity_spec_or:
  assumes "evaluate (OrNode ns) mode lookup = Some c"
    and "\<And>n d. n \<in> set ns \<Longrightarrow> evaluate n mode lookup = Some d \<Longrightarrow> severity d = severity_spec n mode lookup"
  shows "severity c = Min ((\<lambda>n. severity_spec n mode lookup) ` set ns)"
proof (rule Min_eqI[symmetric])
  show "severity c \<le> y" if "y \<in> (\<lambda>n. severity_spec n mode lookup) ` set ns" for y
    using that assms unfolding evaluate_or_Some by fastforce
  show "severity c \<in> (\<lambda>n. severity_spec n mode lookup) ` set ns"
    using assms unfolding evaluate_or_Some by blast
qed simp

lemma severity_spec_and:
  assumes "mode \<noteq> ModePermissiveWins" and "evaluate (AndNode ns) mode lookup = Some c"
    and "\<And>n d. n \<in> set ns \<Longrightarrow> evaluate n mode lookup = Some d \<Longrightarrow> severity d = severity_spec n mode lookup"
  shows "severity c = Max ((\<lambda>n. severity_spec n mode lookup) ` set ns)"
proof (rule Max_eqI[symmetric])
  show "y \<le> severity c" if "y \<in> (\<lambda>n. severity_spec n mode lookup) ` set ns" for y
    using that assms(2,3) unfolding evaluate_and_Some[OF assms(1)] by fastforce
  show "severity c \<in> (\<lambda>n. severity_spec n mode lookup) ` set ns"
    using assms(2,3) unfolding evaluate_and_Some[OF assms(1)] by blast
qed simp

lemma evaluate_severity:
  "evaluate n mode lookup = Some c \<Longrightarrow> severity c = severity_spec n mode lookup"
proof (induction n arbitrary: c)
  case (Leaf i)
  then show ?case by simp
next
  case (AndNode ns)
  show ?case
  proof (cases "mode = ModePermissiveWins")
    case True
    with AndNode.prems have "evaluate (OrNode ns) mode lookup = Some c" by simp
    then have "severity c = Min ((\<lambda>n. severity_spec n mode lookup) ` set ns)"
      by (rule severity_spec_or) (rule AndNode.IH)
    with True show ?thesis by simp
  next
    case False
    then have "severity c = Max ((\<lambda>n. severity_spec n mode lookup) ` set ns)"
      by (rule severity_spec_and[OF _ AndNode.prems]) (rule AndNode.IH)
    with False show ?thesis by simp
  qed
next
  case (OrNode ns)
  have "severity c = Min ((\<lambda>n. severity_spec n mode lookup) ` set ns)"
    by (rule severity_spec_or[OF OrNode.prems]) (rule OrNode.IH)
  then show ?case by simp
qed

lemma strict_severity_ge:
  "wf_node n \<Longrightarrow> severity_spec n ModePermissiveWins lookup \<le> severity_spec n ModeStrict lookup"
proof (induction n)
  case (Leaf i)
  then show ?case by simp
next
  case (AndNode ns)
  then obtain n0 where n0: "n0 \<in> set ns" by (cases ns) auto
  have "severity_spec (AndNode ns) ModePermissiveWins lookup \<le> severity_spec n0 ModePermissiveWins lookup"
    using n0 by simp
  also have "\<dots> \<le> severity_spec n0 ModeStrict lookup" using AndNode n0 by auto
  also have "\<dots> \<le> severity_spec (AndNode ns) ModeStrict lookup" using n0 by simp
  finally show ?case .
next
  case (OrNode ns)
  have ne: "set ns \<noteq> {}" using OrNode.prems by auto
  have "Min ((\<lambda>n. severity_spec n ModeStrict lookup) ` set ns) \<in> (\<lambda>n. severity_spec n ModeStrict lookup) ` set ns"
    using ne by (intro Min_in) auto
  then obtain n0 where n0: "n0 \<in> set ns"
      "severity_spec (OrNode ns) ModeStrict lookup = severity_spec n0 ModeStrict lookup"
    by auto
  have "severity_spec (OrNode ns) ModePermissiveWins lookup \<le> severity_spec n0 ModePermissiveWins lookup"
    using n0(1) by simp
  also have "\<dots> \<le> severity_spec n0 ModeStrict lookup" using OrNode n0(1) by auto
  finally show ?case using n0(2) by simp
qed


subsection \<open>Rendering a tree\<close>

text \<open>
  A canonical text for a tree: operands that are not leaves are put in parentheses. A leaf
  \<open>L WITH E\<close> is written as its three words. The texts are parsed back to the tree.
\<close>

definition sep_char :: "char \<Rightarrow> bool" where
  "sep_char r \<longleftrightarrow> r \<in> {CHR ''('', CHR '')'', CHR '','', CHR '' '', CHR 0x09, CHR 0x0A, CHR 0x0D}"

definition valid_id :: "string \<Rightarrow> bool" where
  "valid_id w \<longleftrightarrow> w \<noteq> [] \<and> (\<forall>c\<in>set w. \<not> sep_char c)
     \<and> to_upper w \<noteq> ''AND'' \<and> to_upper w \<noteq> ''OR'' \<and> to_upper w \<noteq> ''WITH''"

definition valid_leaf :: "string \<Rightarrow> bool" where
  "valid_leaf i = (case str_cut i '' WITH '' of
     None \<Rightarrow> valid_id i | Some (l, e) \<Rightarrow> valid_id l \<and> valid_id e)"

definition leaf_tokens :: "string \<Rightarrow> token list" where
  "leaf_tokens i = (case str_cut i '' WITH '' of
     None \<Rightarrow> [TokId i] | Some (l, e) \<Rightarrow> [TokId l, TokWith, TokId e])"

fun sep_tokens :: "token \<Rightarrow> token list list \<Rightarrow> token list" where
  "sep_tokens t [] = []"
| "sep_tokens t (ts # tss) = foldl (\<lambda>acc us. acc @ t # us) ts tss"

fun unparse :: "expr_node \<Rightarrow> token list" where
  "unparse (Leaf i) = leaf_tokens i"
| "unparse (AndNode ns) = sep_tokens TokAnd
     (map (\<lambda>n. if is_leaf n then unparse n else TokLParen # unparse n @ [TokRParen]) ns)"
| "unparse (OrNode ns) = sep_tokens TokOr
     (map (\<lambda>n. if is_leaf n then unparse n else TokLParen # unparse n @ [TokRParen]) ns)"

fun token_text :: "token \<Rightarrow> string" where
  "token_text (TokId w) = w"
| "token_text TokAnd = ''AND''"
| "token_text TokOr = ''OR''"
| "token_text TokWith = ''WITH''"
| "token_text TokLParen = ''(''"
| "token_text TokRParen = '')''"

definition render :: "expr_node \<Rightarrow> string" where
  "render n = join_with '' '' (map token_text (unparse n))"

lemma leaf_tokens_grammar: "with_expr (leaf_tokens i) (Leaf i)"
proof (cases "str_cut i '' WITH ''")
  case None
  then show ?thesis by (auto simp: leaf_tokens_def intro: grammar_intros)
next
  case (Some p)
  then obtain l e where p: "p = (l, e)" by (cases p)
  with Some obtain k where k: "str_index i '' WITH '' = Some k" "l = take k i"
      "e = drop (k + length '' WITH '') i"
    by (auto simp: str_cut_def split: option.splits)
  have "take (length '' WITH '') (drop k i) = '' WITH ''"
    using str_index_Some[OF k(1)] by blast
  then have "i = l @ '' WITH '' @ e"
    using append_take_drop_id[of k i] append_take_drop_id[of "length '' WITH ''" "drop k i"] k(2,3)
    unfolding drop_drop by (metis add.commute)
  then show ?thesis
    using with_exception[OF primary_id[of l], of e] Some p by (simp add: leaf_tokens_def)
qed

lemma and_list_foldl:
  "and_list ts ns \<Longrightarrow> list_all2 with_expr tss ms \<Longrightarrow>
     and_list (foldl (\<lambda>acc us. acc @ TokAnd # us) ts tss) (ns @ ms)"
proof (induction tss arbitrary: ts ns ms)
  case (Cons us tss)
  then obtain m ms' where ms: "ms = m # ms'" "with_expr us m" "list_all2 with_expr tss ms'"
    by (auto simp: list_all2_Cons1)
  from Cons.IH[OF and_more[OF Cons.prems(1) ms(2)] ms(3)] show ?case by (simp add: ms(1))
qed simp

lemma or_list_foldl:
  "or_list ts ns \<Longrightarrow> list_all2 and_expr tss ms \<Longrightarrow>
     or_list (foldl (\<lambda>acc us. acc @ TokOr # us) ts tss) (ns @ ms)"
proof (induction tss arbitrary: ts ns ms)
  case (Cons us tss)
  then obtain m ms' where ms: "ms = m # ms'" "and_expr us m" "list_all2 and_expr tss ms'"
    by (auto simp: list_all2_Cons1)
  from Cons.IH[OF or_more[OF Cons.prems(1) ms(2)] ms(3)] show ?case by (simp add: ms(1))
qed simp

lemma and_list_sep: "list_all2 with_expr tss ns \<Longrightarrow> ns \<noteq> [] \<Longrightarrow> and_list (sep_tokens TokAnd tss) ns"
  using and_list_foldl[OF and_one] by (cases tss; cases ns) fastforce+

lemma or_list_sep: "list_all2 and_expr tss ns \<Longrightarrow> ns \<noteq> [] \<Longrightarrow> or_list (sep_tokens TokOr tss) ns"
  using or_list_foldl[OF or_one] by (cases tss; cases ns) fastforce+

lemma with_to_and: "with_expr ts n \<Longrightarrow> and_expr ts n"
  using and_exprI[OF and_one, of ts n] by (simp add: collapse_def)

lemma and_to_or: "and_expr ts n \<Longrightarrow> or_expr ts n"
  using or_exprI[OF or_one, of ts n] by (simp add: collapse_def)

lemma leaf_with: "is_leaf n \<Longrightarrow> with_expr (unparse n) n"
  by (cases n) (auto intro: leaf_tokens_grammar)

lemma unparse_grammar: "wf_node n \<Longrightarrow> or_expr (unparse n) n"
proof (induction n)
  case (Leaf i)
  then show ?case by (simp add: and_to_or with_to_and leaf_tokens_grammar)
next
  case (AndNode ns)
  have "with_expr (if is_leaf n then unparse n else TokLParen # unparse n @ [TokRParen]) n"
    if "n \<in> set ns" for n
    using that AndNode by (auto intro: leaf_with with_plain primary_paren)
  then have "list_all2 with_expr (map (\<lambda>n. if is_leaf n then unparse n else TokLParen # unparse n @ [TokRParen]) ns) ns"
    by (simp add: list_all2_map1 list_all2_same)
  moreover have "ns \<noteq> []" using AndNode.prems by auto
  ultimately have "and_list (unparse (AndNode ns)) ns"
    unfolding unparse.simps by (rule and_list_sep)
  then show ?case
    using and_exprI AndNode.prems by (fastforce simp: collapse_def intro: and_to_or)
next
  case (OrNode ns)
  have "and_expr (if is_leaf n then unparse n else TokLParen # unparse n @ [TokRParen]) n"
    if "n \<in> set ns" for n
    using that OrNode by (auto intro: leaf_with with_plain primary_paren with_to_and)
  then have "list_all2 and_expr (map (\<lambda>n. if is_leaf n then unparse n else TokLParen # unparse n @ [TokRParen]) ns) ns"
    by (simp add: list_all2_map1 list_all2_same)
  moreover have "ns \<noteq> []" using OrNode.prems by auto
  ultimately have "or_list (unparse (OrNode ns)) ns"
    unfolding unparse.simps by (rule or_list_sep)
  then show ?case
    using or_exprI OrNode.prems by (fastforce simp: collapse_def)
qed

subsection \<open>Tokenizing rendered text\<close>

fun valid_token :: "token \<Rightarrow> bool" where
  "valid_token (TokId w) = valid_id w"
| "valid_token _ = True"

lemma tokenize_word:
  "\<forall>c\<in>set w. \<not> sep_char c \<Longrightarrow> tokenize_loop acc (w @ s) = tokenize_loop (acc @ w) s"
  by (induction w arbitrary: acc) (auto simp: sep_char_def)

lemma flush_valid: "valid_id w \<Longrightarrow> flush_word w = [TokId w]"
  by (auto simp: valid_id_def flush_word_def)

lemma flush_keywords:
  "flush_word ''AND'' = [TokAnd]" "flush_word ''OR'' = [TokOr]" "flush_word ''WITH'' = [TokWith]"
  "flush_word [] = []"
  by code_simp+

lemma tokenize_token:
  assumes "valid_token t"
  shows "tokenize_loop [] (token_text t) = [t]"
    and "tokenize_loop [] (token_text t @ '' '' @ s) = t # tokenize_loop [] s"
proof -
  have word: "tokenize_loop [] w = flush_word w"
      "tokenize_loop [] (w @ '' '' @ s) = flush_word w @ tokenize_loop [] s"
    if "\<forall>c\<in>set w. \<not> sep_char c" for w
    using tokenize_word[OF that, of "[]" "[]"] tokenize_word[OF that, of "[]" "'' '' @ s"] by simp_all
  have kw: "\<forall>c\<in>set ''AND''. \<not> sep_char c" "\<forall>c\<in>set ''OR''. \<not> sep_char c"
      "\<forall>c\<in>set ''WITH''. \<not> sep_char c"
    by (simp_all add: sep_char_def)
  show "tokenize_loop [] (token_text t) = [t]"
    using assms word(1)[OF kw(1)] word(1)[OF kw(2)] word(1)[OF kw(3)]
    by (cases t) (simp_all add: word(1) flush_valid flush_keywords valid_id_def)
  show "tokenize_loop [] (token_text t @ '' '' @ s) = t # tokenize_loop [] s"
    using assms word(2)[OF kw(1)] word(2)[OF kw(2)] word(2)[OF kw(3)] word(2)
    by (cases t) (simp_all add: flush_valid flush_keywords valid_id_def)
qed

lemma tokenize_texts:
  "\<forall>t\<in>set ts. valid_token t \<Longrightarrow> tokenize (join_with '' '' (map token_text ts)) = ts"
  unfolding tokenize_def
proof (induction ts)
  case Nil
  then show ?case by (simp add: flush_keywords)
next
  case (Cons t ts)
  then show ?case
    using tokenize_token(1)[of t] tokenize_token(2)[of t "join_with '' '' (map token_text ts)"]
    by (cases ts) simp_all
qed

lemma set_sep_tokens: "set (sep_tokens t tss) \<subseteq> insert t (\<Union> (set ` set tss))"
proof (cases tss)
  case (Cons ts us)
  have "set (foldl (\<lambda>acc us. acc @ t # us) ts us) \<subseteq> set ts \<union> insert t (\<Union> (set ` set us))" for ts us
  proof (induction us arbitrary: ts)
    case (Cons a us)
    show ?case using Cons[of "ts @ t # a"] by auto
  qed auto
  then show ?thesis using Cons by fastforce
qed simp

lemma sep_tokens_cases:
  assumes "t \<in> set (sep_tokens op (map (\<lambda>n. if is_leaf n then unparse n else TokLParen # unparse n @ [TokRParen]) ns))"
  shows "t = op \<or> (\<exists>n\<in>set ns. t \<in> insert TokLParen (insert TokRParen (set (unparse n))))"
proof -
  have "\<exists>n\<in>set ns. t \<in> set (if is_leaf n then unparse n else TokLParen # unparse n @ [TokRParen])"
    if "t \<noteq> op"
    using that assms set_sep_tokens[of op] by fastforce
  moreover have "set (if is_leaf n then unparse n else TokLParen # unparse n @ [TokRParen])
      \<subseteq> insert TokLParen (insert TokRParen (set (unparse n)))" for n
    by auto
  ultimately show ?thesis by blast
qed

lemma unparse_valid:
  "\<forall>i\<in>set (leaf_ids n). valid_leaf i \<Longrightarrow> t \<in> set (unparse n) \<Longrightarrow> valid_token t"
proof (induction n arbitrary: t)
  case (Leaf i)
  then show ?case
    by (auto simp: leaf_tokens_def valid_leaf_def split: option.splits)
next
  case (AndNode ns)
  from sep_tokens_cases[OF AndNode.prems(2)[unfolded unparse.simps]] show ?case
  proof (elim disjE bexE)
    fix n assume n: "n \<in> set ns" "t \<in> insert TokLParen (insert TokRParen (set (unparse n)))"
    then show ?thesis using AndNode.IH[OF n(1)] AndNode.prems(1) by auto
  qed simp
next
  case (OrNode ns)
  from sep_tokens_cases[OF OrNode.prems(2)[unfolded unparse.simps]] show ?case
  proof (elim disjE bexE)
    fix n assume n: "n \<in> set ns" "t \<in> insert TokLParen (insert TokRParen (set (unparse n)))"
    then show ?thesis using OrNode.IH[OF n(1)] OrNode.prems(1) by auto
  qed simp
qed

subsection \<open>Properties\<close>

text \<open>
  C1: the expression parser accepts exactly the texts whose tokens form an \<open>or-expr\<close> of the
  grammar in the code's comment (WITH binds tighter than AND, AND than OR, parentheses
  override), and returns the tree the grammar assigns to them. As the parser is a function the
  grammar is unambiguous, and as it is total the parser terminates on every input.
\<close>

theorem parser_implements_grammar:
  "parse_expression s = Inr n \<longleftrightarrow> or_expr (tokenize s) n"
  by (rule parse_expression_iff_grammar)

text \<open>
  C3: rendering a tree of at least two operands per node, whose leaves are identifiers or
  \<open>L WITH E\<close> clauses, and parsing the text gives the tree back.
\<close>

theorem render_parse_roundtrip:
  assumes "wf_node n" and "\<forall>i\<in>set (leaf_ids n). valid_leaf i"
  shows "parse_expression (render n) = Inr n"
proof -
  have "tokenize (render n) = unparse n"
    unfolding render_def using unparse_valid[OF assms(2)] by (intro tokenize_texts) blast
  then show ?thesis
    using unparse_grammar[OF assms(1)] by (simp add: parse_expression_iff_grammar)
qed

theorem render_parse_roundtrip_witness:
  "parse_expression (render (OrNode [AndNode [Leaf ''ISC'', Leaf ''A WITH B''], Leaf ''X11'']))
   = Inr (OrNode [AndNode [Leaf ''ISC'', Leaf ''A WITH B''], Leaf ''X11''])"
  by (rule render_parse_roundtrip) code_simp+

text \<open>
  C2: a parsed expression always evaluates (the \<open>cats[0]\<close> of the folds never panics), and the
  severity of the result is the specified one: the leaf's own, the least over the operands of
  an OR, and over the operands of an AND the greatest in strict mode and the least in
  permissive-wins mode.
\<close>

theorem evaluation_meets_spec:
  assumes "parse_expression s = Inr n"
  shows "\<exists>c. evaluate n mode lookup = Some c \<and> severity c = severity_spec n mode lookup"
  using parsed_evaluate[OF assms] evaluate_severity by blast

theorem evaluation_meets_spec_witness:
  "\<exists>c. evaluate (AndNode [Leaf ''MIT'', Leaf ''Foo'']) ModeStrict (\<lambda>i. if i = ''MIT'' then Permissive else Unknown) = Some c
     \<and> severity c = severity_spec (AndNode [Leaf ''MIT'', Leaf ''Foo'']) ModeStrict
         (\<lambda>i. if i = ''MIT'' then Permissive else Unknown)"
  by (rule evaluation_meets_spec[of "''MIT and Foo''"]) code_simp

text \<open>
  C4: strict mode never hides an obligation that permissive-wins shows: on every parsed
  expression the strict category is at least as severe as the permissive-wins one. And a strict
  conjunction is permissive only when every operand is.
\<close>

theorem strict_at_least_as_severe:
  assumes "parse_expression s = Inr n"
    and "evaluate n ModeStrict lookup = Some c" and "evaluate n ModePermissiveWins lookup = Some d"
  shows "severity d \<le> severity c \<and>
    (\<forall>ns. n = AndNode ns \<and> c = Permissive \<longrightarrow> (\<forall>m\<in>set ns. evaluate m ModeStrict lookup = Some Permissive))"
proof
  show "severity d \<le> severity c"
    using strict_severity_ge[OF parsed_wf[OF assms(1)]] evaluate_severity[OF assms(2)]
      evaluate_severity[OF assms(3)] by simp
  show "\<forall>ns. n = AndNode ns \<and> c = Permissive \<longrightarrow> (\<forall>m\<in>set ns. evaluate m ModeStrict lookup = Some Permissive)"
  proof (intro allI impI ballI)
    fix ns m assume "n = AndNode ns \<and> c = Permissive" and m: "m \<in> set ns"
    with assms(2) have "evaluate (AndNode ns) ModeStrict lookup = Some Permissive" by simp
    then obtain e where "evaluate m ModeStrict lookup = Some e" "severity e \<le> severity Permissive"
      unfolding evaluate_and_Some[OF expression_mode.distinct(1)] using m by blast
    then show "evaluate m ModeStrict lookup = Some Permissive" by (cases e) auto
  qed
qed

theorem strict_at_least_as_severe_witness:
  "severity Permissive \<le> severity Copyleft"
proof -
  let ?lk = "\<lambda>i. if i = ''MIT'' then Permissive else Copyleft"
  have "parse_expression ''MIT AND MPL-2.0'' = Inr (AndNode [Leaf ''MIT'', Leaf ''MPL-2.0''])"
    by code_simp
  moreover have "evaluate (AndNode [Leaf ''MIT'', Leaf ''MPL-2.0'']) ModeStrict ?lk = Some Copyleft"
      "evaluate (AndNode [Leaf ''MIT'', Leaf ''MPL-2.0'']) ModePermissiveWins ?lk = Some Permissive"
    by code_simp+
  ultimately show ?thesis using strict_at_least_as_severe by blast
qed

end
