(* ===== verification/Regex.thy ===== *)
theory Regex
  imports Prelude
begin

text \<open>
  A model of the part of Go's package \<open>regexp\<close> the backend uses: the regular expressions
  without back references, with capturing groups, matched leftmost-first. \<open>rmatch r (s, caps)\<close>
  lists what every way to match a prefix of \<open>s\<close> leaves over, in the order of preference of a
  Perl-like matcher (alternatives left to right, repetitions greedy), so that the first
  successful entry is the match Go returns. The list is proved to describe the language of
  the expression exactly.
\<close>

datatype rx =
    REps
  | RP "char \<Rightarrow> bool"
  | RSeq rx rx
  | RAlt rx rx
  | RStar rx
  | RGrp nat rx

type_synonym captures = "(nat \<times> string) list"

function rmatch :: "rx \<Rightarrow> string \<times> captures \<Rightarrow> (string \<times> captures) list" where
  "rmatch REps st = [st]"
| "rmatch (RP p) st =
     (case fst st of [] \<Rightarrow> [] | c # cs \<Rightarrow> if p c then [(cs, snd st)] else [])"
| "rmatch (RSeq r1 r2) st = concat (map (\<lambda>st'. rmatch r2 st') (rmatch r1 st))"
| "rmatch (RAlt r1 r2) st = rmatch r1 st @ rmatch r2 st"
| "rmatch (RStar r) st =
     concat (map (\<lambda>st'. if length (fst st') < length (fst st) then rmatch (RStar r) st' else [])
       (rmatch r st)) @ [st]"
| "rmatch (RGrp i r) st =
     map (\<lambda>(s', caps). (s', (i, take (length (fst st) - length s') (fst st)) # caps)) (rmatch r st)"
  by pat_completeness auto
termination
  by (relation "measures [\<lambda>(r, st). size r, \<lambda>(r, st). length (fst st)]") auto

declare rmatch.simps(5) [simp del]

lemmas rmatch_star = rmatch.simps(5)

text \<open>Derived forms: literals, classes, options, repetitions.\<close>

definition rchar :: "char \<Rightarrow> rx" where
  "rchar c = RP (\<lambda>x. x = c)"

definition rclass :: "string \<Rightarrow> rx" where
  "rclass cs = RP (\<lambda>x. List.member cs x)"

fun rlit :: "string \<Rightarrow> rx" where
  "rlit [] = REps"
| "rlit (c # cs) = RSeq (rchar c) (rlit cs)"

fun rseq :: "rx list \<Rightarrow> rx" where
  "rseq [] = REps"
| "rseq [r] = r"
| "rseq (r # s # rs) = RSeq r (rseq (s # rs))"

fun ralt :: "rx list \<Rightarrow> rx" where
  "ralt [] = RP (\<lambda>_. False)"
| "ralt [r] = r"
| "ralt (r # s # rs) = RAlt r (ralt (s # rs))"

definition ropt :: "rx \<Rightarrow> rx" where
  "ropt r = RAlt r REps"

definition rplus :: "rx \<Rightarrow> rx" where
  "rplus r = RSeq r (RStar r)"

fun rtimes :: "nat \<Rightarrow> rx \<Rightarrow> rx" where
  "rtimes 0 r = REps"
| "rtimes (Suc n) r = RSeq r (rtimes n r)"

definition word_char :: "char \<Rightarrow> bool" where
  "word_char c \<longleftrightarrow> is_letter c \<or> is_digit c \<or> c = CHR ''_''"

text \<open>\<open>\s\<close> of RE2: tab, newline, form feed, carriage return, space (not the vertical tab).\<close>

definition re_space :: "char \<Rightarrow> bool" where
  "re_space c \<longleftrightarrow> c = CHR '' '' \<or> c = CHR 0x09 \<or> c = CHR 0x0A \<or> c = CHR 0x0C \<or> c = CHR 0x0D"

text \<open>
  \<open>FindStringSubmatch\<close> of an expression anchored at both ends, and \<open>FindAllStringIndex\<close> of an
  unanchored one: at each position from the left the preferred match, non-empty for the
  expressions used here; the search goes on behind a match.
\<close>

definition find_submatch :: "rx \<Rightarrow> string \<Rightarrow> captures option" where
  "find_submatch r s =
     (case filter (\<lambda>st. fst st = []) (rmatch r (s, [])) of
        [] \<Rightarrow> None | st # _ \<Rightarrow> Some (snd st))"

definition match_string :: "rx \<Rightarrow> string \<Rightarrow> bool" where
  "match_string r s \<longleftrightarrow> find_submatch r s \<noteq> None"

definition group :: "captures \<Rightarrow> nat \<Rightarrow> string" where
  "group caps i = (case map_of caps i of None \<Rightarrow> [] | Some s \<Rightarrow> s)"

definition match_here :: "rx \<Rightarrow> string \<Rightarrow> nat option" where
  "match_here r s =
     (case rmatch r (s, []) of [] \<Rightarrow> None | st # _ \<Rightarrow> Some (length s - length (fst st)))"

fun find_index_from :: "rx \<Rightarrow> nat \<Rightarrow> string \<Rightarrow> (nat \<times> nat) option" where
  "find_index_from r i [] = map_option (\<lambda>n. (i, i + n)) (match_here r [])"
| "find_index_from r i (c # cs) =
     (case match_here r (c # cs) of
        Some n \<Rightarrow> Some (i, i + n)
      | None \<Rightarrow> find_index_from r (Suc i) cs)"

definition find_index :: "rx \<Rightarrow> string \<Rightarrow> (nat \<times> nat) option" where
  "find_index r s = find_index_from r 0 s"

text \<open>
  All matches of \<open>r\<close> in \<open>s\<close>, each with the text before it, and the text behind the last one.
\<close>

function find_all :: "rx \<Rightarrow> string \<Rightarrow> (string \<times> string) list \<times> string" where
  "find_all r s =
     (case find_index r s of
        None \<Rightarrow> ([], s)
      | Some (i, j) \<Rightarrow>
          if 0 < j \<and> s \<noteq> []
          then (let (ps, rest) = find_all r (drop j s)
                in ((take i s, take (j - i) (drop i s)) # ps, rest))
          else ([], s))"
  by pat_completeness auto
termination
  by (relation "measure (\<lambda>(r, s). length s)") auto

declare find_all.simps [simp del]

definition replace_all_re :: "rx \<Rightarrow> string \<Rightarrow> string \<Rightarrow> string" where
  "replace_all_re r s repl =
     (let (ps, rest) = find_all r s in concat (map (\<lambda>(b, _). b @ repl) ps) @ rest)"

subsection \<open>Language\<close>

inductive in_lang :: "rx \<Rightarrow> string \<Rightarrow> bool" where
  lang_eps: "in_lang REps []"
| lang_p: "p c \<Longrightarrow> in_lang (RP p) [c]"
| lang_seq: "in_lang r u \<Longrightarrow> in_lang s v \<Longrightarrow> in_lang (RSeq r s) (u @ v)"
| lang_alt1: "in_lang r u \<Longrightarrow> in_lang (RAlt r s) u"
| lang_alt2: "in_lang s u \<Longrightarrow> in_lang (RAlt r s) u"
| lang_star_nil: "in_lang (RStar r) []"
| lang_star_step: "in_lang r u \<Longrightarrow> u \<noteq> [] \<Longrightarrow> in_lang (RStar r) v \<Longrightarrow> in_lang (RStar r) (u @ v)"
| lang_grp: "in_lang r u \<Longrightarrow> in_lang (RGrp i r) u"

inductive_simps in_lang_simps [simp]:
  "in_lang REps u" "in_lang (RP p) u" "in_lang (RSeq r s) u" "in_lang (RAlt r s) u"
  "in_lang (RGrp i r) u"

lemma rmatch_sound:
  "st' \<in> set (rmatch r st) \<Longrightarrow> \<exists>u. fst st = u @ fst st' \<and> in_lang r u"
proof (induction r st arbitrary: st' rule: rmatch.induct)
  case (3 r1 r2 st)
  then obtain st1 where st1: "st1 \<in> set (rmatch r1 st)" "st' \<in> set (rmatch r2 st1)" by auto
  from "3.IH"(1)[OF st1(1)] "3.IH"(2)[OF st1] obtain u v where
    "fst st = u @ fst st1" "in_lang r1 u" "fst st1 = v @ fst st'" "in_lang r2 v" by blast
  then show ?case by (metis append.assoc lang_seq)
next
  case (5 r st)
  show ?case
  proof (cases "st' = st")
    case True
    then show ?thesis by (auto intro: lang_star_nil)
  next
    case False
    with "5.prems" obtain st1 where st1: "st1 \<in> set (rmatch r st)"
        "length (fst st1) < length (fst st)" "st' \<in> set (rmatch (RStar r) st1)"
      by (auto simp: rmatch_star[of r st] split: if_splits)
    from "5.IH"(1)[OF st1(1)] "5.IH"(2)[OF st1] obtain u v where
      uv: "fst st = u @ fst st1" "in_lang r u" "fst st1 = v @ fst st'" "in_lang (RStar r) v" by blast
    with st1(2) have "u \<noteq> []" by auto
    with uv have "in_lang (RStar r) (u @ v)" by (intro lang_star_step)
    with uv show ?thesis by (metis append.assoc)
  qed
qed (fastforce split: list.splits if_splits)+

lemma rmatch_complete:
  "in_lang r u \<Longrightarrow> \<exists>caps'. (rest, caps') \<in> set (rmatch r (u @ rest, caps))"
proof (induction arbitrary: rest caps rule: in_lang.induct)
  case (lang_seq r u s v)
  from lang_seq.IH(1)[of "v @ rest" caps] obtain c1
    where c1: "(v @ rest, c1) \<in> set (rmatch r (u @ v @ rest, caps))" by blast
  from lang_seq.IH(2)[of rest c1] c1 show ?case by fastforce
next
  case (lang_star_step r u v)
  from lang_star_step.IH(1)[of "v @ rest" caps] obtain c1
    where c1: "(v @ rest, c1) \<in> set (rmatch r (u @ v @ rest, caps))" by blast
  from lang_star_step.IH(2)[of rest c1] obtain c2
    where c2: "(rest, c2) \<in> set (rmatch (RStar r) (v @ rest, c1))" by blast
  have "length (v @ rest) < length (u @ v @ rest)" using lang_star_step.hyps(2) by simp
  with c1 c2 have "(rest, c2) \<in> set (rmatch (RStar r) (u @ v @ rest, caps))"
    by (auto simp: rmatch_star[of r "(u @ v @ rest, caps)"] intro!: bexI[of _ "(v @ rest, c1)"])
  then show ?case by auto
next
  case (lang_star_nil r)
  show ?case by (auto simp: rmatch_star[of r "(rest, caps)"])
next
  case (lang_grp r u i)
  then show ?case by force
next
  case (lang_alt1 r u s)
  then show ?case by (metis UnI1 rmatch.simps(4) set_append)
next
  case (lang_alt2 s u r)
  then show ?case by (metis UnI2 rmatch.simps(4) set_append)
qed auto

text \<open>The matcher decides the language.\<close>

lemma match_string_iff: "match_string r s \<longleftrightarrow> in_lang r s"
proof
  assume "match_string r s"
  then have "filter (\<lambda>st. fst st = []) (rmatch r (s, [])) \<noteq> []"
    by (auto simp: match_string_def find_submatch_def)
  then obtain st where "st \<in> set (rmatch r (s, []))" "fst st = []"
    unfolding filter_empty_conv by blast
  then show "in_lang r s" using rmatch_sound[of st r "(s, [])"] by auto
next
  assume "in_lang r s"
  then obtain c where "([], c) \<in> set (rmatch r (s, []))"
    using rmatch_complete[of r s "[]" "[]"] by auto
  then have "filter (\<lambda>st. fst st = []) (rmatch r (s, [])) \<noteq> []"
    unfolding filter_empty_conv by (metis fst_conv)
  then show "match_string r s"
    by (auto simp: match_string_def find_submatch_def split: list.splits)
qed

lemma in_lang_star_class: "in_lang (RStar (RP p)) u \<longleftrightarrow> (\<forall>c\<in>set u. p c)"
proof
  assume "in_lang (RStar (RP p)) u"
  then show "\<forall>c\<in>set u. p c"
    by (induction "RStar (RP p)" u rule: in_lang.induct) auto
next
  assume "\<forall>c\<in>set u. p c"
  then show "in_lang (RStar (RP p)) u"
  proof (induction u)
    case (Cons c u)
    then show ?case using lang_star_step[of "RP p" "[c]" u] by simp
  qed (rule lang_star_nil)
qed

lemma in_lang_plus: "in_lang (rplus (RP p)) u \<longleftrightarrow> u \<noteq> [] \<and> (\<forall>c\<in>set u. p c)"
proof (cases u)
  case (Cons c u')
  have "in_lang (rplus (RP p)) (c # u') \<longleftrightarrow> p c \<and> (\<forall>x\<in>set u'. p x)"
    unfolding rplus_def in_lang_simps in_lang_star_class
    by (metis append_Cons append_Nil list.inject)
  then show ?thesis by (simp add: Cons)
qed (simp add: rplus_def in_lang_star_class)

lemma in_lang_rlit [simp]: "in_lang (rlit s) u \<longleftrightarrow> u = s"
  by (induction s arbitrary: u) (auto simp: rchar_def)

lemma in_lang_ropt [simp]: "in_lang (ropt r) u \<longleftrightarrow> u = [] \<or> in_lang r u"
  by (auto simp: ropt_def)


subsection \<open>Searching for runs of a class\<close>

lemma match_here_class:
  "match_here (rplus (RP p)) s = (if s \<noteq> [] \<and> p (hd s) then Some (length (takeWhile p s)) else None)"
proof (cases s)
  case Nil
  then show ?thesis by (simp add: match_here_def rplus_def)
next
  case (Cons c cs)
  have star: "\<exists>rest. rmatch (RStar (RP p)) (s, caps) = (dropWhile p s, caps) # rest" for s caps
  proof (induction s)
    case Nil
    then show ?case by (simp add: rmatch_star[of _ "([], caps)"])
  next
    case (Cons c cs)
    then show ?case by (auto simp: rmatch_star[of _ "(c # cs, caps)"])
  qed
  have "length cs - length (dropWhile p cs) = length (takeWhile p cs)"
    using arg_cong[OF takeWhile_dropWhile_id[of p cs], of length]
    unfolding length_append by arith
  moreover have "length (dropWhile p cs) \<le> length cs" by (rule length_dropWhile_le)
  ultimately show ?thesis
    using star[of cs "[]"] by (auto simp: match_here_def rplus_def Cons Suc_diff_le)
qed

lemma find_index_from_class:
  "find_index_from (rplus (RP p)) k s =
     (if \<exists>c\<in>set s. p c
      then Some (k + length (takeWhile (\<lambda>c. \<not> p c) s),
                 k + length (takeWhile (\<lambda>c. \<not> p c) s) + length (takeWhile p (dropWhile (\<lambda>c. \<not> p c) s)))
      else None)"
  by (induction s arbitrary: k) (auto simp: match_here_class)

lemma find_all_class:
  "find_all (rplus (RP p)) s = (ps, rest) \<Longrightarrow>
     (\<forall>(b, m)\<in>set ps. \<forall>c\<in>set b. \<not> p c \<and> c \<in> set s) \<and> (\<forall>c\<in>set rest. \<not> p c \<and> c \<in> set s)"
proof (induction s arbitrary: ps rest rule: length_induct)
  case (1 s)
  show ?case
  proof (cases "\<exists>c\<in>set s. p c")
    case False
    then have "find_index (rplus (RP p)) s = None"
      by (simp add: find_index_def find_index_from_class)
    with "1.prems" False show ?thesis
      by (auto simp: find_all.simps[of _ s])
  next
    case True
    let ?i = "length (takeWhile (\<lambda>c. \<not> p c) s)"
    let ?j = "?i + length (takeWhile p (dropWhile (\<lambda>c. \<not> p c) s))"
    have idx: "find_index (rplus (RP p)) s = Some (?i, ?j)"
      using True by (simp add: find_index_def find_index_from_class)
    have ne: "dropWhile (\<lambda>c. \<not> p c) s \<noteq> []" using True by (auto simp: dropWhile_eq_Nil_conv)
    then have "p (hd (dropWhile (\<lambda>c. \<not> p c) s))" using hd_dropWhile[OF ne] by simp
    with ne have pos: "0 < ?j" by (cases "dropWhile (\<lambda>c. \<not> p c) s") auto
    have sne: "s \<noteq> []" using True by auto
    obtain ps' rest' where rec: "find_all (rplus (RP p)) (drop ?j s) = (ps', rest')" by fastforce
    have res: "ps = (take ?i s, take (?j - ?i) (drop ?i s)) # ps'" "rest = rest'"
      using "1.prems" by (simp_all add: find_all.simps[of _ s] idx pos[simplified] sne rec)
    have "length (drop ?j s) < length s" using pos sne by simp
    with "1.IH" rec have IH: "(\<forall>(b, m)\<in>set ps'. \<forall>c\<in>set b. \<not> p c \<and> c \<in> set (drop ?j s))
        \<and> (\<forall>c\<in>set rest'. \<not> p c \<and> c \<in> set (drop ?j s))" by blast
    have tk: "take ?i s = takeWhile (\<lambda>c. \<not> p c) s"
      by (metis append_eq_conv_conj takeWhile_dropWhile_id)
    have hd: "\<forall>c\<in>set (take ?i s). \<not> p c \<and> c \<in> set s"
      unfolding tk by (auto dest: set_takeWhileD)
    have sub: "set (drop ?j s) \<subseteq> set s" by (rule set_drop_subset)
    have ps': "\<forall>x\<in>set ps'. \<forall>c\<in>set (fst x). \<not> p c \<and> c \<in> set s"
      using IH[THEN conjunct1] sub unfolding split_beta by blast
    have rest': "\<forall>c\<in>set rest'. \<not> p c \<and> c \<in> set s"
      using IH[THEN conjunct2] sub by blast
    from hd ps' rest' show ?thesis
      unfolding res split_beta list.set ball_simps fst_conv by blast
  qed
qed

lemma replace_class_chars:
  "c \<in> set (replace_all_re (rplus (RP p)) s repl) \<Longrightarrow> c \<in> set repl \<or> \<not> p c"
proof -
  obtain ps rest where f: "find_all (rplus (RP p)) s = (ps, rest)" by fastforce
  assume "c \<in> set (replace_all_re (rplus (RP p)) s repl)"
  with find_all_class[OF f] show ?thesis
    by (auto simp: replace_all_re_def f)
qed

end
