(* ===== verification/License_Normalize.thy ===== *)
theory License_Normalize
  imports Regex License_Expression
begin

text \<open>
  The free-text license normalizer of \<open>backend/internal/license/normalize.go\<close>: the alias table,
  the spelling families (regular expressions over \<open>Regex\<close>), the rewriting of the leaves of an
  expression, and the recovery of an SPDX expression or LicenseRef from registry metadata.
\<close>

subsection \<open>Tables\<close>

definition spdx_aliases :: "(string \<times> string) list" where
  "spdx_aliases =
     [(''simplified bsd license'', ''BSD-2-Clause''),
      (''freebsd license'', ''BSD-2-Clause''),
      (''go license'', ''BSD-3-Clause''),
      (''bouncy castle licence'', ''MIT''),
      (''bouncy castle license'', ''MIT''),
      (''the unlicense'', ''Unlicense''),
      (''unlicense'', ''Unlicense''),
      (''proprietary'', ''LicenseRef-proprietary'')]"

text \<open>\<open>ver = [ ,-]*(?:\(\w+\)[ ,-]*)?(?:version |v\. ?|v ?)?\<close>\<close>

definition re_ver :: rx where
  "re_ver = rseq
     [RStar (rclass '' ,-''),
      ropt (rseq [rchar CHR ''('', rplus (RP word_char), rchar CHR '')'', RStar (rclass '' ,-'')]),
      ropt (ralt [rlit ''version '', rseq [rlit ''v.'', ropt (rchar CHR '' '')],
                  rseq [rchar CHR ''v'', ropt (rchar CHR '' '')]])]"

definition re_the :: rx where "re_the = ropt (rlit ''the '')"
definition re_gnu :: rx where "re_gnu = ropt (rlit ''gnu '')"
definition re_dot0 :: rx where "re_dot0 = ropt (rlit ''.0'')"
definition re_license :: rx where "re_license = ropt (rlit '' license'')"
definition re_later :: "nat \<Rightarrow> rx" where
  "re_later i = ropt (RGrp i (ralt [rlit '' or later'', rlit '' or greater'',
     rlit '' or any later version'', rlit ''+'']))"

definition gnu_suffix :: "string \<Rightarrow> string" where
  "gnu_suffix later = (if trim_space later \<noteq> [] then ''-or-later'' else ''-only'')"

definition lgpl_version :: "string \<Rightarrow> string" where
  "lgpl_version v = (if v = ''2.1'' then ''2.1'' else if v = ''2'' then ''2.0''
     else if v = ''3'' then ''3.0'' else [])"

definition family_rules :: "(rx \<times> (captures \<Rightarrow> string)) list" where
  "family_rules =
     [(rseq [re_the, re_gnu, ralt [rlit ''general public license'', rlit ''gpl''], re_ver,
             rlit ''2'', re_dot0, ropt (rchar CHR '',''), rlit '' '', ralt [rlit ''with'', rlit ''w/''],
             rlit '' '', re_the, re_gnu,
             ralt [rseq [rlit ''classpath'', ropt (rlit '' exception'')], rlit ''cpe'']],
       \<lambda>m. ''GPL-2.0-only WITH Classpath-exception-2.0''),
      (rseq [re_the, re_gnu,
             ralt [rseq [ralt [rlit ''lesser'', rlit ''library''], rlit '' general public license''],
                   rlit ''lgpl''],
             re_ver, RGrp 1 (ralt [rlit ''2.1'', rlit ''2'', rlit ''3'']), re_dot0, re_later 2],
       \<lambda>m. ''LGPL-'' @ lgpl_version (group m 1) @ gnu_suffix (group m 2)),
      (rseq [re_the, re_gnu, ralt [rlit ''affero general public license'', rlit ''agpl''], re_ver,
             rlit ''3'', re_dot0, re_later 1],
       \<lambda>m. ''AGPL-3.0'' @ gnu_suffix (group m 1)),
      (rseq [re_the, re_gnu, ralt [rlit ''general public license'', rlit ''gpl''], re_ver,
             RGrp 1 (rclass ''123''), re_dot0, re_later 2],
       \<lambda>m. ''GPL-'' @ group m 1 @ ''.0'' @ gnu_suffix (group m 2)),
      (rseq [re_the, rlit ''apache'', ropt (ralt [rlit '' software'', rlit '' public'']), re_license,
             re_ver, rlit ''2'', re_dot0, re_license],
       \<lambda>m. ''Apache-2.0''),
      (rseq [re_the, ralt [rlit ''eclipse public license'', rlit ''epl''], re_ver,
             RGrp 1 (rclass ''12''), re_dot0],
       \<lambda>m. ''EPL-'' @ group m 1 @ ''.0''),
      (rseq [re_the, ralt [rlit ''eclipse distribution license'', rlit ''edl''], re_ver,
             rlit ''1'', re_dot0],
       \<lambda>m. ''BSD-3-Clause''),
      (rseq [re_the, ralt [rlit ''mozilla public license'', rlit ''mpl''], re_ver,
             RGrp 1 (ralt [rlit ''1.0'', rlit ''1.1'', rlit ''2.0'', rlit ''2''])],
       \<lambda>m. if group m 1 = ''2'' then ''MPL-2.0'' else ''MPL-'' @ group m 1),
      (rseq [re_the, ralt [rlit ''common development and distribution license'', rlit ''cddl''], re_ver,
             RGrp 1 (ralt [rlit ''1.0'', rlit ''1.1'', rlit ''1''])],
       \<lambda>m. if group m 1 = ''1'' then ''CDDL-1.0'' else ''CDDL-'' @ group m 1),
      (rseq [re_the, ralt [rlit ''universal permissive license'', rlit ''upl''], re_ver,
             rlit ''1'', re_dot0],
       \<lambda>m. ''UPL-1.0''),
      (rseq [re_the, ralt
         [rseq [ralt [rlit ''new'', rlit ''revised'', rlit ''modified'', rlit ''3-clause''],
                rlit '' bsd'', re_license],
          rseq [rlit ''bsd'', rclass '' -'',
                ralt [rseq [rlit ''3'', ropt (rclass '' -''), rlit ''clause''], rlit ''new'',
                      rlit ''revised'', rlit ''license 3'', rlit ''3''],
                re_license]]],
       \<lambda>m. ''BSD-3-Clause''),
      (rseq [re_the, ralt
         [rseq [ralt [rlit ''simplified'', rlit ''2-clause''], rlit '' bsd'', re_license],
          rseq [rlit ''bsd'', rclass '' -'',
                ralt [rseq [rlit ''2'', ropt (rclass '' -''), rlit ''clause''], rlit ''simplified'',
                      rlit ''2''],
                re_license]]],
       \<lambda>m. ''BSD-2-Clause''),
      (rseq [re_the, ralt [rlit ''mit'', rlit ''expat''], re_license], \<lambda>m. ''MIT''),
      (rseq [re_the, rlit ''isc'', re_license], \<lambda>m. ''ISC''),
      (rseq [re_the, ralt [rlit ''psf'', rlit ''python software foundation''], re_license,
             ropt (rseq [re_ver, rlit ''2'', re_dot0])],
       \<lambda>m. ''PSF-2.0''),
      (rseq [ropt (rlit ''public domain, per creative commons ''),
             ralt [rlit ''cc0'', rlit ''creative commons zero''],
             ropt (rseq [rclass '' -'', ropt (rchar CHR ''v''), rlit ''1.0'']), ropt (rlit '' universal'')],
       \<lambda>m. ''CC0-1.0''),
      (rseq [ralt [rlit ''cc'', rlit ''creative commons''], rclass '' -'', rlit ''by'',
             RGrp 1 (RStar (rseq [rclass '' -'', ralt [rlit ''sa'', rlit ''nc'', rlit ''nd'']])),
             rclass '' -'', RGrp 2 (rseq [RP is_digit, rlit ''.'', RP is_digit])],
       \<lambda>m. ''CC-BY'' @ to_upper (replace_char CHR '' '' ''-'' (group m 1)) @ ''-'' @ group m 2)]"

subsection \<open>Families and leaves\<close>

fun first_family :: "(rx \<times> (captures \<Rightarrow> string)) list \<Rightarrow> string \<Rightarrow> string option" where
  "first_family [] key = None"
| "first_family ((re, spdx) # rules) key =
     (case find_submatch re key of
        None \<Rightarrow> first_family rules key
      | Some m \<Rightarrow> if spdx m \<noteq> [] then Some (spdx m) else first_family rules key)"

definition lookup_family :: "string \<Rightarrow> string option" where
  "lookup_family name =
     (let key = to_lower (join_with '' '' (str_fields name))
      in (case map_of spdx_aliases key of
            Some spdx \<Rightarrow> Some spdx
          | None \<Rightarrow> first_family family_rules key))"

definition rlit_fold :: "string \<Rightarrow> rx" where
  "rlit_fold s = rseq (map (\<lambda>c. RP (\<lambda>x. lower_char x = lower_char c)) s)"

definition expr_separator :: rx where
  "expr_separator = RAlt
     (rseq [rplus (RP re_space), RAlt (rlit_fold ''AND'') (rlit_fold ''OR''), rplus (RP re_space)])
     (rclass ''()'')"

definition with_separator :: rx where
  "with_separator = rseq [rplus (RP re_space), rlit_fold ''WITH'', rplus (RP re_space)]"

definition id_char :: "char \<Rightarrow> bool" where
  "id_char c \<longleftrightarrow> is_letter c \<or> is_digit c \<or> c = CHR ''.'' \<or> c = CHR ''+'' \<or> c = CHR ''-''"

definition spdx_id_token :: rx where
  "spdx_id_token = RSeq (RP (\<lambda>c. is_letter c \<or> is_digit c)) (RStar (RP id_char))"

definition normalize_leaf :: "string \<Rightarrow> string option" where
  "normalize_leaf leaf =
     (case lookup_family leaf of
        Some spdx \<Rightarrow> Some spdx
      | None \<Rightarrow>
          (case find_index with_separator leaf of
             None \<Rightarrow> None
           | Some (i, j) \<Rightarrow>
               let exception = trim_space (drop j leaf)
               in if \<not> match_string spdx_id_token exception then None
                  else (case lookup_family (take i leaf) of
                          None \<Rightarrow> None
                        | Some spdx \<Rightarrow> Some (spdx @ '' WITH '' @ exception))))"

text \<open>The text written for one leaf, and whether it was rewritten.\<close>

definition write_leaf :: "string \<Rightarrow> string \<times> bool" where
  "write_leaf leaf =
     (let core = trim_space leaf
      in if core = [] then (leaf, False)
         else (case str_index leaf core of
                 None \<Rightarrow> (leaf, False) \<comment> \<open>not reached: the core is a part of the leaf\<close>
               | Some start \<Rightarrow>
                   (case normalize_leaf core of
                      Some spdx \<Rightarrow> (take start leaf @ spdx @ drop (start + length core) leaf, True)
                    | None \<Rightarrow> (take start leaf @ core @ drop (start + length core) leaf, False))))"

definition normalize :: "string \<Rightarrow> string" where
  "normalize expr =
     (let trimmed = trim_space expr
      in if trimmed = [] then expr
         else (case normalize_leaf trimmed of
                 Some spdx \<Rightarrow> spdx
               | None \<Rightarrow>
                   let (parts, last_leaf) = find_all expr_separator trimmed;
                       changed = (\<exists>(leaf, sep)\<in>set parts. snd (write_leaf leaf)) \<or> snd (write_leaf last_leaf)
                   in if \<not> changed then expr
                      else concat (map (\<lambda>(leaf, sep). fst (write_leaf leaf) @ to_upper sep) parts)
                             @ fst (write_leaf last_leaf)))"

subsection \<open>Recognising and recovering SPDX\<close>

fun spdx_tokens_ok :: "bool \<Rightarrow> string list \<Rightarrow> bool" where
  "spdx_tokens_ok expect_id [] = (\<not> expect_id)"
| "spdx_tokens_ok expect_id (t # ts) =
     (if to_upper t = ''AND'' \<or> to_upper t = ''OR'' \<or> to_upper t = ''WITH''
      then (if expect_id then False else spdx_tokens_ok True ts)
      else if \<not> expect_id \<or> \<not> match_string spdx_id_token t then False
      else spdx_tokens_ok False ts)"

definition looks_like_spdx :: "string \<Rightarrow> bool" where
  "looks_like_spdx s =
     (let tokens = fields_by (\<lambda>r. r = CHR '' '' \<or> r = CHR 0x09 \<or> r = CHR ''('' \<or> r = CHR '')'') s
      in tokens \<noteq> [] \<and> spdx_tokens_ok True tokens)"

definition ref_invalid :: "char \<Rightarrow> bool" where
  "ref_invalid c \<longleftrightarrow> \<not> (is_letter c \<or> is_digit c \<or> c = CHR ''.'')"

definition license_ref :: "string \<Rightarrow> string" where
  "license_ref name =
     (let dash_dot = (\<lambda>c. c = CHR ''-'' \<or> c = CHR ''.'');
          ref = trim_by dash_dot (replace_all_re (rplus (RP ref_invalid)) (trim_space name) ''-'')
      in if ref = [] then []
         else ''LicenseRef-'' @
              (if length ref > 64 then trim_right_by dash_dot (take 64 ref) else ref))"

definition recover :: "string \<Rightarrow> string" where
  "recover raw0 =
     (let raw = trim_space raw0
      in if is_no_license_info raw then []
         else if has_prefix (to_lower raw) ''http://'' \<or> has_prefix (to_lower raw) ''https://'' then []
         else if looks_like_spdx (normalize raw) then normalize raw
         else license_ref raw)"


subsection \<open>Lemmas\<close>

lemma spdx_id_token_iff:
  "match_string spdx_id_token w \<longleftrightarrow>
     (\<exists>c cs. w = c # cs \<and> (is_letter c \<or> is_digit c) \<and> (\<forall>x\<in>set cs. id_char x))"
  unfolding match_string_iff spdx_id_token_def in_lang_simps in_lang_star_class
proof (intro iffI; elim exE conjE)
  fix c cs assume "w = c # cs" "is_letter c \<or> is_digit c" "\<forall>x\<in>set cs. id_char x"
  then show "\<exists>u v. w = u @ v \<and> (\<exists>c. u = [c] \<and> (is_letter c \<or> is_digit c)) \<and> (\<forall>c\<in>set v. id_char c)"
    by (intro exI[of _ "[c]"] exI[of _ cs]) simp
qed auto

lemma looks_like_spdx_token:
  assumes "match_string spdx_id_token w"
    and "to_upper w \<noteq> ''AND''" and "to_upper w \<noteq> ''OR''" and "to_upper w \<noteq> ''WITH''"
  shows "looks_like_spdx w"
proof -
  have "w \<noteq> []" and "\<forall>c\<in>set w. id_char c"
    using assms(1) by (auto simp: spdx_id_token_iff id_char_def)
  then have "\<forall>c\<in>set w. \<not> (c = CHR '' '' \<or> c = CHR 0x09 \<or> c = CHR ''('' \<or> c = CHR '')'')"
    by (auto simp: id_char_def is_letter_def is_digit_def char_between_def)
  then have "fields_by (\<lambda>r. r = CHR '' '' \<or> r = CHR 0x09 \<or> r = CHR ''('' \<or> r = CHR '')'') w = [w]"
    using split_by_word \<open>w \<noteq> []\<close> by (simp add: fields_by_def)
  then show ?thesis using assms by (simp add: looks_like_spdx_def)
qed

lemma set_trim_by: "set (trim_by P s) \<subseteq> set s"
  by (auto simp: trim_by_def trim_left_by_def trim_right_by_def dest!: set_dropWhileD)

lemma set_trim_right_by: "set (trim_right_by P s) \<subseteq> set s"
  by (auto simp: trim_right_by_def dest!: set_dropWhileD)

lemma length_trim_right_by: "length (trim_right_by P s) \<le> length s"
  using length_dropWhile_le[of P "rev s"] by (simp add: trim_right_by_def)

lemma license_ref_cases:
  "license_ref name = [] \<or> (\<exists>ref. license_ref name = ''LicenseRef-'' @ ref
     \<and> (\<forall>c\<in>set ref. id_char c) \<and> length ref \<le> 64)"
proof -
  let ?P = "\<lambda>c. c = CHR ''-'' \<or> c = CHR ''.''"
  define ref where "ref = trim_by ?P (replace_all_re (rplus (RP ref_invalid)) (trim_space name) ''-'')"
  have chars: "\<forall>c\<in>set ref. id_char c"
    using replace_class_chars[of _ ref_invalid "trim_space name" "''-''"] set_trim_by[of ?P]
    by (fastforce simp: ref_def ref_invalid_def id_char_def)
  define ref' where "ref' = (if length ref > 64 then trim_right_by ?P (take 64 ref) else ref)"
  have "set ref' \<subseteq> set ref"
    using set_trim_right_by[of ?P "take 64 ref"] set_take_subset[of 64 ref] by (auto simp: ref'_def)
  moreover have "length ref' \<le> 64"
    using length_trim_right_by[of ?P "take 64 ref"] by (auto simp: ref'_def)
  moreover have "license_ref name = (if ref = [] then [] else ''LicenseRef-'' @ ref')"
    by (simp add: license_ref_def Let_def ref_def ref'_def)
  ultimately show ?thesis using chars by (cases "ref = []") auto
qed

lemma license_ref_looks_like_spdx: "license_ref name = [] \<or> looks_like_spdx (license_ref name)"
proof -
  have "looks_like_spdx (''LicenseRef-'' @ ref)" if "\<forall>c\<in>set ref. id_char c" for ref
  proof (rule looks_like_spdx_token)
    have pre: "list_all id_char ''icenseRef-''" "is_letter CHR ''L''" by code_simp+
    show "match_string spdx_id_token (''LicenseRef-'' @ ref)"
      unfolding spdx_id_token_iff append_Cons append_Nil using that pre
      by (auto simp: list_all_iff)
  qed (simp_all add: to_upper_def upper_char_def char_between_def)
  then show ?thesis using license_ref_cases[of name] by auto
qed

subsection \<open>Properties\<close>

text \<open>
  what registry metadata is recovered to is nothing or syntactically an SPDX expression:
  either the normalized spelling, or a LicenseRef of at most 75 characters from the SPDX
  identifier alphabet. No free text reaches the policy lookup through this path.
\<close>

theorem recover_yields_spdx:
  "recover raw = [] \<or> looks_like_spdx (recover raw)"
  using license_ref_looks_like_spdx[of "trim_space raw"]
  by (simp add: recover_def Let_def)

text \<open>
  a LicenseRef is empty or consists of the prefix and at most 64 characters of the SPDX
  identifier alphabet, whatever the input text.
\<close>

theorem license_ref_bounded:
  "license_ref name = [] \<or>
     (take 11 (license_ref name) = ''LicenseRef-'' \<and> length (license_ref name) \<le> 75
      \<and> list_all id_char (license_ref name))"
proof -
  have pre: "list_all id_char ''LicenseRef-''" by code_simp
  show ?thesis
  proof (cases "license_ref name = []")
    case False
    then obtain ref where ref: "license_ref name = ''LicenseRef-'' @ ref"
        "\<forall>c\<in>set ref. id_char c" "length ref \<le> 64"
      using license_ref_cases[of name] by blast
    have "list_all id_char (''LicenseRef-'' @ ref)"
      using pre ref(2) unfolding list_all_append list_all_iff by simp
    then show ?thesis using ref by simp
  qed simp
qed

end
