(* ===== verification/License_Policy.thy ===== *)
theory License_Policy
  imports License_Normalize
begin

text \<open>
  The license policy of \<open>backend/internal/license/checker.go\<close>: the allow and deny lists, the
  mode, and the classification of a license string. The process-wide active policy is passed
  explicitly; a policy is a value that the code replaces as a whole under its mutex.
\<close>

subsection \<open>Policies\<close>

record policy_file =
  pf_description :: string
  pf_permissive :: "string list"
  pf_copyleft :: "string list"
  pf_expression_mode :: string

text \<open>A \<open>map[string]bool\<close> whose values are all true is the set of its keys.\<close>

record policy =
  pol_permissive :: "string set"
  pol_copyleft :: "string set"
  pol_mode :: expression_mode

definition default_permissive :: "string list" where
  "default_permissive =
     [''Apache-2.0'', ''MIT'', ''MIT-0'', ''0BSD'', ''BSD-2-Clause'', ''BSD-2-Clause-FreeBSD'',
      ''BSD-3-Clause'', ''ISC'', ''PSF-2.0'', ''Python-2.0'', ''Python-2.0.1'', ''PostgreSQL'',
      ''UPL-1.0'', ''X11'', ''Zlib'', ''OpenSSL'', ''OpenSSL-standalone'', ''SSLeay-standalone'']"

definition default_copyleft :: "string list" where
  "default_copyleft =
     [''GPL-2.0-only'', ''GPL-2.0-or-later'', ''GPL-3.0-only'', ''GPL-3.0-or-later'',
      ''LGPL-2.1-only'', ''LGPL-2.1-or-later'', ''LGPL-3.0-only'', ''LGPL-3.0-or-later'',
      ''AGPL-3.0-only'', ''AGPL-3.0-or-later'', ''MPL-2.0'',
      ''EPL-1.0'', ''EPL-2.0'', ''EUPL-1.2'', ''CPAL-1.0'']"

definition build_policy :: "string list \<Rightarrow> string list \<Rightarrow> expression_mode \<Rightarrow> policy" where
  "build_policy permissive copyleft mode =
     \<lparr>pol_permissive = set permissive, pol_copyleft = set copyleft, pol_mode = mode\<rparr>"

definition initial_policy :: policy where
  "initial_policy = build_policy default_permissive default_copyleft default_expression_mode"

text \<open>
  \<open>LoadPolicy\<close> on the outcome of reading and decoding the file (\<open>None\<close>: either failed): the new
  active policy and the counts it returns, or the unchanged policy and an error.
\<close>

datatype load_error = FileUnusable | BadMode string

definition load_policy :: "policy \<Rightarrow> policy_file option \<Rightarrow> policy \<times> (load_error + nat \<times> nat)" where
  "load_policy active file =
     (case file of
        None \<Rightarrow> (active, Inl FileUnusable)
      | Some pf \<Rightarrow>
          (case parse_expression_mode (pf_expression_mode pf) of
             Inl s \<Rightarrow> (active, Inl (BadMode s))
           | Inr mode \<Rightarrow>
               (build_policy (pf_permissive pf) (pf_copyleft pf) mode,
                Inr (length (pf_permissive pf), length (pf_copyleft pf)))))"

definition set_expression_mode :: "policy \<Rightarrow> expression_mode \<Rightarrow> policy" where
  "set_expression_mode active mode = active\<lparr>pol_mode := mode\<rparr>"

definition get_expression_mode :: "policy \<Rightarrow> expression_mode" where
  "get_expression_mode active = pol_mode active"

subsection \<open>Classification\<close>

definition categorize_single :: "policy \<Rightarrow> string \<Rightarrow> category" where
  "categorize_single p i =
     (if i \<in> pol_permissive p then Permissive
      else if i \<in> pol_copyleft p then Copyleft
      else if \<exists>base\<in>pol_permissive p. has_prefix i (base @ ''-'') then Permissive
      else if \<exists>base\<in>pol_copyleft p. has_prefix i (base @ ''-'') then Copyleft
      else Unknown)"

text \<open>\<open>None\<close> stands for a panic of the evaluation; \<open>categorize_total\<close> shows there is none.\<close>

definition categorize_opt :: "policy \<Rightarrow> string \<Rightarrow> category option" where
  "categorize_opt p license_id =
     (let i = normalize (trim_space license_id)
      in if is_no_license_info i then Some Unknown
         else if categorize_single p i \<noteq> Unknown then Some (categorize_single p i)
         else if pol_mode p = ModeOff then Some Unapproved
         else if \<not> has_operator (tokenize i) then Some (lookup_leaf i (categorize_single p))
         else (case parse_expression i of
                 Inl _ \<Rightarrow> Some Unknown
               | Inr tree \<Rightarrow> evaluate tree (pol_mode p) (categorize_single p)))"

lemma categorize_total: "\<exists>c. categorize_opt p i = Some c"
  by (auto simp: categorize_opt_def Let_def parsed_evaluate split: sum.splits)

text \<open>\<open>Categorize\<close>: the value that \<open>categorize_opt\<close> always has.\<close>

definition categorize :: "policy \<Rightarrow> string \<Rightarrow> category" where
  "categorize p i = (case categorize_opt p i of Some c \<Rightarrow> c | None \<Rightarrow> Unknown)"

lemma categorize_opt_eq: "categorize_opt p i = Some (categorize p i)"
  using categorize_total[of p i] by (auto simp: categorize_def)

subsection \<open>What a policy lookup promises\<close>

text \<open>
  The expression engine is parametric in the policy lookup. It relies on one law: a lookup
  never answers \<open>Unapproved\<close>, which is the engine's own verdict on identifiers the policy does
  not list.
\<close>

text \<open>The consumer of a package can meet \<open>P\<close> by choosing an operand of every OR.\<close>

fun can_choose :: "(string \<Rightarrow> bool) \<Rightarrow> expr_node \<Rightarrow> bool" where
  "can_choose P (Leaf i) = P i"
| "can_choose P (AndNode ns) = (\<forall>n\<in>set ns. can_choose P n)"
| "can_choose P (OrNode ns) = (\<exists>n\<in>set ns. can_choose P n)"

locale policy_lookup =
  fixes lookup :: "string \<Rightarrow> category"
  assumes lookup_listed: "lookup i \<noteq> Unapproved"
begin

lemma resolve_listed: "resolve_leaf i lookup \<noteq> Unapproved"
  by (auto simp: resolve_leaf_def lookup_deprecated_def Let_def lookup_listed
      split: option.splits)

lemma lookup_leaf_unapproved:
  "lookup_leaf i lookup = Unapproved \<longleftrightarrow> resolve_leaf i lookup = Unknown \<and> \<not> is_no_license_info i"
  by (auto simp: lookup_leaf_def resolve_listed)

lemma lookup_leaf_unknown:
  "lookup_leaf i lookup = Unknown \<longleftrightarrow> resolve_leaf i lookup = Unknown \<and> is_no_license_info i"
  by (auto simp: lookup_leaf_def)

lemma lookup_leaf_permissive:
  "lookup_leaf i lookup = Permissive \<longleftrightarrow> resolve_leaf i lookup = Permissive"
  by (auto simp: lookup_leaf_def)

lemma strict_permissive_iff:
  "wf_node n \<Longrightarrow> evaluate n ModeStrict lookup = Some Permissive \<longleftrightarrow>
     can_choose (\<lambda>i. resolve_leaf i lookup = Permissive) n"
proof (induction n)
  case (Leaf i)
  then show ?case by (simp add: lookup_leaf_permissive)
next
  case (AndNode ns)
  have ne: "ns \<noteq> []" using AndNode.prems by auto
  have "evaluate (AndNode ns) ModeStrict lookup = Some Permissive \<longleftrightarrow>
      (\<forall>n\<in>set ns. evaluate n ModeStrict lookup = Some Permissive)"
    unfolding evaluate_and_Some[OF expression_mode.distinct(1)]
    using ne severity_inject[of _ Permissive] by (cases ns) fastforce+
  with AndNode show ?case by simp
next
  case (OrNode ns)
  have tot: "\<forall>n\<in>set ns. \<exists>d. evaluate n ModeStrict lookup = Some d"
    using OrNode.prems evaluate_total by auto
  have "evaluate (OrNode ns) ModeStrict lookup = Some Permissive \<longleftrightarrow>
      (\<exists>n\<in>set ns. evaluate n ModeStrict lookup = Some Permissive)"
    unfolding evaluate_or_Some using tot by fastforce
  with OrNode show ?case by simp
qed

end

interpretation pol: policy_lookup "categorize_single p" for p
  by unfold_locales (simp add: categorize_single_def)


subsection \<open>Properties\<close>

text \<open>
  soundness of the strict policy. A license string is classified permissive exactly when
  its normalized form carries license information and is listed as permissive itself, or is
  not listed and is a single identifier, or an expression of the grammar, whose consumer can
  choose identifiers that the policy resolves to permissive.
\<close>

theorem strict_categorize_permissive:
  assumes "pol_mode p = ModeStrict" and "i = normalize (trim_space s)"
  shows "categorize p s = Permissive \<longleftrightarrow>
    \<not> is_no_license_info i \<and>
    (categorize_single p i = Permissive \<or>
     (categorize_single p i = Unknown \<and>
      (if has_operator (tokenize i)
       then \<exists>tree. or_expr (tokenize i) tree \<and>
              can_choose (\<lambda>j. resolve_leaf j (categorize_single p) = Permissive) tree
       else resolve_leaf i (categorize_single p) = Permissive)))"
proof (cases "categorize_single p i = Unknown \<and> \<not> is_no_license_info i \<and> has_operator (tokenize i)")
  case False
  then show ?thesis
    using assms by (auto simp: categorize_def categorize_opt_def Let_def pol.lookup_leaf_permissive)
next
  case True
  show ?thesis
  proof (cases "parse_expression i")
    case (Inl e)
    then have "\<nexists>tree. or_expr (tokenize i) tree" by (auto simp flip: parse_expression_iff_grammar)
    with Inl True assms show ?thesis by (simp add: categorize_def categorize_opt_def Let_def)
  next
    case (Inr tree)
    have "categorize p s = Permissive \<longleftrightarrow>
        evaluate tree ModeStrict (categorize_single p) = Some Permissive"
      using Inr True assms parsed_evaluate[OF Inr, of ModeStrict "categorize_single p"]
      by (auto simp: categorize_def categorize_opt_def Let_def)
    also have "\<dots> \<longleftrightarrow> can_choose (\<lambda>j. resolve_leaf j (categorize_single p) = Permissive) tree"
      by (rule pol.strict_permissive_iff[OF parsed_wf[OF Inr]])
    finally show ?thesis
      using True Inr by (auto simp: parse_expression_iff_grammar[symmetric])
  qed
qed

theorem strict_categorize_permissive_witness:
  "categorize initial_policy ''MIT AND X'' = Permissive \<longleftrightarrow>
    \<not> is_no_license_info ''MIT AND X'' \<and>
    (categorize_single initial_policy ''MIT AND X'' = Permissive \<or>
     (categorize_single initial_policy ''MIT AND X'' = Unknown \<and>
      (if has_operator (tokenize ''MIT AND X'')
       then \<exists>tree. or_expr (tokenize ''MIT AND X'') tree \<and>
              can_choose (\<lambda>j. resolve_leaf j (categorize_single initial_policy) = Permissive) tree
       else resolve_leaf ''MIT AND X'' (categorize_single initial_policy) = Permissive)))"
  by (rule strict_categorize_permissive) code_simp+

text \<open>
  C20: the classification is total and its verdicts mean what the documentation of
  \<open>Categorize\<close> says: a string without license information is unknown; a verbatim policy entry
  wins in every mode; with expressions off an unlisted string is unapproved; and a malformed
  expression is unknown, not accepted.
\<close>

theorem categorize_verdicts:
  "\<exists>c. categorize_opt p s = Some c \<and>
    (let i = normalize (trim_space s) in
     c = (if is_no_license_info i then Unknown
          else if categorize_single p i \<noteq> Unknown then categorize_single p i
          else if pol_mode p = ModeOff then Unapproved
          else if has_operator (tokenize i) \<and> (\<nexists>n. or_expr (tokenize i) n) then Unknown
          else c)) \<and> (c = Unapproved \<longrightarrow> \<not> is_no_license_info (normalize (trim_space s)))"
proof -
  obtain c where c: "categorize_opt p s = Some c" using categorize_total by blast
  then show ?thesis
    by (intro exI[of _ c])
      (auto simp: categorize_opt_def Let_def parse_expression_iff_grammar[symmetric]
        split: sum.splits if_splits)
qed

theorem categorize_verdicts_witness:
  "\<exists>c. categorize_opt initial_policy ''MIT ('' = Some c \<and>
    (let i = normalize (trim_space ''MIT ('') in
     c = (if is_no_license_info i then Unknown
          else if categorize_single initial_policy i \<noteq> Unknown then categorize_single initial_policy i
          else if pol_mode initial_policy = ModeOff then Unapproved
          else if has_operator (tokenize i) \<and> (\<nexists>n. or_expr (tokenize i) n) then Unknown
          else c)) \<and> (c = Unapproved \<longrightarrow> \<not> is_no_license_info (normalize (trim_space ''MIT ('')))"
  by (rule categorize_verdicts)

text \<open>
  a policy file is applied atomically. Either the file is usable and its mode valid, and
  the active policy is replaced by the file's lists and mode; or an error is returned and the
  active policy, mode included, is the old one. The environment override changes the mode only.
\<close>

theorem load_policy_atomic:
  "(case load_policy active file of
      (active', Inl e) \<Rightarrow> active' = active
    | (active', Inr (np, nc)) \<Rightarrow> \<exists>pf mode. file = Some pf
        \<and> parse_expression_mode (pf_expression_mode pf) = Inr mode
        \<and> pol_permissive active' = set (pf_permissive pf) \<and> pol_copyleft active' = set (pf_copyleft pf)
        \<and> get_expression_mode active' = mode
        \<and> np = length (pf_permissive pf) \<and> nc = length (pf_copyleft pf))
   \<and> get_expression_mode (set_expression_mode active m) = m
   \<and> (\<forall>i. categorize_single (set_expression_mode active m) i = categorize_single active i)"
  by (auto simp: load_policy_def build_policy_def get_expression_mode_def set_expression_mode_def
      categorize_single_def split: option.splits sum.splits)

end
