(* ===== verification/License_Exceptions.thy ===== *)
theory License_Exceptions
  imports License_Expression
begin

text \<open>
  License exceptions, \<open>backend/internal/license/exceptions.go\<close>: the exceptions document, its
  strict loading, the lookup index built from the approved entries and the exemption decision.
  The JSON decoder is outside the source; the model starts from what it returned.
\<close>

subsection \<open>The document\<close>

record blanket_exception =
  be_id :: string
  be_license :: string
  be_status :: string
  be_approved_date :: string
  be_scope :: string
  be_results :: string
  be_issue_url :: string
  be_package_url :: string
  be_comment :: string

record exception_rule =
  exc_id :: string
  exc_package :: string
  exc_license :: string
  exc_project :: string
  exc_status :: string
  exc_approved_date :: string
  exc_scope :: string
  exc_results :: string
  exc_issue_url :: string
  exc_package_url :: string
  exc_comment :: string

text \<open>The two arrays are \<open>None\<close> where the document leaves them out or has \<open>null\<close>.\<close>

record exceptions_file =
  ef_version :: string
  ef_last_updated :: string
  ef_description :: string
  ef_blanket :: "blanket_exception list option"
  ef_exceptions :: "exception_rule list option"

definition status_is_approved :: "string \<Rightarrow> bool" where
  "status_is_approved status \<longleftrightarrow>
     (let s = to_lower (trim_space status) in s = ''approved'' \<or> s = ''allowlisted'')"

definition split_licenses :: "string \<Rightarrow> string list" where
  "split_licenses expr0 =
     (let expr = trim_space expr0
      in if expr = [] then []
         else (case parse_expression expr of Inl _ \<Rightarrow> [expr] | Inr tree \<Rightarrow> leaf_ids tree))"

subsection \<open>The index\<close>

record exception_index =
  idx_blanket :: "string \<rightharpoonup> blanket_exception"
  idx_package_license :: "string \<rightharpoonup> exception_rule list"
  idx_package_any :: "string \<rightharpoonup> exception_rule list"
  idx_package_rules :: "exception_rule list"
  idx_raw :: exceptions_file

definition entries :: "(string \<rightharpoonup> 'a list) \<Rightarrow> string \<Rightarrow> 'a list" where
  "entries m k = (case m k of None \<Rightarrow> [] | Some xs \<Rightarrow> xs)"

definition append_entry :: "(string \<rightharpoonup> 'a list) \<Rightarrow> string \<Rightarrow> 'a \<Rightarrow> (string \<rightharpoonup> 'a list)" where
  "append_entry m k x = m(k \<mapsto> entries m k @ [x])"

definition package_key :: "string \<Rightarrow> string \<Rightarrow> string" where
  "package_key pkg lic = pkg @ [CHR 0x00] @ lic"

definition index_blanket :: "exception_index \<Rightarrow> blanket_exception \<Rightarrow> exception_index" where
  "index_blanket idx be =
     (if status_is_approved (be_status be)
      then idx\<lparr>idx_blanket := foldl (\<lambda>m lic. m(lic \<mapsto> be)) (idx_blanket idx) (split_licenses (be_license be))\<rparr>
      else idx)"

definition index_exception :: "exception_index \<Rightarrow> exception_rule \<Rightarrow> exception_index" where
  "index_exception idx exc =
     (if \<not> status_is_approved (exc_status exc) then idx
      else
        let idx1 =
          (if exc_license exc \<noteq> [] \<and> exc_package exc \<noteq> []
           then idx\<lparr>idx_package_license :=
                  foldl (\<lambda>m lic. append_entry m (package_key (exc_package exc) lic) exc)
                    (idx_package_license idx) (split_licenses (exc_license exc))\<rparr>
           else if exc_package exc \<noteq> []
           then idx\<lparr>idx_package_any := append_entry (idx_package_any idx) (exc_package exc) exc\<rparr>
           else idx)
        in if exc_package exc \<noteq> []
           then idx1\<lparr>idx_package_rules := idx_package_rules idx1 @ [exc]\<rparr> else idx1)"

definition blankets_of :: "exceptions_file \<Rightarrow> blanket_exception list" where
  "blankets_of ef = (case ef_blanket ef of None \<Rightarrow> [] | Some bs \<Rightarrow> bs)"

definition rules_of :: "exceptions_file \<Rightarrow> exception_rule list" where
  "rules_of ef = (case ef_exceptions ef of None \<Rightarrow> [] | Some es \<Rightarrow> es)"

definition build_index :: "exceptions_file \<Rightarrow> exception_index" where
  "build_index ef =
     foldl index_exception
       (foldl index_blanket
         \<lparr>idx_blanket = Map.empty, idx_package_license = Map.empty, idx_package_any = Map.empty,
          idx_package_rules = [], idx_raw = ef\<rparr>
         (blankets_of ef))
       (rules_of ef)"

subsection \<open>Loading\<close>

text \<open>
  \<open>ParseExceptions\<close> on what the strict decoder reports: the decoded document (\<open>None\<close> for JSON
  null) or an error, and whether the input ends behind it.
\<close>

datatype exceptions_error = DecodeFailed | TrailingData | MissingArrays | ReadFailed | FileNotExist
  | NoPaths

definition parse_exceptions ::
  "(unit + exceptions_file option) \<Rightarrow> bool \<Rightarrow> exceptions_error + exception_index" where
  "parse_exceptions decoded at_eof =
     (case decoded of
        Inl _ \<Rightarrow> Inl DecodeFailed
      | Inr doc \<Rightarrow>
          if \<not> at_eof then Inl TrailingData
          else (case doc of
                  None \<Rightarrow> Inl MissingArrays
                | Some ef \<Rightarrow>
                    if ef_blanket ef = None \<or> ef_exceptions ef = None then Inl MissingArrays
                    else Inr (build_index ef)))"

text \<open>
  \<open>LoadExceptions\<close>: \<open>read\<close> is the file system (an error is \<open>FileNotExist\<close> exactly when
  \<open>errors.Is(err, os.ErrNotExist)\<close> holds for it), \<open>decode\<close> the strict JSON decoder.
\<close>

definition load_exceptions ::
  "(string \<Rightarrow> exceptions_error + 'd) \<Rightarrow> ('d \<Rightarrow> (unit + exceptions_file option) \<times> bool) \<Rightarrow> string
     \<Rightarrow> exceptions_error + exception_index" where
  "load_exceptions read decode path =
     (case read path of
        Inl e \<Rightarrow> Inl e
      | Inr data \<Rightarrow> (case decode data of (decoded, at_eof) \<Rightarrow> parse_exceptions decoded at_eof))"

fun load_with_fallback ::
  "(string \<Rightarrow> exceptions_error + exception_index) \<Rightarrow> exceptions_error option \<Rightarrow> string list
     \<Rightarrow> exceptions_error + exception_index" where
  "load_with_fallback load last_err [] =
     (case last_err of None \<Rightarrow> Inl NoPaths | Some e \<Rightarrow> Inl e)"
| "load_with_fallback load last_err (p # ps) =
     (if p = [] then load_with_fallback load last_err ps
      else (case load p of
              Inl e \<Rightarrow> if e \<noteq> FileNotExist then Inl e else load_with_fallback load (Some e) ps
            | Inr idx \<Rightarrow> Inr idx))"

definition load_exceptions_with_fallback ::
  "(string \<Rightarrow> exceptions_error + 'd) \<Rightarrow> ('d \<Rightarrow> (unit + exceptions_file option) \<times> bool) \<Rightarrow> string list
     \<Rightarrow> exceptions_error + exception_index" where
  "load_exceptions_with_fallback read decode paths = load_with_fallback (load_exceptions read decode) None paths"

subsection \<open>The decision\<close>

definition is_all_projects_phrase :: "string \<Rightarrow> bool" where
  "is_all_projects_phrase scope =
     (let fields = str_fields (to_lower scope)
      in if length fields < 2 \<or> length fields > 3 then False
         else hd fields = ''all'' \<and> last fields = ''projects'')"

definition matches_project :: "string \<Rightarrow> string list \<Rightarrow> bool" where
  "matches_project scope0 projects =
     (let scope = trim_space scope0
      in if scope = [] \<or> scope = ''*'' \<or> is_all_projects_phrase scope then True
         else projects \<noteq> [] \<and> scope = hd projects)"

text \<open>The UTF-8 bytes of the dash in the reason texts.\<close>

definition en_dash :: string where
  "en_dash = [CHR 0xE2, CHR 0x80, CHR 0x93]"

definition exception_reason :: "exception_rule \<Rightarrow> string" where
  "exception_reason exc = ''Exception: '' @ exc_id exc @ '' '' @ en_dash @ '' '' @ exc_comment exc"

lemma str_last_index_bound: "str_last_index s sub = Some i \<Longrightarrow> i + length sub \<le> length s"
proof (induction s arbitrary: i)
  case Nil
  then show ?case by (auto split: if_splits)
next
  case (Cons c cs)
  then show ?case
    by (auto split: option.splits if_splits simp: has_prefix_iff) (metis length_Cons length_append le_add1)
qed

text \<open>Step 1b: the bases of \<open>s\<close> before a dash, from the longest.\<close>

function blanket_prefix :: "(string \<rightharpoonup> blanket_exception) \<Rightarrow> string \<Rightarrow> (blanket_exception \<times> string) option" where
  "blanket_prefix blanket s =
     (case str_last_index s ''-'' of
        None \<Rightarrow> None
      | Some e \<Rightarrow>
          if e > 0
          then (case blanket (take e s) of
                  Some be \<Rightarrow> Some (be, take e s)
                | None \<Rightarrow> blanket_prefix blanket (take e s))
          else None)"
  by pat_completeness auto
termination
  by (relation "measure (\<lambda>(b, s). length s)") (auto dest: str_last_index_bound)

declare blanket_prefix.simps [simp del]

definition first_for_project :: "string list \<Rightarrow> exception_rule list \<Rightarrow> exception_rule option" where
  "first_for_project projects excs = find (\<lambda>exc. matches_project (exc_project exc) projects) excs"

definition is_exempt :: "exception_index option \<Rightarrow> string \<Rightarrow> string \<Rightarrow> string list \<Rightarrow> bool \<times> string" where
  "is_exempt idx0 package license projects =
    (case idx0 of None \<Rightarrow> (False, [])
    | Some idx \<Rightarrow>
     (case idx_blanket idx license of
       Some be \<Rightarrow> (True, ''Blanket exception: '' @ be_id be @ '' '' @ en_dash @ '' '' @ be_comment be)
     | None \<Rightarrow>
     (case blanket_prefix (idx_blanket idx) license of
       Some (be, base) \<Rightarrow>
         (True, ''Blanket exception: '' @ be_id be @ '' (via '' @ base @ '') '' @ en_dash @ '' '' @ be_comment be)
     | None \<Rightarrow>
     (case first_for_project projects (entries (idx_package_license idx) (package_key package license)) of
       Some exc \<Rightarrow> (True, exception_reason exc)
     | None \<Rightarrow>
     (case find (\<lambda>exc. has_suffix package (''/'' @ exc_package exc) \<and> matches_project (exc_project exc) projects
                    \<and> license \<in> set (split_licenses (exc_license exc))) (idx_package_rules idx) of
       Some exc \<Rightarrow> (True, exception_reason exc)
     | None \<Rightarrow>
     (case first_for_project projects (entries (idx_package_any idx) package) of
       Some exc \<Rightarrow> (True, exception_reason exc)
     | None \<Rightarrow>
     (case find (\<lambda>exc. exc_license exc = [] \<and> has_suffix package (''/'' @ exc_package exc)
                    \<and> matches_project (exc_project exc) projects) (idx_package_rules idx) of
       Some exc \<Rightarrow> (True, exception_reason exc)
     | None \<Rightarrow> (False, []))))))))"


subsection \<open>What the index holds\<close>

lemma entries_append_entry:
  "entries (append_entry m k x) k' = (if k' = k then entries m k @ [x] else entries m k')"
  by (simp add: entries_def append_entry_def)

lemma entries_empty: "entries Map.empty k = []"
  by (simp add: entries_def)

lemma set_entries_append_entries:
  "set (entries (foldl (\<lambda>m lic. append_entry m (g lic) x) m lics) k)
     = set (entries m k) \<union> (if \<exists>lic \<in> set lics. g lic = k then {x} else {})"
  by (induction lics arbitrary: m) (auto simp: entries_append_entry)

lemma foldl_update_const:
  "foldl (\<lambda>m lic. m(lic \<mapsto> x)) m lics k = (if k \<in> set lics then Some x else m k)"
  by (induction lics arbitrary: m) auto

definition grants_blanket :: "blanket_exception \<Rightarrow> string \<Rightarrow> bool" where
  "grants_blanket be lic \<longleftrightarrow> status_is_approved (be_status be) \<and> lic \<in> set (split_licenses (be_license be))"

text \<open>The last approved entry that names a license wins.\<close>

lemma idx_blanket_index_blanket:
  "idx_blanket (foldl index_blanket idx bs) lic =
     (case find (\<lambda>be. grants_blanket be lic) (rev bs) of Some be \<Rightarrow> Some be | None \<Rightarrow> idx_blanket idx lic)"
  by (induction bs rule: rev_induct) (auto simp: index_blanket_def grants_blanket_def foldl_update_const)

lemma index_blanket_others [simp]:
  "idx_package_license (foldl index_blanket idx bs) = idx_package_license idx"
  "idx_package_any (foldl index_blanket idx bs) = idx_package_any idx"
  "idx_package_rules (foldl index_blanket idx bs) = idx_package_rules idx"
  by (induction bs arbitrary: idx) (auto simp: index_blanket_def)

lemma index_exception_blanket [simp]:
  "idx_blanket (foldl index_exception idx es) = idx_blanket idx"
  by (induction es arbitrary: idx) (auto simp: index_exception_def Let_def)

lemma index_exception_rules:
  "idx_package_rules (foldl index_exception idx es) =
     idx_package_rules idx @ filter (\<lambda>e. status_is_approved (exc_status e) \<and> exc_package e \<noteq> []) es"
  by (induction es arbitrary: idx) (auto simp: index_exception_def Let_def)

lemma index_exception_any:
  "entries (idx_package_any (foldl index_exception idx es)) p =
     entries (idx_package_any idx) p @
     filter (\<lambda>e. status_is_approved (exc_status e) \<and> exc_license e = [] \<and> exc_package e \<noteq> []
               \<and> exc_package e = p) es"
  by (induction es rule: rev_induct) (auto simp: index_exception_def Let_def entries_append_entry)

lemma index_exception_license:
  "set (entries (idx_package_license (foldl index_exception idx es)) k) =
     set (entries (idx_package_license idx) k) \<union>
     {e \<in> set es. status_is_approved (exc_status e) \<and> exc_license e \<noteq> [] \<and> exc_package e \<noteq> []
        \<and> (\<exists>lic \<in> set (split_licenses (exc_license e)). package_key (exc_package e) lic = k)}"
  by (induction es rule: rev_induct)
     (auto simp: index_exception_def Let_def set_entries_append_entries)

lemmas index_fields = idx_blanket_index_blanket index_exception_rules index_exception_any
  index_exception_license

lemma build_index_fields:
  "idx_blanket (build_index ef) lic = find (\<lambda>be. grants_blanket be lic) (rev (blankets_of ef))"
  "idx_package_rules (build_index ef) =
     filter (\<lambda>e. status_is_approved (exc_status e) \<and> exc_package e \<noteq> []) (rules_of ef)"
  "entries (idx_package_any (build_index ef)) p =
     filter (\<lambda>e. status_is_approved (exc_status e) \<and> exc_license e = [] \<and> exc_package e \<noteq> []
               \<and> exc_package e = p) (rules_of ef)"
  "set (entries (idx_package_license (build_index ef)) k) =
     {e \<in> set (rules_of ef). status_is_approved (exc_status e) \<and> exc_license e \<noteq> [] \<and> exc_package e \<noteq> []
        \<and> (\<exists>lic \<in> set (split_licenses (exc_license e)). package_key (exc_package e) lic = k)}"
  by (auto simp: build_index_def index_fields entries_empty split: option.splits)

text \<open>The separator of the key keeps package and license apart for names without NUL.\<close>

lemma package_key_inject:
  assumes "CHR 0x00 \<notin> set p" "CHR 0x00 \<notin> set l"
  shows "package_key p' l' = package_key p l \<longleftrightarrow> p' = p \<and> l' = l"
proof
  assume eq: "package_key p' l' = package_key p l"
  have "filter ((=) (CHR 0x00)) p = []" "filter ((=) (CHR 0x00)) l = []"
    using assms by (auto simp: filter_empty_conv)
  moreover have "length (filter ((=) (CHR 0x00)) (package_key p' l')) =
      length (filter ((=) (CHR 0x00)) (package_key p l))"
    by (simp add: eq)
  ultimately have "filter ((=) (CHR 0x00)) p' = []"
    by (simp add: package_key_def)
  then have "CHR 0x00 \<notin> set p'"
    by (auto simp: filter_empty_conv)
  then have "takeWhile ((\<noteq>) (CHR 0x00)) (package_key p' l') = p'"
    by (auto simp: package_key_def takeWhile_append takeWhile_eq_all_conv)
  moreover have "takeWhile ((\<noteq>) (CHR 0x00)) (package_key p l) = p"
    using assms by (auto simp: package_key_def takeWhile_append takeWhile_eq_all_conv)
  ultimately have "p' = p"
    using eq by metis
  with eq show "p' = p \<and> l' = l"
    by (simp add: package_key_def)
qed simp


subsection \<open>What the decision grants\<close>

lemma find_Some_set: "find P xs = Some x \<Longrightarrow> x \<in> set xs \<and> P x"
  by (auto simp: find_Some_iff)

lemma find_None_set: "find P xs = None \<longleftrightarrow> (\<forall>x \<in> set xs. \<not> P x)"
  by (auto simp: find_None_iff)

lemma str_last_index_single:
  "str_last_index s [c] = None \<longleftrightarrow> c \<notin> set s"
  "str_last_index s [c] = Some i \<Longrightarrow> i < length s \<and> s ! i = c \<and> (\<forall>j. i < j \<and> j < length s \<longrightarrow> s ! j \<noteq> c)"
proof (induction s arbitrary: i)
  case (Cons a s)
  {
    case 1
    then show ?case
      using Cons.IH(1) by (auto simp: has_prefix_iff split: option.splits)
  next
    case 2
    then show ?case
      using Cons.IH
      by (auto simp: has_prefix_iff nth_Cons' in_set_conv_nth split: option.splits if_splits)
         (metis Suc_pred less_Suc_eq_0_disj not_less_eq)+
  }
qed auto

text \<open>
  The bases the loop of step 1b tries are the nonempty prefixes before a dash, in decreasing
  length: the result is the longest one the table holds.
\<close>

definition dash_base :: "string \<Rightarrow> nat \<Rightarrow> bool" where
  "dash_base s e \<longleftrightarrow> 0 < e \<and> e < length s \<and> s ! e = CHR ''-''"

lemma blanket_prefix_result:
  "case blanket_prefix m s of
     None \<Rightarrow> (\<forall>e. dash_base s e \<longrightarrow> m (take e s) = None)
   | Some (be, base) \<Rightarrow>
       (\<exists>e. dash_base s e \<and> base = take e s \<and> m base = Some be
          \<and> (\<forall>e'. dash_base s e' \<and> e < e' \<longrightarrow> m (take e' s) = None))"
proof (induction m s rule: blanket_prefix.induct)
  case (1 m s)
  show ?case
  proof (cases "str_last_index s ''-''")
    case None
    then have "CHR ''-'' \<notin> set s"
      by (simp add: str_last_index_single)
    with None show ?thesis
      by (auto simp: blanket_prefix.simps [of m s] dash_base_def in_set_conv_nth)
  next
    case (Some k)
    note k = str_last_index_single(2) [OF Some]
    have bases: "dash_base s e \<longleftrightarrow> (e = k \<and> 0 < k) \<or> dash_base (take k s) e" for e
      using k by (cases e k rule: linorder_cases) (auto simp: dash_base_def)
    show ?thesis
    proof (cases "0 < k \<and> m (take k s) = None")
      case True
      then have eq: "blanket_prefix m s = blanket_prefix m (take k s)"
        using Some by (simp add: blanket_prefix.simps [of m s])
      have tk: "take e (take k s) = take e s" and shorter: "e < k" if "dash_base (take k s) e" for e
        using that by (simp_all add: dash_base_def)
      show ?thesis
      proof (cases "blanket_prefix m s")
        case None
        then show ?thesis
          using 1 [OF \<open>str_last_index s ''-'' = Some k\<close>] True bases tk
          by (simp add: None [unfolded eq] del: take_take)
      next
        case (Some r)
        obtain be base where r: "r = (be, base)" by fastforce
        have "\<exists>e. dash_base (take k s) e \<and> base = take e (take k s) \<and> m base = Some be
            \<and> (\<forall>e'. dash_base (take k s) e' \<and> e < e' \<longrightarrow> m (take e' (take k s)) = None)"
          using 1 [OF \<open>str_last_index s ''-'' = Some k\<close>] True Some [unfolded eq r]
          by (simp del: take_take)
        then obtain e where e: "dash_base (take k s) e" "base = take e s" "m base = Some be"
            "\<forall>e'. dash_base (take k s) e' \<and> e < e' \<longrightarrow> m (take e' (take k s)) = None"
          using tk by blast
        then have "\<forall>e'. dash_base s e' \<and> e < e' \<longrightarrow> m (take e' s) = None"
          using True bases tk by metis
        with e bases have "dash_base s e \<and> base = take e s \<and> m base = Some be
            \<and> (\<forall>e'. dash_base s e' \<and> e < e' \<longrightarrow> m (take e' s) = None)"
          by blast
        then show ?thesis
          unfolding Some r option.case prod.case by blast
      qed
    next
      case False
      show ?thesis
      proof (cases "0 < k")
        case True
        with False obtain be where be: "m (take k s) = Some be" by auto
        then have eq: "blanket_prefix m s = Some (be, take k s)"
          using Some True by (simp add: blanket_prefix.simps [of m s])
        have "dash_base s k \<and> (\<forall>e'. dash_base s e' \<longrightarrow> \<not> k < e')"
          using k True by (auto simp: dash_base_def)
        with be show ?thesis
          unfolding eq option.case prod.case by blast
      next
        case False
        then have eq: "blanket_prefix m s = None"
          using Some by (simp add: blanket_prefix.simps [of m s])
        have "\<not> dash_base s e" for e
          using k False by (auto simp: dash_base_def)
        then show ?thesis
          unfolding eq option.case by blast
      qed
    qed
  qed
qed

lemma blanket_prefix_Some_iff:
  "(\<exists>r. blanket_prefix m s = Some r) \<longleftrightarrow> (\<exists>e. dash_base s e \<and> m (take e s) \<noteq> None)"
  using blanket_prefix_result [where m = m and s = s] by (cases "blanket_prefix m s") auto

definition blanket_covers :: "blanket_exception \<Rightarrow> string \<Rightarrow> bool" where
  "blanket_covers be lic \<longleftrightarrow>
     status_is_approved (be_status be) \<and>
     (\<exists>base \<in> set (split_licenses (be_license be)).
        lic = base \<or> (base \<noteq> [] \<and> has_prefix lic (base @ ''-'')))"

text \<open>The package is named in full, or its last path segments are the rule's package.\<close>

definition package_covered :: "exception_rule \<Rightarrow> string \<Rightarrow> bool" where
  "package_covered exc pkg \<longleftrightarrow> exc_package exc \<noteq> [] \<and> (pkg = exc_package exc \<or> has_suffix pkg (''/'' @ exc_package exc))"

definition rule_covers :: "exception_rule \<Rightarrow> string \<Rightarrow> string \<Rightarrow> string list \<Rightarrow> bool" where
  "rule_covers exc pkg lic projects \<longleftrightarrow>
     status_is_approved (exc_status exc) \<and> package_covered exc pkg \<and>
     matches_project (exc_project exc) projects \<and>
     (exc_license exc = [] \<or> lic \<in> set (split_licenses (exc_license exc)))"

lemma dash_base_prefix:
  "(\<exists>e. dash_base s e \<and> take e s = base) \<longleftrightarrow> base \<noteq> [] \<and> has_prefix s (base @ ''-'')"
proof
  assume "\<exists>e. dash_base s e \<and> take e s = base"
  then obtain e where "dash_base s e" "take e s = base" by blast
  moreover from this have "s = base @ CHR ''-'' # drop (Suc e) s"
    using id_take_nth_drop [of e s] by (simp add: dash_base_def)
  ultimately show "base \<noteq> [] \<and> has_prefix s (base @ ''-'')"
    by (auto simp: dash_base_def has_prefix_iff)
next
  assume "base \<noteq> [] \<and> has_prefix s (base @ ''-'')"
  then show "\<exists>e. dash_base s e \<and> take e s = base"
    by (intro exI [of _ "length base"]) (auto simp: dash_base_def has_prefix_iff)
qed

lemma blanket_steps_iff:
  "idx_blanket (build_index ef) lic \<noteq> None \<or> (\<exists>r. blanket_prefix (idx_blanket (build_index ef)) lic = Some r)
     \<longleftrightarrow> (\<exists>be \<in> set (blankets_of ef). blanket_covers be lic)"
proof -
  have granted: "idx_blanket (build_index ef) l \<noteq> None \<longleftrightarrow> (\<exists>be \<in> set (blankets_of ef). grants_blanket be l)" for l
    by (auto simp: build_index_fields(1) find_None_set)
  have "(\<exists>r. blanket_prefix (idx_blanket (build_index ef)) lic = Some r)
      \<longleftrightarrow> (\<exists>base. base \<noteq> [] \<and> has_prefix lic (base @ ''-'') \<and> idx_blanket (build_index ef) base \<noteq> None)"
    unfolding blanket_prefix_Some_iff using dash_base_prefix [of lic] by metis
  then show ?thesis
    by (auto simp only: granted blanket_covers_def grants_blanket_def)
qed


lemma is_exempt_None [simp]: "is_exempt None pkg lic projects = (False, [])"
  by (simp add: is_exempt_def)

lemma is_exempt_steps:
  "fst (is_exempt (Some idx) pkg lic projects) \<longleftrightarrow>
     (idx_blanket idx lic \<noteq> None \<or> (\<exists>r. blanket_prefix (idx_blanket idx) lic = Some r)) \<or>
     (\<exists>exc \<in> set (entries (idx_package_license idx) (package_key pkg lic)). matches_project (exc_project exc) projects) \<or>
     (\<exists>exc \<in> set (idx_package_rules idx). has_suffix pkg (''/'' @ exc_package exc) \<and>
         matches_project (exc_project exc) projects \<and> lic \<in> set (split_licenses (exc_license exc))) \<or>
     (\<exists>exc \<in> set (entries (idx_package_any idx) pkg). matches_project (exc_project exc) projects) \<or>
     (\<exists>exc \<in> set (idx_package_rules idx). exc_license exc = [] \<and> has_suffix pkg (''/'' @ exc_package exc) \<and>
         matches_project (exc_project exc) projects)"
  unfolding is_exempt_def first_for_project_def option.case
  by (auto split: option.splits prod.splits simp: find_None_set dest!: find_Some_set)

lemma split_licenses_Nil [simp]: "split_licenses [] = []"
  by (simp add: split_licenses_def trim_space_Nil)

lemma exempt_iff_covered:
  assumes "CHR 0x00 \<notin> set pkg" "CHR 0x00 \<notin> set lic"
  shows "fst (is_exempt (Some (build_index ef)) pkg lic projects) \<longleftrightarrow>
     (\<exists>be \<in> set (blankets_of ef). blanket_covers be lic) \<or>
     (\<exists>exc \<in> set (rules_of ef). rule_covers exc pkg lic projects)"
  unfolding is_exempt_steps blanket_steps_iff build_index_fields(2-4) rule_covers_def package_covered_def
    package_key_inject [OF assms]
  by auto

text \<open>The blanket decision does not see the package, and an anonymous package gets no other.\<close>

lemma is_exempt_blanket:
  assumes "CHR 0x00 \<notin> set lic" and "fst (is_exempt (map_option build_index ef) [] lic [])"
  shows "is_exempt (map_option build_index ef) pkg lic projects = is_exempt (map_option build_index ef) [] lic []"
proof (cases ef)
  case None
  with assms(2) show ?thesis by (simp add: is_exempt_def)
next
  case (Some e)
  have "idx_blanket (build_index e) lic \<noteq> None \<or> (\<exists>r. blanket_prefix (idx_blanket (build_index e)) lic = Some r)"
  proof (rule ccontr)
    assume "\<not> ?thesis"
    moreover have "\<not> rule_covers exc [] lic []" for exc
      by (auto simp: rule_covers_def package_covered_def has_suffix_iff)
    ultimately show False
      using assms(2) exempt_iff_covered [of "[]" lic e "[]"] assms(1)
      unfolding blanket_steps_iff by (simp add: Some)
  qed
  then show ?thesis
    by (cases "idx_blanket (build_index e) lic") (auto simp: Some is_exempt_def)
qed


subsection \<open>Only approved entries count\<close>

definition approved_only :: "exceptions_file \<Rightarrow> exceptions_file" where
  "approved_only ef = ef\<lparr>
     ef_blanket := map_option (filter (\<lambda>be. status_is_approved (be_status be))) (ef_blanket ef),
     ef_exceptions := map_option (filter (\<lambda>e. status_is_approved (exc_status e))) (ef_exceptions ef)\<rparr>"

lemma foldl_filter_skip:
  assumes "\<And>acc x. \<not> P x \<Longrightarrow> f acc x = acc"
  shows "foldl f acc (filter P xs) = foldl f acc xs"
  by (induction xs arbitrary: acc) (auto simp: assms)

lemma foldl_commute_update:
  assumes "\<And>acc x. f (u acc) x = u (f acc x)"
  shows "foldl f (u acc) xs = u (foldl f acc xs)"
  by (induction xs arbitrary: acc) (auto simp: assms)

lemma build_index_approved_only:
  "build_index (approved_only ef) = (build_index ef)\<lparr>idx_raw := approved_only ef\<rparr>"
proof -
  have bs: "blankets_of (approved_only ef) = filter (\<lambda>be. status_is_approved (be_status be)) (blankets_of ef)"
    and es: "rules_of (approved_only ef) = filter (\<lambda>e. status_is_approved (exc_status e)) (rules_of ef)"
    by (auto simp: approved_only_def blankets_of_def rules_of_def split: option.splits)
  define i0 where "i0 = \<lparr>idx_blanket = Map.empty, idx_package_license = Map.empty,
    idx_package_any = Map.empty, idx_package_rules = [], idx_raw = ef\<rparr>"
  let ?u = "\<lambda>i. i\<lparr>idx_raw := approved_only ef\<rparr>"
  have ub: "foldl index_blanket (?u i) bs = ?u (foldl index_blanket i bs)" for i bs
    by (rule foldl_commute_update) (simp add: index_blanket_def)
  have ue: "foldl index_exception (?u i) es = ?u (foldl index_exception i es)" for i es
    by (rule foldl_commute_update) (simp add: index_exception_def Let_def)
  have "build_index (approved_only ef) =
      foldl index_exception (foldl index_blanket (?u i0) (blankets_of ef)) (rules_of ef)"
    unfolding build_index_def bs es
    by (simp add: foldl_filter_skip [of _ index_blanket] foldl_filter_skip [of _ index_exception]
          index_blanket_def index_exception_def i0_def)
  also have "\<dots> = ?u (build_index ef)"
    unfolding ub ue build_index_def i0_def by (rule refl)
  finally show ?thesis .
qed

lemma is_exempt_raw: "is_exempt (Some (idx\<lparr>idx_raw := r\<rparr>)) = is_exempt (Some idx)"
proof -
  have "idx_blanket (idx\<lparr>idx_raw := r\<rparr>) = idx_blanket idx"
    "idx_package_license (idx\<lparr>idx_raw := r\<rparr>) = idx_package_license idx"
    "idx_package_any (idx\<lparr>idx_raw := r\<rparr>) = idx_package_any idx"
    "idx_package_rules (idx\<lparr>idx_raw := r\<rparr>) = idx_package_rules idx"
    by simp_all
  then show ?thesis
    by (intro ext) (simp only: is_exempt_def option.case)
qed


lemma load_with_fallback_result:
  "load_with_fallback load e paths =
     (case find (\<lambda>p. p \<noteq> [] \<and> load p \<noteq> Inl FileNotExist) paths of
        Some p \<Rightarrow> load p
      | None \<Rightarrow> (if \<exists>p \<in> set paths. p \<noteq> [] then Inl FileNotExist
                 else (case e of None \<Rightarrow> Inl NoPaths | Some e' \<Rightarrow> Inl e')))"
  by (induction paths arbitrary: e) (auto split: sum.splits option.splits)

lemma parse_exceptions_not_missing: "parse_exceptions d eof \<noteq> Inl FileNotExist"
  by (auto simp: parse_exceptions_def split: sum.splits option.splits)

lemma load_exceptions_missing: "load_exceptions read decode p = Inl FileNotExist \<longleftrightarrow> read p = Inl FileNotExist"
  by (auto simp: load_exceptions_def parse_exceptions_not_missing split: sum.splits prod.splits)

text \<open>
  The contract the compliance check relies on: a blanket decision, made without naming a package
  or a project, is the decision for every package and project.
\<close>

locale exemption_rules =
  fixes exempt :: "string \<Rightarrow> string \<Rightarrow> string list \<Rightarrow> bool \<times> string"
  assumes blanket_law: "CHR 0x00 \<notin> set lic \<Longrightarrow> fst (exempt [] lic []) \<Longrightarrow> exempt name lic projects = exempt [] lic []"
begin

lemma blanket_all: "CHR 0x00 \<notin> set lic \<Longrightarrow> fst (exempt [] lic []) \<Longrightarrow> fst (exempt name lic projects)"
  by (metis blanket_law)

end

interpretation rules: exemption_rules "is_exempt (map_option build_index ef)" for ef
  by unfold_locales (rule is_exempt_blanket)

subsection \<open>Properties\<close>

text \<open>
  C6: A finding is exempted exactly when an approved entry of the document covers it: a blanket
  entry for its license (or for a base of it, before a dash), or a rule for its package (in
  full, or as a suffix of whole path segments), its license and its project. Nothing else
  exempts, whatever the maps and the search order of the index; the NUL byte, which separates
  package and license in the index key, occurs in neither name.
\<close>

theorem exempt_iff_approved_entry:
  assumes "CHR 0x00 \<notin> set pkg" "CHR 0x00 \<notin> set lic"
  shows "fst (is_exempt (Some (build_index ef)) pkg lic projects) \<longleftrightarrow>
     (\<exists>be \<in> set (blankets_of ef). blanket_covers be lic) \<or>
     (\<exists>exc \<in> set (rules_of ef). rule_covers exc pkg lic projects)"
  using assms by (rule exempt_iff_covered)

definition sample_rule :: exception_rule where
  "sample_rule = \<lparr>exc_id = ''E1'', exc_package = ''foo/bar'', exc_license = ''MPL-2.0 OR GPL-2.0'', exc_project = ''alpha'',
     exc_status = ''Approved'', exc_approved_date = [], exc_scope = [], exc_results = [], exc_issue_url = [],
     exc_package_url = [], exc_comment = ''ok''\<rparr>"

definition sample_blanket :: "string \<Rightarrow> string \<Rightarrow> blanket_exception" where
  "sample_blanket i lic = \<lparr>be_id = i, be_license = lic, be_status = ''approved'',
     be_approved_date = [], be_scope = [], be_results = [], be_issue_url = [], be_package_url = [], be_comment = ''c''\<rparr>"

definition sample_file :: exceptions_file where
  "sample_file = \<lparr>ef_version = [], ef_last_updated = [], ef_description = [], ef_blanket = Some [],
     ef_exceptions = Some [sample_rule]\<rparr>"

theorem exempt_iff_approved_entry_witness:
  "fst (is_exempt (Some (build_index sample_file)) ''github.com/foo/bar'' ''GPL-2.0'' [''alpha'']) \<longleftrightarrow>
     (\<exists>be \<in> set (blankets_of sample_file). blanket_covers be ''GPL-2.0'') \<or>
     (\<exists>exc \<in> set (rules_of sample_file). rule_covers exc ''github.com/foo/bar'' ''GPL-2.0'' [''alpha''])"
  by (rule exempt_iff_approved_entry) simp_all

text \<open>
  C22: Entries whose status is not an approval (pending, denied, a typo, nothing) have no influence
  on any decision or reason: dropping them from the document leaves \<open>IsExempt\<close> unchanged.
\<close>

theorem approved_entries_decide:
  "is_exempt (Some (build_index (approved_only ef))) = is_exempt (Some (build_index ef))"
  by (simp only: build_index_approved_only is_exempt_raw)

text \<open>
  For a license with SPDX modifiers the blanket entry of its longest listed base decides and is
  named in the reason, for every package and project and whatever shorter bases are listed.
\<close>

theorem blanket_longest_base:
  assumes "idx_blanket idx lic = None" "dash_base lic e" "idx_blanket idx (take e lic) = Some be"
    and "\<And>e'. dash_base lic e' \<Longrightarrow> e < e' \<Longrightarrow> idx_blanket idx (take e' lic) = None"
  shows "is_exempt (Some idx) pkg lic projects =
     (True, ''Blanket exception: '' @ be_id be @ '' (via '' @ take e lic @ '') '' @ en_dash @ '' '' @ be_comment be)"
proof -
  obtain r where r: "blanket_prefix (idx_blanket idx) lic = Some r"
    using assms(2,3) blanket_prefix_Some_iff [of "idx_blanket idx" lic] by auto
  obtain be' base where "r = (be', base)" by fastforce
  with r blanket_prefix_result [where m = "idx_blanket idx" and s = lic] obtain e2 where
      e2: "dash_base lic e2" "base = take e2 lic" "idx_blanket idx base = Some be'"
        "\<forall>e'. dash_base lic e' \<and> e2 < e' \<longrightarrow> idx_blanket idx (take e' lic) = None"
    by auto
  have "e2 = e"
    using e2 assms by (metis linorder_neqE_nat option.distinct(1))
  then show ?thesis
    using assms e2 r \<open>r = (be', base)\<close> by (simp add: is_exempt_def)
qed

theorem blanket_longest_base_witness:
  "is_exempt (Some (build_index (sample_file\<lparr>ef_blanket := Some [sample_blanket ''B1'' ''MPL'', sample_blanket ''B2'' ''MPL-2.0'']\<rparr>)))
     ''p'' ''MPL-2.0-x'' [] = (True, ''Blanket exception: B2 (via MPL-2.0) '' @ en_dash @ '' c'')"
proof -
  let ?idx = "build_index (sample_file\<lparr>ef_blanket := Some [sample_blanket ''B1'' ''MPL'', sample_blanket ''B2'' ''MPL-2.0'']\<rparr>)"
  have "dash_base ''MPL-2.0-x'' e' \<Longrightarrow> \<not> 7 < e'" for e'
    by (simp add: dash_base_def nth_Cons' split: if_splits)
  moreover have "idx_blanket ?idx ''MPL-2.0-x'' = None"
    by code_simp
  moreover have "idx_blanket ?idx (take 7 ''MPL-2.0-x'') = Some (sample_blanket ''B2'' ''MPL-2.0'')"
    by code_simp
  moreover have "dash_base ''MPL-2.0-x'' 7"
    by code_simp
  ultimately have "is_exempt (Some ?idx) ''p'' ''MPL-2.0-x'' [] =
     (True, ''Blanket exception: '' @ be_id (sample_blanket ''B2'' ''MPL-2.0'') @ '' (via '' @ take 7 ''MPL-2.0-x'' @ '') ''
        @ en_dash @ '' '' @ be_comment (sample_blanket ''B2'' ''MPL-2.0''))"
    by (intro blanket_longest_base [where e = 7]) blast+
  then show ?thesis by (simp add: sample_blanket_def)
qed

text \<open>
  With fallback paths, the first path that is named and whose file exists decides, error or not:
  an unreadable or invalid file is never replaced by approvals of a later path. Only when every
  named file is missing the load fails as missing, and without a named path as unconfigured.
\<close>

theorem fallback_first_existing:
  "load_exceptions_with_fallback read decode paths =
     (case find (\<lambda>p. p \<noteq> [] \<and> read p \<noteq> Inl FileNotExist) paths of
        Some p \<Rightarrow> load_exceptions read decode p
      | None \<Rightarrow> Inl (if \<exists>p \<in> set paths. p \<noteq> [] then FileNotExist else NoPaths))"
  by (simp add: load_exceptions_with_fallback_def load_with_fallback_result load_exceptions_missing
        split: option.splits)

end
