(* ===== verification/License_Check.thy ===== *)
theory License_Check
  imports License_Policy License_Exceptions Regex "HOL-Library.AList" "HOL-Library.Word"
begin

text \<open>
  The compliance check of one SBOM (\<open>CheckWithExceptions\<close> in
  \<open>backend/internal/license/checker.go\<close>) and the re-evaluation of a stored result under new
  exception rules (\<open>reevaluate.go\<close>). The aggregation map is an association list, so the result
  list has one of the orders the code's map iteration may produce; the properties do not depend
  on it.
\<close>

subsection \<open>The check\<close>

definition go_temp_name_re :: rx where
  "go_temp_name_re =
     (let alnum = RP (\<lambda>c. is_letter c \<or> is_digit c)
      in rseq [rlit ''tmp.'', rtimes 6 alnum, RStar alnum])"

definition is_go_temp_name :: "string \<Rightarrow> bool" where
  "is_go_temp_name name = match_string go_temp_name_re name"

record license_agg =
  la_count :: "32 word"
  la_packages :: "string list"
  la_exempted :: "string list"
  la_category :: category
  la_blanket_exempt :: bool
  la_exemption_note :: string

record check_result =
  cr_license_id :: string
  cr_category :: category
  cr_package_count :: "32 word"
  cr_non_compliant :: "string list"
  cr_exempted :: "string list"
  cr_exemption_reason :: string

text \<open>\<open>IsExempt\<close> of the loaded index; \<open>None\<close> when there are no exceptions.\<close>

type_synonym exempt_fn = "string \<Rightarrow> string \<Rightarrow> string list \<Rightarrow> bool \<times> string"

definition new_entry :: "(string \<Rightarrow> category) \<Rightarrow> exempt_fn option \<Rightarrow> string \<Rightarrow> license_agg" where
  "new_entry cat exempt lic =
     (let entry = \<lparr>la_count = 0, la_packages = [], la_exempted = [], la_category = cat lic,
                   la_blanket_exempt = False, la_exemption_note = []\<rparr>
      in case exempt of
           None \<Rightarrow> entry
         | Some ex \<Rightarrow>
             (case ex [] lic [] of
                (ok, reason) \<Rightarrow>
                  if ok then entry\<lparr>la_blanket_exempt := True, la_exemption_note := reason\<rparr> else entry))"

definition add_package ::
  "(string \<Rightarrow> category) \<Rightarrow> exempt_fn option \<Rightarrow> string list \<Rightarrow> string \<Rightarrow> string \<Rightarrow> license_agg \<Rightarrow> license_agg" where
  "add_package cat exempt project name lic entry0 =
     (let entry = entry0\<lparr>la_count := la_count entry0 + 1\<rparr>
      in if la_blanket_exempt entry then entry\<lparr>la_exempted := la_exempted entry @ [name]\<rparr>
         else if cat lic = Permissive then entry
         else (case exempt of
                 Some ex \<Rightarrow>
                   if fst (ex name lic project) then entry\<lparr>la_exempted := la_exempted entry @ [name]\<rparr>
                   else entry\<lparr>la_packages := la_packages entry @ [name]\<rparr>
               | None \<Rightarrow> entry\<lparr>la_packages := la_packages entry @ [name]\<rparr>))"

definition check_step ::
  "(string \<Rightarrow> category) \<Rightarrow> exempt_fn option \<Rightarrow> string list \<Rightarrow> (string \<times> license_agg) list
     \<Rightarrow> string \<times> string \<Rightarrow> (string \<times> license_agg) list" where
  "check_step cat exempt project agg nl =
     (case nl of (name, lic) \<Rightarrow>
        if is_go_temp_name name then agg
        else
          let entry = (case map_of agg lic of Some e \<Rightarrow> e | None \<Rightarrow> new_entry cat exempt lic)
          in AList.update lic (add_package cat exempt project name lic entry) agg)"

text \<open>A license without a package name at its index belongs to the empty name.\<close>

fun pair_names :: "string list \<Rightarrow> string list \<Rightarrow> (string \<times> string) list" where
  "pair_names names [] = []"
| "pair_names [] (l # ls) = ([], l) # pair_names [] ls"
| "pair_names (n # ns) (l # ls) = (n, l) # pair_names ns ls"

definition agg_result :: "string \<times> license_agg \<Rightarrow> check_result" where
  "agg_result le =
     (case le of (lic, e) \<Rightarrow>
        \<lparr>cr_license_id = lic, cr_category = la_category e, cr_package_count = la_count e,
         cr_non_compliant = la_packages e, cr_exempted = la_exempted e,
         cr_exemption_reason = la_exemption_note e\<rparr>)"

definition run_check ::
  "(string \<Rightarrow> category) \<Rightarrow> exempt_fn option \<Rightarrow> string list \<Rightarrow> (string \<times> string) list \<Rightarrow> check_result list" where
  "run_check cat exempt project input = map agg_result (foldl (check_step cat exempt project) [] input)"

definition check_with_exceptions ::
  "policy \<Rightarrow> string list \<Rightarrow> string list \<Rightarrow> exception_index option \<Rightarrow> string list \<Rightarrow> check_result list" where
  "check_with_exceptions p names lics exceptions project =
     run_check (categorize p) (map_option (\<lambda>idx. is_exempt (Some idx)) exceptions) project (pair_names names lics)"

definition check :: "policy \<Rightarrow> string list \<Rightarrow> string list \<Rightarrow> check_result list" where
  "check p names lics = check_with_exceptions p names lics None []"

subsection \<open>Re-evaluation of a stored result\<close>

definition reevaluate :: "check_result \<Rightarrow> exception_index option \<Rightarrow> string \<Rightarrow> check_result" where
  "reevaluate r exceptions project =
     (let names = cr_non_compliant r @ cr_exempted r;
          out = \<lparr>cr_license_id = cr_license_id r, cr_category = cr_category r,
                 cr_package_count = cr_package_count r, cr_non_compliant = [], cr_exempted = [],
                 cr_exemption_reason = []\<rparr>;
          blanket = (if exceptions \<noteq> None then is_exempt exceptions [] (cr_license_id r) [] else (False, []))
      in if fst blanket then out\<lparr>cr_exempted := names, cr_exemption_reason := snd blanket\<rparr>
         else if cr_category r = Permissive then out
         else foldl (\<lambda>out name.
                if fst (is_exempt exceptions name (cr_license_id r) [project])
                then out\<lparr>cr_exempted := cr_exempted out @ [name]\<rparr>
                else out\<lparr>cr_non_compliant := cr_non_compliant out @ [name]\<rparr>) out names)"

definition same_multiset :: "string list \<Rightarrow> string list \<Rightarrow> bool" where
  "same_multiset a b =
     (if length a \<noteq> length b then False
      else (let x = sort a; y = sort b in list_all (\<lambda>i. x ! i = y ! i) [0..<length x]))"

definition same_outcome :: "check_result \<Rightarrow> check_result \<Rightarrow> bool" where
  "same_outcome a b \<longleftrightarrow>
     cr_exemption_reason a = cr_exemption_reason b \<and>
     same_multiset (cr_non_compliant a) (cr_non_compliant b) \<and>
     same_multiset (cr_exempted a) (cr_exempted b)"

subsection \<open>The aggregate of a license\<close>

definition packages_of :: "(string \<times> string) list \<Rightarrow> string \<Rightarrow> string list" where
  "packages_of input lic = map fst (filter (\<lambda>nl. \<not> is_go_temp_name (fst nl) \<and> snd nl = lic) input)"

definition exempt_with :: "exempt_fn option \<Rightarrow> string \<Rightarrow> string \<Rightarrow> string list \<Rightarrow> bool \<times> string" where
  "exempt_with exempt name lic project = (case exempt of None \<Rightarrow> (False, []) | Some ex \<Rightarrow> ex name lic project)"

definition blanket_decision :: "exempt_fn option \<Rightarrow> string \<Rightarrow> bool" where
  "blanket_decision exempt lic = fst (exempt_with exempt [] lic [])"

definition expected_agg ::
  "(string \<Rightarrow> category) \<Rightarrow> exempt_fn option \<Rightarrow> string list \<Rightarrow> string \<Rightarrow> string list \<Rightarrow> license_agg" where
  "expected_agg cat exempt project lic names =
     (let b = blanket_decision exempt lic; ok = (\<lambda>n. fst (exempt_with exempt n lic project))
      in \<lparr>la_count = of_nat (length names),
          la_packages = (if b \<or> cat lic = Permissive then [] else filter (\<lambda>n. \<not> ok n) names),
          la_exempted = (if b then names else if cat lic = Permissive then [] else filter ok names),
          la_category = cat lic, la_blanket_exempt = b,
          la_exemption_note = (if b then snd (exempt_with exempt [] lic []) else [])\<rparr>)"

lemma new_entry_expected: "new_entry cat exempt lic = expected_agg cat exempt project lic []"
  by (auto simp: new_entry_def expected_agg_def blanket_decision_def exempt_with_def Let_def
        split: option.splits prod.splits)

lemma add_package_expected:
  "add_package cat exempt project name lic (expected_agg cat exempt project lic names) =
     expected_agg cat exempt project lic (names @ [name])"
  by (simp add: add_package_def expected_agg_def exempt_with_def Let_def split: option.split)

lemma packages_of_snoc:
  "packages_of (input @ [(name, lic)]) l =
     packages_of input l @ (if \<not> is_go_temp_name name \<and> lic = l then [name] else [])"
  by (simp add: packages_of_def)

lemmas check_step_pair = check_step_def [where nl = "(name, lic)" for name lic, unfolded prod.case]

lemma map_of_update: "map_of (AList.update k v al) k' = (if k' = k then Some v else map_of al k')"
  by (simp add: update_conv)

lemma check_aggregate:
  "map_of (foldl (check_step cat exempt project) [] input) lic =
     (if packages_of input lic = [] then None
      else Some (expected_agg cat exempt project lic (packages_of input lic)))"
proof (induction input arbitrary: lic rule: rev_induct)
  case Nil
  then show ?case by (simp add: packages_of_def)
next
  case (snoc nl input)
  obtain name l where nl: "nl = (name, l)" by fastforce
  show ?case
    by (auto simp: nl check_step_pair packages_of_snoc map_of_update snoc.IH Let_def
          new_entry_expected [where project = project] add_package_expected)
qed

lemma check_distinct: "distinct (map fst (foldl (check_step cat exempt project) [] input))"
  by (induction input rule: rev_induct)
     (auto simp: check_step_def Let_def distinct_update split: prod.splits)

text \<open>The results, as a set: one per license that some package outside the build artifacts has.\<close>

lemma set_run_check:
  "set (run_check cat exempt project input) =
     (\<lambda>lic. agg_result (lic, expected_agg cat exempt project lic (packages_of input lic)))
       ` {lic. packages_of input lic \<noteq> []}"
proof -
  let ?agg = "foldl (check_step cat exempt project) [] input"
  have "set ?agg = {(l, e). map_of ?agg l = Some e}"
    using check_distinct by auto
  then show ?thesis
    unfolding run_check_def set_map by (auto simp: check_aggregate image_iff split: if_splits)
qed

lemma run_check_distinct: "distinct (map cr_license_id (run_check cat exempt project input))"
proof -
  have "map cr_license_id (run_check cat exempt project input) =
      map fst (foldl (check_step cat exempt project) [] input)"
    by (auto simp: run_check_def agg_result_def)
  then show ?thesis by (simp add: check_distinct)
qed


lemma exempt_with_index [simp]:
  "exempt_with (map_option (\<lambda>idx. is_exempt (Some idx)) exceptions) = is_exempt exceptions"
  by (intro ext) (simp add: exempt_with_def is_exempt_def split: option.split)

definition index_agg :: "policy \<Rightarrow> exception_index option \<Rightarrow> string list \<Rightarrow> string \<Rightarrow> string list \<Rightarrow> license_agg" where
  "index_agg p exceptions project lic names =
     expected_agg (categorize p) (map_option (\<lambda>idx. is_exempt (Some idx)) exceptions) project lic names"

lemma index_agg_fields:
  "la_count (index_agg p exceptions project lic names) = of_nat (length names)"
  "la_category (index_agg p exceptions project lic names) = categorize p lic"
  "la_packages (index_agg p exceptions project lic names) =
     (if fst (is_exempt exceptions [] lic []) \<or> categorize p lic = Permissive then []
      else filter (\<lambda>n. \<not> fst (is_exempt exceptions n lic project)) names)"
  "la_exempted (index_agg p exceptions project lic names) =
     (if fst (is_exempt exceptions [] lic []) then names else if categorize p lic = Permissive then []
      else filter (\<lambda>n. fst (is_exempt exceptions n lic project)) names)"
  "la_exemption_note (index_agg p exceptions project lic names) =
     (if fst (is_exempt exceptions [] lic []) then snd (is_exempt exceptions [] lic []) else [])"
  by (simp_all add: index_agg_def expected_agg_def Let_def blanket_decision_def)

lemma check_results:
  "r \<in> set (check_with_exceptions p names lics exceptions project) \<longleftrightarrow>
     (let lic = cr_license_id r; pkgs = packages_of (pair_names names lics) lic
      in pkgs \<noteq> [] \<and> r = agg_result (lic, index_agg p exceptions project lic pkgs))"
  unfolding check_with_exceptions_def set_run_check Let_def index_agg_def image_iff
  by (auto simp: agg_result_def)

lemma agg_result_fields [simp]:
  "cr_license_id (agg_result (lic, e)) = lic" "cr_category (agg_result (lic, e)) = la_category e"
  "cr_package_count (agg_result (lic, e)) = la_count e" "cr_non_compliant (agg_result (lic, e)) = la_packages e"
  "cr_exempted (agg_result (lic, e)) = la_exempted e"
  "cr_exemption_reason (agg_result (lic, e)) = la_exemption_note e"
  by (simp_all add: agg_result_def)

lemma check_result_fields:
  assumes "r \<in> set (check_with_exceptions p names lics exceptions project)"
  defines "lic \<equiv> cr_license_id r"
  defines "pkgs \<equiv> packages_of (pair_names names lics) lic"
  shows "cr_category r = categorize p lic" "cr_package_count r = of_nat (length pkgs)"
    "cr_non_compliant r =
       (if fst (is_exempt exceptions [] lic []) \<or> categorize p lic = Permissive then []
        else filter (\<lambda>n. \<not> fst (is_exempt exceptions n lic project)) pkgs)"
    "cr_exempted r =
       (if fst (is_exempt exceptions [] lic []) then pkgs else if categorize p lic = Permissive then []
        else filter (\<lambda>n. fst (is_exempt exceptions n lic project)) pkgs)"
    "cr_exemption_reason r =
       (if fst (is_exempt exceptions [] lic []) then snd (is_exempt exceptions [] lic []) else [])"
proof -
  have "r = agg_result (lic, index_agg p exceptions project lic pkgs)"
    using assms by (simp add: check_results Let_def)
  then obtain e where "r = agg_result (lic, e)" "e = index_agg p exceptions project lic pkgs"
    by blast
  then show "cr_category r = categorize p lic" "cr_package_count r = of_nat (length pkgs)"
    "cr_non_compliant r =
       (if fst (is_exempt exceptions [] lic []) \<or> categorize p lic = Permissive then []
        else filter (\<lambda>n. \<not> fst (is_exempt exceptions n lic project)) pkgs)"
    "cr_exempted r =
       (if fst (is_exempt exceptions [] lic []) then pkgs else if categorize p lic = Permissive then []
        else filter (\<lambda>n. fst (is_exempt exceptions n lic project)) pkgs)"
    "cr_exemption_reason r =
       (if fst (is_exempt exceptions [] lic []) then snd (is_exempt exceptions [] lic []) else [])"
    by (simp_all add: index_agg_fields)
qed

lemma same_multiset_iff: "same_multiset a b \<longleftrightarrow> mset a = mset b"
proof (cases "length a = length b")
  case True
  then have "same_multiset a b \<longleftrightarrow> sort a = sort b"
    by (simp add: same_multiset_def Let_def list_all_iff list_eq_iff_nth_eq [of "sort a" "sort b"] Ball_def)
  then show ?thesis by (simp add: sort_eq_iff_mset)
next
  case False
  then show ?thesis by (auto simp: same_multiset_def dest: mset_eq_length)
qed

lemma reevaluate_split:
  "foldl (\<lambda>out name. if ok name then out\<lparr>cr_exempted := cr_exempted out @ [name]\<rparr>
                      else out\<lparr>cr_non_compliant := cr_non_compliant out @ [name]\<rparr>) out names =
     out\<lparr>cr_exempted := cr_exempted out @ filter ok names,
         cr_non_compliant := cr_non_compliant out @ filter (\<lambda>n. \<not> ok n) names\<rparr>"
  by (induction names arbitrary: out) auto

lemma reevaluate_result:
  fixes r :: check_result and exceptions :: "exception_index option" and project :: string
  defines "names \<equiv> cr_non_compliant r @ cr_exempted r"
    and "b \<equiv> is_exempt exceptions [] (cr_license_id r) []"
    and "ok \<equiv> \<lambda>n. fst (is_exempt exceptions n (cr_license_id r) [project])"
  shows "reevaluate r exceptions project =
     \<lparr>cr_license_id = cr_license_id r, cr_category = cr_category r, cr_package_count = cr_package_count r,
      cr_non_compliant = (if fst b \<or> cr_category r = Permissive then [] else filter (\<lambda>n. \<not> ok n) names),
      cr_exempted = (if fst b then names else if cr_category r = Permissive then [] else filter ok names),
      cr_exemption_reason = (if fst b then snd b else [])\<rparr>"
proof -
  have guard: "(if exceptions \<noteq> None then b else (False, [])) = b"
    by (simp add: b_def)
  show ?thesis
    unfolding reevaluate_def Let_def reevaluate_split
    unfolding names_def [symmetric] b_def [symmetric] guard ok_def
    by (cases "fst b"; cases "cr_category r = Permissive"; simp)
qed

lemmas reevaluate_fields = reevaluate_result [THEN arg_cong [where f = cr_category], simplified]
  reevaluate_result [THEN arg_cong [where f = cr_package_count], simplified]
  reevaluate_result [THEN arg_cong [where f = cr_non_compliant], simplified]
  reevaluate_result [THEN arg_cong [where f = cr_exempted], simplified]
  reevaluate_result [THEN arg_cong [where f = cr_exemption_reason], simplified]

lemma reevaluate_fresh:
  assumes "stored \<in> set (check_with_exceptions p names lics old [project])"
    and "fresh \<in> set (check_with_exceptions p names lics new [project])"
    and "cr_license_id stored = cr_license_id fresh"
  shows "cr_category (reevaluate stored new project) = cr_category fresh \<and>
     cr_package_count (reevaluate stored new project) = cr_package_count fresh \<and>
     mset (cr_non_compliant (reevaluate stored new project)) = mset (cr_non_compliant fresh) \<and>
     (cr_category stored \<noteq> Permissive \<longrightarrow> same_outcome (reevaluate stored new project) fresh)"
proof -
  note s = check_result_fields [OF assms(1)] and f = check_result_fields [OF assms(2)]
  have parts: "mset (cr_non_compliant stored) + mset (cr_exempted stored) =
      mset (packages_of (pair_names names lics) (cr_license_id fresh))"
    if "categorize p (cr_license_id fresh) \<noteq> Permissive"
    using that mset_filter_partition by (simp add: s assms(3) add.commute)
  let ?names = "cr_non_compliant stored @ cr_exempted stored"
  have filtered: "mset (filter P ?names) = mset (filter P (packages_of (pair_names names lics) (cr_license_id fresh)))"
    if "categorize p (cr_license_id fresh) \<noteq> Permissive" for P
    using parts [OF that] by (metis mset_append mset_filter)
  show ?thesis
    using filtered parts
    by (simp add: same_outcome_def same_multiset_iff reevaluate_fields f s(1,2) assms(3) del: filter_append)
qed

subsection \<open>Properties\<close>

text \<open>
  C7: The check reports each license that some package other than a build artifact has, once, with
  its category and the number of its packages; for a license that is not permissive no package
  is lost or listed twice: the non-compliant and the exempted packages together are the packages
  of the license.
\<close>

theorem check_partitions_packages:
  fixes names lics project :: "string list" and p :: policy and exceptions :: "exception_index option"
  defines "input \<equiv> pair_names names lics"
  defines "rs \<equiv> check_with_exceptions p names lics exceptions project"
  shows "distinct (map cr_license_id rs) \<and> set (map cr_license_id rs) = {lic. packages_of input lic \<noteq> []} \<and>
     (\<forall>r \<in> set rs. cr_category r = categorize p (cr_license_id r) \<and>
        cr_package_count r = of_nat (length (packages_of input (cr_license_id r))) \<and>
        (cr_category r \<noteq> Permissive \<longrightarrow>
           mset (cr_non_compliant r) + mset (cr_exempted r) = mset (packages_of input (cr_license_id r))))"
proof (intro conjI ballI)
  show "distinct (map cr_license_id rs)"
    by (simp add: rs_def check_with_exceptions_def run_check_distinct)
  show "set (map cr_license_id rs) = {lic. packages_of input lic \<noteq> []}"
    unfolding rs_def input_def check_with_exceptions_def set_map set_run_check by (auto simp: image_image)
next
  fix r
  assume "r \<in> set rs"
  note fields = check_result_fields [OF this [unfolded rs_def]]
  show "cr_category r = categorize p (cr_license_id r)"
    "cr_package_count r = of_nat (length (packages_of input (cr_license_id r)))"
    by (simp_all add: fields input_def)
  show "cr_category r \<noteq> Permissive \<longrightarrow>
      mset (cr_non_compliant r) + mset (cr_exempted r) = mset (packages_of input (cr_license_id r))"
    using mset_filter_partition by (simp add: fields input_def add.commute)
qed

theorem check_partitions_packages_witness:
  defines "rs \<equiv> check_with_exceptions initial_policy [''a'', ''tmp.abc123'', ''b''] [[], [], []] None []"
  shows "length rs = 1 \<and> mset (cr_non_compliant (hd rs)) + mset (cr_exempted (hd rs)) = {# ''a'', ''b'' #}"
proof -
  have rs: "length rs = 1" "cr_category (hd rs) \<noteq> Permissive" "cr_license_id (hd rs) = []"
    unfolding rs_def by code_simp+
  then have "hd rs \<in> set rs" by (intro hd_in_set) auto
  moreover have "packages_of (pair_names [''a'', ''tmp.abc123'', ''b''] [[], [], []]) [] = [''a'', ''b'']"
    by code_simp
  ultimately have "mset (cr_non_compliant (hd rs)) + mset (cr_exempted (hd rs)) = mset [''a'', ''b'']"
    using check_partitions_packages [where names = "[''a'', ''tmp.abc123'', ''b'']" and lics = "[[], [], []]"
        and p = initial_policy and exceptions = None and project = "[]"] rs
    unfolding rs_def [symmetric] by metis
  with rs show ?thesis by simp
qed

text \<open>
  C8: Under loaded exceptions a package of a license is flagged as a violation exactly when it is not
  a build artifact, its license is not permissive and no approved entry of the exceptions covers
  package, license and project: the shortcut through the blanket decision of the license changes
  no verdict.
\<close>

theorem flagged_iff_uncovered:
  assumes "CHR 0x00 \<notin> set lic" "CHR 0x00 \<notin> set name"
  shows "(\<exists>r \<in> set (check_with_exceptions p names lics (Some (build_index ef)) project).
            cr_license_id r = lic \<and> name \<in> set (cr_non_compliant r)) \<longleftrightarrow>
     (name, lic) \<in> set (pair_names names lics) \<and> \<not> is_go_temp_name name \<and> categorize p lic \<noteq> Permissive \<and>
     \<not> (\<exists>be \<in> set (blankets_of ef). blanket_covers be lic) \<and>
     \<not> (\<exists>exc \<in> set (rules_of ef). rule_covers exc name lic project)"
  (is "?flagged \<longleftrightarrow> _")
proof -
  let ?ex = "is_exempt (Some (build_index ef))" and ?pkgs = "packages_of (pair_names names lics) lic"
  have "?flagged \<longleftrightarrow> name \<in> set ?pkgs \<and> \<not> fst (?ex [] lic []) \<and> categorize p lic \<noteq> Permissive \<and>
      \<not> fst (?ex name lic project)"
  proof
    assume ?flagged
    then show "name \<in> set ?pkgs \<and> \<not> fst (?ex [] lic []) \<and> categorize p lic \<noteq> Permissive \<and>
      \<not> fst (?ex name lic project)"
      by (auto simp: check_result_fields split: if_splits)
  next
    assume "name \<in> set ?pkgs \<and> \<not> fst (?ex [] lic []) \<and> categorize p lic \<noteq> Permissive \<and>
      \<not> fst (?ex name lic project)"
    then show ?flagged
      by (intro bexI [of _ "agg_result (lic, index_agg p (Some (build_index ef)) project lic ?pkgs)"])
         (auto simp: check_results index_agg_fields)
  qed
  moreover have "\<not> fst (?ex name lic project) \<Longrightarrow> \<not> fst (?ex [] lic [])"
    using rules.blanket_all [OF assms(1), of "Some ef"] by auto
  moreover have "name \<in> set ?pkgs \<longleftrightarrow> (name, lic) \<in> set (pair_names names lics) \<and> \<not> is_go_temp_name name"
    by (force simp: packages_of_def)
  ultimately show ?thesis
    using exempt_iff_covered [OF assms(2,1), of ef project] by blast
qed

theorem flagged_iff_uncovered_witness:
  "(\<exists>r \<in> set (check_with_exceptions initial_policy [''foo/bar''] [''GPL-2.0''] (Some (build_index sample_file)) [''beta'']).
            cr_license_id r = ''GPL-2.0'' \<and> ''foo/bar'' \<in> set (cr_non_compliant r)) \<longleftrightarrow>
     (''foo/bar'', ''GPL-2.0'') \<in> set (pair_names [''foo/bar''] [''GPL-2.0'']) \<and> \<not> is_go_temp_name ''foo/bar'' \<and>
     categorize initial_policy ''GPL-2.0'' \<noteq> Permissive \<and>
     \<not> (\<exists>be \<in> set (blankets_of sample_file). blanket_covers be ''GPL-2.0'') \<and>
     \<not> (\<exists>exc \<in> set (rules_of sample_file). rule_covers exc ''foo/bar'' ''GPL-2.0'' [''beta''])"
  by (rule flagged_iff_uncovered) simp_all

text \<open>
  C9: Re-evaluating a stored result under new exceptions gives what a fresh check of the same SBOM
  under the new exceptions gives: the same category and count, the same violations for every
  license, and for every license that is not permissive the same outcome, as \<open>SameOutcome\<close> compares
  them. No re-parsing is needed after a granted or revoked exception.
\<close>

theorem reevaluate_as_fresh_check:
  assumes "stored \<in> set (check_with_exceptions p names lics old [project])"
    and "fresh \<in> set (check_with_exceptions p names lics new [project])"
    and "cr_license_id stored = cr_license_id fresh"
  shows "cr_category (reevaluate stored new project) = cr_category fresh \<and>
     cr_package_count (reevaluate stored new project) = cr_package_count fresh \<and>
     mset (cr_non_compliant (reevaluate stored new project)) = mset (cr_non_compliant fresh) \<and>
     (cr_category stored \<noteq> Permissive \<longrightarrow> same_outcome (reevaluate stored new project) fresh)"
  using assms by (rule reevaluate_fresh)

theorem reevaluate_as_fresh_check_witness:
  defines "idx \<equiv> Some (build_index (sample_file\<lparr>ef_exceptions := Some [sample_rule\<lparr>exc_license := []\<rparr>]\<rparr>))"
  shows "same_outcome
      (reevaluate (hd (check_with_exceptions initial_policy [''foo/bar'', ''q''] [[], []] None [''alpha''])) idx ''alpha'')
      (hd (check_with_exceptions initial_policy [''foo/bar'', ''q''] [[], []] idx [''alpha'']))"
proof -
  let ?a = "check_with_exceptions initial_policy [''foo/bar'', ''q''] [[], []] None [''alpha'']"
  let ?b = "check_with_exceptions initial_policy [''foo/bar'', ''q''] [[], []] idx [''alpha'']"
  have "?a \<noteq> []" "cr_license_id (hd ?a) = []" "cr_category (hd ?a) \<noteq> Permissive"
    by code_simp+
  moreover have "?b \<noteq> []" "cr_license_id (hd ?b) = []"
    unfolding idx_def by code_simp+
  ultimately show ?thesis
    using reevaluate_as_fresh_check [of "hd ?a" initial_policy "[''foo/bar'', ''q'']" "[[], []]" None "''alpha''" "hd ?b" idx]
    by simp
qed

end
