(* ===== verification/License_Source.thy ===== *)
theory License_Source
  imports Prelude
begin

text \<open>
  License provenance and the resolver cache: \<open>backend/internal/license/source.go\<close> (the source
  strings next to each package license, the encoding of negative answers) and \<open>cache.go\<close>
  (\<open>ResolverCache\<close>; the \<open>sync.Map\<close> is a map). \<open>answer_cache\<close> is the contract the resolvers use
  the cache by.
\<close>

subsection \<open>Source strings\<close>

definition source_declared :: string where "source_declared = ''declared''"
definition source_github :: string where "source_github = ''github''"
definition modifier_latest :: string where "modifier_latest = ''latest''"
definition modifier_normalized :: string where "modifier_normalized = ''normalized''"
definition reason_first_party :: string where "reason_first_party = ''first-party''"
definition reason_not_published :: string where "reason_not_published = ''not-published''"
definition reason_no_license_upstream :: string where "reason_no_license_upstream = ''no-license-upstream''"
definition reason_no_purl :: string where "reason_no_purl = ''no-purl''"
definition reason_unsupported :: string where "reason_unsupported = ''unsupported-ecosystem''"
definition reason_unresolved :: string where "reason_unresolved = ''unresolved''"

lemmas reason_defs = reason_first_party_def reason_not_published_def reason_no_license_upstream_def
  reason_no_purl_def reason_unsupported_def reason_unresolved_def

definition negative_marker :: string where "negative_marker = ''!''"

definition negative_cache_value :: "string \<Rightarrow> string" where
  "negative_cache_value reason = (if reason = [] then [] else negative_marker @ reason)"

definition split_cache_value :: "string \<Rightarrow> string \<times> string" where
  "split_cache_value v =
     (if has_prefix v negative_marker then ([], trim_prefix v negative_marker) else (v, []))"

definition with_modifier :: "string \<Rightarrow> string \<Rightarrow> string" where
  "with_modifier source modifier =
     (if source = [] \<or> modifier = [] then source
      else if modifier \<in> set (tl (split_char (CHR ''+'') source)) then source
      else source @ ''+'' @ modifier)"

definition unresolved_reasons :: "string list" where
  "unresolved_reasons =
     [reason_first_party, reason_no_purl, reason_unsupported,
      reason_not_published, reason_no_license_upstream, reason_unresolved]"

definition is_unresolved_reason :: "string \<Rightarrow> bool" where
  "is_unresolved_reason source \<longleftrightarrow> source \<in> set unresolved_reasons"

subsection \<open>The resolver cache\<close>

type_synonym resolver_cache = "string \<rightharpoonup> string"

definition load_value :: "resolver_cache \<Rightarrow> string \<Rightarrow> string \<times> bool" where
  "load_value c key = (case c key of None \<Rightarrow> ([], False) | Some v \<Rightarrow> (v, True))"

definition cache_load :: "resolver_cache \<Rightarrow> string \<Rightarrow> string \<times> string \<times> bool" where
  "cache_load c key =
     (case load_value c key of
        (v, ok) \<Rightarrow> if \<not> ok then ([], [], False)
                   else (case split_cache_value v of (lic, reason) \<Rightarrow> (lic, reason, True)))"

definition store_value :: "string \<Rightarrow> string \<Rightarrow> resolver_cache \<Rightarrow> resolver_cache" where
  "store_value key value c = (if value = [] then c else c(key \<mapsto> value))"

definition store_result :: "string \<Rightarrow> string \<Rightarrow> string \<Rightarrow> resolver_cache \<Rightarrow> resolver_cache" where
  "store_result key lic reason c =
     (if lic \<noteq> [] then store_value key lic c else store_value key (negative_cache_value reason) c)"

definition cache_reason :: "resolver_cache \<Rightarrow> string \<Rightarrow> string" where
  "cache_reason c key = fst (snd (cache_load c key))"

text \<open>The rows of the persisted cache, in the order the map iteration gives them.\<close>

definition preload_cache :: "(string \<times> string) list \<Rightarrow> resolver_cache \<Rightarrow> resolver_cache" where
  "preload_cache rows c = fold (\<lambda>(k, v). store_value k v) rows c"

subsection \<open>Lemmas\<close>

lemma split_negative [simp]: "split_cache_value (negative_cache_value reason) = ([], reason)"
  by (simp add: split_cache_value_def negative_cache_value_def negative_marker_def trim_prefix_def has_prefix_iff)

lemma split_license [simp]: "\<not> has_prefix lic ''!'' \<Longrightarrow> split_cache_value lic = (lic, [])"
  by (simp add: split_cache_value_def negative_marker_def)

lemma split_char_plus:
  assumes "d \<notin> set m"
  shows "split_char d (s @ d # m) = split_char d s @ [m]"
proof -
  have "d \<notin> set w" if "w \<in> set (split_char d s @ [m])" for w
    using that assms set_split_char [of w d s] by auto
  then have "split_char d (join_with [d] (split_char d s @ [m])) = split_char d s @ [m]"
    by (intro split_char_join) auto
  moreover have "ws \<noteq> [] \<Longrightarrow> join_with [d] (ws @ [m]) = join_with [d] ws @ d # m" for ws
  proof (induction ws)
    case (Cons w ws)
    then show ?case by (cases "ws = []") (auto simp: join_with_Cons)
  qed simp
  ultimately show ?thesis
    by (metis join_split_char split_by_nonempty split_char_def)
qed

text \<open>No stored value is empty, and no operation stores one.\<close>

definition cache_ok :: "resolver_cache \<Rightarrow> bool" where
  "cache_ok c \<longleftrightarrow> (\<forall>k. c k \<noteq> Some [])"

lemma cache_ok_empty [simp]: "cache_ok Map.empty"
  by (simp add: cache_ok_def)

lemma cache_ok_store_value [simp]: "cache_ok c \<Longrightarrow> cache_ok (store_value k v c)"
  by (simp add: cache_ok_def store_value_def)

lemma cache_ok_store_result [simp]: "cache_ok c \<Longrightarrow> cache_ok (store_result k l r c)"
  by (simp add: store_result_def)

lemma cache_ok_preload [simp]: "cache_ok c \<Longrightarrow> cache_ok (preload_cache rows c)"
  by (induction rows arbitrary: c) (auto simp: preload_cache_def)

lemma preload_lookup:
  "distinct (map fst rows) \<Longrightarrow>
   preload_cache rows c k = (case map_of rows k of Some v \<Rightarrow> if v = [] then c k else Some v | None \<Rightarrow> c k)"
proof (induction rows arbitrary: c)
  case Nil
  then show ?case by (simp add: preload_cache_def)
next
  case (Cons r rows)
  obtain a v where r: "r = (a, v)" by fastforce
  have step: "preload_cache ((a, v) # rows) c = preload_cache rows (store_value a v c)"
    by (simp add: preload_cache_def)
  have "map_of rows a = None"
    using Cons.prems by (simp add: r map_of_eq_None_iff)
  then show ?case
    using Cons by (cases "k = a") (simp_all add: step r store_value_def split: option.split)
qed

subsection \<open>The cache as the resolvers use it\<close>

text \<open>
  An answer is definite when it is a license (which never starts with the marker of negative
  values) or a reason. Definite answers are found again under their key, other answers leave
  the cache as it was. \<open>ask\<close> is the resolvers' use of it: the cache first, then the registry.
\<close>

definition definite :: "string \<times> string \<Rightarrow> bool" where
  "definite ans \<longleftrightarrow> (if fst ans \<noteq> [] then \<not> has_prefix (fst ans) negative_marker \<and> snd ans = [] else snd ans \<noteq> [])"

lemma definite_simps [simp]:
  "definite ([], r) \<longleftrightarrow> r \<noteq> []" "lic \<noteq> [] \<Longrightarrow> definite (lic, []) \<longleftrightarrow> \<not> has_prefix lic ''!''"
  by (auto simp: definite_def negative_marker_def)

lemma reason_nonempty [simp]:
  "reason_not_published \<noteq> []" "reason_no_license_upstream \<noteq> []"
  by (simp_all add: reason_defs)

locale answer_cache =
  fixes load :: "'c \<Rightarrow> string \<Rightarrow> string \<times> string \<times> bool"
    and store :: "string \<Rightarrow> string \<Rightarrow> string \<Rightarrow> 'c \<Rightarrow> 'c"
  assumes load_store: "definite (lic, reason) \<Longrightarrow>
      load (store k lic reason c) k' = (if k' = k then (lic, reason, True) else load c k')"
    and store_indefinite: "store k [] [] c = c"
begin

definition ask :: "(string \<Rightarrow> string \<times> string) \<Rightarrow> string \<Rightarrow> 'c \<Rightarrow> string \<times> 'c" where
  "ask fetch k c =
     (case load c k of
        (lic, reason, ok) \<Rightarrow>
          if ok then (lic, c) else (case fetch k of (l, r) \<Rightarrow> (l, store k l r c)))"

definition agrees :: "(string \<Rightarrow> string \<times> string) \<Rightarrow> 'c \<Rightarrow> bool" where
  "agrees fetch c \<longleftrightarrow> (\<forall>k lic reason. load c k = (lic, reason, True) \<longrightarrow> fetch k = (lic, reason))"

lemma ask_agrees:
  assumes "agrees fetch c" "definite (fetch k) \<or> fetch k = ([], [])"
  shows "fst (ask fetch k c) = fst (fetch k) \<and> agrees fetch (snd (ask fetch k c))"
proof -
  obtain lic reason ok where l: "load c k = (lic, reason, ok)" by (cases "load c k") auto
  obtain fl fr where f: "fetch k = (fl, fr)" by fastforce
  show ?thesis
  proof (cases ok)
    case True
    with l assms(1) show ?thesis by (simp add: ask_def agrees_def)
  next
    case False
    then have ask: "ask fetch k c = (fl, store k fl fr c)"
      by (simp add: ask_def l f)
    show ?thesis
    proof (cases "definite (fl, fr)")
      case True
      then show ?thesis
        using assms(1) by (auto simp: ask f agrees_def load_store)
    next
      case False
      then show ?thesis
        using assms by (simp add: ask f store_indefinite)
    qed
  qed
qed

lemma ask_twice:
  assumes "definite (fetch k)"
  shows "ask fetch' k (snd (ask fetch k c)) = (fst (ask fetch k c), snd (ask fetch k c))"
  using assms by (cases "fetch k") (auto simp: ask_def load_store split: prod.splits)

end

interpretation cache: answer_cache cache_load store_result
proof
  fix lic reason k k' c
  assume "definite (lic, reason)"
  then show "cache_load (store_result k lic reason c) k' = (if k' = k then (lic, reason, True) else cache_load c k')"
    by (auto simp: definite_def cache_load_def load_value_def store_result_def store_value_def
          negative_cache_value_def negative_marker_def split_cache_value_def trim_prefix_def has_prefix_iff
        split: if_splits)
qed (simp add: store_result_def store_value_def negative_cache_value_def)

subsection \<open>The cache of encoded values\<close>

text \<open>
  The same cache as \<open>LoadValue\<close> and \<open>StoreValue\<close> show it: one encoded value per key, the empty
  value never stored. \<open>ask_value\<close> is a lookup whose answer is stored as it comes, \<open>holds\<close> a cache
  that holds values of \<open>f\<close>.
\<close>

locale value_cache =
  fixes load :: "'c \<Rightarrow> string \<Rightarrow> string \<times> bool"
    and store :: "string \<Rightarrow> string \<Rightarrow> 'c \<Rightarrow> 'c"
  assumes load_stored: "value \<noteq> [] \<Longrightarrow> load (store k value c) k' = (if k' = k then (value, True) else load c k')"
    and store_empty: "store k [] c = c"
begin

definition ask_value :: "(string \<Rightarrow> string) \<Rightarrow> string \<Rightarrow> 'c \<Rightarrow> string \<times> 'c" where
  "ask_value f k c = (case load c k of (v, ok) \<Rightarrow> if ok then (v, c) else (f k, store k (f k) c))"

definition holds :: "(string \<Rightarrow> string) \<Rightarrow> 'c \<Rightarrow> bool" where
  "holds f c \<longleftrightarrow> (\<forall>k v. load c k = (v, True) \<longrightarrow> v = f k)"

lemma holds_store: "holds f c \<Longrightarrow> value = f k \<Longrightarrow> holds f (store k value c)"
  by (cases "value = []") (auto simp: holds_def store_empty load_stored)

lemma holds_stores: "holds f c \<Longrightarrow> (\<And>x. x \<in> set xs \<Longrightarrow> value x = f (key x)) \<Longrightarrow> holds f (fold (\<lambda>x. store (key x) (value x)) xs c)"
  by (rule fold_invariant [where I = "holds f"]) (auto intro: holds_store)

lemma ask_holds:
  assumes "holds f c"
  shows "fst (ask_value f k c) = f k \<and> holds f (snd (ask_value f k c))"
  using assms holds_store [OF assms, of "f k" k]
  by (auto simp: ask_value_def holds_def split: prod.split)

text \<open>A stored value stays, and is found again.\<close>

lemma load_stores:
  assumes "\<And>x. x \<in> set xs \<Longrightarrow> key x = k \<Longrightarrow> value x = v" "v \<noteq> []"
    and "x \<in> set xs \<and> key x = k \<or> load c k = (v, True)"
  shows "load (fold (\<lambda>x. store (key x) (value x)) xs c) k = (v, True)"
  using assms
proof (induction xs arbitrary: c)
  case (Cons y ys)
  have "load (store (key y) (value y) c) k = (v, True)" if "key y = k \<or> load c k = (v, True)"
    using that Cons.prems(1) [of y] Cons.prems(2) by (cases "value y = []") (auto simp: load_stored store_empty)
  then show ?case using Cons by (cases "key y = k \<or> load c k = (v, True)") auto
qed auto

end

interpretation memo: value_cache load_value store_value
  by unfold_locales (simp_all add: load_value_def store_value_def)

subsection \<open>Properties\<close>

text \<open>
  A definite answer stored in a resolver cache survives persisting the cache (its rows in any
  order) and preloading it into a fresh process: the license, or the reason of a negative
  answer, is found again under its key, and every other key answers as before.
\<close>

theorem cache_survives_restart:
  assumes "cache_ok c" "definite (lic, reason)"
    and "distinct (map fst rows)" "map_of rows = store_result k lic reason c"
  shows "cache_load (preload_cache rows Map.empty) k' = (if k' = k then (lic, reason, True) else cache_load c k')"
proof -
  have "cache_ok (map_of rows)"
    unfolding assms(4) using assms(1) by (rule cache_ok_store_result)
  then have "preload_cache rows Map.empty = map_of rows"
    using assms(3) by (auto simp: preload_lookup cache_ok_def split: option.splits intro!: ext)
  then show ?thesis
    by (simp add: assms(4) cache.load_store [OF assms(2)])
qed

theorem cache_survives_restart_witness:
  "cache_load (preload_cache [(''b@2'', ''!not-published''), (''a@1'', ''MIT'')] Map.empty) ''b@2'' =
     ([], ''not-published'', True)"
proof -
  have "cache_load (preload_cache [(''b@2'', ''!not-published''), (''a@1'', ''MIT'')] Map.empty) ''b@2'' =
     (if ''b@2'' = ''b@2'' then ([], ''not-published'', True) else cache_load [''a@1'' \<mapsto> ''MIT''] ''b@2'')"
    by (rule cache_survives_restart)
       (auto simp: cache_ok_def definite_def store_result_def store_value_def negative_cache_value_def
         negative_marker_def)
  then show ?thesis by simp
qed

text \<open>
  Adding a modifier to a license source keeps its origin (the part before the first plus) and
  its earlier modifiers, makes the modifier one of them, and adds it at most once.
\<close>

theorem with_modifier_extends:
  assumes "source \<noteq> []" "modifier \<noteq> []" "CHR ''+'' \<notin> set modifier"
  shows "hd (split_char (CHR ''+'') (with_modifier source modifier)) = hd (split_char (CHR ''+'') source) \<and>
     set (tl (split_char (CHR ''+'') (with_modifier source modifier))) =
       insert modifier (set (tl (split_char (CHR ''+'') source))) \<and>
     with_modifier (with_modifier source modifier) modifier = with_modifier source modifier"
proof -
  let ?parts = "split_char (CHR ''+'') source"
  have ne: "?parts \<noteq> []" by (simp add: split_char_def)
  have ext: "split_char (CHR ''+'') (source @ CHR ''+'' # modifier) = ?parts @ [modifier]"
    using assms(3) by (rule split_char_plus)
  have "with_modifier source modifier = (if modifier \<in> set (tl ?parts) then source else source @ CHR ''+'' # modifier)"
    using assms by (simp add: with_modifier_def)
  moreover have "with_modifier (source @ CHR ''+'' # modifier) modifier = source @ CHR ''+'' # modifier"
    using assms(2) ne by (simp add: with_modifier_def ext)
  ultimately show ?thesis
    using ne by (auto simp: ext)
qed

theorem with_modifier_extends_witness:
  "hd (split_char (CHR ''+'') (with_modifier ''npm+latest'' ''normalized'')) = ''npm''"
  using with_modifier_extends [of "''npm+latest''" "''normalized''"] by (simp add: split_char_def)

end
