(* ===== verification/Npm_Resolver.thy ===== *)
theory Npm_Resolver
  imports License_Source
begin

text \<open>
  The npm license resolver, \<open>backend/internal/npm/resolver.go\<close>: package name and version of a
  purl, the shapes of the registry's license field, and the lookup through the resolver cache.
  HTTP and JSON decoding are outside the source: the registry is a function from the name and
  version asked for to what the client and the decoder return.
\<close>

subsection \<open>Answers of a registry\<close>

text \<open>
  No response (request not built, transport error), or a status and the decoded body (\<open>None\<close>
  when it does not decode).
\<close>

datatype 'a http_response = NoResponse | HttpResponse nat "'a option"

text \<open>
  A raw JSON value as \<open>licenseFromRaw\<close> looks at it: its first byte chooses the case, the field of
  a case is what decoding gives (\<open>None\<close>: a decoder error).
\<close>

datatype raw_license =
    RawAbsent
  | RawNull
  | RawString "string option"
  | RawObject "string option"
  | RawArray "raw_license list option"
  | RawOther

record npm_manifest =
  mf_license :: raw_license
  mf_licenses :: raw_license

subsection \<open>The license field\<close>

definition npm_clean_expression :: "string \<Rightarrow> string" where
  "npm_clean_expression s0 =
     (let s = trim_space s0
      in if s = [] then []
         else let upper = to_upper s
              in if upper = ''UNLICENSED'' \<or> upper = ''NOASSERTION'' \<or> upper = ''NONE'' \<or> has_prefix upper ''SEE LICENSE''
                 then []
                 else if has_prefix s ''('' \<and> has_suffix s '')'' then trim_space (drop 1 (take (length s - 1) s))
                 else s)"

fun license_from_raw :: "raw_license \<Rightarrow> string" where
  "license_from_raw RawAbsent = []"
| "license_from_raw RawNull = []"
| "license_from_raw (RawString s) = (case s of None \<Rightarrow> [] | Some v \<Rightarrow> npm_clean_expression v)"
| "license_from_raw (RawObject t) = (case t of None \<Rightarrow> [] | Some v \<Rightarrow> npm_clean_expression v)"
| "license_from_raw (RawArray a) =
     (case a of
        None \<Rightarrow> []
      | Some items \<Rightarrow> join_with '' OR '' (filter (\<lambda>v. v \<noteq> []) (map license_from_raw items)))"
| "license_from_raw RawOther = []"

definition npm_normalize_license :: "raw_license \<Rightarrow> raw_license \<Rightarrow> string" where
  "npm_normalize_license lic lics = (let v = license_from_raw lic in if v \<noteq> [] then v else license_from_raw lics)"

subsection \<open>Package and version of a purl\<close>

definition extract_npm_package :: "string \<Rightarrow> (string \<times> string) option" where
  "extract_npm_package purl =
     (if \<not> has_prefix purl ''pkg:npm/'' then None
      else
        let rest = before_any (drop 8 purl) ''?#''
        in if rest = [] then None
           else
             let (name0, version0) =
                   (case str_last_index rest ''@'' of
                      Some i \<Rightarrow> if i > 0 then (take i rest, drop (Suc i) rest) else (rest, [])
                    | None \<Rightarrow> (rest, []));
                 name = trim_space (unescape_or_keep name0);
                 version = unescape_or_keep version0
             in if name = [] \<or> contains_str name ''..'' then None
                else if has_prefix name ''@'' \<and> length (filter (\<lambda>c. c = CHR ''/'') name) \<noteq> 1 then None
                else if \<not> has_prefix name ''@'' \<and> contains_str name ''/'' then None
                else Some (name, version))"

definition npm_cache_key :: "string \<Rightarrow> string \<Rightarrow> string" where
  "npm_cache_key name version = (if version = [] then name else name @ ''@'' @ version)"

subsection \<open>The lookup\<close>

definition npm_read_response :: "npm_manifest http_response \<Rightarrow> string \<times> string" where
  "npm_read_response resp =
     (case resp of
        NoResponse \<Rightarrow> ([], [])
      | HttpResponse status body \<Rightarrow>
          if status = 404 then ([], reason_not_published)
          else if status \<noteq> 200 then ([], [])
          else (case body of
                  None \<Rightarrow> ([], [])
                | Some m \<Rightarrow>
                    let lic = npm_normalize_license (mf_license m) (mf_licenses m)
                    in if lic \<noteq> [] then (lic, []) else ([], reason_no_license_upstream)))"

definition npm_fetch_license ::
  "(string \<Rightarrow> string \<Rightarrow> npm_manifest http_response) \<Rightarrow> string \<Rightarrow> string \<Rightarrow> string \<times> string" where
  "npm_fetch_license registry name version =
     npm_read_response (registry name (if version = [] then ''latest'' else version))"

text \<open>\<open>admitted\<close> is the answer of the rate limiter: false when the context ends first.\<close>

definition npm_resolve ::
  "(string \<Rightarrow> string \<Rightarrow> npm_manifest http_response) \<Rightarrow> bool \<Rightarrow> string \<Rightarrow> resolver_cache
     \<Rightarrow> string \<times> resolver_cache" where
  "npm_resolve registry admitted purl c =
     (case extract_npm_package purl of
        None \<Rightarrow> ([], c)
      | Some (name, version) \<Rightarrow>
          (case cache_load c (npm_cache_key name version) of
             (lic, reason, found) \<Rightarrow>
               if found then (lic, c)
               else if \<not> admitted then ([], c)
               else (case npm_fetch_license registry name version of
                       (lic, reason) \<Rightarrow> (lic, store_result (npm_cache_key name version) lic reason c))))"

definition npm_explain :: "resolver_cache \<Rightarrow> string \<Rightarrow> bool \<times> string \<times> bool" where
  "npm_explain c purl =
     (case extract_npm_package purl of
        None \<Rightarrow> (False, [], False)
      | Some (name, version) \<Rightarrow> (True, cache_reason c (npm_cache_key name version), version = []))"


subsection \<open>Lemmas\<close>

text \<open>A key names one package version again, when the name has no at sign but the scope marker.\<close>

definition npm_unkey :: "string \<Rightarrow> string \<times> string" where
  "npm_unkey k =
     (case index_by (\<lambda>c. c = CHR ''@'') (tl k) of
        None \<Rightarrow> (k, []) | Some i \<Rightarrow> (take (Suc i) k, drop (Suc (Suc i)) k))"

lemma npm_unkey_key:
  assumes "name \<noteq> []" "CHR ''@'' \<notin> set (tl name)"
  shows "npm_unkey (npm_cache_key name version) = (name, version)"
proof -
  obtain a n where name: "name = a # n" using assms(1) by (cases name) auto
  have n: "\<forall>c \<in> set n. c \<noteq> CHR ''@''"
    using assms(2) by (auto simp: name)
  show ?thesis
  proof (cases "version = []")
    case True
    then show ?thesis
      using n by (simp add: npm_cache_key_def npm_unkey_def name index_by_None [THEN iffD2])
  next
    case False
    then show ?thesis
      using n by (simp add: npm_cache_key_def npm_unkey_def name index_by_append)
  qed
qed

definition npm_fetch_key :: "(string \<Rightarrow> string \<Rightarrow> npm_manifest http_response) \<Rightarrow> string \<Rightarrow> string \<times> string" where
  "npm_fetch_key registry k = (case npm_unkey k of (name, version) \<Rightarrow> npm_fetch_license registry name version)"

lemma extract_npm_nonempty: "extract_npm_package purl = Some (name, version) \<Longrightarrow> name \<noteq> []"
  by (auto simp: extract_npm_package_def Let_def split: if_splits prod.splits)

lemma npm_resolve_ask:
  assumes "extract_npm_package purl = Some (name, version)" "CHR ''@'' \<notin> set (tl name)"
  shows "npm_resolve registry True purl c = cache.ask (npm_fetch_key registry) (npm_cache_key name version) c"
  using assms npm_unkey_key [OF extract_npm_nonempty [OF assms(1)] assms(2)]
  by (simp add: npm_resolve_def cache.ask_def npm_fetch_key_def split: prod.splits)

lemma npm_fetch_definite:
  "\<not> has_prefix (fst (npm_fetch_license registry name version)) ''!'' \<Longrightarrow>
     definite (npm_fetch_license registry name version) \<or> npm_fetch_license registry name version = ([], [])"
  unfolding npm_fetch_license_def
  by (cases "registry name (if version = [] then ''latest'' else version)")
     (auto simp: npm_read_response_def Let_def split: option.split)

text \<open>
  What the doc comments do not say: the outer parentheses are removed without looking whether
  they belong together, and the values that name no license are recognised only outside them.
\<close>

lemma npm_clean_unbalanced: "npm_clean_expression ''(MIT) OR (ISC)'' = ''MIT) OR (ISC''"
  by code_simp

lemma npm_clean_wrapped_sentinel: "npm_clean_expression ''(UNLICENSED)'' = ''UNLICENSED''"
  by code_simp

text \<open>A name with an encoded at sign shares its key with the version of another package.\<close>

lemma npm_key_collision:
  "extract_npm_package ''pkg:npm/a%40b'' = Some (''a@b'', [])"
  "extract_npm_package ''pkg:npm/a@b'' = Some (''a'', ''b'')"
  "npm_cache_key ''a@b'' [] = npm_cache_key ''a'' ''b''"
  by code_simp+

definition npm_name_char :: "char \<Rightarrow> bool" where
  "npm_name_char c \<longleftrightarrow> is_letter c \<or> is_digit c \<or> List.member ''-_.~'' c"

lemma npm_name_char_plain:
  "npm_name_char c \<Longrightarrow> \<not> go_space c \<and> c \<noteq> CHR ''@'' \<and> c \<noteq> CHR ''/'' \<and> c \<noteq> CHR ''%'' \<and> c \<noteq> CHR ''?'' \<and> c \<noteq> CHR ''#''"
  by (auto simp: npm_name_char_def is_letter_def is_digit_def char_between_def go_space_def)

subsection \<open>Properties\<close>

text \<open>
  The cache of the npm resolver is transparent: as long as it holds answers of the registry, a
  lookup gives the registry's answer for the package version, and the cache goes on holding
  answers of the registry. It needs a package name without an at sign behind the scope marker,
  and no registry answer that starts with the marker of negative values.
\<close>

theorem npm_cache_transparent:
  assumes "extract_npm_package purl = Some (name, version)" "CHR ''@'' \<notin> set (tl name)"
    and "\<not> has_prefix (fst (npm_fetch_license registry name version)) ''!''"
    and "cache.agrees (npm_fetch_key registry) c"
  shows "fst (npm_resolve registry True purl c) = fst (npm_fetch_license registry name version) \<and>
     cache.agrees (npm_fetch_key registry) (snd (npm_resolve registry True purl c))"
proof -
  have key: "npm_fetch_key registry (npm_cache_key name version) = npm_fetch_license registry name version"
    using npm_unkey_key [OF extract_npm_nonempty [OF assms(1)] assms(2)] by (simp add: npm_fetch_key_def)
  show ?thesis
    using cache.ask_agrees [OF assms(4), of "npm_cache_key name version"] npm_fetch_definite [OF assms(3)]
    unfolding npm_resolve_ask [OF assms(1,2)] key by blast
qed

theorem npm_cache_transparent_witness:
  "fst (npm_resolve (\<lambda>n v. HttpResponse 200 (Some \<lparr>mf_license = RawString (Some ''MIT''), mf_licenses = RawAbsent\<rparr>))
      True ''pkg:npm/%40s/n@1'' Map.empty) = ''MIT''"
proof -
  let ?reg = "\<lambda>n v. HttpResponse 200 (Some \<lparr>mf_license = RawString (Some ''MIT''), mf_licenses = RawAbsent\<rparr>)"
  have "extract_npm_package ''pkg:npm/%40s/n@1'' = Some (''@s/n'', ''1'')" by code_simp
  moreover have fetch: "npm_fetch_license ?reg ''@s/n'' ''1'' = (''MIT'', [])" by code_simp
  moreover have "cache.agrees (npm_fetch_key ?reg) Map.empty"
    by (simp add: cache.agrees_def cache_load_def load_value_def)
  ultimately show ?thesis
    using npm_cache_transparent [of "''pkg:npm/%40s/n@1''" "''@s/n''" "''1''" ?reg Map.empty]
    by (simp add: has_prefix_iff)
qed

text \<open>
  The purl of a scoped package, its scope percent-encoded as generators write it, gives back
  scope, name and version, whatever qualifiers and subpath follow.
\<close>

theorem npm_scoped_purl_roundtrip:
  assumes "scope \<noteq> []" "\<forall>c \<in> set (scope @ pkg @ version). npm_name_char c"
    and "\<not> contains_str (''@'' @ scope @ ''/'' @ pkg) ''..''"
    and "rest = [] \<or> hd rest = CHR ''?'' \<or> hd rest = CHR ''#''"
  shows "extract_npm_package (''pkg:npm/%40'' @ scope @ ''/'' @ pkg @ ''@'' @ version @ rest) =
     Some (''@'' @ scope @ ''/'' @ pkg, version)"
proof -
  let ?body = "''%40'' @ scope @ ''/'' @ pkg @ ''@'' @ version"
  let ?name = "''@'' @ scope @ ''/'' @ pkg"
  have plain: "\<forall>c \<in> set scope \<union> set pkg \<union> set version. \<not> go_space c \<and> c \<noteq> CHR ''@'' \<and> c \<noteq> CHR ''/'' \<and>
      c \<noteq> CHR ''%'' \<and> c \<noteq> CHR ''?'' \<and> c \<noteq> CHR ''#''"
    using assms(2) npm_name_char_plain by auto
  have "index_any (?body @ rest) ''?#'' = (if rest = [] then None else Some (length ?body))"
  proof -
    have "\<forall>c \<in> set ?body. c \<notin> set ''?#''"
      using plain by auto
    note index_by_append [OF this, of rest]
    then show ?thesis
      using assms(4) unfolding index_any_def by (cases rest) auto
  qed
  then have cut: "before_any (?body @ rest) ''?#'' = ?body"
    by (simp add: before_any_def)
  have at: "str_last_index ?body ''@'' = Some (length (''%40'' @ scope @ ''/'' @ pkg))"
  proof -
    have body: "?body = (''%40'' @ scope @ ''/'' @ pkg) @ CHR ''@'' # version" by simp
    have "CHR ''@'' \<notin> set version" using plain by blast
    then show ?thesis unfolding body by (rule str_last_index_split)
  qed
  have dec: "unescape_or_keep (''%40'' @ scope @ ''/'' @ pkg) = ?name"
  proof -
    have "CHR ''%'' \<notin> set (scope @ ''/'' @ pkg)" using plain by auto
    then have "path_unescape (scope @ CHR ''/'' # pkg) = Some (scope @ CHR ''/'' # pkg)"
      using path_unescape_plain by simp
    moreover have "hex_value (CHR ''4'') = Some 4" "hex_value (CHR ''0'') = Some 0"
      "char_of (64 :: nat) = CHR ''@''"
      by code_simp+
    ultimately show ?thesis
      by (simp add: unescape_or_keep_def)
  qed
  have "trim_space ?name = ?name"
    using plain by (intro trim_space_plain) (auto simp: go_space_def)
  moreover have "length (filter (\<lambda>c. c = CHR ''/'') ?name) = 1"
  proof -
    have "filter (\<lambda>c. c = CHR ''/'') scope = []" "filter (\<lambda>c. c = CHR ''/'') pkg = []"
      unfolding filter_empty_conv using plain by blast+
    then show ?thesis by simp
  qed
  moreover have "unescape_or_keep version = version"
    by (rule unescape_plain) (use plain in blast)
  moreover have "drop 8 (''pkg:npm/%40'' @ scope @ ''/'' @ pkg @ ''@'' @ version @ rest) = ?body @ rest"
    "has_prefix (''pkg:npm/%40'' @ scope @ ''/'' @ pkg @ ''@'' @ version @ rest) ''pkg:npm/''"
    "has_prefix ?name ''@''" "?body \<noteq> []" "?name \<noteq> []"
    "take (length (''%40'' @ scope @ ''/'' @ pkg)) ?body = ''%40'' @ scope @ ''/'' @ pkg"
    "drop (Suc (length (''%40'' @ scope @ ''/'' @ pkg))) ?body = version"
    by (simp_all add: has_prefix_def)
  ultimately show ?thesis
    using assms(3) unfolding extract_npm_package_def Let_def
    by (simp only: cut at dec if_True if_False option.case prod.case length_append not_False_eq_True
          simp_thms length_greater_0_conv) (simp add: dec [unfolded append.simps])
qed

theorem npm_scoped_purl_roundtrip_witness:
  "extract_npm_package (''pkg:npm/%40'' @ ''istanbuljs'' @ ''/'' @ ''load-nyc-config'' @ ''@'' @ ''1.1.0'' @ ''?x=1'') =
     Some (''@'' @ ''istanbuljs'' @ ''/'' @ ''load-nyc-config'', ''1.1.0'')"
proof (rule npm_scoped_purl_roundtrip)
  show "\<forall>c \<in> set (''istanbuljs'' @ ''load-nyc-config'' @ ''1.1.0''). npm_name_char c" by code_simp
  show "\<not> contains_str (''@'' @ ''istanbuljs'' @ ''/'' @ ''load-nyc-config'') ''..''" by code_simp
qed simp_all

end
