(* ===== verification/Dep_Graph.thy ===== *)
theory Dep_Graph
  imports Prelude "HOL-Library.Word"
begin

text \<open>
  Dependency depths, \<open>backend/internal/depgraph/depth.go\<close>: the breadth-first walk that gives each
  package of an SBOM its distance from the product. Depths are 16-bit words with 65535 as
  \<open>Unknown\<close>, indices 32-bit words as in the parsers' arrays; an index outside the depth array
  (a panic of the code) is \<open>None\<close>. The walk is proved to compute shortest distances.
\<close>

subsection \<open>Scopes\<close>

definition unknown :: "16 word" where
  "unknown = 65535"

definition scope_root :: string where "scope_root = ''root''"
definition scope_direct :: string where "scope_direct = ''direct''"
definition scope_transitive :: string where "scope_transitive = ''transitive''"
definition scope_unknown :: string where "scope_unknown = ''unknown''"

definition scope :: "16 word \<Rightarrow> string" where
  "scope depth =
     (if depth = unknown then scope_unknown
      else if depth = 0 then scope_root
      else if depth = 1 then scope_direct
      else scope_transitive)"

definition depth_of :: "16 word list \<Rightarrow> int \<Rightarrow> 16 word" where
  "depth_of depths idx = (if idx < 0 \<or> idx \<ge> int (length depths) then unknown else depths ! nat idx)"

definition scope_of :: "16 word list \<Rightarrow> int \<Rightarrow> string" where
  "scope_of depths idx = scope (depth_of depths idx)"

definition is_valid_scope :: "string \<Rightarrow> bool" where
  "is_valid_scope s \<longleftrightarrow> s = scope_root \<or> s = scope_direct \<or> s = scope_transitive \<or> s = scope_unknown"

subsection \<open>Relationships\<close>

datatype edge_direction = Ignore | Forward | Backward

definition classify_relationship :: "string \<Rightarrow> edge_direction" where
  "classify_relationship rel_type =
     (let key = to_lower (replace_char (CHR ''_'') [] rel_type)
      in if key \<in> set
           [''dependson'', ''contains'', ''hasprerequisite'', ''prerequisite'', ''staticlink'', ''dynamiclink'',
            ''runtimedependency'', ''builddependency'', ''devdependency'', ''optionaldependency'',
            ''provideddependency'', ''testdependency'', ''optionalcomponent'', ''packageof'', ''packages'']
         then Forward
         else if key \<in> set
           [''dependencyof'', ''runtimedependencyof'', ''builddependencyof'', ''devdependencyof'',
            ''optionaldependencyof'', ''provideddependencyof'', ''testdependencyof'', ''containedby'',
            ''prerequisitefor'']
         then Backward
         else Ignore)"

type_synonym node = "32 word"

text \<open>The parallel arrays, up to the shorter of sources and targets; a missing type is empty.\<close>

fun relationships :: "node list \<Rightarrow> node list \<Rightarrow> string list \<Rightarrow> (node \<times> node \<times> string) list" where
  "relationships (s # ss) (t # ts) tys =
     (s, t, (case tys of [] \<Rightarrow> [] | y # _ \<Rightarrow> y)) # relationships ss ts (case tys of [] \<Rightarrow> [] | _ # ys \<Rightarrow> ys)"
| "relationships _ _ _ = []"

record dep_graph =
  adj :: "node \<Rightarrow> node list"
  in_degree :: "nat list"
  edges :: nat

definition link :: "node \<Rightarrow> node \<Rightarrow> dep_graph \<Rightarrow> dep_graph" where
  "link u v g = g\<lparr>adj := (adj g)(u := adj g u @ [v]),
                  in_degree := (in_degree g)[unat v := in_degree g ! unat v + 1],
                  edges := edges g + 1\<rparr>"

definition add_relationship :: "nat \<Rightarrow> dep_graph \<Rightarrow> node \<times> node \<times> string \<Rightarrow> dep_graph" where
  "add_relationship n g rel =
     (case rel of (src, tgt, ty) \<Rightarrow>
        if unat src \<ge> n \<or> unat tgt \<ge> n \<or> src = tgt then g
        else (case classify_relationship ty of
                Forward \<Rightarrow> link src tgt g
              | Backward \<Rightarrow> link tgt src g
              | Ignore \<Rightarrow> g))"

definition build_graph :: "nat \<Rightarrow> (node \<times> node \<times> string) list \<Rightarrow> dep_graph" where
  "build_graph n rels = foldl (add_relationship n) \<lparr>adj = (\<lambda>_. []), in_degree = replicate n 0, edges = 0\<rparr> rels"

subsection \<open>The walk\<close>

definition depth_at :: "16 word list \<Rightarrow> node \<Rightarrow> 16 word option" where
  "depth_at depths v = (if unat v < length depths then Some (depths ! unat v) else None)"

definition seed :: "nat \<Rightarrow> 16 word \<Rightarrow> 16 word list \<times> node list \<Rightarrow> node \<Rightarrow> 16 word list \<times> node list" where
  "seed n d st r =
     (case st of (depths, queue) \<Rightarrow>
        if unat r < n \<and> depths ! unat r = unknown then (depths[unat r := d], queue @ [r]) else (depths, queue))"

fun visit_children ::
  "16 word list \<Rightarrow> node list \<Rightarrow> 16 word \<Rightarrow> node list \<Rightarrow> (16 word list \<times> node list) option" where
  "visit_children depths queue nxt [] = Some (depths, queue)"
| "visit_children depths queue nxt (child # rest) =
     (case depth_at depths child of
        None \<Rightarrow> None
      | Some d \<Rightarrow>
          if d = unknown then visit_children (depths[unat child := nxt]) (queue @ [child]) nxt rest
          else visit_children depths queue nxt rest)"

definition unknowns :: "16 word list \<Rightarrow> nat" where
  "unknowns depths = length (filter (\<lambda>d. d = unknown) depths)"

lemma unknowns_update:
  "i < length depths \<Longrightarrow> depths ! i = unknown \<Longrightarrow> d \<noteq> unknown \<Longrightarrow> Suc (unknowns (depths[i := d])) = unknowns depths"
proof (induction depths arbitrary: i)
  case (Cons a depths)
  then show ?case by (cases i) (auto simp: unknowns_def)
qed simp

lemma visit_children_measure:
  "visit_children depths queue nxt cs = Some (depths', queue') \<Longrightarrow> nxt \<noteq> unknown \<Longrightarrow>
     length queue' + unknowns depths' = length queue + unknowns depths"
  by (induction depths queue nxt cs rule: visit_children.induct)
     (auto simp: depth_at_def dest!: unknowns_update split: if_splits option.splits)

function bfs :: "(node \<Rightarrow> node list) \<Rightarrow> 16 word list \<Rightarrow> node list \<Rightarrow> 16 word list option" where
  "bfs a depths [] = Some depths"
| "bfs a depths (cur # queue) =
     (case depth_at depths cur of
        None \<Rightarrow> None
      | Some d \<Rightarrow>
          let nxt = d + 1
          in if nxt = unknown then bfs a depths queue
             else (case visit_children depths queue nxt (a cur) of
                     None \<Rightarrow> None
                   | Some (depths', queue') \<Rightarrow> bfs a depths' queue'))"
  by pat_completeness auto
termination
  by (relation "measure (\<lambda>(a, depths, queue). length queue + unknowns depths)")
     (auto dest: visit_children_measure)

text \<open>The candidates of a document without roots: packages nothing depends on that have dependencies.\<close>

definition candidates :: "nat \<Rightarrow> dep_graph \<Rightarrow> nat list" where
  "candidates n g = filter (\<lambda>i. in_degree g ! i = 0 \<and> adj g (of_nat i) \<noteq> []) [0..<n]"

definition compute ::
  "nat \<Rightarrow> node list \<Rightarrow> node list \<Rightarrow> string list \<Rightarrow> node list \<Rightarrow> node list \<Rightarrow> 16 word list option" where
  "compute n rel_sources rel_targets rel_types roots direct_seeds =
     (let depths = replicate n unknown
      in if n = 0 then Some depths
         else
           let g = build_graph n (relationships rel_sources rel_targets rel_types);
               (depths1, queue) = foldl (seed n 1) (foldl (seed n 0) (depths, []) roots) direct_seeds
           in if queue = []
              then (if edges g = 0 then Some depths1
                    else (case candidates n g of
                            [c] \<Rightarrow> bfs (adj g) (depths1[c := 0]) [of_nat c]
                          | _ \<Rightarrow> Some depths1))
              else bfs (adj g) depths1 queue)"

definition min_depth_for_purl :: "string list \<Rightarrow> 16 word list \<Rightarrow> string \<Rightarrow> 16 word" where
  "min_depth_for_purl purls depths purl =
     foldl (\<lambda>best (i, p).
        if p \<noteq> purl then best
        else let d = depth_of depths (int i) in if d < best then d else best)
       unknown (List.enumerate 0 purls)"


subsection \<open>The dependency relation and distances\<close>

definition dep_rel :: "nat \<Rightarrow> (node \<times> node \<times> string) list \<Rightarrow> (node \<times> node) set" where
  "dep_rel n rels = {(u, v). u \<noteq> v \<and> unat u < n \<and> unat v < n \<and>
     (\<exists>ty. (u, v, ty) \<in> set rels \<and> classify_relationship ty = Forward \<or>
           (v, u, ty) \<in> set rels \<and> classify_relationship ty = Backward)}"

lemma build_graph_snoc: "build_graph n (rels @ [r]) = add_relationship n (build_graph n rels) r"
  by (simp add: build_graph_def)

lemma dep_rel_snoc:
  "dep_rel n (rels @ [(s, t, ty)]) = dep_rel n rels \<union>
     (if unat s \<ge> n \<or> unat t \<ge> n \<or> s = t then {}
      else case classify_relationship ty of Forward \<Rightarrow> {(s, t)} | Backward \<Rightarrow> {(t, s)} | Ignore \<Rightarrow> {})"
  by (auto simp: dep_rel_def split: edge_direction.splits)

lemma graph_adj: "set (adj (build_graph n rels) u) = {v. (u, v) \<in> dep_rel n rels}"
proof (induction rels arbitrary: u rule: rev_induct)
  case Nil
  then show ?case by (simp add: build_graph_def dep_rel_def)
next
  case (snoc r rels)
  obtain s t ty where r: "r = (s, t, ty)" by (cases r) auto
  show ?case
    by (auto simp: r build_graph_snoc dep_rel_snoc add_relationship_def link_def snoc split: edge_direction.splits)
qed

lemma graph_edges: "edges (build_graph n rels) = 0 \<longleftrightarrow> dep_rel n rels = {}"
proof (induction rels rule: rev_induct)
  case Nil
  then show ?case by (simp add: build_graph_def dep_rel_def)
next
  case (snoc r rels)
  obtain s t ty where r: "r = (s, t, ty)" by (cases r) auto
  show ?case
    using snoc
    by (auto simp: r build_graph_snoc dep_rel_snoc add_relationship_def link_def split: edge_direction.splits)
qed

lemma graph_in_degree:
  "length (in_degree (build_graph n rels)) = n \<and>
   (\<forall>v. unat v < n \<longrightarrow> (in_degree (build_graph n rels) ! unat v = 0 \<longleftrightarrow> (\<nexists>u. (u, v) \<in> dep_rel n rels)))"
proof (induction rels rule: rev_induct)
  case Nil
  then show ?case by (simp add: build_graph_def dep_rel_def)
next
  case (snoc r rels)
  obtain s t ty where r: "r = (s, t, ty)" by (cases r) auto
  have upd: "(in_degree (build_graph n rels))[unat x := y] ! unat v =
      (if v = x then y else in_degree (build_graph n rels) ! unat v)"
    if "\<not> n \<le> unat x" for x v :: node and y
    using that snoc by (auto simp: nth_list_update word_unat_eq_iff)
  show ?case
    using snoc
    by (auto simp: r build_graph_snoc dep_rel_snoc add_relationship_def link_def upd split: edge_direction.splits)
qed

text \<open>A path of length \<open>k\<close> from a root, or of length \<open>k - 1\<close> from a seed.\<close>

inductive reach :: "(node \<times> node) set \<Rightarrow> node set \<Rightarrow> node set \<Rightarrow> nat \<Rightarrow> node \<Rightarrow> bool"
  for E R S where
  reach_root: "r \<in> R \<Longrightarrow> reach E R S 0 r"
| reach_seed: "s \<in> S \<Longrightarrow> reach E R S 1 s"
| reach_step: "reach E R S k u \<Longrightarrow> (u, v) \<in> E \<Longrightarrow> reach E R S (Suc k) v"

text \<open>The depths known so far, as numbers.\<close>

definition known :: "16 word list \<Rightarrow> node \<Rightarrow> nat option" where
  "known depths v =
     (case depth_at depths v of None \<Rightarrow> None | Some d \<Rightarrow> if d = unknown then None else Some (unat d))"

lemma unat_unknown: "d \<noteq> unknown \<longleftrightarrow> unat d < 65535" for d :: "16 word"
proof -
  have "unat d \<le> 65535"
    using unsigned_less [of d, where ?'a = nat] by simp
  moreover have "d = unknown \<longleftrightarrow> unat d = 65535"
    by (auto simp: unknown_def word_unat_eq_iff)
  ultimately show ?thesis by auto
qed

lemma unat_next: "d \<noteq> unknown \<Longrightarrow> unat (d + 1) = Suc (unat d)" for d :: "16 word"
  by (simp add: unat_word_ariths unat_unknown)

lemma known_bound: "known depths v = Some k \<Longrightarrow> k < 65535 \<and> unat v < length depths"
  by (auto simp: known_def depth_at_def unat_unknown split: option.splits if_splits)

lemma known_update:
  assumes "unat c < length depths" "d \<noteq> unknown"
  shows "known (depths[unat c := d]) = (known depths)(c \<mapsto> unat d)"
  using assms by (auto simp: known_def depth_at_def nth_list_update word_unat_eq_iff intro!: ext)

lemma known_unknown:
  "unat v < length depths \<Longrightarrow> depths ! unat v = unknown \<longleftrightarrow> known depths v = None"
  by (simp add: known_def depth_at_def)

definition fill :: "(node \<rightharpoonup> nat) \<Rightarrow> node set \<Rightarrow> nat \<Rightarrow> (node \<rightharpoonup> nat)" where
  "fill f A k = (\<lambda>v. if f v = None \<and> v \<in> A then Some k else f v)"

lemma fill_known:
  assumes "f c \<noteq> None"
  shows "fill f (insert c A) k = fill f A k" "{v. (v = c \<or> v \<in> A) \<and> f v = None} = {v \<in> A. f v = None}"
  using assms by (auto simp: fill_def intro!: ext)

lemma visit_children_result:
  assumes "nxt \<noteq> unknown" "\<forall>c \<in> set cs. unat c < length depths"
  shows "\<exists>depths' new. visit_children depths queue nxt cs = Some (depths', queue @ new) \<and>
     length depths' = length depths \<and> known depths' = fill (known depths) (set cs) (unat nxt) \<and>
     set new = {v \<in> set cs. known depths v = None}"
  using assms
proof (induction depths queue nxt cs rule: visit_children.induct)
  case (1 depths queue nxt)
  then show ?case by (auto simp: fill_def intro!: ext)
next
  case (2 depths queue nxt child rest)
  have at: "depth_at depths child = Some (depths ! unat child)"
    using "2.prems" by (simp add: depth_at_def)
  show ?case
  proof (cases "depths ! unat child = unknown")
    case True
    from "2.IH"(1) [OF at True] "2.prems" obtain depths' new where
        n: "visit_children (depths[unat child := nxt]) (queue @ [child]) nxt rest = Some (depths', (queue @ [child]) @ new)"
           "length depths' = length depths"
           "known depths' = fill (known (depths[unat child := nxt])) (set rest) (unat nxt)"
           "set new = {v \<in> set rest. known (depths[unat child := nxt]) v = None}"
      by auto
    have "known depths child = None"
      using True "2.prems" by (simp add: known_unknown [symmetric])
    moreover have "known (depths[unat child := nxt]) = (known depths)(child \<mapsto> unat nxt)"
      using "2.prems" by (intro known_update) auto
    moreover have "visit_children depths queue nxt (child # rest) = Some (depths', queue @ (child # new))"
      using n(1) True at by simp
    ultimately show ?thesis
      using n(2-4) by (intro exI [of _ depths'] exI [of _ "child # new"]) (auto simp: fill_def intro!: ext)
  next
    case False
    from "2.IH"(2) [OF at False] "2.prems" obtain depths' new where
        n: "visit_children depths queue nxt rest = Some (depths', queue @ new)"
           "length depths' = length depths" "known depths' = fill (known depths) (set rest) (unat nxt)"
           "set new = {v \<in> set rest. known depths v = None}"
      by auto
    have "known depths child \<noteq> None"
      using False "2.prems" by (simp add: known_unknown [symmetric])
    then have "known depths' = fill (known depths) (set (child # rest)) (unat nxt)"
      "set new = {v \<in> set (child # rest). known depths v = None}"
      using n(3,4) by (simp_all add: fill_known)
    moreover have "visit_children depths queue nxt (child # rest) = Some (depths', queue @ new)"
      using n(1) False at by simp
    ultimately show ?thesis
      using n(2) by blast
  qed
qed


subsection \<open>The invariant of the walk\<close>

text \<open>
  \<open>f\<close> holds the depths known so far. The queue is sorted by depth, no known depth exceeds the
  depth of its head by more than one, and the dependencies of a package that has left the queue
  are at most one deeper than it.
\<close>

definition walk_inv :: "(node \<times> node) set \<Rightarrow> node set \<Rightarrow> node set \<Rightarrow> (node \<rightharpoonup> nat) \<Rightarrow> node list \<Rightarrow> bool" where
  "walk_inv E R S f queue \<longleftrightarrow>
     (\<forall>v k. f v = Some k \<longrightarrow> reach E R S k v) \<and>
     (\<forall>v \<in> set queue. f v \<noteq> None) \<and>
     (\<forall>r \<in> R. f r = Some 0) \<and> (\<forall>s \<in> S. f s = Some 0 \<or> f s = Some 1) \<and>
     sorted (map (\<lambda>v. the (f v)) queue) \<and>
     (queue \<noteq> [] \<longrightarrow> (\<forall>v k. f v = Some k \<longrightarrow> k \<le> Suc (the (f (hd queue))))) \<and>
     (\<forall>u v k. f u = Some k \<and> u \<notin> set queue \<and> (u, v) \<in> E \<and> Suc k < 65535 \<longrightarrow> (\<exists>j \<le> Suc k. f v = Some j))"

lemma walk_invD:
  assumes "walk_inv E R S f queue"
  shows "f v = Some k \<Longrightarrow> reach E R S k v"
    and "r \<in> R \<Longrightarrow> f r = Some 0" and "s \<in> S \<Longrightarrow> f s = Some 0 \<or> f s = Some 1"
    and "f u = Some k \<Longrightarrow> u \<notin> set queue \<Longrightarrow> (u, v) \<in> E \<Longrightarrow> Suc k < 65535 \<Longrightarrow> \<exists>j \<le> Suc k. f v = Some j"
  using assms unfolding walk_inv_def by blast+

lemma walk_inv_queue:
  assumes "walk_inv E R S f queue"
  shows "\<forall>v \<in> set queue. f v \<noteq> None" "sorted (map (\<lambda>v. the (f v)) queue)"
    and "queue \<noteq> [] \<Longrightarrow> f v = Some k \<Longrightarrow> k \<le> Suc (the (f (hd queue)))"
  using assms unfolding walk_inv_def by blast+

lemma walk_inv_step:
  assumes inv: "walk_inv E R S f (cur # queue)" and cur: "f cur = Some d"
    and new: "set new = {v. (cur, v) \<in> E \<and> f v = None}"
  shows "walk_inv E R S (fill f {v. (cur, v) \<in> E} (Suc d)) (queue @ new)"
proof -
  let ?f = "fill f {v. (cur, v) \<in> E} (Suc d)"
  have f: "?f v = Some k \<longleftrightarrow> f v = Some k \<or> f v = None \<and> (cur, v) \<in> E \<and> k = Suc d" for v k
    by (auto simp: fill_def)
  have old: "f v \<noteq> None \<Longrightarrow> ?f v = f v" for v
    by (simp add: fill_def)
  have q: "v \<in> set queue \<Longrightarrow> f v \<noteq> None \<and> d \<le> the (f v) \<and> the (f v) \<le> Suc d" for v
    using inv cur by (fastforce simp: walk_inv_def)
  have max: "f v = Some k \<Longrightarrow> k \<le> Suc d" for v k
    using inv cur by (auto simp: walk_inv_def)
  have new_f: "v \<in> set new \<Longrightarrow> ?f v = Some (Suc d)" for v
    using new by (simp add: fill_def)
  have reached: "?f v = Some k \<Longrightarrow> reach E R S k v" for v k
    using inv cur reach_step [of E R S d cur v] unfolding f walk_inv_def by auto
  have queue_f: "map (\<lambda>v. the (?f v)) queue = map (\<lambda>v. the (f v)) queue"
    using q old by auto
  have sorted: "sorted (map (\<lambda>v. the (?f v)) (queue @ new))"
  proof -
    have "map (\<lambda>v. the (?f v)) new = replicate (length new) (Suc d)"
      unfolding map_replicate_const [symmetric] using new_f by auto
    moreover have "sorted (map (\<lambda>v. the (f v)) queue)"
      using inv by (simp add: walk_inv_def)
    ultimately show ?thesis
      using q unfolding map_append queue_f sorted_append by auto
  qed
  have queued: "v \<in> set (queue @ new) \<Longrightarrow> ?f v \<noteq> None \<and> d \<le> the (?f v)" for v
    using q [of v] new_f [of v] old [of v] by auto
  have near: "queue @ new \<noteq> [] \<Longrightarrow> ?f v = Some k \<Longrightarrow> k \<le> Suc (the (?f (hd (queue @ new))))" for v k
    using queued [OF hd_in_set] max [of v k] unfolding f by fastforce
  have closed: "\<exists>j \<le> Suc k. ?f v = Some j"
    if "?f u = Some k" "u \<notin> set (queue @ new)" "(u, v) \<in> E" "Suc k < 65535" for u v k
  proof (cases "u = cur")
    case True
    then have "k = d" using that(1) cur by (simp add: f)
    with True that(3) max [of v] show ?thesis
      by (cases "f v") (auto simp: f)
  next
    case False
    have "f u = Some k" using that(1,2) new by (auto simp: f)
    with False that inv have "\<exists>j \<le> Suc k. f v = Some j"
      unfolding walk_inv_def by auto
    then show ?thesis by (auto simp: f)
  qed
  have starts: "\<forall>r \<in> R. ?f r = Some 0" "\<forall>s \<in> S. ?f s = Some 0 \<or> ?f s = Some 1"
    using inv by (auto simp: walk_inv_def f)
  show ?thesis
    unfolding walk_inv_def using reached queued starts sorted near closed by blast
qed

lemma walk_inv_skip:
  assumes inv: "walk_inv E R S f (cur # queue)" and cur: "f cur = Some d" and last: "\<not> Suc d < 65535"
  shows "walk_inv E R S f queue"
proof -
  have sorted: "sorted (map (\<lambda>v. the (f v)) (cur # queue))"
    by (rule walk_inv_queue(2) [OF inv])
  have near: "f v = Some k \<Longrightarrow> k \<le> Suc d" for v k
    using walk_inv_queue(3) [OF inv, of v k] cur by simp
  have "k \<le> Suc (the (f (hd queue)))" if "queue \<noteq> []" "f v = Some k" for v k
    using near [OF that(2)] sorted cur hd_in_set [OF that(1)] by fastforce
  moreover have "\<exists>j \<le> Suc k. f v = Some j"
    if "f u = Some k" "u \<notin> set queue" "(u, v) \<in> E" "Suc k < 65535" for u v k
    using walk_invD(4) [OF inv that(1) _ that(3,4)] that cur last by (cases "u = cur") simp_all
  ultimately show ?thesis
    unfolding walk_inv_def using walk_invD(1-3) [OF inv] walk_inv_queue(1) [OF inv] sorted
    by (intro conjI allI impI ballI) (simp_all, blast)
qed

lemma walk_inv_final:
  assumes "walk_inv E R S f []" "\<And>v k. f v = Some k \<Longrightarrow> k < 65535"
  shows "f v = (if \<exists>k < 65535. reach E R S k v then Some (LEAST k. reach E R S k v) else None)"
proof -
  have known: "reach E R S k v \<Longrightarrow> k < 65535 \<Longrightarrow> \<exists>j \<le> k. f v = Some j" for k v
  proof (induction rule: reach.induct)
    case (reach_root r)
    then show ?case using walk_invD(2) [OF assms(1)] by simp
  next
    case (reach_seed s)
    then show ?case using walk_invD(3) [OF assms(1)] by auto
  next
    case (reach_step k u v)
    then obtain j where "j \<le> k" "f u = Some j" by auto
    moreover have "(u, v) \<in> E" "Suc j < 65535"
      using reach_step calculation by auto
    ultimately obtain i where "i \<le> Suc j" "f v = Some i"
      using walk_invD(4) [OF assms(1), of u j v] by auto
    with \<open>j \<le> k\<close> show ?case by auto
  qed
  show ?thesis
  proof (cases "f v")
    case None
    then show ?thesis using known by fastforce
  next
    case (Some k)
    then have "reach E R S k v" "k < 65535"
      using walk_invD(1) [OF assms(1)] assms(2) by auto
    moreover have "j \<ge> k" if "reach E R S j v" for j
      using known [OF that] Some \<open>k < 65535\<close> by (cases "j < 65535") auto
    ultimately have "(LEAST k. reach E R S k v) = k"
      by (intro Least_equality) auto
    with \<open>reach E R S k v\<close> \<open>k < 65535\<close> Some show ?thesis by auto
  qed
qed


lemma bfs_result:
  assumes "walk_inv E R S (known depths) queue"
    and "\<And>u. set (a u) = {v. (u, v) \<in> E}" "\<And>u v. (u, v) \<in> E \<Longrightarrow> unat v < length depths"
  shows "\<exists>depths'. bfs a depths queue = Some depths' \<and> length depths' = length depths \<and>
     walk_inv E R S (known depths') []"
  using assms
proof (induction a depths queue rule: bfs.induct)
  case (1 a depths)
  then show ?case by simp
next
  case (2 a depths cur queue)
  obtain k where k: "known depths cur = Some k"
    using walk_inv_queue(1) [OF "2.prems"(1)] by auto
  then obtain d where d: "depth_at depths cur = Some d" "d \<noteq> unknown" "k = unat d"
    by (auto simp: known_def split: option.splits if_splits)
  have nxt: "d + 1 = unknown \<longleftrightarrow> \<not> Suc k < 65535"
  proof -
    have "unat (d + 1) = Suc (unat d)"
      using d(2) by (rule unat_next)
    then show ?thesis
      using d(2,3) unat_unknown [of "d + 1"] unat_unknown [of d] by auto
  qed
  show ?case
  proof (cases "d + 1 = unknown")
    case True
    have "walk_inv E R S (known depths) queue"
      using walk_inv_skip [OF "2.prems"(1) k] True nxt by simp
    from "2.IH"(1) [OF d(1) refl True this] "2.prems"(2,3) show ?thesis
      using d(1) True by (simp add: Let_def)
  next
    case False
    have range: "\<forall>c \<in> set (a cur). unat c < length depths"
      using "2.prems"(2,3) by auto
    obtain depths' new where v: "visit_children depths queue (d + 1) (a cur) = Some (depths', queue @ new)"
        "length depths' = length depths" "known depths' = fill (known depths) (set (a cur)) (unat (d + 1))"
        "set new = {v \<in> set (a cur). known depths v = None}"
      using visit_children_result [OF False range, of queue] by blast
    have "unat (d + 1) = Suc k"
      using d(2,3) by (simp add: unat_next)
    then have "walk_inv E R S (known depths') (queue @ new)"
      using walk_inv_step [OF "2.prems"(1) k, of new] v "2.prems"(2) by simp
    moreover have "bfs a depths (cur # queue) = bfs a depths' (queue @ new)"
      by (simp only: bfs.simps(2) d(1) option.case Let_def if_not_P [OF False] v(1) prod.case)
    ultimately show ?thesis
      using "2.IH"(2) [OF d(1) refl False v(1) refl] "2.prems"(2,3) v(2) by metis
  qed
qed

lemma seed_fold:
  assumes "d \<noteq> unknown" "length depths = n"
  shows "\<exists>depths' new. foldl (seed n d) (depths, queue) rs = (depths', queue @ new) \<and> length depths' = n \<and>
     known depths' = fill (known depths) {r \<in> set rs. unat r < n} (unat d) \<and>
     set new = {r \<in> set rs. unat r < n \<and> known depths r = None}"
  using assms(2)
proof (induction rs arbitrary: depths queue)
  case Nil
  then show ?case by (auto simp: fill_def)
next
  case (Cons r rs)
  show ?case
  proof (cases "unat r < n \<and> known depths r = None")
    case True
    then have step: "seed n d (depths, queue) r = (depths[unat r := d], queue @ [r])"
      using Cons.prems by (simp add: seed_def known_unknown)
    have known: "known (depths[unat r := d]) = (known depths)(r \<mapsto> unat d)"
      using True Cons.prems assms(1) by (intro known_update) auto
    obtain depths' new where n: "foldl (seed n d) (depths[unat r := d], queue @ [r]) rs = (depths', (queue @ [r]) @ new)"
        "length depths' = n" "known depths' = fill (known (depths[unat r := d])) {r \<in> set rs. unat r < n} (unat d)"
        "set new = {r' \<in> set rs. unat r' < n \<and> known (depths[unat r := d]) r' = None}"
      using Cons.IH [of "depths[unat r := d]" "queue @ [r]"] Cons.prems by auto
    show ?thesis
      using True n unfolding known
      by (intro exI [of _ depths'] exI [of _ "r # new"]) (auto simp: step fill_def intro!: ext)
  next
    case False
    then have step: "seed n d (depths, queue) r = (depths, queue)"
      using Cons.prems by (auto simp: seed_def known_unknown)
    have "fill (known depths) {r' \<in> set (r # rs). unat r' < n} (unat d) =
        fill (known depths) {r' \<in> set rs. unat r' < n} (unat d)"
      "{r' \<in> set (r # rs). unat r' < n \<and> known depths r' = None} = {r' \<in> set rs. unat r' < n \<and> known depths r' = None}"
      using False by (auto simp: fill_def intro!: ext)
    then show ?thesis
      using Cons.IH [OF Cons.prems, of queue] by (simp add: step)
  qed
qed


subsection \<open>What the walk computes\<close>

definition in_range :: "nat \<Rightarrow> node list \<Rightarrow> node set" where
  "in_range n vs = {v \<in> set vs. unat v < n}"

definition source_nodes :: "nat \<Rightarrow> (node \<times> node) set \<Rightarrow> node set" where
  "source_nodes n E = {v. unat v < n \<and> (\<nexists>u. (u, v) \<in> E) \<and> (\<exists>w. (v, w) \<in> E)}"

text \<open>The roots the walk starts from: the given ones, or the only package nothing depends on.\<close>

definition product_roots :: "nat \<Rightarrow> (node \<times> node) set \<Rightarrow> node list \<Rightarrow> node list \<Rightarrow> node set" where
  "product_roots n E roots seeds =
     (if in_range n roots \<union> in_range n seeds \<noteq> {} then in_range n roots
      else if \<exists>c. source_nodes n E = {c} then source_nodes n E else {})"

definition shortest :: "(node \<times> node) set \<Rightarrow> node set \<Rightarrow> node set \<Rightarrow> node \<Rightarrow> nat option" where
  "shortest E R S v = (if \<exists>k < 65535. reach E R S k v then Some (LEAST k. reach E R S k v) else None)"

lemma reach_empty: "reach E {} {} k v \<Longrightarrow> False"
  by (induction rule: reach.induct) auto

lemma shortest_empty: "shortest E {} {} v = None"
  using reach_empty [of E _ v] by (auto simp: shortest_def)

lemma walk_inv_start:
  assumes "\<And>v. f v = (if v \<in> R then Some 0 else if v \<in> S then Some 1 else None)"
    and "set q1 = R" "set q2 = S - R"
  shows "walk_inv E R S f (q1 @ q2)"
proof -
  have depths: "map (\<lambda>v. the (f v)) (q1 @ q2) = replicate (length q1) 0 @ replicate (length q2) 1"
    unfolding map_append map_replicate_const [symmetric] using assms by auto
  have bound: "f v = Some k \<Longrightarrow> k \<le> 1" for v k
    using assms(1) by (auto split: if_splits)
  have queued: "f v \<noteq> None \<longleftrightarrow> v \<in> set (q1 @ q2)" for v
    using assms by auto
  have reached: "f v = Some k \<Longrightarrow> reach E R S k v" for v k
    using assms(1) [of v] reach_root [of v R E S] reach_seed [of v S E R] by (auto split: if_splits)
  have "sorted (map (\<lambda>v. the (f v)) (q1 @ q2))"
    unfolding depths by (auto simp: sorted_append)
  moreover have "f v = Some k \<Longrightarrow> k \<le> Suc j" for v k j
    using bound [of v k] by simp
  moreover have "\<forall>r \<in> R. f r = Some 0" "\<forall>s \<in> S. f s = Some 0 \<or> f s = Some 1"
    using assms(1) by auto
  moreover have "f u = Some k \<Longrightarrow> u \<in> set (q1 @ q2)" for u k
    using queued [of u] by simp
  ultimately show ?thesis
    unfolding walk_inv_def using reached queued by blast
qed

lemma known_initial: "known (replicate n unknown) v = None"
  by (auto simp: known_def depth_at_def)

lemma seeded:
  assumes "foldl (seed n 1) (foldl (seed n 0) (replicate n unknown, []) roots) seeds = (depths, queue)"
  shows "length depths = n" "queue = [] \<longleftrightarrow> in_range n roots \<union> in_range n seeds = {}"
    and "walk_inv E (in_range n roots) (in_range n seeds) (known depths) queue"
proof -
  let ?R = "in_range n roots" and ?S = "in_range n seeds"
  have ne: "(0 :: 16 word) \<noteq> unknown" "(1 :: 16 word) \<noteq> unknown"
    by (simp_all add: unknown_def)
  from seed_fold [OF ne(1), of "replicate n unknown" n "[]" roots] obtain d1 q1 where
      1: "foldl (seed n 0) (replicate n unknown, []) roots = (d1, q1)" "length d1 = n"
         "known d1 = fill (known (replicate n unknown)) ?R 0" "set q1 = ?R"
    by (auto simp: in_range_def known_initial)
  have k1: "known d1 v = (if v \<in> ?R then Some 0 else None)" for v
    by (simp add: 1(3) fill_def known_initial)
  from seed_fold [OF ne(2) 1(2), of q1 seeds] obtain q2 where
      2: "queue = q1 @ q2" "length depths = n" "known depths = fill (known d1) ?S 1"
         and new: "set q2 = {r \<in> set seeds. unat r < n \<and> known d1 r = None}"
    using assms 1(1) by (auto simp: in_range_def)
  have q2: "set q2 = ?S - ?R"
    unfolding new k1 by (auto simp: in_range_def)
  show "length depths = n" by (rule 2(2))
  show "queue = [] \<longleftrightarrow> ?R \<union> ?S = {}"
  proof -
    have "queue = [] \<longleftrightarrow> set q1 \<union> set q2 = {}" by (simp add: 2(1))
    then show ?thesis unfolding 1(4) q2 by blast
  qed
  show "walk_inv E ?R ?S (known depths) queue"
    unfolding 2(1) by (rule walk_inv_start) (auto simp: 2(3) q2 1(4) k1 fill_def)
qed

lemma candidates_sources:
  assumes "n \<le> 2 ^ 32"
  shows "set (map of_nat (candidates n (build_graph n rels))) = source_nodes n (dep_rel n rels)"
proof -
  have word: "unat (of_nat i :: node) = i" if "i < n" for i
    using that assms by (simp add: unat_of_nat)
  show ?thesis
  proof (intro set_eqI iffI)
    fix v :: node
    assume "v \<in> set (map of_nat (candidates n (build_graph n rels)))"
    then obtain i where i: "v = of_nat i" "i < n" "in_degree (build_graph n rels) ! i = 0"
        "adj (build_graph n rels) v \<noteq> []"
      by (auto simp: candidates_def)
    then have "unat v = i" using word by simp
    with i have "unat v < n" "in_degree (build_graph n rels) ! unat v = 0" "set (adj (build_graph n rels) v) \<noteq> {}"
      by simp_all
    then show "v \<in> source_nodes n (dep_rel n rels)"
      using graph_in_degree [of n rels] unfolding graph_adj by (auto simp: source_nodes_def)
  next
    fix v
    assume v: "v \<in> source_nodes n (dep_rel n rels)"
    then have "in_degree (build_graph n rels) ! unat v = 0" "adj (build_graph n rels) v \<noteq> []" "unat v < n"
      using graph_in_degree [of n rels] graph_adj [of n rels v] by (auto simp: source_nodes_def)
    then have "unat v \<in> set (candidates n (build_graph n rels))"
      by (simp add: candidates_def)
    then show "v \<in> set (map of_nat (candidates n (build_graph n rels)))"
      by (force intro: image_eqI [of _ _ "unat v"])
  qed
qed

lemma candidates_distinct:
  assumes "n \<le> 2 ^ 32"
  shows "distinct (map of_nat (candidates n g) :: node list)"
proof -
  have "inj_on (of_nat :: nat \<Rightarrow> node) {..<n}"
  proof (rule inj_onI)
    fix i j
    assume "i \<in> {..<n}" "j \<in> {..<n}" "(of_nat i :: node) = of_nat j"
    then have "unat (of_nat i :: node) = unat (of_nat j :: node)" by simp
    with \<open>i \<in> {..<n}\<close> \<open>j \<in> {..<n}\<close> assms show "i = j" by (simp add: unat_of_nat)
  qed
  then show ?thesis
    by (auto simp: distinct_map candidates_def inj_on_def)
qed


lemma bfs_shortest:
  fixes n :: nat and rels :: "(node \<times> node \<times> string) list"
  defines "E \<equiv> dep_rel n rels"
  assumes "walk_inv E R S (known depths) queue" "length depths = n"
  shows "\<exists>depths'. bfs (adj (build_graph n rels)) depths queue = Some depths' \<and> length depths' = n \<and>
     (\<forall>v. known depths' v = shortest E R S v)"
proof -
  obtain depths' where d: "bfs (adj (build_graph n rels)) depths queue = Some depths'" "length depths' = n"
      "walk_inv E R S (known depths') []"
    using bfs_result [OF assms(2), of "adj (build_graph n rels)"] assms(3)
    by (auto simp: graph_adj E_def dep_rel_def)
  moreover have "known depths' v = shortest E R S v" for v
    unfolding shortest_def by (rule walk_inv_final [OF d(3)]) (auto dest: known_bound)
  ultimately show ?thesis by blast
qed

lemma depth_from_known:
  assumes "unat v < length depths"
  shows "depths ! unat v = (case known depths v of Some k \<Rightarrow> of_nat k | None \<Rightarrow> unknown)"
  using assms by (simp add: known_def depth_at_def)

lemma walk_inv_single: "walk_inv E {c} {} [c \<mapsto> 0] [c]"
  using walk_inv_start [of "[c \<mapsto> 0]" "{c}" "{}" "[c]" "[]" E] by simp

lemma source_singleton:
  assumes "n \<le> 2 ^ 32"
  shows "(\<exists>i. candidates n (build_graph n rels) = [i]) \<longleftrightarrow> (\<exists>c. source_nodes n (dep_rel n rels) = {c})"
proof -
  let ?vs = "map of_nat (candidates n (build_graph n rels)) :: node list"
  have "(\<exists>i. candidates n (build_graph n rels) = [i]) \<longleftrightarrow> length ?vs = 1"
    by (simp add: length_Suc_conv)
  also have "\<dots> \<longleftrightarrow> card (set ?vs) = 1"
    using distinct_card [OF candidates_distinct [OF assms]] by metis
  also have "\<dots> \<longleftrightarrow> (\<exists>c. source_nodes n (dep_rel n rels) = {c})"
    unfolding candidates_sources [OF assms] by (simp add: card_1_singleton_iff)
  finally show ?thesis .
qed

lemma compute_result:
  fixes n :: nat and srcs tgts roots seeds :: "node list" and tys :: "string list"
  assumes n: "n \<le> 2 ^ 32"
  defines "E \<equiv> dep_rel n (relationships srcs tgts tys)"
  shows "\<exists>depths. compute n srcs tgts tys roots seeds = Some depths \<and> length depths = n \<and>
     (\<forall>v. known depths v = shortest E (product_roots n E roots seeds) (in_range n seeds) v)"
proof -
  let ?rels = "relationships srcs tgts tys" and ?R = "in_range n roots" and ?S = "in_range n seeds"
  let ?g = "build_graph n ?rels"
  obtain depths queue where
      seeds: "foldl (seed n 1) (foldl (seed n 0) (replicate n unknown, []) roots) seeds = (depths, queue)"
    by fastforce
  note start = seeded [OF seeds]
  show ?thesis
  proof (cases "n = 0")
    case True
    then have "product_roots n E roots seeds = {}" "?S = {}"
      by (auto simp: product_roots_def in_range_def source_nodes_def)
    with True show ?thesis
      by (auto simp: compute_def shortest_empty known_def depth_at_def)
  next
    case nonempty: False
    show ?thesis
    proof (cases "queue = []")
      case False
      then have "product_roots n E roots seeds = ?R"
        using start(2) by (simp add: product_roots_def)
      then show ?thesis
        using bfs_shortest [OF start(3) start(1), of ?rels] nonempty False seeds
        by (simp add: compute_def Let_def E_def)
    next
      case True
      then have none: "?R \<union> ?S = {}" using start(2) by simp
      have f0: "known depths v = None" for v
        using walk_invD(1) [OF start(3) [of E], of v] reach_empty [of E _ v] none by (cases "known depths v") auto
      have compute: "compute n srcs tgts tys roots seeds =
          (if edges ?g = 0 then Some depths
           else (case candidates n ?g of [c] \<Rightarrow> bfs (adj ?g) (depths[c := 0]) [of_nat c] | _ \<Rightarrow> Some depths))"
        using nonempty True seeds by (simp add: compute_def Let_def)
      show ?thesis
      proof (cases "\<exists>c. source_nodes n E = {c}")
        case True
        then obtain c where c: "candidates n ?g = [c]"
          using source_singleton [OF n] unfolding E_def by blast
        then have node: "source_nodes n E = {of_nat c}"
          using candidates_sources [OF n, of ?rels] unfolding E_def by simp
        have "c \<in> set (candidates n ?g)" by (simp add: c)
        then have "c < n" by (simp add: candidates_def)
        then have unat: "unat (of_nat c :: node) = c"
          using n by (simp add: unat_of_nat)
        have "edges ?g \<noteq> 0"
          using node unfolding E_def graph_edges by (auto simp: source_nodes_def)
        moreover have "known (depths[c := 0]) = [of_nat c \<mapsto> 0]"
          using known_update [of "of_nat c" depths 0] f0 \<open>c < n\<close> start(1)
          by (auto simp: unat unknown_def intro!: ext)
        ultimately show ?thesis
          using bfs_shortest [of n ?rels "{of_nat c}" "{}" "depths[c := 0]" "[of_nat c]"] walk_inv_single start(1)
            none node True
          by (simp add: compute c product_roots_def E_def)
      next
        case False
        then have "\<nexists>c. candidates n ?g = [c]"
          using source_singleton [OF n] unfolding E_def by blast
        then have "compute n srcs tgts tys roots seeds = Some depths"
          unfolding compute by (auto split: list.split)
        moreover have "product_roots n E roots seeds = {}" "?S = {}"
          using False none by (simp_all add: product_roots_def)
        ultimately show ?thesis
          using f0 start(1) by (simp add: shortest_empty)
      qed
    qed
  qed
qed

subsection \<open>Properties\<close>

text \<open>
  C10: The depth of every package is the length of its shortest dependency path: from the product's
  roots (depth 0) or from the packages the product depends on directly (depth 1), or, when the
  document names neither, from the only package nothing depends on; a package without such a
  path, or only with paths of 65535 steps and more, is unknown. The walk never leaves the arrays.
\<close>

theorem compute_shortest_distances:
  fixes n :: nat and srcs tgts roots seeds :: "node list" and tys :: "string list"
  assumes "n \<le> 2 ^ 32"
  defines "E \<equiv> dep_rel n (relationships srcs tgts tys)"
  shows "\<exists>depths. compute n srcs tgts tys roots seeds = Some depths \<and> length depths = n \<and>
     (\<forall>v. unat v < n \<longrightarrow>
        depths ! unat v =
          (case shortest E (product_roots n E roots seeds) (in_range n seeds) v of
             Some k \<Rightarrow> of_nat k | None \<Rightarrow> unknown))"
  using compute_result [OF assms(1), of srcs tgts tys roots seeds] unfolding E_def
  by (metis depth_from_known)

theorem compute_shortest_distances_witness:
  "\<exists>depths. compute 3 [0, 1] [1, 2] [''DEPENDS_ON'', ''CONTAINS''] [0] [] = Some depths \<and> length depths = 3"
  using compute_shortest_distances [of 3 "[0, 1]" "[1, 2]" "[''DEPENDS_ON'', ''CONTAINS'']" "[0]" "[]"] by auto

text \<open>
  The depth of a package URL is the smallest depth among the packages that carry it: no such
  package is nearer, and unless it is unknown one of them has exactly this depth.
\<close>

theorem min_depth_is_minimum:
  fixes purls :: "string list" and depths :: "16 word list" and purl :: string
  defines "d \<equiv> min_depth_for_purl purls depths purl"
  shows "(\<forall>i < length purls. purls ! i = purl \<longrightarrow> d \<le> depth_of depths (int i)) \<and>
     (d = unknown \<or> (\<exists>i < length purls. purls ! i = purl \<and> d = depth_of depths (int i)))"
proof -
  define step where "step = (\<lambda>best (i, p). if p \<noteq> purl then best
        else let d = depth_of depths (int i) in if d < best then d else best)"
  have step: "step best (i, p) \<le> best" "p = purl \<Longrightarrow> step best (i, p) \<le> depth_of depths (int i)"
    "step best (i, p) = best \<or> p = purl \<and> step best (i, p) = depth_of depths (int i)" for best i p
    by (auto simp: step_def Let_def)
  have fold: "foldl step best ips \<le> best \<and>
      (\<forall>i p. (i, p) \<in> set ips \<longrightarrow> p = purl \<longrightarrow> foldl step best ips \<le> depth_of depths (int i)) \<and>
      (foldl step best ips = best \<or> (\<exists>i. (i, purl) \<in> set ips \<and> foldl step best ips = depth_of depths (int i)))"
    for best ips
  proof (induction ips arbitrary: best)
    case (Cons ip ips)
    obtain i p where ip: "ip = (i, p)" by fastforce
    show ?case
      using Cons [of "step best ip"] step(1,3) [where best = best and i = i and p = p] step(2) [where best = best and i = i and p = p] unfolding ip by (auto intro: order_trans)
  qed simp
  have "d = foldl step unknown (List.enumerate 0 purls)"
    by (simp add: d_def min_depth_for_purl_def step_def)
  then show ?thesis
    using fold [of unknown "List.enumerate 0 purls"] by (auto simp: in_set_enumerate_eq)
qed

theorem min_depth_is_minimum_witness:
  "min_depth_for_purl [''a'', ''b'', ''a''] [3, 1, 2] ''a'' \<le> 2"
proof -
  have "depth_of [3, 1, 2] (int 2) = (2 :: 16 word)"
    by (simp add: depth_of_def)
  then show ?thesis
    using min_depth_is_minimum [where purls = "[''a'', ''b'', ''a'']" and purl = "''a''" and depths = "[3, 1, 2]"]
    by (auto dest: spec [of _ 2])
qed

end
