(* ===== verification/Tags.thy ===== *)
theory Tags
  imports Prelude
begin

text \<open>
  Grouping tags, \<open>backend/internal/tags/tags.go\<close>: the normalisation every entry point of tags goes
  through. Go's nil and empty slices are both the empty list.
\<close>

definition max_len :: nat where "max_len = 64"
definition max_count :: nat where "max_count = 32"

text \<open>What the loop makes of one raw tag; empty tags are skipped.\<close>

definition clean_tag :: "string \<Rightarrow> string" where
  "clean_tag t0 =
     (let t = to_lower (trim_space t0) in if length t > max_len then take max_len t else t)"

fun normalize_tags_loop :: "string list \<Rightarrow> string list \<Rightarrow> string list" where
  "normalize_tags_loop out [] = out"
| "normalize_tags_loop out (t0 # raw) =
     (let t = clean_tag t0
      in if t = [] then normalize_tags_loop out raw
         else if t \<in> set out then normalize_tags_loop out raw
         else let out' = out @ [t]
              in if length out' = max_count then out' else normalize_tags_loop out' raw)"

definition normalize_tags :: "string list \<Rightarrow> string list" where
  "normalize_tags raw = sort (normalize_tags_loop [] raw)"

definition parse_tags :: "string \<Rightarrow> string list" where
  "parse_tags s = (if trim_space s = [] then [] else normalize_tags (split_char (CHR '','') s))"

definition merge_tags :: "string list list \<Rightarrow> string list" where
  "merge_tags tag_lists = normalize_tags (foldl (\<lambda>all l. all @ l) [] tag_lists)"

subsection \<open>Lemmas\<close>

definition tags_of :: "string list \<Rightarrow> string set" where
  "tags_of raw = clean_tag ` set raw - {[]}"

lemma clean_tag_bound: "length (clean_tag t) \<le> max_len"
  by (simp add: clean_tag_def Let_def)

lemma clean_tag_lower: "to_lower (clean_tag t) = clean_tag t"
  by (simp add: clean_tag_def Let_def to_lower_take)

lemma normalize_tags_loop_result:
  assumes "distinct out" "length out < max_count"
  shows "distinct (normalize_tags_loop out raw) \<and> set (normalize_tags_loop out raw) \<subseteq> set out \<union> tags_of raw \<and>
     length (normalize_tags_loop out raw) \<le> max_count \<and>
     (length (normalize_tags_loop out raw) < max_count \<longrightarrow> set (normalize_tags_loop out raw) = set out \<union> tags_of raw)"
  using assms
proof (induction out raw rule: normalize_tags_loop.induct)
  case (1 out)
  then show ?case by (simp add: tags_of_def)
next
  case (2 out t0 raw)
  have tags: "tags_of (t0 # raw) = (if clean_tag t0 = [] then {} else {clean_tag t0}) \<union> tags_of raw"
    by (auto simp: tags_of_def)
  consider "clean_tag t0 = []" | "clean_tag t0 \<noteq> []" "clean_tag t0 \<in> set out"
    | "clean_tag t0 \<noteq> []" "clean_tag t0 \<notin> set out" "length (out @ [clean_tag t0]) = max_count"
    | "clean_tag t0 \<noteq> []" "clean_tag t0 \<notin> set out" "length (out @ [clean_tag t0]) < max_count"
    using "2.prems" by fastforce
  then show ?case
  proof cases
    case 1
    with "2.IH"(1) [OF refl] "2.prems" show ?thesis by (simp add: tags)
  next
    case 2
    with "2.IH"(2) [OF refl] "2.prems" show ?thesis by (auto simp: tags)
  next
    case 3
    then have "normalize_tags_loop out (t0 # raw) = out @ [clean_tag t0]"
      by (simp add: Let_def)
    with 3 "2.prems" show ?thesis by (auto simp: tags)
  next
    case 4
    then have eq: "normalize_tags_loop out (t0 # raw) = normalize_tags_loop (out @ [clean_tag t0]) raw"
      by (simp add: Let_def)
    from 4 "2.IH"(3) [OF refl _ _ refl] "2.prems" show ?thesis
      unfolding eq by (simp add: tags Un_assoc [symmetric])
  qed
qed

lemma normalize_tags_facts:
  "distinct (normalize_tags raw)" "set (normalize_tags raw) \<subseteq> tags_of raw"
  "length (normalize_tags raw) \<le> max_count" "sorted (normalize_tags raw)"
  using normalize_tags_loop_result [of "[]" raw] by (simp_all add: normalize_tags_def max_count_def)

lemma normalize_tags_complete:
  assumes "card (tags_of raw) < max_count"
  shows "set (normalize_tags raw) = tags_of raw"
proof -
  let ?out = "normalize_tags_loop [] raw"
  have r: "distinct ?out" "set ?out \<subseteq> tags_of raw" "length ?out < max_count \<longrightarrow> set ?out = tags_of raw"
    using normalize_tags_loop_result [of "[]" raw] by (simp_all add: max_count_def)
  have "finite (tags_of raw)" by (simp add: tags_of_def)
  then have "length ?out \<le> card (tags_of raw)"
    using r(1,2) card_mono by (metis distinct_card)
  then show ?thesis using r(3) assms by (simp add: normalize_tags_def)
qed

lemma merge_tags_append: "merge_tags tag_lists = normalize_tags (concat tag_lists)"
proof -
  have "foldl (\<lambda>all l. all @ l) acc tag_lists = acc @ concat tag_lists" for acc
    by (induction tag_lists arbitrary: acc) auto
  then show ?thesis by (simp add: merge_tags_def)
qed

text \<open>
  What the documentation does not say: a tag cut at the length limit may end in a space, and is
  then normalised to another tag the next time; and beyond the count limit the order of the
  raw tags decides which of them stay.
\<close>

lemma truncated_tag_not_stable:
  defines "t \<equiv> replicate 63 (CHR ''a'') @ '' b''"
  shows "clean_tag (clean_tag t) \<noteq> clean_tag t"
  unfolding t_def by code_simp

subsection \<open>Properties\<close>

text \<open>
  C34: Normalised tags are a sorted list without duplicates of at most 32 nonempty lower-case tags of
  at most 64 bytes, each the cleaned form of some raw tag.
\<close>

theorem normalize_tags_wellformed:
  "sorted (normalize_tags raw) \<and> distinct (normalize_tags raw) \<and> length (normalize_tags raw) \<le> 32 \<and>
   (\<forall>t \<in> set (normalize_tags raw). t \<noteq> [] \<and> length t \<le> 64 \<and> to_lower t = t \<and> t \<in> clean_tag ` set raw)"
  using normalize_tags_facts [of raw] clean_tag_bound clean_tag_lower
  by (auto simp: max_count_def max_len_def tags_of_def)

theorem normalize_tags_wellformed_witness:
  "sorted (normalize_tags ['' B '', ''a'', ''b'']) \<and> distinct (normalize_tags ['' B '', ''a'', ''b''])"
  using normalize_tags_wellformed [of "['' B '', ''a'', ''b'']"] by blast

text \<open>
  Below the count limit no tag is lost and the result depends only on the set of cleaned tags:
  two lists that name the same tags, in any order, with any repetition, casing and surrounding
  white space, normalise to equal rows, and so do lists merged in any order.
\<close>

theorem normalize_tags_canonical:
  assumes "card (tags_of raw) < 32" "tags_of raw' = tags_of raw"
  shows "set (normalize_tags raw) = tags_of raw \<and> normalize_tags raw' = normalize_tags raw \<and>
     merge_tags [raw', raw] = merge_tags [raw, raw']"
proof -
  have canonical: "normalize_tags xs = normalize_tags ys"
    if "card (tags_of xs) < 32" "tags_of ys = tags_of xs" for xs ys
  proof (rule sorted_distinct_mset_unique)
    have "set (normalize_tags xs) = set (normalize_tags ys)"
      using that normalize_tags_complete [of xs] normalize_tags_complete [of ys] by (simp add: max_count_def)
    then show "mset (normalize_tags xs) = mset (normalize_tags ys)"
      using normalize_tags_facts(1) set_eq_iff_mset_eq_distinct by blast
  qed (rule normalize_tags_facts)+
  have "tags_of (raw' @ raw) = tags_of raw" "tags_of (raw @ raw') = tags_of raw"
    using assms(2) by (auto simp: tags_of_def)
  then have "merge_tags [raw', raw] = merge_tags [raw, raw']"
    using assms(1) canonical [of "raw' @ raw" "raw @ raw'"] by (simp add: merge_tags_append)
  moreover have "normalize_tags raw' = normalize_tags raw"
    using assms by (intro canonical [symmetric])
  moreover have "set (normalize_tags raw) = tags_of raw"
    using assms(1) by (intro normalize_tags_complete) (simp add: max_count_def)
  ultimately show ?thesis by blast
qed

theorem normalize_tags_canonical_witness:
  "normalize_tags [''Team-A'', '' x '', ''team-a''] = normalize_tags [''X'', ''team-a'']"
proof -
  have "tags_of [''X'', ''team-a''] = {''x'', ''team-a''}" "tags_of [''Team-A'', '' x '', ''team-a''] = {''x'', ''team-a''}"
  proof -
    have "clean_tag ''X'' = ''x''" "clean_tag ''team-a'' = ''team-a''" "clean_tag ''Team-A'' = ''team-a''" "clean_tag '' x '' = ''x''"
      by code_simp+
    then show "tags_of [''X'', ''team-a''] = {''x'', ''team-a''}"
      "tags_of [''Team-A'', '' x '', ''team-a''] = {''x'', ''team-a''}"
      by (auto simp: tags_of_def)
  qed
  moreover have "card {''x'', ''team-a''} < 32" by simp
  ultimately show ?thesis
    using normalize_tags_canonical [of "[''X'', ''team-a'']" "[''Team-A'', '' x '', ''team-a'']"] by metis
qed

end
