(* ===== verification/Ingest_Path.thy ===== *)
theory Ingest_Path
  imports Prelude
begin

text \<open>
  Ownership dimensions from object paths, \<open>backend/internal/ingestpath/ingestpath.go\<close>: parsing
  the configured layout, deriving cluster, namespace, project, parent and tags of a key, and
  filling what configuration left open.
\<close>

definition token_cluster :: string where "token_cluster = ''cluster''"
definition token_namespace :: string where "token_namespace = ''namespace''"
definition token_project :: string where "token_project = ''project''"
definition token_parent :: string where "token_parent = ''parent''"
definition token_tag :: string where "token_tag = ''tag''"
definition token_file :: string where "token_file = ''file''"
definition token_skip :: string where "token_skip = ''_''"

lemmas token_defs = token_cluster_def token_namespace_def token_project_def token_parent_def
  token_tag_def token_file_def token_skip_def

record attributes =
  at_cluster :: string
  at_namespace :: string
  at_project :: string
  at_parent :: string
  at_tags :: "string list"

definition no_attributes :: attributes where
  "no_attributes = \<lparr>at_cluster = [], at_namespace = [], at_project = [], at_parent = [], at_tags = []\<rparr>"

record layout =
  ly_segments :: "string list"
  ly_file_project :: bool

definition layout_enabled :: "layout \<Rightarrow> bool" where
  "layout_enabled l \<longleftrightarrow> ly_segments l \<noteq> []"

definition layout_string :: "layout \<Rightarrow> string" where
  "layout_string l = join_with ''/'' (ly_segments l)"

subsection \<open>Parsing a layout\<close>

datatype layout_error = EmptySegment | DuplicateSegment string | FileNotLast | FileAndProject | UnknownSegment string

text \<open>\<open>i\<close> of \<open>n\<close> raw segments are done; \<open>seen\<close> holds the dimensions met so far.\<close>

fun parse_segments ::
  "nat \<Rightarrow> nat \<Rightarrow> string set \<Rightarrow> string list \<Rightarrow> string list \<Rightarrow> layout_error + string list" where
  "parse_segments n i seen segments [] = Inr segments"
| "parse_segments n i seen segments (s0 # raw) =
     (let s = to_lower (trim_space s0)
      in if s = [] then Inl EmptySegment
         else if s \<in> {token_cluster, token_namespace, token_project, token_parent}
         then (if s \<in> seen then Inl (DuplicateSegment s)
               else parse_segments n (Suc i) (insert s seen) (segments @ [s]) raw)
         else if s = token_file
         then (if int i \<noteq> int n - 1 then Inl FileNotLast
               else if token_project \<in> seen then Inl FileAndProject
               else parse_segments n (Suc i) (insert token_project seen) (segments @ [s]) raw)
         else if s \<in> {token_skip, token_tag} then parse_segments n (Suc i) seen (segments @ [s]) raw
         else Inl (UnknownSegment s))"

definition parse_layout :: "string \<Rightarrow> layout_error + layout" where
  "parse_layout spec0 =
     (let spec = trim_by (\<lambda>c. c = CHR ''/'') (trim_space spec0)
      in if spec = [] then Inr \<lparr>ly_segments = [], ly_file_project = False\<rparr>
         else let raw = split_char (CHR ''/'') spec
              in (case parse_segments (length raw) 0 {} [] raw of
                    Inl e \<Rightarrow> Inl e
                  | Inr segments \<Rightarrow>
                      Inr \<lparr>ly_segments = segments, ly_file_project = (last segments = token_file)\<rparr>))"

subsection \<open>Deriving attributes\<close>

definition meaningful_segments :: "string \<Rightarrow> string list" where
  "meaningful_segments key =
     filter (\<lambda>p. p \<noteq> [] \<and> p \<noteq> ''.'' \<and> p \<noteq> ''..'')
       (map trim_space (split_char (CHR ''/'') (replace_char (CHR 0x5C) ''/'' key)))"

definition split_path :: "string \<Rightarrow> string list \<times> string" where
  "split_path key =
     (let cleaned = meaningful_segments key
      in if cleaned = [] then ([], []) else (butlast cleaned, last cleaned))"

definition strip_extensions :: "string \<Rightarrow> string" where
  "strip_extensions file = (case str_index file ''.'' of Some i \<Rightarrow> take i file | None \<Rightarrow> file)"

definition assign_token :: "attributes \<Rightarrow> string \<times> string \<Rightarrow> attributes" where
  "assign_token attrs td =
     (case td of (token, dir) \<Rightarrow>
        if token = token_cluster then attrs\<lparr>at_cluster := dir\<rparr>
        else if token = token_namespace then attrs\<lparr>at_namespace := dir\<rparr>
        else if token = token_project then attrs\<lparr>at_project := dir\<rparr>
        else if token = token_parent then attrs\<lparr>at_parent := dir\<rparr>
        else if token = token_tag then attrs\<lparr>at_tags := at_tags attrs @ [dir]\<rparr>
        else attrs)"

text \<open>The loop over the tokens ends where the directories do, as \<open>zip\<close> does.\<close>

definition derive :: "layout \<Rightarrow> string \<Rightarrow> attributes" where
  "derive l key =
     (if \<not> layout_enabled l then no_attributes
      else case split_path key of (dirs, file) \<Rightarrow>
        if dirs = [] \<and> file = [] then no_attributes
        else
          let dir_tokens = (if ly_file_project l then butlast (ly_segments l) else ly_segments l);
              attrs = (if ly_file_project l then no_attributes\<lparr>at_project := strip_extensions file\<rparr> else no_attributes)
          in foldl assign_token attrs (zip dir_tokens dirs))"

definition fill_empty :: "string \<Rightarrow> string \<Rightarrow> string" where
  "fill_empty v d = (if v = [] then d else v)"

text \<open>\<open>Apply\<close>; the four pointers are the fields of the attributes passed in.\<close>

definition apply_derived :: "attributes \<Rightarrow> attributes \<Rightarrow> attributes" where
  "apply_derived derived a = a\<lparr>
     at_cluster := fill_empty (at_cluster a) (at_cluster derived),
     at_namespace := fill_empty (at_namespace a) (at_namespace derived),
     at_project := fill_empty (at_project a) (at_project derived),
     at_parent := fill_empty (at_parent a) (at_parent derived)\<rparr>"

subsection \<open>Lemmas: layouts\<close>

definition dimensions :: "string list" where
  "dimensions = [token_cluster, token_namespace, token_project, token_parent]"

definition tokens :: "string list" where
  "tokens = dimensions @ [token_tag, token_file, token_skip]"

lemma token_shape:
  assumes "s \<in> set tokens"
  shows "to_lower (trim_space s) = s" "s \<noteq> []" "\<forall>c \<in> set s. c \<noteq> CHR ''/'' \<and> \<not> go_space c"
proof -
  have all: "list_all (\<lambda>s. to_lower (trim_space s) = s \<and> s \<noteq> [] \<and>
      list_all (\<lambda>c. c \<noteq> CHR ''/'' \<and> \<not> go_space c) s) tokens"
    by code_simp
  show "to_lower (trim_space s) = s" "s \<noteq> []" "\<forall>c \<in> set s. c \<noteq> CHR ''/'' \<and> \<not> go_space c"
    using all assms by (auto simp: list_all_iff)
qed

text \<open>
  A successful parse appends the cleaned segments, and parsing the cleaned segments succeeds in
  the same way.
\<close>

lemma parse_segments_result:
  "parse_segments n i seen segments raw = Inr segs \<Longrightarrow>
     segs = segments @ map (\<lambda>s. to_lower (trim_space s)) raw \<and>
     set (map (\<lambda>s. to_lower (trim_space s)) raw) \<subseteq> set tokens \<and>
     parse_segments n i seen segments (map (\<lambda>s. to_lower (trim_space s)) raw) = Inr segs"
proof (induction n i seen segments raw arbitrary: segs rule: parse_segments.induct)
  case (2 n i seen segments s0 raw)
  let ?s = "to_lower (trim_space s0)"
  have idem: "to_lower (trim_space ?s) = ?s"
    by (simp add: trim_space_to_lower trim_space_idem)
  consider (Dim) "?s \<noteq> []" "?s \<in> {token_cluster, token_namespace, token_project, token_parent}" "?s \<notin> seen"
      "parse_segments n (Suc i) (insert ?s seen) (segments @ [?s]) raw = Inr segs"
    | (File) "?s \<noteq> []" "?s \<notin> {token_cluster, token_namespace, token_project, token_parent}" "?s = token_file"
        "int i = int n - 1" "token_project \<notin> seen"
        "parse_segments n (Suc i) (insert token_project seen) (segments @ [?s]) raw = Inr segs"
    | (Free) "?s \<noteq> []" "?s \<notin> {token_cluster, token_namespace, token_project, token_parent}" "?s \<noteq> token_file"
        "?s \<in> {token_skip, token_tag}" "parse_segments n (Suc i) seen (segments @ [?s]) raw = Inr segs"
    using "2.prems" unfolding parse_segments.simps(2) Let_def
    by (auto simp: token_file_def split: if_splits)
  then show ?case
  proof cases
    case Dim
    with "2.IH"(1) [OF refl] have "segs = (segments @ [?s]) @ map (\<lambda>s. to_lower (trim_space s)) raw \<and>
        set (map (\<lambda>s. to_lower (trim_space s)) raw) \<subseteq> set tokens \<and>
        parse_segments n (Suc i) (insert ?s seen) (segments @ [?s]) (map (\<lambda>s. to_lower (trim_space s)) raw) = Inr segs"
      by blast
    with Dim show ?thesis
      unfolding list.map parse_segments.simps(2) Let_def idem by (auto simp: tokens_def dimensions_def)
  next
    case File
    with "2.IH"(2) [OF refl] have "segs = (segments @ [?s]) @ map (\<lambda>s. to_lower (trim_space s)) raw \<and>
        set (map (\<lambda>s. to_lower (trim_space s)) raw) \<subseteq> set tokens \<and>
        parse_segments n (Suc i) (insert token_project seen) (segments @ [?s]) (map (\<lambda>s. to_lower (trim_space s)) raw) = Inr segs"
      by blast
    with File show ?thesis
      unfolding list.map parse_segments.simps(2) Let_def idem by (auto simp: tokens_def)
  next
    case Free
    with "2.IH"(3) [OF refl] have "segs = (segments @ [?s]) @ map (\<lambda>s. to_lower (trim_space s)) raw \<and>
        set (map (\<lambda>s. to_lower (trim_space s)) raw) \<subseteq> set tokens \<and>
        parse_segments n (Suc i) seen (segments @ [?s]) (map (\<lambda>s. to_lower (trim_space s)) raw) = Inr segs"
      by blast
    with Free show ?thesis
      unfolding list.map parse_segments.simps(2) Let_def idem by (auto simp: tokens_def)
  qed
qed simp


lemma parse_layout_result:
  assumes "parse_layout spec = Inr l"
  shows "set (ly_segments l) \<subseteq> set tokens"
    and "ly_segments l \<noteq> [] \<Longrightarrow>
      parse_segments (length (ly_segments l)) 0 {} [] (ly_segments l) = Inr (ly_segments l) \<and>
      (ly_file_project l \<longleftrightarrow> last (ly_segments l) = token_file)"
    and "ly_segments l = [] \<Longrightarrow> \<not> ly_file_project l"
proof -
  let ?spec = "trim_by (\<lambda>c. c = CHR ''/'') (trim_space spec)"
  let ?raw = "split_char (CHR ''/'') ?spec"
  let ?segs = "map (\<lambda>s. to_lower (trim_space s)) ?raw"
  consider "l = \<lparr>ly_segments = [], ly_file_project = False\<rparr>"
    | "parse_segments (length ?raw) 0 {} [] ?raw = Inr (ly_segments l)"
      "ly_file_project l \<longleftrightarrow> last (ly_segments l) = token_file"
    using assms unfolding parse_layout_def Let_def by (auto split: if_splits sum.splits)
  then have "ly_segments l = [] \<and> \<not> ly_file_project l \<or>
      ly_segments l = ?segs \<and> set ?segs \<subseteq> set tokens \<and> parse_segments (length ?segs) 0 {} [] ?segs = Inr ?segs \<and>
      (ly_file_project l \<longleftrightarrow> last (ly_segments l) = token_file)"
  proof cases
    case 2
    then show ?thesis
      using parse_segments_result [OF 2(1)] by simp
  qed simp
  moreover have "?segs \<noteq> []" by (simp add: split_char_def)
  ultimately show "set (ly_segments l) \<subseteq> set tokens"
    and "ly_segments l \<noteq> [] \<Longrightarrow>
      parse_segments (length (ly_segments l)) 0 {} [] (ly_segments l) = Inr (ly_segments l) \<and>
      (ly_file_project l \<longleftrightarrow> last (ly_segments l) = token_file)"
    and "ly_segments l = [] \<Longrightarrow> \<not> ly_file_project l"
    by auto
qed

lemma join_ends:
  assumes "ws \<noteq> []" "\<forall>w \<in> set ws. w \<noteq> []"
  shows "join_with sep ws \<noteq> []" "hd (join_with sep ws) = hd (hd ws)" "last (join_with sep ws) = last (last ws)"
proof -
  have "join_with sep ws \<noteq> [] \<and> hd (join_with sep ws) = hd (hd ws) \<and> last (join_with sep ws) = last (last ws)"
    using assms
  proof (induction ws)
    case (Cons w ws)
    then show ?case by (cases "ws = []") (auto simp: join_with_Cons last_append)
  qed simp
  then show "join_with sep ws \<noteq> []" "hd (join_with sep ws) = hd (hd ws)" "last (join_with sep ws) = last (last ws)"
    by auto
qed

lemma trim_layout_string:
  assumes "ws \<noteq> []" "set ws \<subseteq> set tokens"
  shows "trim_by (\<lambda>c. c = CHR ''/'') (trim_space (join_with ''/'' ws)) = join_with ''/'' ws"
    "join_with ''/'' ws \<noteq> []"
proof -
  have ne: "\<forall>w \<in> set ws. w \<noteq> []"
    using assms(2) token_shape(2) by blast
  note ends = join_ends [OF assms(1) ne]
  have plain: "\<forall>c \<in> set w. c \<noteq> CHR ''/'' \<and> \<not> go_space c" if "w \<in> set ws" for w
    using that assms(2) token_shape(3) by blast
  have "hd ws \<in> set ws" "last ws \<in> set ws" using assms(1) by simp_all
  then have hd: "hd (hd ws) \<noteq> CHR ''/'' \<and> \<not> go_space (hd (hd ws))" and last: "last (last ws) \<noteq> CHR ''/'' \<and> \<not> go_space (last (last ws))"
    using plain ne by (metis hd_in_set, metis last_in_set)
  have "trim_space (join_with ''/'' ws) = join_with ''/'' ws"
    using hd last by (intro trim_space_noop) (simp add: ends)
  moreover have "trim_by (\<lambda>c. c = CHR ''/'') (join_with ''/'' ws) = join_with ''/'' ws"
    using hd last by (intro trim_by_noop) (simp add: ends)
  ultimately show "trim_by (\<lambda>c. c = CHR ''/'') (trim_space (join_with ''/'' ws)) = join_with ''/'' ws"
    by simp
  show "join_with ''/'' ws \<noteq> []" by (rule ends(1))
qed

lemma layout_reparse:
  assumes "parse_layout spec = Inr l"
  shows "parse_layout (layout_string l) = Inr l"
proof (cases "ly_segments l = []")
  case True
  then have "l = \<lparr>ly_segments = [], ly_file_project = False\<rparr>"
    using parse_layout_result(3) [OF assms] by (cases l) simp
  then show ?thesis
    by (simp add: layout_string_def parse_layout_def trim_space_Nil trim_by_def trim_left_by_def trim_right_by_def)
next
  case False
  note trimmed = trim_layout_string [OF False parse_layout_result(1) [OF assms]]
  have "split_char (CHR ''/'') (join_with ''/'' (ly_segments l)) = ly_segments l"
    using False parse_layout_result(1) [OF assms] token_shape(3) by (intro split_char_join) auto
  moreover have "l = \<lparr>ly_segments = ly_segments l, ly_file_project = (last (ly_segments l) = token_file)\<rparr>"
    using parse_layout_result(2) [OF assms False] by (cases l) simp
  ultimately show ?thesis
    using parse_layout_result(2) [OF assms False] trimmed
    unfolding layout_string_def parse_layout_def Let_def by simp
qed


lemma token_distinct: "distinct tokens"
  by code_simp

lemma token_neq [simp]:
  "token_file \<notin> set dimensions" "token_tag \<notin> set dimensions" "token_skip \<notin> set dimensions"
  using token_distinct by (auto simp: tokens_def)

lemma parse_segments_once:
  assumes "parse_segments n i seen segments raw = Inr segs"
  shows "distinct (filter (\<lambda>s. s \<in> set dimensions) (map (\<lambda>s. to_lower (trim_space s)) raw)) \<and>
     (\<forall>s \<in> set (map (\<lambda>s. to_lower (trim_space s)) raw). s \<in> set dimensions \<longrightarrow> s \<notin> seen)"
  using assms
proof (induction n i seen segments raw arbitrary: segs rule: parse_segments.induct)
  case (2 n i seen segments s0 raw)
  let ?s = "to_lower (trim_space s0)"
  have dims: "?s \<in> {token_cluster, token_namespace, token_project, token_parent} \<longleftrightarrow> ?s \<in> set dimensions"
    by (simp add: dimensions_def)
  consider (Dim) "?s \<noteq> []" "?s \<in> set dimensions" "?s \<notin> seen"
      "parse_segments n (Suc i) (insert ?s seen) (segments @ [?s]) raw = Inr segs"
    | (File) "?s \<noteq> []" "?s \<notin> set dimensions" "?s = token_file" "int i = int n - 1" "token_project \<notin> seen"
        "parse_segments n (Suc i) (insert token_project seen) (segments @ [?s]) raw = Inr segs"
    | (Free) "?s \<noteq> []" "?s \<notin> set dimensions" "?s \<noteq> token_file"
        "?s \<in> {token_skip, token_tag}" "parse_segments n (Suc i) seen (segments @ [?s]) raw = Inr segs"
    using "2.prems" unfolding parse_segments.simps(2) Let_def dims
    by (auto simp: token_file_def split: if_splits)
  then show ?case
  proof cases
    case Dim
    with "2.IH"(1) [OF refl] show ?thesis unfolding dims by auto
  next
    case File
    with "2.IH"(2) [OF refl] show ?thesis unfolding dims by auto
  next
    case Free
    with "2.IH"(3) [OF refl] show ?thesis unfolding dims by auto
  qed
qed simp

lemma parse_layout_once:
  assumes "parse_layout spec = Inr l"
  shows "distinct (filter (\<lambda>s. s \<in> set dimensions) (ly_segments l))"
proof (cases "ly_segments l = []")
  case False
  have "map (\<lambda>s. to_lower (trim_space s)) (ly_segments l) = ly_segments l"
    using parse_layout_result(1) [OF assms] token_shape(1) by (intro map_idI) blast
  then show ?thesis
    using parse_segments_once parse_layout_result(2) [OF assms False] by metis
qed simp

subsection \<open>Lemmas: attributes\<close>

definition dimension :: "string \<Rightarrow> attributes \<Rightarrow> string" where
  "dimension token a =
     (if token = token_cluster then at_cluster a
      else if token = token_namespace then at_namespace a
      else if token = token_project then at_project a
      else at_parent a)"

definition dir_tokens :: "layout \<Rightarrow> string list" where
  "dir_tokens l = (if ly_file_project l then butlast (ly_segments l) else ly_segments l)"

lemma dimension_assign:
  "t \<in> set dimensions \<Longrightarrow> dimension t (assign_token a (t', d)) = (if t' = t then d else dimension t a)"
  using token_distinct by (auto simp: dimension_def assign_token_def dimensions_def tokens_def)

lemma tags_assign:
  "at_tags (assign_token a (t', d)) = at_tags a @ (if t' = token_tag then [d] else [])"
  using token_distinct by (auto simp: assign_token_def dimensions_def tokens_def)

lemma dimension_fold:
  assumes "t \<in> set dimensions" "distinct (filter (\<lambda>s. s \<in> set dimensions) (map fst tds))"
  shows "dimension t (foldl assign_token a tds) = (case map_of tds t of Some d \<Rightarrow> d | None \<Rightarrow> dimension t a)"
  using assms(2)
proof (induction tds arbitrary: a)
  case (Cons td tds)
  obtain t' d where td: "td = (t', d)" by fastforce
  have "t' = t \<Longrightarrow> map_of tds t = None"
    using Cons.prems assms(1) by (auto simp: td map_of_eq_None_iff)
  moreover have "distinct (filter (\<lambda>s. s \<in> set dimensions) (map fst tds))"
    using Cons.prems by (simp split: if_splits)
  ultimately show ?case
    using Cons.IH [of "assign_token a (t', d)"] dimension_assign [OF assms(1), of a t' d]
    by (cases "t' = t") (simp_all add: td split: option.split)
qed simp

lemma tags_fold:
  "at_tags (foldl assign_token a tds) = at_tags a @ map snd (filter (\<lambda>td. fst td = token_tag) tds)"
  by (induction tds arbitrary: a) (auto simp: tags_assign)

lemma filter_zip_distinct:
  "distinct (filter P xs) \<Longrightarrow> distinct (filter P (map fst (zip xs ys)))"
  unfolding map_fst_zip_take by (metis append_take_drop_id distinct_append filter_append)

lemma meaningful_segment:
  assumes "w \<in> set (meaningful_segments key)"
  shows "w \<noteq> [] \<and> w \<noteq> ''.'' \<and> w \<noteq> ''..'' \<and> trim_space w = w \<and> CHR ''/'' \<notin> set w \<and> CHR 0x5C \<notin> set w"
proof -
  let ?key = "replace_char (CHR 0x5C) ''/'' key"
  obtain p where p: "p \<in> set (split_char (CHR ''/'') ?key)" "w = trim_space p"
      and "w \<noteq> [] \<and> w \<noteq> ''.'' \<and> w \<noteq> ''..''"
    using assms by (auto simp: meaningful_segments_def)
  have "set p \<subseteq> set ?key - {CHR ''/''}"
    by (rule set_split_char [OF p(1)])
  moreover have "CHR 0x5C \<notin> set ?key"
    by (auto simp: replace_char_def)
  ultimately show ?thesis
    using set_trim_space [of p] \<open>w \<noteq> [] \<and> _\<close> by (auto simp: p(2) trim_space_idem)
qed


subsection \<open>Properties\<close>

text \<open>
  C32: The canonical rendering of an accepted layout parses back to the same layout.
\<close>

theorem layout_roundtrip:
  assumes "parse_layout spec = Inr l"
  shows "parse_layout (layout_string l) = Inr l"
  using assms by (rule layout_reparse)

theorem layout_roundtrip_witness:
  "parse_layout (layout_string \<lparr>ly_segments = [''tag'', ''_'', ''file''], ly_file_project = True\<rparr>) =
     Inr \<lparr>ly_segments = [''tag'', ''_'', ''file''], ly_file_project = True\<rparr>"
proof (rule layout_roundtrip)
  show "parse_layout '' /Tag/_ /FILE/'' = Inr \<lparr>ly_segments = [''tag'', ''_'', ''file''], ly_file_project = True\<rparr>"
    by code_simp
qed

text \<open>
  Under an accepted layout every dimension a key gets is the directory at the position of its
  token, which the layout names at most once, or for the project of a layout that ends in the
  file token the stem of the file name, or nothing; the tags are the directories at the tag
  tokens, in order. Shallow keys fill what they can and deeper levels are ignored.
\<close>

theorem derive_positional:
  assumes "parse_layout spec = Inr l" "split_path key = (dirs, file)" "t \<in> set dimensions"
  shows "dimension t (derive l key) =
      (case map_of (zip (dir_tokens l) dirs) t of
         Some d \<Rightarrow> d
       | None \<Rightarrow> if ly_file_project l \<and> t = token_project then strip_extensions file else []) \<and>
    at_tags (derive l key) = map snd (filter (\<lambda>td. fst td = token_tag) (zip (dir_tokens l) dirs))"
proof -
  let ?base = "if ly_file_project l then no_attributes\<lparr>at_project := strip_extensions file\<rparr> else no_attributes"
  have empty: "dirs = [] \<Longrightarrow> file = [] \<Longrightarrow> ?base = no_attributes"
    by (simp add: no_attributes_def strip_extensions_def)
  have derive: "derive l key = foldl assign_token ?base (zip (dir_tokens l) dirs)"
  proof (cases "layout_enabled l")
    case True
    then show ?thesis
      using empty by (auto simp: derive_def assms(2) dir_tokens_def Let_def)
  next
    case False
    then have "ly_segments l = []" "\<not> ly_file_project l"
      using parse_layout_result(3) [OF assms(1)] by (simp_all add: layout_enabled_def)
    then show ?thesis
      by (simp add: derive_def layout_enabled_def dir_tokens_def)
  qed
  have "distinct (filter (\<lambda>s. s \<in> set dimensions) (dir_tokens l))"
    using parse_layout_once [OF assms(1)]
    by (cases "ly_segments l" rule: rev_cases) (auto simp: dir_tokens_def split: if_splits)
  then have "dimension t (derive l key) =
      (case map_of (zip (dir_tokens l) dirs) t of Some d \<Rightarrow> d | None \<Rightarrow> dimension t ?base)"
    unfolding derive by (intro dimension_fold [OF assms(3)] filter_zip_distinct)
  moreover have "dimension t ?base = (if ly_file_project l \<and> t = token_project then strip_extensions file else [])"
    using assms(3) token_distinct by (auto simp: dimension_def no_attributes_def dimensions_def tokens_def)
  moreover have "at_tags (derive l key) = map snd (filter (\<lambda>td. fst td = token_tag) (zip (dir_tokens l) dirs))"
    unfolding derive tags_fold by (simp add: no_attributes_def)
  ultimately show ?thesis by (simp only:)
qed

theorem derive_positional_witness:
  "dimension token_project (derive \<lparr>ly_segments = [''tag'', ''project''], ly_file_project = False\<rparr> ''argo//workflows/v1/f.json'') = ''workflows''"
proof -
  have "parse_layout ''tag/project'' = Inr \<lparr>ly_segments = [''tag'', ''project''], ly_file_project = False\<rparr>"
    "split_path ''argo//workflows/v1/f.json'' = ([''argo'', ''workflows'', ''v1''], ''f.json'')"
    by code_simp+
  moreover have "token_project \<in> set dimensions" by (simp add: dimensions_def)
  ultimately have "dimension token_project (derive \<lparr>ly_segments = [''tag'', ''project''], ly_file_project = False\<rparr> ''argo//workflows/v1/f.json'') =
      (case map_of (zip (dir_tokens \<lparr>ly_segments = [''tag'', ''project''], ly_file_project = False\<rparr>) [''argo'', ''workflows'', ''v1'']) token_project of
         Some d \<Rightarrow> d | None \<Rightarrow> if False \<and> token_project = token_project then strip_extensions ''f.json'' else [])"
    using derive_positional [of "''tag/project''" _ "''argo//workflows/v1/f.json''"] by simp
  then show ?thesis by (simp add: dir_tokens_def token_project_def)
qed

text \<open>
  No directory that reaches a dimension or a tag is empty, a relative step, surrounded by white
  space or contains a path separator of either kind, and a project taken from the file name
  contains no dot and no separator, whatever the key looks like.
\<close>

theorem derived_names_clean:
  assumes "split_path key = (dirs, fname)"
  shows "(\<forall>d \<in> set dirs. d \<noteq> [] \<and> d \<noteq> ''.'' \<and> d \<noteq> ''..'' \<and> trim_space d = d \<and>
      CHR ''/'' \<notin> set d \<and> CHR 0x5C \<notin> set d) \<and>
    (\<forall>c \<in> set (strip_extensions fname). c \<noteq> CHR ''.'' \<and> c \<noteq> CHR ''/'' \<and> c \<noteq> CHR 0x5C)"
proof -
  let ?segs = "meaningful_segments key"
  have dirs: "set dirs \<subseteq> set ?segs" and stem: "fname = [] \<or> fname \<in> set ?segs"
    using assms by (auto simp: split_path_def Let_def split: if_splits dest: in_set_butlastD)
  have "c \<noteq> CHR ''.'' \<and> c \<in> set fname" if "c \<in> set (strip_extensions fname)" for c
  proof (cases "str_index fname ''.''")
    case None
    then have "\<not> contains_str fname ''.''" by (simp add: contains_str_def)
    then show ?thesis using that None by (auto simp: strip_extensions_def contains_str_single)
  next
    case (Some i)
    then have "take i fname = takeWhile (\<lambda>c. c \<noteq> CHR ''.'') fname"
    proof (induction fname arbitrary: i)
      case (Cons a fname)
      then show ?case by (auto simp: has_prefix_iff split: if_splits)
    qed simp
    then show ?thesis using that Some by (auto simp: strip_extensions_def dest: set_takeWhileD)
  qed
  then show ?thesis
    using dirs stem meaningful_segment [of _ key] by (fastforce dest: subsetD)
qed

theorem derived_names_clean_witness:
  "split_path ''./a//../ b /k2s.spdx.json'' = ([''a'', ''b''], ''k2s.spdx.json'') \<and>
     trim_space ''b'' = ''b'' \<and> CHR ''.'' \<notin> set (strip_extensions ''k2s.spdx.json'')"
proof -
  have split: "split_path ''./a//../ b /k2s.spdx.json'' = ([''a'', ''b''], ''k2s.spdx.json'')" by code_simp
  have "trim_space ''b'' = ''b''" using derived_names_clean [OF split, THEN conjunct1] by simp
  moreover have "CHR ''.'' \<notin> set (strip_extensions ''k2s.spdx.json'')"
    using derived_names_clean [OF split, THEN conjunct2] by blast
  ultimately show ?thesis using split by metis
qed

end
