(* ===== verification/Project_Owner.thy ===== *)
theory Project_Owner
  imports Regex
begin

text \<open>
  Owner signals of a project, \<open>backend/internal/projectgroup/owner.go\<close>: the owner named by a
  repository URL, a document name or a package URL. What \<open>url.Parse\<close> returns (host and path, or
  an error) and the first value \<open>url.ParseQuery\<close> has for \<open>repository_url\<close> are parameters.
\<close>

datatype source = SourceConfig | SourceExplicit | SourceTag | SourceRepo | SourceDocument | SourcePURL | SourceSupplier

record signals =
  sg_project :: string
  sg_explicit_parent :: string
  sg_tags :: "string list"
  sg_source_repo :: string
  sg_document_name :: string
  sg_root_purl :: string
  sg_supplier :: string

record url_library =
  url_parse :: "string \<Rightarrow> (string \<times> string) option"
  query_repository_url :: "string \<Rightarrow> string option"

definition split_slash :: "string \<Rightarrow> string list" where
  "split_slash p = filter (\<lambda>s. s \<noteq> []) (map trim_space (split_char (CHR ''/'') p))"

definition join_slash :: "string list \<Rightarrow> string" where
  "join_slash segs = join_with ''/'' segs"

definition owner_from_repo :: "url_library \<Rightarrow> string \<Rightarrow> string" where
  "owner_from_repo lib repo0 =
     (let repo = trim_space repo0
      in if repo = [] then []
         else (case url_parse lib repo of
                 None \<Rightarrow> []
               | Some (host0, path) \<Rightarrow>
                   if host0 = [] then []
                   else
                     let host = to_lower host0; segs = split_slash path
                     in if host = ''dev.azure.com'' \<and> length segs \<ge> 4 \<and> segs ! 2 = ''_git''
                        then segs ! 0 @ ''/'' @ segs ! 1
                        else if has_suffix host ''.visualstudio.com'' \<and> length segs \<ge> 3 \<and> segs ! 1 = ''_git''
                        then trim_suffix host ''.visualstudio.com'' @ ''/'' @ segs ! 0
                        else if length segs \<ge> 3 \<and> segs ! 0 = ''scm'' then segs ! 1
                        else if length segs \<ge> 4 \<and> segs ! 0 = ''projects'' \<and> segs ! 2 = ''repos'' then segs ! 1
                        else if length segs < 2 then []
                        else join_slash (butlast segs)))"

definition drop_host :: "nat \<Rightarrow> string list \<Rightarrow> string list" where
  "drop_host n segs = (if length segs > n \<and> contains_str (segs ! 0) ''.'' then drop 1 segs else segs)"

definition owner_from_document_name :: "string \<Rightarrow> string" where
  "owner_from_document_name name =
     (let tok = before_any (trim_space name) [CHR '' '', CHR 0x09]
      in if tok = [] \<or> contains_str tok ''://'' then []
         else let segs = split_slash tok
              in if length segs < 2 then [] else join_slash (butlast (drop_host 2 segs)))"

definition go_major_version :: rx where
  "go_major_version = rseq [rchar (CHR ''v''), rplus (RP is_digit)]"

text \<open>\<open>before, after, _ := strings.Cut(s, sep)\<close>\<close>

definition cut_or_whole :: "string \<Rightarrow> string \<Rightarrow> string \<times> string" where
  "cut_or_whole s sep = (case str_cut s sep of None \<Rightarrow> (s, []) | Some (a, b) \<Rightarrow> (a, b))"

definition last_index_int :: "string \<Rightarrow> string \<Rightarrow> int" where
  "last_index_int s sub = (case str_last_index s sub of None \<Rightarrow> -1 | Some i \<Rightarrow> int i)"

definition purl_namespace :: "url_library \<Rightarrow> string \<Rightarrow> string \<Rightarrow> string list \<Rightarrow> string \<Rightarrow> string list" where
  "purl_namespace lib typ raw_qualifiers ns name =
     (if typ = ''golang'' then
        (let ns1 = (if match_string go_major_version name \<and> length ns > 0 then butlast ns else ns)
         in drop_host 1 ns1)
      else if typ = ''npm'' then (if length ns > 0 then ns[0 := trim_prefix (ns ! 0) ''@''] else ns)
      else if typ = ''oci'' \<or> typ = ''docker'' then
        (if length ns = 0
         then (case query_repository_url lib raw_qualifiers of
                 None \<Rightarrow> ns
               | Some r \<Rightarrow>
                   if r = [] then ns
                   else let rs = drop_host 2 (split_slash r) in if length rs \<ge> 2 then butlast rs else ns)
         else ns)
      else ns)"

definition owner_from_purl :: "url_library \<Rightarrow> string \<Rightarrow> string" where
  "owner_from_purl lib purl =
     (let p0 = trim_space purl
      in if length p0 < 4 \<or> \<not> equal_fold (take 4 p0) ''pkg:'' then []
         else
           let p1 = fst (cut_or_whole (drop 4 p0) ''#'');
               (p2, raw_qualifiers) = cut_or_whole p1 ''?''
           in (case str_cut p2 ''/'' of
                 None \<Rightarrow> []
               | Some (typ0, rest0) \<Rightarrow>
                   let typ = to_lower typ0;
                       rest1 = trim_left_by (\<lambda>c. c = CHR ''/'') rest0;
                       at = last_index_int rest1 ''@'';
                       rest = (if at > last_index_int rest1 ''/'' then take (nat at) rest1 else rest1);
                       segs = map unescape_or_keep (split_slash rest)
                   in if segs = [] then []
                      else
                        let ns = purl_namespace lib typ raw_qualifiers (butlast segs) (last segs)
                        in if ns = [] then [] else join_slash ns))"

definition owner_key :: "url_library \<Rightarrow> signals \<Rightarrow> string \<times> source option" where
  "owner_key lib s =
     (let o1 = owner_from_repo lib (sg_source_repo s); o2 = owner_from_document_name (sg_document_name s);
          o3 = owner_from_purl lib (sg_root_purl s); o4 = trim_space (sg_supplier s)
      in if o1 \<noteq> [] then (o1, Some SourceRepo)
         else if o2 \<noteq> [] then (o2, Some SourceDocument)
         else if o3 \<noteq> [] then (o3, Some SourcePURL)
         else if o4 \<noteq> [] then (o4, Some SourceSupplier)
         else ([], None))"


subsection \<open>Lemmas\<close>

definition owner_char :: "char \<Rightarrow> bool" where
  "owner_char c \<longleftrightarrow> is_letter c \<or> is_digit c \<or> c = CHR ''-'' \<or> c = CHR ''_''"

definition plain_name :: "string \<Rightarrow> bool" where
  "plain_name s \<longleftrightarrow> s \<noteq> [] \<and> (\<forall>c \<in> set s. owner_char c \<or> c = CHR ''.'')"

lemma plain_chars:
  assumes "owner_char c \<or> c = CHR ''.''"
  shows "\<not> go_space c \<and> c \<noteq> CHR ''/'' \<and> c \<noteq> CHR ''@'' \<and> c \<noteq> CHR ''%'' \<and> c \<noteq> CHR ''?'' \<and> c \<noteq> CHR ''#'' \<and> c \<noteq> CHR '':''"
  using assms by (auto simp: owner_char_def is_letter_def is_digit_def char_between_def go_space_def)

lemma plain_nameD:
  assumes "plain_name s" "c \<in> set s"
  shows "\<not> go_space c" "c \<noteq> CHR ''/''" "c \<noteq> CHR ''@''" "c \<noteq> CHR ''%''" "c \<noteq> CHR ''?''" "c \<noteq> CHR ''#''" "c \<noteq> CHR '':''"
  using assms plain_chars [of c] by (auto simp: plain_name_def)

lemma split_slash_join:
  assumes "ws \<noteq> []" "\<forall>w \<in> set ws. plain_name w"
  shows "split_slash (join_slash ws) = ws"
proof -
  have "split_char (CHR ''/'') (join_with ''/'' ws) = ws"
    using assms plain_nameD(2) by (intro split_char_join) auto
  moreover have "map trim_space ws = ws"
    using assms(2) plain_nameD(1) trim_space_plain by (intro map_idI) blast
  moreover have "filter (\<lambda>s. s \<noteq> []) ws = ws"
    using assms(2) by (auto simp: filter_id_conv plain_name_def)
  ultimately show ?thesis by (simp add: split_slash_def join_slash_def)
qed

lemma join_slash_chars: "c \<in> set (join_slash ws) \<Longrightarrow> c = CHR ''/'' \<or> (\<exists>w \<in> set ws. c \<in> set w)"
proof (induction ws)
  case (Cons w ws)
  then show ?case by (cases "ws = []") (auto simp: join_slash_def join_with_Cons)
qed (simp add: join_slash_def)

lemma join_slash_no:
  assumes "\<forall>w \<in> set ws. plain_name w" "c \<in> set (join_slash ws)"
  shows "\<not> go_space c \<and> c \<noteq> CHR ''@'' \<and> c \<noteq> CHR ''?'' \<and> c \<noteq> CHR ''#'' \<and> c \<noteq> CHR '':'' \<and> c \<noteq> CHR ''%''"
proof -
  consider "c = CHR ''/''" | w where "w \<in> set ws" "c \<in> set w"
    using join_slash_chars [OF assms(2)] by blast
  then show ?thesis
  proof cases
    case 2
    then have "plain_name w" using assms(1) by blast
    then show ?thesis using plain_nameD [of w c] 2(2) by blast
  qed (simp add: go_space_def)
qed

lemma last_index_nth:
  assumes "str_last_index s [c] = Some i"
  shows "s ! i = c"
proof -
  note i = str_last_index_Some [OF assms]
  then show ?thesis
    by (metis length_take less_imp_le min.absorb2 nth_append_length)
qed

text \<open>The owner of a purl whose namespace and name are plain.\<close>

lemma owner_from_plain_purl:
  assumes "plain_name typ" "ws \<noteq> []" "\<forall>w \<in> set ws. plain_name w"
    and "\<forall>c \<in> set v. owner_char c \<or> c = CHR ''.''"
  shows "owner_from_purl lib (''pkg:'' @ typ @ ''/'' @ join_slash ws @ ''@'' @ v) =
     (let ns = purl_namespace lib (to_lower typ) [] (butlast ws) (last ws) in if ns = [] then [] else join_slash ns)"
proof -
  let ?rest = "join_slash ws @ ''@'' @ v"
  let ?p = "''pkg:'' @ typ @ ''/'' @ ?rest"
  have chars: "\<not> go_space c \<and> c \<noteq> CHR ''#'' \<and> c \<noteq> CHR ''?''" if "c \<in> set ?p" for c
  proof -
    have "c \<in> set ''pkg:/@'' \<union> set typ \<union> set (join_slash ws) \<union> set v"
      using that by (simp; blast)
    then consider "c \<in> set ''pkg:/@''" | "c \<in> set typ" | "c \<in> set (join_slash ws)" | "c \<in> set v"
      by blast
    then show ?thesis
    proof cases
      case 2
      then show ?thesis using plain_nameD [OF assms(1)] by blast
    next
      case 3
      then show ?thesis using join_slash_no [OF assms(3)] by blast
    next
      case 4
      then show ?thesis using plain_chars assms(4) by blast
    qed (auto simp: go_space_def)
  qed
  have trim: "trim_space ?p = ?p"
    using chars by (intro trim_space_plain) blast
  have drop4: "drop 4 ?p = typ @ ''/'' @ ?rest" "take 4 ?p = ''pkg:''" "\<not> length ?p < 4"
    by simp_all
  have "CHR ''#'' \<notin> set (drop 4 ?p)" "CHR ''?'' \<notin> set (drop 4 ?p)"
    using chars by (blast dest: in_set_dropD)+
  then have cuts: "cut_or_whole (drop 4 ?p) ''#'' = (drop 4 ?p, [])" "cut_or_whole (drop 4 ?p) ''?'' = (drop 4 ?p, [])"
    by (simp_all add: cut_or_whole_def str_cut_single_none)
  have "CHR ''/'' \<notin> set typ"
    using plain_nameD(2) [OF assms(1)] by blast
  then have slash: "str_cut (drop 4 ?p) ''/'' = Some (typ, ?rest)"
    unfolding drop4 using str_cut_single [of "CHR ''/''" "typ" "?rest"] by simp
  obtain w ws' where ws: "ws = w # ws'" using assms(2) by (cases ws) auto
  have "plain_name w" using assms(3) by (simp add: ws)
  then obtain c w' where w: "w = c # w'" "c \<noteq> CHR ''/''"
    using plain_nameD(2) [of w "hd w"] by (cases w) (auto simp: plain_name_def)
  then have trimmed: "trim_left_by (\<lambda>c. c = CHR ''/'') ?rest = ?rest"
    by (cases ws') (simp_all add: trim_left_by_def ws join_slash_def)
  have v: "CHR ''@'' \<notin> set v" "CHR ''/'' \<notin> set v"
    using assms(4) plain_chars by blast+
  have at_pos: "last_index_int ?rest ''@'' = int (length (join_slash ws))"
    using str_last_index_split [OF v(1), of "join_slash ws"] by (simp add: last_index_int_def)
  have "last_index_int ?rest ''/'' < int (length (join_slash ws))"
  proof (cases "str_last_index ?rest ''/''")
    case (Some i)
    note i = str_last_index_Some [OF Some]
    have slash_i: "?rest ! i = CHR ''/''"
      by (rule last_index_nth [OF Some])
    have "i < length (join_slash ws)"
    proof (rule ccontr)
      assume "\<not> i < length (join_slash ws)"
      moreover from this have "i \<noteq> length (join_slash ws)"
        using slash_i by auto
      ultimately have j: "i - Suc (length (join_slash ws)) < length v" "?rest ! i = v ! (i - Suc (length (join_slash ws)))"
        using i by (auto simp: nth_append nth_Cons')
      then show False
        using nth_mem [OF j(1)] v(2) unfolding j(2) [symmetric] slash_i by blast
    qed
    then show ?thesis unfolding last_index_int_def Some option.case by simp
  qed (simp add: last_index_int_def)
  then have rest: "(if last_index_int ?rest ''@'' > last_index_int ?rest ''/'' then take (nat (last_index_int ?rest ''@'')) ?rest else ?rest) =
      join_slash ws"
    unfolding at_pos by simp
  have "map unescape_or_keep (split_slash (join_slash ws)) = ws"
    unfolding split_slash_join [OF assms(2,3)]
    by (intro map_idI unescape_plain) (use assms(3) plain_nameD(4) in blast)
  moreover have "equal_fold ''pkg:'' ''pkg:''"
    by (simp add: equal_fold_def)
  ultimately show ?thesis
    using assms(2) unfolding owner_from_purl_def Let_def trim
    by (simp only: drop4(2,3) cuts fst_conv prod.case slash option.case trimmed rest simp_thms if_False)
qed


lemma owner_from_plain_document_name:
  assumes "length ws \<ge> 2" "\<forall>w \<in> set ws. plain_name w" "rest = [] \<or> hd rest = CHR '' '' \<and> \<not> go_space (last rest)"
  shows "owner_from_document_name (join_slash ws @ rest) = join_slash (butlast (drop_host 2 ws))"
proof -
  let ?name = "join_slash ws"
  have plain: "\<forall>c \<in> set ?name. \<not> go_space c \<and> c \<noteq> CHR '':''"
    using join_slash_no [OF assms(2)] by blast
  have ne: "?name \<noteq> []"
    using assms(1,2) by (cases ws; cases "tl ws") (auto simp: join_slash_def plain_name_def)
  have cut: "before_any (?name @ r) [CHR '' '', CHR 0x09] = ?name" if "r = [] \<or> hd r = CHR '' ''" for r
  proof -
    have "\<forall>c \<in> set ?name. c \<notin> set [CHR '' '', CHR 0x09]"
      using plain by (auto simp: go_space_def)
    note index_by_append [OF this, of r]
    then show ?thesis
      using that unfolding before_any_def index_any_def by (cases r) auto
  qed
  have "before_any (trim_space (?name @ rest)) [CHR '' '', CHR 0x09] = ?name"
  proof -
    have "trim_space (?name @ rest) = ?name @ rest"
      using assms(3) plain ne by (intro trim_space_noop) (cases rest; simp add: last_append)
    then show ?thesis using cut [of rest] assms(3) by auto
  qed
  moreover have "\<not> contains_str ?name ''://''"
  proof
    assume "contains_str ?name ''://''"
    then obtain u v where "?name = u @ ''://'' @ v" by (auto simp: contains_str_iff)
    then have "CHR '':'' \<in> set ?name" by simp
    then show False using plain by blast
  qed
  moreover have "split_slash ?name = ws"
    using assms(1,2) by (intro split_slash_join) auto
  ultimately show ?thesis
    using assms(1) ne by (simp add: owner_from_document_name_def Let_def)
qed


subsection \<open>Properties\<close>

text \<open>
  C30: The owner signals of one project agree: for an owner \<open>o1\<close> and a repository \<open>r\<close> the document
  name \<open>o1/r version\<close>, its registry form with a leading host, the github purl, the golang purl of
  the module and any of its major versions, and a repository URL on any forge whose path is
  \<open>/o1/r\<close> all name the owner \<open>o1\<close>.
\<close>

theorem owner_signals_agree:
  assumes "plain_name o1" "CHR ''.'' \<notin> set o1" "plain_name r" "\<not> match_string go_major_version r"
    and "match_string go_major_version m" "plain_name m" "plain_name host" "CHR ''.'' \<in> set host"
    and "\<forall>c \<in> set v. owner_char c \<or> c = CHR ''.''" "v \<noteq> []"
    and "url_parse lib u = Some (forge, ''/'' @ o1 @ ''/'' @ r)" "forge \<noteq> []" "trim_space u = u" "u \<noteq> []"
  shows "owner_from_document_name (o1 @ ''/'' @ r @ '' '' @ v) = o1 \<and>
     owner_from_document_name (host @ ''/'' @ o1 @ ''/'' @ r @ '' '' @ v) = o1 \<and>
     owner_from_purl lib (''pkg:github/'' @ o1 @ ''/'' @ r @ ''@'' @ v) = o1 \<and>
     owner_from_purl lib (''pkg:golang/github.com/'' @ o1 @ ''/'' @ r @ ''@'' @ v) = o1 \<and>
     owner_from_purl lib (''pkg:golang/github.com/'' @ o1 @ ''/'' @ r @ ''/'' @ m @ ''@'' @ v) = o1 \<and>
     owner_from_repo lib u = o1"
proof -
  have o1: "o1 \<noteq> []" using assms(1) by (simp add: plain_name_def)
  have names: "plain_name ''github''" "plain_name ''golang''" "plain_name ''github.com''"
    by (simp_all add: plain_name_def owner_char_def is_letter_def char_between_def)
  have dots: "\<not> contains_str o1 ''.''" "contains_str host ''.''" "contains_str ''github.com'' ''.''"
    using assms(2,8) by (simp_all add: contains_str_single)
  have v: "\<not> go_space (last v)"
    using assms(9,10) plain_chars by (metis last_in_set)
  have doc: "owner_from_document_name (join_slash ws @ '' '' @ v) = join_slash (butlast (drop_host 2 ws))"
    if "length ws \<ge> 2" "\<forall>w \<in> set ws. plain_name w" for ws
    using owner_from_plain_document_name [OF that, of "'' '' @ v"] v assms(10) by simp
  have d1: "owner_from_document_name (o1 @ ''/'' @ r @ '' '' @ v) = o1"
    using doc [of "[o1, r]"] assms(1,3) by (simp add: join_slash_def drop_host_def)
  have d2: "owner_from_document_name (host @ ''/'' @ o1 @ ''/'' @ r @ '' '' @ v) = o1"
    using doc [of "[host, o1, r]"] assms(1,3,7) dots by (simp add: join_slash_def drop_host_def)
  have p1: "owner_from_purl lib (''pkg:github/'' @ o1 @ ''/'' @ r @ ''@'' @ v) = o1"
    using owner_from_plain_purl [OF names(1), of "[o1, r]" v lib] assms(1,3,9) o1
    by (simp add: join_slash_def purl_namespace_def lower_char_def char_between_def)
  have p2: "owner_from_purl lib (''pkg:golang/github.com/'' @ o1 @ ''/'' @ r @ ''@'' @ v) = o1"
    using owner_from_plain_purl [OF names(2), of "[''github.com'', o1, r]" v lib] assms(1,3,4,9) o1 dots names(3)
    by (simp add: join_slash_def purl_namespace_def lower_char_def char_between_def drop_host_def)
  have p3: "owner_from_purl lib (''pkg:golang/github.com/'' @ o1 @ ''/'' @ r @ ''/'' @ m @ ''@'' @ v) = o1"
    using owner_from_plain_purl [OF names(2), of "[''github.com'', o1, r, m]" v lib] assms(1,3,5,6,9) o1 dots names(3)
    by (simp add: join_slash_def purl_namespace_def lower_char_def char_between_def drop_host_def)
  have "split_slash (''/'' @ o1 @ ''/'' @ r) = [o1, r]"
    using split_slash_join [of "[o1, r]"] assms(1,3)
    by (simp add: split_slash_def join_slash_def split_char_def trim_space_Nil)
  then have "owner_from_repo lib u = o1"
    using assms(11-14) by (simp add: owner_from_repo_def join_slash_def Let_def)
  with d1 d2 p1 p2 p3 show ?thesis by blast
qed


definition sample_urls :: url_library where
  "sample_urls = \<lparr>url_parse = (\<lambda>u. if u = ''https://github.com/argoproj/argo-cd'' then Some (''github.com'', ''/argoproj/argo-cd'') else None),
     query_repository_url = (\<lambda>_. None)\<rparr>"

theorem owner_signals_agree_witness:
  "owner_from_purl sample_urls (''pkg:golang/github.com/'' @ ''argoproj'' @ ''/'' @ ''argo-cd'' @ ''/'' @ ''v3'' @ ''@'' @ ''v3.4.7'') = ''argoproj''"
proof -
  have plain: "plain_name ''argoproj''" "plain_name ''argo-cd''" "plain_name ''v3''" "plain_name ''ghcr.io''"
      "\<forall>c \<in> set ''v3.4.7''. owner_char c \<or> c = CHR ''.''"
      "\<not> match_string go_major_version ''argo-cd''" "match_string go_major_version ''v3''"
      "trim_space ''https://github.com/argoproj/argo-cd'' = ''https://github.com/argoproj/argo-cd''"
    by code_simp+
  then show ?thesis
    using owner_signals_agree [of "''argoproj''" "''argo-cd''" "''v3''" "''ghcr.io''" "''v3.4.7''" sample_urls
        "''https://github.com/argoproj/argo-cd''" "''github.com''"]
    by (simp add: sample_urls_def)
qed

end
