(* ===== verification/Utf8.thy ===== *)
theory Utf8
  imports Regex
begin

text \<open>
  The runes of a Go string, which is a list of bytes: how many bytes the rune at its front takes, as
  \<open>unicode/utf8\<close> decodes it, and the regular expression for one of them.
\<close>

definition in_bytes :: "nat \<Rightarrow> nat \<Rightarrow> char \<Rightarrow> bool" where
  "in_bytes lo hi c \<longleftrightarrow> lo \<le> of_char c \<and> of_char c \<le> hi"

text \<open>The ranges of the first, the second and the further bytes of every form of a rune.\<close>

definition rune_forms :: "(char \<Rightarrow> bool) list list" where
  "rune_forms =
     [[in_bytes 0 0x7F],
      [in_bytes 0xC2 0xDF, in_bytes 0x80 0xBF],
      [in_bytes 0xE0 0xE0, in_bytes 0xA0 0xBF, in_bytes 0x80 0xBF],
      [in_bytes 0xE1 0xEC, in_bytes 0x80 0xBF, in_bytes 0x80 0xBF],
      [in_bytes 0xED 0xED, in_bytes 0x80 0x9F, in_bytes 0x80 0xBF],
      [in_bytes 0xEE 0xEF, in_bytes 0x80 0xBF, in_bytes 0x80 0xBF],
      [in_bytes 0xF0 0xF0, in_bytes 0x90 0xBF, in_bytes 0x80 0xBF, in_bytes 0x80 0xBF],
      [in_bytes 0xF1 0xF3, in_bytes 0x80 0xBF, in_bytes 0x80 0xBF, in_bytes 0x80 0xBF],
      [in_bytes 0xF4 0xF4, in_bytes 0x80 0x8F, in_bytes 0x80 0xBF, in_bytes 0x80 0xBF]]"

fun fits :: "(char \<Rightarrow> bool) list \<Rightarrow> string \<Rightarrow> bool" where
  "fits [] s \<longleftrightarrow> True"
| "fits (p # ps) [] \<longleftrightarrow> False"
| "fits (p # ps) (c # s) \<longleftrightarrow> p c \<and> fits ps s"

text \<open>The bytes of the rune at the front; \<open>None\<close> for a byte that starts no rune, or none at all.\<close>

definition rune_length :: "string \<Rightarrow> nat option" where
  "rune_length s = map_option length (find (\<lambda>form. fits form s) rune_forms)"

text \<open>A byte that starts no rune counts as one of its own, the replacement character.\<close>

definition rune_width :: "string \<Rightarrow> nat" where
  "rune_width s = (case rune_length s of Some n \<Rightarrow> n | None \<Rightarrow> 1)"

text \<open>One rune other than the newline, the dot of \<open>regexp\<close> on a valid string.\<close>

definition any_rune :: rx where
  "any_rune = ralt (map (\<lambda>form. rseq (map (\<lambda>p. RP (\<lambda>c. p c \<and> c \<noteq> CHR 0x0A)) form)) rune_forms)"

lemma fits_append: "fits form u \<Longrightarrow> fits form (u @ v)"
  by (induction form u rule: fits.induct) auto

lemma fits_take: "fits form s \<longleftrightarrow> length form \<le> length s \<and> fits form (take (length form) s)"
  by (induction form s rule: fits.induct) auto

lemma rune_width_pos: "0 < rune_width s"
proof -
  have "form \<noteq> []" if "form \<in> set rune_forms" for form using that by (auto simp: rune_forms_def)
  moreover have "form \<in> set rune_forms" if "find P rune_forms = Some form" for P form
    using that by (auto simp: find_Some_iff)
  ultimately show ?thesis by (auto simp: rune_width_def rune_length_def split: option.split)
qed

text \<open>The first byte of a string decides which form it can have.\<close>

lemma forms_apart:
  "form \<in> set rune_forms \<Longrightarrow> form' \<in> set rune_forms \<Longrightarrow> fits form s \<Longrightarrow> fits form' s \<Longrightarrow> length form = length form'"
  by (cases s) (auto simp: rune_forms_def in_bytes_def)

lemma rune_length_iff: "rune_length s = Some n \<longleftrightarrow> (\<exists>form \<in> set rune_forms. length form = n \<and> fits form s)"
proof
  assume "rune_length s = Some n"
  then obtain form where "find (\<lambda>form. fits form s) rune_forms = Some form" "length form = n"
    by (auto simp: rune_length_def)
  then show "\<exists>form \<in> set rune_forms. length form = n \<and> fits form s"
    by (auto simp: find_Some_iff)
next
  assume "\<exists>form \<in> set rune_forms. length form = n \<and> fits form s"
  then obtain form where form: "form \<in> set rune_forms" "length form = n" "fits form s" by blast
  then obtain form' where form': "find (\<lambda>form. fits form s) rune_forms = Some form'"
    by (cases "find (\<lambda>form. fits form s) rune_forms") (auto simp: find_None_iff)
  then have "form' \<in> set rune_forms" "fits form' s" by (auto simp: find_Some_iff)
  then have "length form' = n" using forms_apart [OF _ form(1) _ form(3)] form(2) by blast
  then show "rune_length s = Some n" by (simp add: rune_length_def form')
qed

lemma in_lang_ralt: "in_lang (ralt rs) u \<longleftrightarrow> (\<exists>r \<in> set rs. in_lang r u)"
  by (induction rs rule: ralt.induct) auto

lemma in_lang_rseq_Cons: "in_lang (rseq (r # rs)) s \<longleftrightarrow> (\<exists>u v. s = u @ v \<and> in_lang r u \<and> in_lang (rseq rs) v)"
  by (cases rs) auto

lemma in_lang_byte: "(\<exists>u v. s = u @ v \<and> in_lang (RP p) u \<and> Q v) \<longleftrightarrow> (\<exists>c v. s = c # v \<and> p c \<and> Q v)"
proof
  assume "\<exists>c v. s = c # v \<and> p c \<and> Q v"
  then obtain c v where "s = [c] @ v" "p c" "Q v" by auto
  then show "\<exists>u v. s = u @ v \<and> in_lang (RP p) u \<and> Q v" using lang_p [of p c] by blast
qed auto

lemma in_lang_fits:
  "in_lang (rseq (map (\<lambda>p. RP (\<lambda>c. p c \<and> c \<noteq> CHR 0x0A)) form)) u \<longleftrightarrow>
     length u = length form \<and> fits form u \<and> CHR 0x0A \<notin> set u"
proof (induction form arbitrary: u)
  case (Cons p form)
  have "in_lang (rseq (map (\<lambda>p. RP (\<lambda>c. p c \<and> c \<noteq> CHR 0x0A)) (p # form))) u \<longleftrightarrow>
      (\<exists>c v. u = c # v \<and> (p c \<and> c \<noteq> CHR 0x0A) \<and> in_lang (rseq (map (\<lambda>p. RP (\<lambda>c. p c \<and> c \<noteq> CHR 0x0A)) form)) v)"
    unfolding list.map in_lang_rseq_Cons in_lang_byte ..
  then show ?case unfolding Cons.IH by (cases u) auto
qed auto

text \<open>Only the newline itself contains the byte of the newline.\<close>

lemma fits_byte: "fits form s \<Longrightarrow> x \<in> set (take (length form) s) \<Longrightarrow> \<exists>p \<in> set form. p x"
  by (induction form s rule: fits.induct) auto

lemma newline_form: "form \<in> set rune_forms \<Longrightarrow> p \<in> set form \<Longrightarrow> p (CHR 0x0A) \<Longrightarrow> length form = 1"
  by (auto simp: rune_forms_def in_bytes_def)

lemma rune_newline:
  assumes "form \<in> set rune_forms" "fits form (c # s)" "CHR 0x0A \<in> set (take (length form) (c # s))"
  shows "c = CHR 0x0A"
proof -
  have "length form = 1" using fits_byte [OF assms(2,3)] newline_form [OF assms(1)] by blast
  then show ?thesis using assms(3) by simp
qed

lemma in_lang_any_rune:
  "(\<exists>u v. s = u @ v \<and> in_lang any_rune u \<and> Q v) \<longleftrightarrow>
     (case rune_length s of None \<Rightarrow> False | Some n \<Rightarrow> hd s \<noteq> CHR 0x0A \<and> Q (drop n s))"
proof
  assume "\<exists>u v. s = u @ v \<and> in_lang any_rune u \<and> Q v"
  then obtain u v form where u: "s = u @ v" "Q v" "form \<in> set rune_forms" "length u = length form" "fits form u" "CHR 0x0A \<notin> set u"
    by (auto simp: any_rune_def in_lang_ralt in_lang_fits)
  then have "rune_length s = Some (length u)" unfolding rune_length_iff using fits_append [of form u v] by auto
  moreover have "u \<noteq> []" using u(3,4) by (auto simp: rune_forms_def)
  then have "hd s \<noteq> CHR 0x0A" using u(1,6) by (cases u) auto
  ultimately show "case rune_length s of None \<Rightarrow> False | Some n \<Rightarrow> hd s \<noteq> CHR 0x0A \<and> Q (drop n s)"
    using u(1,2) by simp
next
  assume a: "case rune_length s of None \<Rightarrow> False | Some n \<Rightarrow> hd s \<noteq> CHR 0x0A \<and> Q (drop n s)"
  then obtain n where n: "rune_length s = Some n" "hd s \<noteq> CHR 0x0A" "Q (drop n s)" by (cases "rune_length s") auto
  then obtain form where form: "form \<in> set rune_forms" "length form = n" "fits form s" unfolding rune_length_iff by blast
  then have "s \<noteq> []" by (auto simp: rune_forms_def)
  then obtain c t where s: "s = c # t" by (cases s) auto
  have fit: "length form \<le> length s" "fits form (take (length form) s)" using fits_take [of form s] form(3) by blast+
  have "CHR 0x0A \<notin> set (take n s)" using rune_newline [OF form(1), of c t] form(2,3) n(2) s by auto
  then have "in_lang any_rune (take n s)"
    unfolding any_rune_def in_lang_ralt using form fit by (auto simp: in_lang_fits intro!: bexI [of _ form])
  then show "\<exists>u v. s = u @ v \<and> in_lang any_rune u \<and> Q v"
    using n(3) by (intro exI [of _ "take n s"] exI [of _ "drop n s"]) simp
qed

end
