(* ===== verification/Project_Group.thy ===== *)
theory Project_Group
  imports Project_Owner Utf8 "HOL-Library.AList"
begin

text \<open>
  Parent resolution of projects, \<open>backend/internal/projectgroup/rules.go\<close> (the mapping file and
  its globs) and \<open>projectgroup.go\<close> (\<open>Resolve\<close>). The map of families is an association list, so
  the model fixes one of the orders the code may iterate in; \<open>resolve_order_irrelevant\<close> shows
  that the order of the input and of the families does not matter.
\<close>

subsection \<open>The mapping file\<close>

record group_match =
  gm_projects :: "string list"
  gm_repos :: "string list"
  gm_owners :: "string list"
  gm_suppliers :: "string list"

record project_group =
  gp_parent :: string
  gp_standalone :: bool
  gp_match :: group_match
  gp_reason :: string

record compiled_group =
  cg_group :: project_group
  cg_projects :: "rx list"
  cg_repos :: "rx list"
  cg_owners :: "string set"
  cg_suppliers :: "string set"

type_synonym rules = "compiled_group list"

definition not_newline :: "char \<Rightarrow> bool" where
  "not_newline c \<longleftrightarrow> c \<noteq> CHR 0x0A"

definition glob_char :: "char \<Rightarrow> rx" where
  "glob_char r =
     (if r = CHR ''*'' then RStar (RP not_newline)
      else if r = CHR ''?'' then any_rune
      else RP (\<lambda>c. lower_char c = lower_char r))"

definition glob_regexp :: "string \<Rightarrow> rx" where
  "glob_regexp glob = rseq (map glob_char (trim_space glob))"

definition lower_set :: "string list \<Rightarrow> string set" where
  "lower_set vals = set (filter (\<lambda>v. v \<noteq> []) (map (\<lambda>v. to_lower (trim_space v)) vals))"

datatype rules_error = RulesUndecodable | GroupNeedsParent nat | GroupSetsBoth nat | GroupMatchEmpty nat | RulesUnreadable

fun compile_groups :: "nat \<Rightarrow> rules \<Rightarrow> project_group list \<Rightarrow> rules_error + rules" where
  "compile_groups i acc [] = Inr acc"
| "compile_groups i acc (g0 # gs) =
     (let g = g0\<lparr>gp_parent := trim_space (gp_parent g0)\<rparr>; m = gp_match g
      in if gp_parent g = [] \<and> \<not> gp_standalone g then Inl (GroupNeedsParent i)
         else if gp_parent g \<noteq> [] \<and> gp_standalone g then Inl (GroupSetsBoth i)
         else if length (gm_projects m) + length (gm_repos m) + length (gm_owners m) + length (gm_suppliers m) = 0
         then Inl (GroupMatchEmpty i)
         else compile_groups (Suc i)
                (acc @ [\<lparr>cg_group = g, cg_projects = map glob_regexp (gm_projects m),
                         cg_repos = map glob_regexp (gm_repos m), cg_owners = lower_set (gm_owners m),
                         cg_suppliers = lower_set (gm_suppliers m)\<rparr>]) gs)"

text \<open>\<open>ParseRules\<close> on the decoded groups (\<open>Inl\<close>: the JSON decoder failed).\<close>

definition parse_rules :: "unit + project_group list \<Rightarrow> rules_error + rules" where
  "parse_rules decoded = (case decoded of Inl _ \<Rightarrow> Inl RulesUndecodable | Inr groups \<Rightarrow> compile_groups 0 [] groups)"

text \<open>\<open>LoadRules\<close>: the file is missing (\<open>Inl True\<close>), unreadable (\<open>Inl False\<close>) or its content.\<close>

definition load_rules :: "string \<Rightarrow> bool + (unit + project_group list) \<Rightarrow> rules_error + rules option" where
  "load_rules path read =
     (if trim_space path = [] then Inr None
      else (case read of
              Inl missing \<Rightarrow> if missing then Inr None else Inl RulesUnreadable
            | Inr decoded \<Rightarrow> (case parse_rules decoded of Inl e \<Rightarrow> Inl e | Inr r \<Rightarrow> Inr (Some r))))"

definition any_match :: "rx list \<Rightarrow> string \<Rightarrow> bool" where
  "any_match res s \<longleftrightarrow> s \<noteq> [] \<and> (\<exists>re \<in> set res. match_string re s)"

definition group_applies :: "signals \<Rightarrow> string \<Rightarrow> string \<Rightarrow> compiled_group \<Rightarrow> bool" where
  "group_applies s owner supplier g \<longleftrightarrow>
     any_match (cg_projects g) (sg_project s) \<or> any_match (cg_repos g) (sg_source_repo s) \<or>
     owner \<noteq> [] \<and> owner \<in> cg_owners g \<or> supplier \<noteq> [] \<and> supplier \<in> cg_suppliers g"

definition match_rules :: "rules option \<Rightarrow> signals \<Rightarrow> string \<Rightarrow> project_group option" where
  "match_rules r s owner0 =
     (case r of
        None \<Rightarrow> None
      | Some groups \<Rightarrow>
          let owner = to_lower owner0; supplier = to_lower (trim_space (sg_supplier s))
          in map_option cg_group (find (group_applies s owner supplier) groups))"

subsection \<open>Resolution\<close>

record assignment =
  as_parent :: string
  as_source :: "source option"
  as_owner :: string

record candidate =
  cd_project :: string
  cd_owner :: string
  cd_src :: "source option"

definition tag_parent :: "signals \<Rightarrow> string set \<Rightarrow> string" where
  "tag_parent s names =
     (let hits = filter (\<lambda>t. t \<noteq> sg_project s \<and> t \<in> names) (sg_tags s)
      in if hits = [] then [] else hd (sort hits))"

definition add_candidate :: "candidate \<Rightarrow> (string \<times> candidate list) list \<Rightarrow> (string \<times> candidate list) list" where
  "add_candidate c families =
     (let key = to_lower (cd_owner c)
      in AList.update key ((case map_of families key of None \<Rightarrow> [] | Some ms \<Rightarrow> ms) @ [c]) families)"

definition resolve_step ::
  "url_library \<Rightarrow> rules option \<Rightarrow> string set \<Rightarrow> (string \<rightharpoonup> assignment) \<times> (string \<times> candidate list) list \<Rightarrow> signals
     \<Rightarrow> (string \<rightharpoonup> assignment) \<times> (string \<times> candidate list) list" where
  "resolve_step lib rules names st s =
     (case st of (out, families) \<Rightarrow>
        let (owner, owner_src) = owner_key lib s
        in (case match_rules rules s owner of
              Some g \<Rightarrow>
                (if \<not> gp_standalone g \<and> gp_parent g \<noteq> sg_project s
                 then out(sg_project s \<mapsto> \<lparr>as_parent = gp_parent g, as_source = Some SourceConfig, as_owner = []\<rparr>)
                 else out, families)
            | None \<Rightarrow>
                let p = trim_space (sg_explicit_parent s)
                in if p \<noteq> [] \<and> p \<noteq> sg_project s
                   then (out(sg_project s \<mapsto> \<lparr>as_parent = p, as_source = Some SourceExplicit, as_owner = []\<rparr>), families)
                   else
                     let t = tag_parent s names
                     in if t \<noteq> []
                        then (out(sg_project s \<mapsto> \<lparr>as_parent = t, as_source = Some SourceTag, as_owner = []\<rparr>), families)
                        else if owner \<noteq> []
                        then (out, add_candidate \<lparr>cd_project = sg_project s, cd_owner = owner, cd_src = owner_src\<rparr> families)
                        else (out, families)))"

definition family_label :: "string \<Rightarrow> candidate list \<Rightarrow> string" where
  "family_label fallback members =
     fst (foldl (\<lambda>(label, first) m.
            if first = [] \<or> cd_project m < first then (cd_owner m, cd_project m) else (label, first))
          (fallback, []) members)"

definition member_assignment :: "string \<Rightarrow> candidate \<Rightarrow> assignment" where
  "member_assignment parent m = \<lparr>as_parent = parent, as_source = cd_src m, as_owner = cd_owner m\<rparr>"

definition assign_family :: "(string \<rightharpoonup> assignment) \<Rightarrow> candidate list \<Rightarrow> (string \<rightharpoonup> assignment)" where
  "assign_family out members =
     (let tops = filter (\<lambda>m. \<not> contains_str (cd_project m) ''/'') members
      in if length tops = 1
         then let head = cd_project (hd tops)
              in foldl (\<lambda>out m. if cd_project m \<noteq> head then out(cd_project m \<mapsto> member_assignment head m) else out) out members
         else if length tops = 0 \<and> length members \<ge> 2
         then let label = family_label (cd_owner (hd members)) members
              in foldl (\<lambda>out m. out(cd_project m \<mapsto> member_assignment label m)) out members
         else out)"

definition resolve :: "url_library \<Rightarrow> signals list \<Rightarrow> rules option \<Rightarrow> (string \<rightharpoonup> assignment)" where
  "resolve lib sigs rules =
     (let names = set (map sg_project sigs);
          (out, families) = foldl (resolve_step lib rules names) (Map.empty, []) sigs
      in foldl assign_family out (map snd families))"


subsection \<open>What the first pass decides about one project\<close>

datatype decision = Assigned assignment | NoParent | Candidate candidate

definition decide :: "url_library \<Rightarrow> rules option \<Rightarrow> string set \<Rightarrow> signals \<Rightarrow> decision" where
  "decide lib rules names s =
     (let owner = fst (owner_key lib s); p = trim_space (sg_explicit_parent s); t = tag_parent s names
      in case match_rules rules s owner of
           Some g \<Rightarrow>
             if gp_standalone g \<or> gp_parent g = sg_project s then NoParent
             else Assigned \<lparr>as_parent = gp_parent g, as_source = Some SourceConfig, as_owner = []\<rparr>
         | None \<Rightarrow>
             if p \<noteq> [] \<and> p \<noteq> sg_project s then Assigned \<lparr>as_parent = p, as_source = Some SourceExplicit, as_owner = []\<rparr>
             else if t \<noteq> [] then Assigned \<lparr>as_parent = t, as_source = Some SourceTag, as_owner = []\<rparr>
             else if owner \<noteq> []
             then Candidate \<lparr>cd_project = sg_project s, cd_owner = owner, cd_src = snd (owner_key lib s)\<rparr>
             else NoParent)"

lemma resolve_step_decide:
  "resolve_step lib rules names (out, families) s =
     (case decide lib rules names s of
        Assigned a \<Rightarrow> (out(sg_project s \<mapsto> a), families)
      | NoParent \<Rightarrow> (out, families)
      | Candidate c \<Rightarrow> (out, add_candidate c families))"
  by (auto simp: resolve_step_def decide_def Let_def split: option.splits prod.splits)

lemma decide_project: "decide lib rules names s = Candidate c \<Longrightarrow> cd_project c = sg_project s"
  by (auto simp: decide_def Let_def split: option.splits if_splits)

text \<open>The members of the family of an owner key, in input order.\<close>

definition family :: "url_library \<Rightarrow> rules option \<Rightarrow> string set \<Rightarrow> signals list \<Rightarrow> string \<Rightarrow> candidate list" where
  "family lib rules names sigs key =
     concat (map (\<lambda>s. case decide lib rules names s of
                        Candidate c \<Rightarrow> if to_lower (cd_owner c) = key then [c] else []
                      | _ \<Rightarrow> []) sigs)"

lemma family_snoc:
  "family lib rules names (sigs @ [s]) key = family lib rules names sigs key @
     (case decide lib rules names s of Candidate c \<Rightarrow> if to_lower (cd_owner c) = key then [c] else [] | _ \<Rightarrow> [])"
  by (simp add: family_def)

lemma first_pass:
  assumes "foldl (resolve_step lib rules names) (Map.empty, []) sigs = (out, families)"
  shows "(\<forall>p. out p = (case filter (\<lambda>s. sg_project s = p \<and> (\<exists>a. decide lib rules names s = Assigned a)) (rev sigs) of
              [] \<Rightarrow> None
            | s # _ \<Rightarrow> (case decide lib rules names s of Assigned a \<Rightarrow> Some a | _ \<Rightarrow> None))) \<and>
     (\<forall>key. map_of families key = (if family lib rules names sigs key = [] then None else Some (family lib rules names sigs key))) \<and>
     distinct (map fst families)"
  using assms
proof (induction sigs arbitrary: out families rule: rev_induct)
  case Nil
  then show ?case by (auto simp: family_def)
next
  case (snoc s sigs)
  obtain out1 fam1 where 1: "foldl (resolve_step lib rules names) (Map.empty, []) sigs = (out1, fam1)"
    by fastforce
  note IH = snoc.IH [OF 1]
  have step: "resolve_step lib rules names (out1, fam1) s = (out, families)"
    using snoc.prems 1 by simp
  show ?case
  proof (cases "decide lib rules names s")
    case (Assigned a)
    then have "out = out1(sg_project s \<mapsto> a)" "families = fam1"
      using step by (simp_all add: resolve_step_decide)
    with IH Assigned show ?thesis
      by (auto simp: family_snoc)
  next
    case NoParent
    with step IH show ?thesis by (auto simp: resolve_step_decide family_snoc)
  next
    case (Candidate c)
    then have eq: "out = out1" "families = add_candidate c fam1"
      using step by (simp_all add: resolve_step_decide)
    have "map_of families key = (if family lib rules names (sigs @ [s]) key = [] then None
        else Some (family lib rules names (sigs @ [s]) key))" for key
      using IH by (auto simp: eq add_candidate_def Let_def update_conv family_snoc Candidate)
    moreover have "distinct (map fst families)"
      using IH by (simp add: eq add_candidate_def Let_def distinct_update)
    ultimately show ?thesis
      using IH by (auto simp: eq Candidate)
  qed
qed

subsection \<open>What a family decides about its members\<close>

definition tops :: "candidate list \<Rightarrow> candidate list" where
  "tops members = filter (\<lambda>m. \<not> contains_str (cd_project m) ''/'') members"

definition family_parent :: "candidate list \<Rightarrow> candidate \<Rightarrow> string option" where
  "family_parent members m =
     (if length (tops members) = 1
      then (if cd_project m \<noteq> cd_project (hd (tops members)) then Some (cd_project (hd (tops members))) else None)
      else if tops members = [] \<and> length members \<ge> 2
      then Some (family_label (cd_owner (hd members)) members)
      else None)"

lemma foldl_map_upd_other:
  "p \<notin> cd_project ` set ms \<Longrightarrow> foldl (\<lambda>out m. if P m then out(cd_project m \<mapsto> f m) else out) out ms p = out p"
  by (induction ms rule: rev_induct) auto

lemma foldl_map_upd:
  assumes "distinct (map cd_project ms)" "m \<in> set ms"
  shows "foldl (\<lambda>out m. if P m then out(cd_project m \<mapsto> f m) else out) out ms (cd_project m) =
     (if P m then Some (f m) else out (cd_project m))"
  using assms
proof (induction ms rule: rev_induct)
  case (snoc x ms)
  show ?case
  proof (cases "m = x")
    case True
    then have "cd_project m \<notin> cd_project ` set ms" using snoc.prems by auto
    then show ?thesis using True by (simp add: foldl_map_upd_other)
  next
    case False
    then have "m \<in> set ms" using snoc.prems by auto
    moreover from this have "cd_project m \<in> cd_project ` set ms" by (rule imageI)
    moreover have "cd_project x \<notin> cd_project ` set ms" using snoc.prems(1) by simp
    ultimately have "cd_project m \<noteq> cd_project x" by metis
    then show ?thesis using snoc.IH \<open>m \<in> set ms\<close> snoc.prems(1) by simp
  qed
qed simp

lemma assign_family_eq:
  "assign_family out members =
     foldl (\<lambda>out m. if family_parent members m \<noteq> None
                     then out(cd_project m \<mapsto> member_assignment (the (family_parent members m)) m) else out) out members"
proof -
  have const: "foldl (\<lambda>out m. out) out ms = out" for out :: "string \<rightharpoonup> assignment" and ms :: "candidate list"
    by (induction ms) auto
  consider (Head) "length (tops members) = 1" | (Label) "length (tops members) = 0" "length members \<ge> 2"
    | (Ambiguous) "length (tops members) \<noteq> 1" "\<not> (length (tops members) = 0 \<and> length members \<ge> 2)"
    by linarith
  then show ?thesis
  proof cases
    case Head
    then have fp: "family_parent members m =
        (if cd_project m \<noteq> cd_project (hd (tops members)) then Some (cd_project (hd (tops members))) else None)" for m
      by (simp add: family_parent_def)
    show ?thesis
      using Head unfolding assign_family_def Let_def tops_def [symmetric]
      by simp (intro foldl_cong refl, simp add: fp)
  next
    case Label
    then have fp: "family_parent members m = Some (family_label (cd_owner (hd members)) members)" for m
      by (simp add: family_parent_def)
    show ?thesis
      using Label unfolding assign_family_def Let_def tops_def [symmetric] by (simp add: fp)
  next
    case Ambiguous
    then have fp: "family_parent members m = None" for m
      by (auto simp: family_parent_def)
    show ?thesis
      using Ambiguous unfolding assign_family_def Let_def tops_def [symmetric] by (auto simp: fp const)
  qed
qed

lemma assign_family_member:
  assumes "distinct (map cd_project members)" "m \<in> set members"
  shows "assign_family out members (cd_project m) =
     (case family_parent members m of Some q \<Rightarrow> Some (member_assignment q m) | None \<Rightarrow> out (cd_project m))"
  unfolding assign_family_eq foldl_map_upd [OF assms] by (auto split: option.split)

lemma assign_family_other:
  assumes "p \<notin> cd_project ` set members"
  shows "assign_family out members p = out p"
  unfolding assign_family_eq by (rule foldl_map_upd_other [OF assms])

lemma assign_families:
  assumes "distinct (map cd_project (concat fams))"
  shows "m \<in> set ms \<Longrightarrow> ms \<in> set fams \<Longrightarrow> foldl assign_family out fams (cd_project m) =
      (case family_parent ms m of Some q \<Rightarrow> Some (member_assignment q m) | None \<Rightarrow> out (cd_project m))"
    and "p \<notin> cd_project ` set (concat fams) \<Longrightarrow> foldl assign_family out fams p = out p"
proof -
  have "(\<forall>m ms. m \<in> set ms \<longrightarrow> ms \<in> set fams \<longrightarrow> foldl assign_family out fams (cd_project m) =
      (case family_parent ms m of Some q \<Rightarrow> Some (member_assignment q m) | None \<Rightarrow> out (cd_project m))) \<and>
    (\<forall>p. p \<notin> cd_project ` set (concat fams) \<longrightarrow> foldl assign_family out fams p = out p)"
    using assms
  proof (induction fams arbitrary: out)
    case (Cons f fams)
    have IH: "m \<in> set ms \<Longrightarrow> ms \<in> set fams \<Longrightarrow> foldl assign_family out' fams (cd_project m) =
        (case family_parent ms m of Some q \<Rightarrow> Some (member_assignment q m) | None \<Rightarrow> out' (cd_project m))"
      "p \<notin> cd_project ` set (concat fams) \<Longrightarrow> foldl assign_family out' fams p = out' p" for out' m ms p
      using Cons by simp_all
    have disjoint: "cd_project ` set f \<inter> cd_project ` set (concat fams) = {}" and "distinct (map cd_project f)"
      using Cons.prems by auto
    have first: "foldl assign_family out (f # fams) (cd_project m) =
        (case family_parent f m of Some q \<Rightarrow> Some (member_assignment q m) | None \<Rightarrow> out (cd_project m))"
      if "m \<in> set f" for m
      using that disjoint IH(2) [of "cd_project m" "assign_family out f"]
        assign_family_member [OF \<open>distinct (map cd_project f)\<close> that] by auto
    have later: "foldl assign_family out (f # fams) (cd_project m) =
        (case family_parent ms m of Some q \<Rightarrow> Some (member_assignment q m) | None \<Rightarrow> out (cd_project m))"
      if "m \<in> set ms" "ms \<in> set fams" for m ms
    proof -
      have "cd_project m \<in> cd_project ` set (concat fams)" using that by auto
      then have "cd_project m \<notin> cd_project ` set f" using disjoint by blast
      then show ?thesis
        using IH(1) [OF that, of "assign_family out f"] assign_family_other [of "cd_project m" f out]
        by (cases "family_parent ms m") simp_all
    qed
    have "foldl assign_family out (f # fams) p = out p" if "p \<notin> cd_project ` set (concat (f # fams))" for p
    proof -
      have "p \<notin> cd_project ` set f" "p \<notin> cd_project ` set (concat fams)" using that by auto
      then show ?thesis using IH(2) [of p "assign_family out f"] assign_family_other [of p f out] by simp
    qed
    with first later show ?case by auto
  qed simp
  then show "m \<in> set ms \<Longrightarrow> ms \<in> set fams \<Longrightarrow> foldl assign_family out fams (cd_project m) =
      (case family_parent ms m of Some q \<Rightarrow> Some (member_assignment q m) | None \<Rightarrow> out (cd_project m))"
    "p \<notin> cd_project ` set (concat fams) \<Longrightarrow> foldl assign_family out fams p = out p"
    by blast+
qed


subsection \<open>The resolution of a project\<close>

definition resolved :: "url_library \<Rightarrow> rules option \<Rightarrow> signals list \<Rightarrow> signals \<Rightarrow> assignment option" where
  "resolved lib rules sigs s =
     (let names = set (map sg_project sigs)
      in case decide lib rules names s of
           Assigned a \<Rightarrow> Some a
         | NoParent \<Rightarrow> None
         | Candidate c \<Rightarrow>
             map_option (\<lambda>q. member_assignment q c)
               (family_parent (family lib rules names sigs (to_lower (cd_owner c))) c))"

lemma set_family:
  "set (family lib rules names sigs key) =
     {c. to_lower (cd_owner c) = key \<and> (\<exists>s \<in> set sigs. decide lib rules names s = Candidate c)}"
  by (auto simp: family_def split: decision.splits if_splits)

lemma family_distinct:
  assumes "distinct (map sg_project sigs)"
  shows "distinct (map cd_project (family lib rules names sigs key))"
  using assms
proof (induction sigs rule: rev_induct)
  case (snoc s sigs)
  have "cd_project c \<notin> cd_project ` set (family lib rules names sigs key)"
    if "decide lib rules names s = Candidate c" for c
    using snoc.prems that by (auto simp: set_family dest!: decide_project) (metis imageI)
  then show ?case
    using snoc by (auto simp: family_snoc split: decision.split) (metis imageI)
qed (simp add: family_def)

lemma families_distinct:
  assumes "distinct (map sg_project sigs)" "distinct (map fst families)"
    and "\<And>key ms. (key, ms) \<in> set families \<Longrightarrow> ms = family lib rules names sigs key"
  shows "distinct (map cd_project (concat (map snd families)))"
  using assms(2,3)
proof (induction families)
  case (Cons kf families)
  obtain key ms where kf: "kf = (key, ms)" by fastforce
  have ms: "ms = family lib rules names sigs key" using Cons.prems(2) [of key ms] by (simp add: kf)
  have "cd_project c \<noteq> cd_project c'" if "c \<in> set ms" "(key', ms') \<in> set families" "c' \<in> set ms'" for c c' key' ms'
  proof
    assume eq: "cd_project c = cd_project c'"
    have "ms' = family lib rules names sigs key'" using Cons.prems(2) [of key' ms'] that(2) by simp
    with that(1,3) obtain s s' where s: "s \<in> set sigs" "decide lib rules names s = Candidate c"
        "s' \<in> set sigs" "decide lib rules names s' = Candidate c'"
        "to_lower (cd_owner c) = key" "to_lower (cd_owner c') = key'"
      by (auto simp: ms set_family)
    then have "s = s'"
      using eq assms(1) decide_project [OF s(2)] decide_project [OF s(4)] by (metis distinct_map inj_onD)
    with s have "key = key'" by simp
    with Cons.prems(1) that(2) show False by (auto simp: kf rev_image_eqI)
  qed
  then have "cd_project ` set ms \<inter> cd_project ` set (concat (map snd families)) = {}"
    by fastforce
  moreover have "distinct (map cd_project (concat (map snd families)))"
    using Cons by auto
  ultimately show ?case
    using family_distinct [OF assms(1), of lib rules names key] by (simp add: kf ms)
qed simp

lemma find_signal:
  assumes "distinct (map sg_project sigs)" "s \<in> set sigs"
  shows "filter (\<lambda>s'. sg_project s' = sg_project s \<and> P s') (rev sigs) = (if P s then [s] else [])"
  using assms
proof (induction sigs)
  case (Cons x sigs)
  have none: "sg_project x \<notin> sg_project ` set sigs" using Cons.prems(1) by simp
  show ?case
  proof (cases "s = x")
    case True
    have "filter (\<lambda>s'. sg_project s' = sg_project s \<and> P s') (rev sigs) = []"
      using none by (auto simp: filter_empty_conv True) (metis imageI)
    then show ?thesis by (simp add: True)
  next
    case False
    then have "s \<in> set sigs" using Cons.prems(2) by simp
    moreover from this none have "sg_project x \<noteq> sg_project s" by (metis imageI)
    ultimately show ?thesis using Cons by simp
  qed
qed simp

lemma resolve_eq_resolved:
  assumes "distinct (map sg_project sigs)" "s \<in> set sigs"
  shows "resolve lib sigs rules (sg_project s) = resolved lib rules sigs s"
proof -
  define names where "names = set (map sg_project sigs)"
  obtain out families where pass: "foldl (resolve_step lib rules names) (Map.empty, []) sigs = (out, families)"
    by fastforce
  note first = first_pass [OF pass]
  let ?fams = "map snd families"
  have fam: "ms = family lib rules names sigs key" "ms \<noteq> []" if "(key, ms) \<in> set families" for key ms
    using first map_of_is_SomeI [of families key ms] that by (auto split: if_splits)
  have in_fams: "family lib rules names sigs key \<in> set ?fams" if "family lib rules names sigs key \<noteq> []" for key
    using first that map_of_SomeD [of families key] by force
  have dist: "distinct (map cd_project (concat ?fams))"
    using families_distinct [OF assms(1)] first fam(1) by blast
  have out: "out (sg_project s) = (case decide lib rules names s of Assigned a \<Rightarrow> Some a | _ \<Rightarrow> None)"
    using first by (auto simp: find_signal [OF assms] split: decision.splits)
  have resolve: "resolve lib sigs rules (sg_project s) = foldl assign_family out ?fams (sg_project s)"
    unfolding resolve_def Let_def names_def [symmetric] pass prod.case by (rule refl)
  show ?thesis
  proof (cases "decide lib rules names s")
    case (Candidate c)
    let ?F = "family lib rules names sigs (to_lower (cd_owner c))"
    have c: "c \<in> set ?F"
      using Candidate assms(2) by (auto simp: set_family)
    then have "?F \<in> set ?fams" by (intro in_fams) auto
    from assign_families(1) [OF dist c this, of out] show ?thesis
      using out decide_project [OF Candidate]
      unfolding resolve resolved_def Let_def names_def [symmetric] Candidate decision.case
      by (simp split: option.split)
  next
    case other: (Assigned a)
    have "sg_project s \<notin> cd_project ` set (concat ?fams)"
    proof
      assume "sg_project s \<in> cd_project ` set (concat ?fams)"
      then obtain c key where "c \<in> set (family lib rules names sigs key)" "cd_project c = sg_project s"
        using fam(1) by fastforce
      then obtain s' where "s' \<in> set sigs" "decide lib rules names s' = Candidate c" "sg_project s' = sg_project s"
        unfolding set_family using decide_project by force
      with assms other show False by (metis decision.distinct(3) distinct_map inj_onD)
    qed
    from assign_families(2) [OF dist this, of out] show ?thesis
      using out unfolding resolve resolved_def Let_def names_def [symmetric] other decision.case by simp
  next
    case other: NoParent
    have "sg_project s \<notin> cd_project ` set (concat ?fams)"
    proof
      assume "sg_project s \<in> cd_project ` set (concat ?fams)"
      then obtain c key where "c \<in> set (family lib rules names sigs key)" "cd_project c = sg_project s"
        using fam(1) by fastforce
      then obtain s' where "s' \<in> set sigs" "decide lib rules names s' = Candidate c" "sg_project s' = sg_project s"
        unfolding set_family using decide_project by force
      with assms other show False by (metis decision.distinct(5) distinct_map inj_onD)
    qed
    from assign_families(2) [OF dist this, of out] show ?thesis
      using out unfolding resolve resolved_def Let_def names_def [symmetric] other decision.case by simp
  qed
qed


lemma resolve_other:
  assumes "p \<notin> sg_project ` set sigs"
  shows "resolve lib sigs rules p = None"
proof -
  define names where "names = set (map sg_project sigs)"
  obtain out families where pass: "foldl (resolve_step lib rules names) (Map.empty, []) sigs = (out, families)"
    by fastforce
  note first = first_pass [OF pass]
  have "ms = family lib rules names sigs key" if "(key, ms) \<in> set families" for key ms
    using first map_of_is_SomeI [of families key ms] that by (auto split: if_splits)
  then have fam: "p \<notin> cd_project ` set ms" if "ms \<in> set (map snd families)" for ms
  proof -
    from that obtain key where "(key, ms) \<in> set families" by auto
    then have ms: "ms = family lib rules names sigs key"
      using \<open>\<And>ms key. (key, ms) \<in> set families \<Longrightarrow> ms = family lib rules names sigs key\<close> by blast
    have "cd_project c \<in> sg_project ` set sigs" if "c \<in> set ms" for c
    proof -
      from that obtain s where "s \<in> set sigs" "decide lib rules names s = Candidate c"
        unfolding ms set_family by blast
      then show ?thesis using decide_project [of lib rules names s c] by (simp add: rev_image_eqI)
    qed
    then show ?thesis using assms by (metis imageE)
  qed
  have "foldl assign_family out' fams p = out' p" if "set fams \<subseteq> set (map snd families)" for fams out'
    using that fam by (induction fams arbitrary: out') (auto simp: assign_family_other)
  moreover have "filter (\<lambda>s. sg_project s = p \<and> Q s) (rev sigs) = []" for Q
    using assms by (auto simp: filter_empty_conv)
  ultimately show ?thesis
    using first unfolding resolve_def Let_def names_def [symmetric] pass prod.case by simp
qed

subsection \<open>Order of the input\<close>

lemma family_perm: "mset sigs' = mset sigs \<Longrightarrow>
    mset (family lib rules names sigs' key) = mset (family lib rules names sigs key)"
  unfolding family_def mset_concat sum_mset_sum_list [symmetric] mset_map by simp

text \<open>The label is the owner of the member with the smallest project name.\<close>

lemma family_label_min:
  assumes "members \<noteq> []" "\<forall>m \<in> set members. cd_project m \<noteq> []" "distinct (map cd_project members)"
    and "m \<in> set members" "\<forall>m' \<in> set members. cd_project m \<le> cd_project m'"
  shows "family_label fallback members = cd_owner m"
proof -
  let ?step = "\<lambda>(label, first) m. if first = [] \<or> cd_project m < first then (cd_owner m, cd_project m) else (label, first)"
  have fold: "\<exists>m \<in> set (m0 # ms). foldl ?step (cd_owner m0, cd_project m0) ms = (cd_owner m, cd_project m) \<and>
      (\<forall>m' \<in> set (m0 # ms). cd_project m \<le> cd_project m')"
    if "\<forall>m \<in> set (m0 # ms). cd_project m \<noteq> []" for m0 ms
    using that
  proof (induction ms arbitrary: m0)
    case (Cons x ms)
    let ?m = "if cd_project x < cd_project m0 then x else m0"
    have "foldl ?step (cd_owner m0, cd_project m0) (x # ms) = foldl ?step (cd_owner ?m, cd_project ?m) ms"
      using Cons.prems by simp
    moreover obtain m where "m \<in> set (?m # ms)" "foldl ?step (cd_owner ?m, cd_project ?m) ms = (cd_owner m, cd_project m)"
        "\<forall>m' \<in> set (?m # ms). cd_project m \<le> cd_project m'"
      using Cons.IH [of ?m] Cons.prems by auto
    ultimately show ?case
      by (intro bexI [of _ m]) (auto split: if_splits)
  qed simp
  obtain m0 ms where members: "members = m0 # ms" using assms(1) by (cases members) auto
  have "foldl ?step (fallback, []) members = foldl ?step (cd_owner m0, cd_project m0) ms"
    by (simp add: members)
  then obtain m1 where m1: "m1 \<in> set members" "foldl ?step (fallback, []) members = (cd_owner m1, cd_project m1)"
      "\<forall>m' \<in> set members. cd_project m1 \<le> cd_project m'"
    using fold [of m0 ms] assms(2) by (auto simp: members)
  then have "cd_project m1 = cd_project m"
    using assms(4,5) by (metis order_antisym)
  then have "m1 = m"
    using assms(3,4) m1(1) by (meson distinct_map inj_onD)
  then show ?thesis using m1(2) by (simp add: family_label_def)
qed

lemma family_parent_perm:
  assumes "mset ms' = mset ms" "distinct (map cd_project ms)" "\<forall>m \<in> set ms. cd_project m \<noteq> []"
  shows "family_parent ms' m = family_parent ms m"
proof -
  have tops: "mset (tops ms') = mset (tops ms)"
    using assms(1) by (simp add: tops_def)
  then have len: "length (tops ms') = length (tops ms)" "length ms' = length ms"
    using assms(1) by (metis size_mset)+
  have "tops ms' = tops ms" if "length (tops ms) = 1"
    using that len(1) tops by (cases "tops ms"; cases "tops ms'") auto
  moreover have "family_label (cd_owner (hd ms')) ms' = family_label (cd_owner (hd ms)) ms" if "2 \<le> length ms"
  proof -
    have set: "set ms' = set ms" using assms(1) by (metis set_mset_mset)
    have dist': "distinct (map cd_project ms')"
      using assms(1,2) by (metis mset_eq_imp_distinct_iff mset_map)
    have ne: "ms \<noteq> []" "ms' \<noteq> []" using that len(2) by auto
    have "\<exists>m \<in> set ms. \<forall>m' \<in> set ms. cd_project m \<le> cd_project m'"
      using ne(1) by (metis List.finite_set arg_min_if_finite(1) arg_min_if_finite(2) linorder_not_le set_empty2)
    then obtain m where "m \<in> set ms" "\<forall>m' \<in> set ms. cd_project m \<le> cd_project m'" by blast
    then show ?thesis
      using family_label_min [OF ne(1) assms(3) assms(2)] family_label_min [OF ne(2) _ dist'] assms(3) set by metis
  qed
  moreover have "tops ms' = [] \<longleftrightarrow> tops ms = []" using len(1) by auto
  ultimately show ?thesis
    using len by (simp add: family_parent_def)
qed

subsection \<open>The properties of the resolution\<close>

lemma decide_names: "set names' = set names \<Longrightarrow> decide lib rules (set names') s = decide lib rules (set names) s"
  by simp

lemma family_projects:
  "cd_project ` set (family lib rules names sigs key) \<subseteq> sg_project ` set sigs"
  unfolding set_family using decide_project by (fastforce simp: image_iff)

lemma resolved_perm:
  assumes "mset sigs' = mset sigs" "distinct (map sg_project sigs)" "\<forall>s \<in> set sigs. sg_project s \<noteq> []"
  shows "resolved lib rules sigs' s = resolved lib rules sigs s"
proof -
  define names where "names = set (map sg_project sigs)"
  have names': "set (map sg_project sigs') = names"
    unfolding names_def using assms(1) by (metis mset_map set_mset_mset)
  have parent: "family_parent (family lib rules names sigs' key) c = family_parent (family lib rules names sigs key) c"
    for key c
  proof (rule family_parent_perm [OF family_perm [OF assms(1)] family_distinct [OF assms(2)]])
    show "\<forall>m \<in> set (family lib rules names sigs key). cd_project m \<noteq> []"
      using family_projects [of lib rules names sigs key] assms(3) by fastforce
  qed
  show ?thesis
    unfolding resolved_def Let_def names' names_def [symmetric] parent by (rule refl)
qed

text \<open>
  C11: \<open>Resolve\<close> decides each project as the specification \<open>resolved\<close> does: a matching mapping
  group first (a standalone group, or one naming the project itself, leaves it without a parent),
  then the explicit parent, then the smallest tag naming a project, then the family of its owner;
  and it assigns nothing to any other name.
\<close>

theorem resolve_meets_spec:
  assumes "distinct (map sg_project sigs)"
  shows "resolve lib sigs rules p =
     (case find (\<lambda>s. sg_project s = p) sigs of None \<Rightarrow> None | Some s \<Rightarrow> resolved lib rules sigs s)"
proof (cases "find (\<lambda>s. sg_project s = p) sigs")
  case None
  then have "p \<notin> sg_project ` set sigs" by (auto simp: find_None_iff)
  with None show ?thesis by (simp add: resolve_other)
next
  case (Some s)
  then have "s \<in> set sigs" "sg_project s = p" by (auto simp: find_Some_iff)
  with Some resolve_eq_resolved [OF assms] show ?thesis by auto
qed

text \<open>
  C12: The order in which the signals arrive does not matter: two lists holding the same signals
  of distinct, non-empty projects resolve to the same parents.
\<close>

theorem resolve_order_irrelevant:
  assumes "mset sigs' = mset sigs" "distinct (map sg_project sigs)" "\<forall>s \<in> set sigs. sg_project s \<noteq> []"
  shows "resolve lib sigs' rules = resolve lib sigs rules"
proof
  fix p
  have dist': "distinct (map sg_project sigs')"
    using assms(1,2) by (metis mset_eq_imp_distinct_iff mset_map)
  have set: "set sigs' = set sigs" using assms(1) by (metis set_mset_mset)
  show "resolve lib sigs' rules p = resolve lib sigs rules p"
  proof (cases "p \<in> sg_project ` set sigs")
    case True
    then obtain s where s: "s \<in> set sigs" "p = sg_project s" by blast
    show ?thesis
      unfolding s(2) resolve_eq_resolved [OF assms(2) s(1)] resolve_eq_resolved [OF dist' s(1) [folded set]]
      by (rule resolved_perm [OF assms])
  next
    case False
    then show ?thesis by (simp add: resolve_other set)
  qed
qed

lemma tag_parent_other:
  assumes "tag_parent s names = t" "t \<noteq> []"
  shows "t \<noteq> sg_project s \<and> t \<in> names"
proof -
  define hits where "hits = filter (\<lambda>t. t \<noteq> sg_project s \<and> t \<in> names) (sg_tags s)"
  have "hits \<noteq> []" "t = hd (sort hits)"
    using assms by (auto simp: tag_parent_def Let_def hits_def [symmetric])
  moreover from this have "sort hits \<noteq> []" by (metis length_0_conv length_sort)
  ultimately have "t \<in> set (sort hits)" by (metis hd_in_set)
  then show ?thesis by (simp add: hits_def)
qed

text \<open>
  A project can only be named as its own parent by the automatic grouping of an owner whose
  projects all carry a slash: its name then contains one, and no project of the same owner has a
  name without. An explicit parent, a tag and a mapping group never do that.
\<close>

theorem self_parent_only_headless:
  assumes "distinct (map sg_project sigs)" "resolve lib sigs rules p = Some a" "as_parent a = p"
  shows "contains_str p ''/'' \<and>
     (\<exists>s \<in> set sigs. sg_project s = p \<and> as_owner a = fst (owner_key lib s) \<and> as_source a = snd (owner_key lib s) \<and>
        (\<forall>s' \<in> set sigs. \<forall>c. decide lib rules (set (map sg_project sigs)) s' = Candidate c \<longrightarrow>
            to_lower (cd_owner c) = to_lower (as_owner a) \<longrightarrow> contains_str (cd_project c) ''/''))"
proof -
  have "p \<in> sg_project ` set sigs" using assms(2) resolve_other by force
  then obtain s where s: "s \<in> set sigs" "p = sg_project s" by blast
  let ?names = "set (map sg_project sigs)"
  have res: "resolved lib rules sigs s = Some a"
    using assms(2) resolve_eq_resolved [OF assms(1) s(1)] by (simp add: s(2))
  have "decide lib rules ?names s \<noteq> Assigned a'" if "as_parent a' = p" for a'
    using that tag_parent_other [of s ?names]
    by (auto simp: decide_def Let_def s(2) split: option.splits if_splits)
  then obtain c where c: "decide lib rules ?names s = Candidate c"
    using res assms(3) by (cases "decide lib rules ?names s") (auto simp: resolved_def Let_def)
  let ?F = "family lib rules ?names sigs (to_lower (cd_owner c))"
  from res c obtain q where q: "family_parent ?F c = Some q" "a = member_assignment q c"
    by (auto simp: resolved_def Let_def)
  have p: "cd_project c = p" using decide_project [OF c] s(2) by simp
  have "q = p" using q(2) assms(3) by (simp add: member_assignment_def)
  then have none: "tops ?F = []"
    using q(1) p by (auto simp: family_parent_def split: if_splits)
  have cF: "c \<in> set ?F" using s(1) c by (auto simp: set_family)
  have slash: "contains_str (cd_project m) ''/''" if "m \<in> set ?F" for m
    using none that unfolding tops_def filter_empty_conv by blast
  have owner: "as_owner a = cd_owner c" "as_source a = cd_src c"
    by (simp_all add: q(2) member_assignment_def)
  have "cd_owner c = fst (owner_key lib s)" "cd_src c = snd (owner_key lib s)"
    using c by (auto simp: decide_def Let_def split: option.splits if_splits)
  moreover have "\<forall>s' \<in> set sigs. \<forall>c'. decide lib rules ?names s' = Candidate c' \<longrightarrow>
      to_lower (cd_owner c') = to_lower (as_owner a) \<longrightarrow> contains_str (cd_project c') ''/''"
    using slash owner(1) unfolding set_family by auto
  ultimately show ?thesis
    using slash [OF cF] p s owner by (metis (no_types, lifting))
qed

text \<open>A glob read as the mapping file documents it: the star is any run of characters of one line,
  the question mark one such character, in UTF-8 of one to four bytes, everything else itself up to the
  case of the ASCII letters.\<close>

fun glob_matches :: "string \<Rightarrow> string \<Rightarrow> bool" where
  "glob_matches [] s \<longleftrightarrow> s = []"
| "glob_matches (g # gs) [] \<longleftrightarrow> g = CHR ''*'' \<and> glob_matches gs []"
| "glob_matches (g # gs) (c # cs) \<longleftrightarrow>
     (if g = CHR ''*'' then glob_matches gs (c # cs) \<or> not_newline c \<and> glob_matches (g # gs) cs
      else if g = CHR ''?'' then not_newline c \<and>
        (case rune_length (c # cs) of None \<Rightarrow> False | Some n \<Rightarrow> glob_matches gs (drop n (c # cs)))
      else lower_char c = lower_char g \<and> glob_matches gs cs)"

lemma glob_matches_star:
  "glob_matches (CHR ''*'' # gs) s \<longleftrightarrow> (\<exists>u v. s = u @ v \<and> (\<forall>c \<in> set u. not_newline c) \<and> glob_matches gs v)"
proof (induction s)
  case (Cons c cs)
  have "(\<exists>u v. c # cs = u @ v \<and> (\<forall>c \<in> set u. not_newline c) \<and> glob_matches gs v) \<longleftrightarrow>
      glob_matches gs (c # cs) \<or>
      not_newline c \<and> (\<exists>u v. cs = u @ v \<and> (\<forall>c \<in> set u. not_newline c) \<and> glob_matches gs v)"
    (is "?L \<longleftrightarrow> ?R")
  proof
    assume ?L
    then obtain u v where uv: "c # cs = u @ v" "\<forall>c \<in> set u. not_newline c" "glob_matches gs v" by blast
    then show ?R by (cases u) auto
  next
    assume ?R
    then show ?L
    proof
      assume "glob_matches gs (c # cs)"
      then show ?L by (intro exI [of _ "[]"] exI [of _ "c # cs"]) simp
    next
      assume "not_newline c \<and> (\<exists>u v. cs = u @ v \<and> (\<forall>c \<in> set u. not_newline c) \<and> glob_matches gs v)"
      then obtain u v where "not_newline c" "cs = u @ v" "\<forall>c \<in> set u. not_newline c" "glob_matches gs v" by blast
      then show ?L by (intro exI [of _ "c # u"] exI [of _ v]) simp
    qed
  qed
  then show ?case by (simp add: Cons.IH)
qed simp

text \<open>
  C33: A compiled glob matches exactly the strings the glob describes, and a group applies to no
  empty name: the whole name must be covered, and the empty string matches no pattern.
\<close>

theorem glob_regexp_meaning:
  "any_match (map glob_regexp globs) s \<longleftrightarrow> s \<noteq> [] \<and> (\<exists>g \<in> set globs. glob_matches (trim_space g) s)"
proof -
  have "in_lang (rseq (map glob_char g)) u \<longleftrightarrow> glob_matches g u" for g u
  proof (induction g arbitrary: u)
    case (Cons x g)
    note parts = list.map in_lang_rseq_Cons Cons.IH
    consider "x = CHR ''*''" | "x = CHR ''?''" | "x \<noteq> CHR ''*''" "x \<noteq> CHR ''?''" by blast
    then show ?case
    proof cases
      case 1
      then have "glob_char x = RStar (RP not_newline)" by (simp add: glob_char_def)
      then show ?thesis unfolding parts 1 glob_matches_star by (simp add: in_lang_star_class)
    next
      case 2
      then have x: "glob_char x = any_rune" by (simp add: glob_char_def)
      have "rune_length [] = None" by (simp add: rune_length_def rune_forms_def)
      then show ?thesis
        unfolding parts x in_lang_any_rune by (cases u) (simp_all add: 2 not_newline_def split: option.split)
    next
      case 3
      then have x: "glob_char x = RP (\<lambda>c. lower_char c = lower_char x)" by (simp add: glob_char_def)
      then show ?thesis unfolding parts x in_lang_byte using 3 by (cases u) simp_all
    qed
  qed simp
  then show ?thesis
    by (auto simp: any_match_def match_string_iff glob_regexp_def)
qed

definition plain_signals :: "string \<Rightarrow> string \<Rightarrow> signals" where
  "plain_signals p supplier =
     \<lparr>sg_project = p, sg_explicit_parent = [], sg_tags = [], sg_source_repo = [], sg_document_name = [],
      sg_root_purl = [], sg_supplier = supplier\<rparr>"

definition sample_signals :: "signals list" where
  "sample_signals = [plain_signals ''payments/core'' ''payments/core'', plain_signals ''payments/ui'' ''payments/core'']"

lemma sample_resolved:
  "resolve sample_urls sample_signals None ''payments/core'' =
     Some \<lparr>as_parent = ''payments/core'', as_source = Some SourceSupplier, as_owner = ''payments/core''\<rparr>"
  by code_simp

theorem resolve_meets_spec_witness:
  "resolved sample_urls None sample_signals (plain_signals ''payments/ui'' ''payments/core'') \<noteq> None"
proof -
  have "resolve sample_urls sample_signals None ''payments/ui'' \<noteq> None" by code_simp
  then show ?thesis
    using resolve_meets_spec [of sample_signals sample_urls None "''payments/ui''"]
    by (simp add: sample_signals_def plain_signals_def)
qed

theorem resolve_order_irrelevant_witness:
  "resolve sample_urls (rev sample_signals) None = resolve sample_urls sample_signals None"
  by (rule resolve_order_irrelevant) (simp_all add: sample_signals_def plain_signals_def)

theorem self_parent_only_headless_witness:
  "contains_str ''payments/core'' ''/'' \<and> resolve sample_urls sample_signals None ''payments/core'' \<noteq> None"
  using self_parent_only_headless [OF _ sample_resolved] sample_resolved
  by (simp add: sample_signals_def plain_signals_def)

end
