(* ===== verification/Provenance.thy ===== *)
theory Provenance
  imports License_Normalize Npm_Resolver
begin

text \<open>
  License resolution of one SBOM in the parsing worker,
  \<open>backend/cmd/parsing-worker/license_provenance.go\<close>, \<open>registry_resolvers.go\<close> and
  \<open>first_party.go\<close>: the GitHub step, the chain of registry resolvers, normalisation and the reason
  of every package left without a license. Resolvers are interface values in the code; here they
  are records of functions over a world \<open>'w\<close> that holds their caches and the network.
\<close>

subsection \<open>First-party packages\<close>

definition yarn_workspace_version :: string where
  "yarn_workspace_version = ''0.0.0-use.local''"

definition is_yarn_workspace_purl :: "string \<Rightarrow> bool" where
  "is_yarn_workspace_purl purl \<longleftrightarrow>
     has_prefix purl ''pkg:npm/'' \<and> has_suffix (before_any purl ''?#'') (''@'' @ yarn_workspace_version)"

definition is_maven_project_module_purl :: "string \<Rightarrow> bool" where
  "is_maven_project_module_purl purl \<longleftrightarrow>
     (case cut_prefix purl ''pkg:maven/'' of
        None \<Rightarrow> False
      | Some rest \<Rightarrow>
          has_prefix (replace_str ''%24'' ''$'' (replace_str ''%7D'' ''}'' (replace_str ''%7B'' ''{'' rest))) ''${project.'')"

definition is_first_party_purl :: "string \<Rightarrow> bool" where
  "is_first_party_purl purl \<longleftrightarrow> is_yarn_workspace_purl purl \<or> is_maven_project_module_purl purl"

definition license_check_skips :: "nat list \<Rightarrow> string list \<Rightarrow> nat list" where
  "license_check_skips roots purls =
     roots @ filter (\<lambda>i. is_first_party_purl (purls ! i)) [0..<length purls]"

subsection \<open>Resolvers\<close>

record 'w registry_resolver =
  rr_name :: string
  rr_resolve :: "string \<Rightarrow> 'w \<Rightarrow> string \<times> 'w"
  rr_batch :: "(string list \<Rightarrow> 'w \<Rightarrow> (string \<rightharpoonup> string) \<times> 'w) option"
  rr_explain :: "(string \<Rightarrow> 'w \<Rightarrow> bool \<times> string \<times> bool) option"

text \<open>The arrays rewritten in place, and the counters.\<close>

record work =
  wk_licenses :: "string list"
  wk_sources :: "string list"
  wk_counts :: "string \<Rightarrow> nat"

definition is_unknown_license :: "string \<Rightarrow> bool" where
  "is_unknown_license lic \<longleftrightarrow> lic = [] \<or> lic = ''NOASSERTION'' \<or> lic = ''NONE''"

definition purl_of :: "string list \<Rightarrow> nat \<Rightarrow> string" where
  "purl_of purls i = (if i < length purls then purls ! i else [])"

definition wants_license :: "string list \<Rightarrow> work \<Rightarrow> nat \<Rightarrow> bool" where
  "wants_license purls wk i \<longleftrightarrow> is_unknown_license (wk_licenses wk ! i) \<and> purl_of purls i \<noteq> []"

definition record_source :: "string list \<Rightarrow> nat \<Rightarrow> 'w registry_resolver \<Rightarrow> string \<Rightarrow> 'w \<Rightarrow> string list" where
  "record_source sources i rr purl w =
     (if i \<ge> length sources then sources
      else sources[i := (case rr_explain rr of
                           None \<Rightarrow> rr_name rr
                         | Some explain \<Rightarrow>
                             if snd (snd (explain purl w)) then with_modifier (rr_name rr) modifier_latest else rr_name rr)])"

definition bump :: "string \<Rightarrow> (string \<Rightarrow> nat) \<Rightarrow> (string \<Rightarrow> nat)" where
  "bump name counts = counts(name := Suc (counts name))"

definition accept_license :: "'w registry_resolver \<Rightarrow> string list \<Rightarrow> 'w \<Rightarrow> string \<Rightarrow> nat \<Rightarrow> work \<Rightarrow> work" where
  "accept_license rr purls w spdx i wk =
     (if spdx = [] then wk
      else \<lparr>wk_licenses = (wk_licenses wk)[i := spdx],
            wk_sources = record_source (wk_sources wk) i rr (purl_of purls i) w,
            wk_counts = bump (rr_name rr) (wk_counts wk)\<rparr>)"

definition offer_one :: "'w registry_resolver \<Rightarrow> string list \<Rightarrow> nat \<Rightarrow> work \<times> 'w \<Rightarrow> work \<times> 'w" where
  "offer_one rr purls i st =
     (case st of (wk, w) \<Rightarrow>
        if \<not> wants_license purls wk i then (wk, w)
        else (case rr_resolve rr (purl_of purls i) w of (spdx, w') \<Rightarrow> (accept_license rr purls w' spdx i wk, w')))"

definition take_batch :: "'w registry_resolver \<Rightarrow> string list \<Rightarrow> (string \<rightharpoonup> string) \<Rightarrow> 'w \<Rightarrow> nat \<Rightarrow> work \<Rightarrow> work" where
  "take_batch rr purls resolved w i wk =
     (if \<not> wants_license purls wk i then wk
      else accept_license rr purls w (case resolved (purl_of purls i) of Some s \<Rightarrow> s | None \<Rightarrow> []) i wk)"

definition apply_resolver :: "string list \<Rightarrow> 'w registry_resolver \<Rightarrow> work \<times> 'w \<Rightarrow> work \<times> 'w" where
  "apply_resolver purls rr st =
     (case st of (wk, w) \<Rightarrow>
        let idx = [0..<length (wk_licenses wk)]
        in (case rr_batch rr of
              None \<Rightarrow> fold (offer_one rr purls) idx (wk, w)
            | Some batch \<Rightarrow>
                let unknown_purls = map (purl_of purls) (filter (wants_license purls wk) idx)
                in if unknown_purls = [] then (wk, w)
                   else (case batch unknown_purls w of
                           (resolved, w') \<Rightarrow> (fold (take_batch rr purls resolved w') idx wk, w'))))"

definition apply_registry_resolvers :: "string list \<Rightarrow> 'w registry_resolver list \<Rightarrow> work \<times> 'w \<Rightarrow> work \<times> 'w" where
  "apply_registry_resolvers purls resolvers st = fold (apply_resolver purls) resolvers st"

subsection \<open>Why a package stayed unresolved\<close>

definition purl_type :: "string \<Rightarrow> string" where
  "purl_type purl =
     (case cut_prefix purl ''pkg:'' of
        None \<Rightarrow> []
      | Some rest \<Rightarrow> to_lower (case str_cut rest ''/'' of Some (typ, _) \<Rightarrow> typ | None \<Rightarrow> rest))"

definition covered_purl_types :: "string list" where
  "covered_purl_types =
     [''npm'', ''nuget'', ''maven'', ''pypi'', ''cargo'', ''golang'', ''github'', ''composer'']"

definition resolver_reason :: "string \<Rightarrow> 'w \<Rightarrow> 'w registry_resolver \<Rightarrow> string \<Rightarrow> string" where
  "resolver_reason purl w rr reason =
     (case rr_explain rr of
        None \<Rightarrow> reason
      | Some explain \<Rightarrow> (case explain purl w of (handled, r, _) \<Rightarrow> if handled \<and> r \<noteq> [] then r else reason))"

definition unresolved_reason :: "'w registry_resolver list \<Rightarrow> 'w \<Rightarrow> string \<Rightarrow> bool \<Rightarrow> string" where
  "unresolved_reason resolvers w purl is_root =
     (if is_root \<or> is_first_party_purl purl then reason_first_party
      else if purl = [] then reason_no_purl
      else if purl_type purl \<notin> set covered_purl_types then reason_unsupported
      else let reason = fold (resolver_reason purl w) resolvers []
           in if reason = [] then reason_unresolved else reason)"

definition explain_unresolved ::
  "'w registry_resolver list \<Rightarrow> 'w \<Rightarrow> string list \<Rightarrow> string list \<Rightarrow> nat list \<Rightarrow> string list \<Rightarrow> string list" where
  "explain_unresolved resolvers w purls licenses roots sources =
     fold (\<lambda>i sources.
             if is_unknown_license (licenses ! i)
             then sources[i := unresolved_reason resolvers w (purl_of purls i) (i \<in> set roots)]
             else sources)
          [0..<length licenses] sources"

subsection \<open>The pipeline\<close>

type_synonym ('e, 'w) github_lookup = "string \<Rightarrow> 'w \<Rightarrow> ('e + string) \<times> 'w"

fun github_loop :: "('e, 'w) github_lookup \<Rightarrow> string list \<Rightarrow> nat list \<Rightarrow> work \<times> 'w \<Rightarrow> 'e + work \<times> 'w" where
  "github_loop gh purls [] st = Inr st"
| "github_loop gh purls (i # is) (wk, w) =
     (if \<not> wants_license purls wk i then github_loop gh purls is (wk, w)
      else (case gh (purl_of purls i) w of
              (Inl e, w') \<Rightarrow> Inl e
            | (Inr spdx, w') \<Rightarrow>
                github_loop gh purls is
                  (if spdx = [] then wk
                   else \<lparr>wk_licenses = (wk_licenses wk)[i := spdx],
                         wk_sources = (wk_sources wk)[i := source_github],
                         wk_counts = bump source_github (wk_counts wk)\<rparr>, w')))"

definition normalize_step :: "nat \<Rightarrow> work \<Rightarrow> work" where
  "normalize_step i wk =
     (let lic = wk_licenses wk ! i; norm = normalize lic
      in if norm = lic then wk
         else wk\<lparr>wk_licenses := (wk_licenses wk)[i := norm],
                 wk_sources := (wk_sources wk)[i := with_modifier (wk_sources wk ! i) modifier_normalized]\<rparr>)"

definition start_work :: "string list \<Rightarrow> work" where
  "start_work licenses =
     \<lparr>wk_licenses = licenses,
      wk_sources = map (\<lambda>lic. if is_unknown_license lic then [] else source_declared) licenses,
      wk_counts = (\<lambda>_. 0)\<rparr>"

definition resolve_package_licenses ::
  "('e, 'w) github_lookup option \<Rightarrow> 'w registry_resolver list \<Rightarrow> string list \<Rightarrow> string list \<Rightarrow> nat list \<Rightarrow> 'w
     \<Rightarrow> 'e + work \<times> 'w" where
  "resolve_package_licenses github resolvers purls licenses roots w =
     (let idx = [0..<length licenses]
      in case (case github of
                 None \<Rightarrow> Inr (start_work licenses, w)
               | Some gh \<Rightarrow> github_loop gh purls idx (start_work licenses, w)) of
           Inl e \<Rightarrow> Inl e
         | Inr st \<Rightarrow>
             (case apply_registry_resolvers purls resolvers st of
                (wk, w') \<Rightarrow>
                  let wk' = fold normalize_step idx wk
                  in Inr (wk'\<lparr>wk_sources := explain_unresolved resolvers w' purls (wk_licenses wk') roots (wk_sources wk')\<rparr>, w')))"

subsection \<open>What every step keeps\<close>

text \<open>
  \<open>provenance_inv\<close>: the arrays keep their length, a license declared in the document is still
  there and marked so, and every known license has the mark of the step that supplied it.
\<close>

definition origins :: "'w registry_resolver list \<Rightarrow> string set" where
  "origins rs = {source_declared, source_github} \<union> rr_name ` set rs \<union>
     (\<lambda>rr. with_modifier (rr_name rr) modifier_latest) ` set rs"

definition provenance_inv :: "string set \<Rightarrow> string list \<Rightarrow> work \<Rightarrow> bool" where
  "provenance_inv os lics wk \<longleftrightarrow>
     length (wk_licenses wk) = length lics \<and> length (wk_sources wk) = length lics \<and>
     (\<forall>i < length lics.
        (\<not> is_unknown_license (lics ! i) \<longrightarrow> wk_licenses wk ! i = lics ! i \<and> wk_sources wk ! i = source_declared) \<and>
        (\<not> is_unknown_license (wk_licenses wk ! i) \<longrightarrow> wk_sources wk ! i \<in> os))"

lemma provenance_start: "source_declared \<in> os \<Longrightarrow> provenance_inv os lics (start_work lics)"
  by (simp add: provenance_inv_def start_work_def)

lemma provenance_update:
  assumes "provenance_inv os lics wk" "is_unknown_license (wk_licenses wk ! i)" "src \<in> os"
  shows "provenance_inv os lics \<lparr>wk_licenses = (wk_licenses wk)[i := spdx], wk_sources = (wk_sources wk)[i := src], wk_counts = c\<rparr>"
proof -
  have "is_unknown_license (lics ! i)" if "i < length lics"
    using assms(1,2) that unfolding provenance_inv_def by metis
  then show ?thesis
    using assms(1,3) by (auto simp: provenance_inv_def nth_list_update_if)
qed

lemma provenance_accept:
  assumes "provenance_inv os lics wk" "wants_license purls wk i"
    and "rr_name rr \<in> os" "with_modifier (rr_name rr) modifier_latest \<in> os"
  shows "provenance_inv os lics (accept_license rr purls w spdx i wk)"
proof (cases "i < length (wk_sources wk)")
  case True
  then obtain src where "record_source (wk_sources wk) i rr (purl_of purls i) w = (wk_sources wk)[i := src]" "src \<in> os"
    using assms(3,4) by (auto simp: record_source_def split: option.split)
  then show ?thesis
    using assms(1,2) by (auto simp: accept_license_def wants_license_def intro: provenance_update)
next
  case False
  then have "(wk_licenses wk)[i := spdx] = wk_licenses wk"
    using assms(1) by (simp add: provenance_inv_def list_update_beyond)
  with False show ?thesis
    using assms(1) by (simp add: accept_license_def record_source_def provenance_inv_def)
qed

lemma provenance_resolver:
  assumes "provenance_inv os lics (fst st)"
    and "rr_name rr \<in> os" "with_modifier (rr_name rr) modifier_latest \<in> os"
  shows "provenance_inv os lics (fst (apply_resolver purls rr st))"
proof -
  obtain wk w where st: "st = (wk, w)" by fastforce
  have one: "provenance_inv os lics (fst (offer_one rr purls i s))" if "provenance_inv os lics (fst s)" for i s
    using that provenance_accept [OF _ _ assms(2,3)]
    by (auto simp: offer_one_def split: prod.splits)
  have batch: "provenance_inv os lics (take_batch rr purls r w' i wk)" if "provenance_inv os lics wk" for i wk r w'
    using that provenance_accept [OF _ _ assms(2,3)] by (auto simp: take_batch_def)
  have "provenance_inv os lics (fst (fold (offer_one rr purls) is (wk, w)))" for "is"
    using assms(1) by (intro fold_invariant [where I = "\<lambda>s. provenance_inv os lics (fst s)"] one) (auto simp: st)
  moreover have "provenance_inv os lics (fold (take_batch rr purls r w') is wk)" for "is" r w'
    using assms(1) by (intro fold_invariant [where I = "provenance_inv os lics"] batch) (auto simp: st)
  ultimately show ?thesis
    using assms(1) by (auto simp: apply_resolver_def st Let_def split: option.splits prod.splits)
qed

lemma provenance_resolvers:
  assumes "provenance_inv os lics (fst st)"
    and "\<And>rr. rr \<in> set rs \<Longrightarrow> rr_name rr \<in> os \<and> with_modifier (rr_name rr) modifier_latest \<in> os"
  shows "provenance_inv os lics (fst (apply_registry_resolvers purls rs st))"
  unfolding apply_registry_resolvers_def
  using assms by (intro fold_invariant [where I = "\<lambda>s. provenance_inv os lics (fst s)"] provenance_resolver) auto

lemma provenance_github:
  "github_loop gh purls is st = Inr st' \<Longrightarrow> provenance_inv os lics (fst st) \<Longrightarrow> source_github \<in> os \<Longrightarrow>
     provenance_inv os lics (fst st')"
proof (induction gh purls "is" st rule: github_loop.induct)
  case (2 gh purls i "is" wk w)
  have upd: "provenance_inv os lics (if spdx = [] then wk
      else \<lparr>wk_licenses = (wk_licenses wk)[i := spdx], wk_sources = (wk_sources wk)[i := source_github], wk_counts = c\<rparr>)"
    if "wants_license purls wk i" for spdx c
    using 2(4,5) that by (auto simp: wants_license_def intro: provenance_update)
  show ?case
  proof (cases "wants_license purls wk i")
    case False
    then show ?thesis using 2(1,3-5) by simp
  next
    case True
    obtain r w' where gh: "gh (purl_of purls i) w = (r, w')" by fastforce
    show ?thesis
    proof (cases r)
      case (Inl e)
      then show ?thesis using 2(3) True gh by simp
    next
      case (Inr spdx)
      let ?wk = "if spdx = [] then wk else \<lparr>wk_licenses = (wk_licenses wk)[i := spdx],
        wk_sources = (wk_sources wk)[i := source_github], wk_counts = bump source_github (wk_counts wk)\<rparr>"
      have "github_loop gh purls is (?wk, w') = Inr st'"
        using 2(3) True gh Inr by simp
      moreover have "provenance_inv os lics (fst (?wk, w'))"
        using upd [OF True] by simp
      ultimately show ?thesis
        using 2(2) [of r w' spdx] True gh Inr 2(5) by simp
    qed
  qed
qed simp

text \<open>Normalisation and explanation work position by position.\<close>

lemma normalize_step_fields:
  "wk_licenses (normalize_step i wk) = (wk_licenses wk)[i := normalize (wk_licenses wk ! i)]"
  "wk_sources (normalize_step i wk) =
     (if normalize (wk_licenses wk ! i) = wk_licenses wk ! i then wk_sources wk
      else (wk_sources wk)[i := with_modifier (wk_sources wk ! i) modifier_normalized])"
  by (simp_all add: normalize_step_def Let_def)

lemma fold_normalize:
  assumes "distinct is" "length (wk_sources wk) = n" "length (wk_licenses wk) = n"
  shows "length (wk_sources (fold normalize_step is wk)) = n \<and> length (wk_licenses (fold normalize_step is wk)) = n \<and>
    (\<forall>k < n. wk_licenses (fold normalize_step is wk) ! k =
        (if k \<in> set is then normalize (wk_licenses wk ! k) else wk_licenses wk ! k) \<and>
      wk_sources (fold normalize_step is wk) ! k =
        (if k \<in> set is \<and> normalize (wk_licenses wk ! k) \<noteq> wk_licenses wk ! k
         then with_modifier (wk_sources wk ! k) modifier_normalized else wk_sources wk ! k))"
  using assms
proof (induction "is" rule: rev_induct)
  case (snoc i "is")
  define wk1 where "wk1 = fold normalize_step is wk"
  have wk1: "fold normalize_step (is @ [i]) wk = normalize_step i wk1" by (simp add: wk1_def)
  have "i \<notin> set is" using snoc.prems(1) by simp
  then show ?case
    using snoc unfolding wk1 wk1_def [symmetric] normalize_step_fields
    by (auto simp: nth_list_update_if)
qed simp

lemma nth_explain:
  assumes "length sources = length licenses" "i < length licenses"
  shows "explain_unresolved rs w purls licenses roots sources ! i =
      (if is_unknown_license (licenses ! i) then unresolved_reason rs w (purl_of purls i) (i \<in> set roots) else sources ! i) \<and>
    length (explain_unresolved rs w purls licenses roots sources) = length licenses"
proof -
  have "length (fold (\<lambda>i s. if P i then s[i := f i] else s) is sources) = length sources \<and>
      (\<forall>k < length sources. fold (\<lambda>i s. if P i then s[i := f i] else s) is sources ! k =
         (if k \<in> set is \<and> P k then f k else sources ! k))" for P f "is"
    by (induction "is" rule: rev_induct) (auto simp: nth_list_update_if)
  then show ?thesis
    using assms by (simp add: explain_unresolved_def)
qed

lemma normalize_unknown: "is_unknown_license lic \<Longrightarrow> normalize lic = lic"
proof -
  have "normalize [] = []" "normalize ''NOASSERTION'' = ''NOASSERTION''" "normalize ''NONE'' = ''NONE''"
    by code_simp+
  then show "is_unknown_license lic \<Longrightarrow> normalize lic = lic"
    by (auto simp: is_unknown_license_def)
qed

subsection \<open>Properties\<close>

text \<open>The contract of the \<open>explainer\<close> interface: a reason is empty or one of the documented ones.\<close>

definition explainers_lawful :: "'w registry_resolver list \<Rightarrow> 'w \<Rightarrow> bool" where
  "explainers_lawful rs w \<longleftrightarrow>
     (\<forall>rr \<in> set rs. \<forall>explain purl. rr_explain rr = Some explain \<longrightarrow>
        fst (snd (explain purl w)) = [] \<or> is_unresolved_reason (fst (snd (explain purl w))))"

lemma unresolved_reason_is_reason:
  assumes "explainers_lawful rs w"
  shows "is_unresolved_reason (unresolved_reason rs w purl root)"
proof -
  have "resolver_reason purl w rr r = [] \<or> is_unresolved_reason (resolver_reason purl w rr r)"
    if "rr \<in> set rs" "r = [] \<or> is_unresolved_reason r" for rr r
  proof (cases "rr_explain rr")
    case (Some explain)
    obtain handled reason latest where e: "explain purl w = (handled, reason, latest)" using prod_cases3 by blast
    have "fst (snd (explain purl w)) = [] \<or> is_unresolved_reason (fst (snd (explain purl w)))"
      using assms that(1) Some unfolding explainers_lawful_def by blast
    then show ?thesis
      using that(2) Some by (auto simp: resolver_reason_def e)
  qed (use that(2) in \<open>simp add: resolver_reason_def\<close>)
  then have "r = [] \<or> is_unresolved_reason r" if "r = fold (resolver_reason purl w) rs []" for r
    unfolding that by (intro fold_invariant [where I = "\<lambda>r. r = [] \<or> is_unresolved_reason r"]) auto
  then show ?thesis
    by (auto simp: unresolved_reason_def Let_def is_unresolved_reason_def unresolved_reasons_def)
qed

text \<open>
  C39: After license resolution every package of the document has a license with its provenance or
  the reason why it has none: a declared license is only ever normalised, a license that is still
  unknown carries exactly the reason \<open>unresolvedReason\<close> gives, which is one of the documented
  reasons, and every other one carries the step or resolver that supplied it, with modifiers. The
  hypothesis is the contract of the \<open>explainer\<close> interface.
\<close>

theorem every_license_accounted:
  fixes gh :: "('e, 'w) github_lookup option"
  assumes "resolve_package_licenses gh rs purls lics roots w = Inr (wk, w')"
    and "explainers_lawful rs w'"
    and "i < length lics"
  shows "length (wk_licenses wk) = length lics \<and> length (wk_sources wk) = length lics \<and>
    (\<not> is_unknown_license (lics ! i) \<longrightarrow> wk_licenses wk ! i = normalize (lics ! i)) \<and>
    (if is_unknown_license (wk_licenses wk ! i)
     then is_unresolved_reason (wk_sources wk ! i) \<and>
       wk_sources wk ! i = unresolved_reason rs w' (purl_of purls i) (i \<in> set roots)
     else wk_sources wk ! i \<in> origins rs \<union> (\<lambda>src. with_modifier src modifier_normalized) ` origins rs)"
proof -
  let ?n = "length lics"
  obtain st where gh: "(case gh of None \<Rightarrow> Inr (start_work lics, w)
      | Some gh \<Rightarrow> github_loop gh purls [0..<?n] (start_work lics, w)) = Inr st"
    using assms(1) by (auto simp: resolve_package_licenses_def Let_def split: sum.splits)
  obtain wk1 w1 where rs: "apply_registry_resolvers purls rs st = (wk1, w1)" by fastforce
  define wk2 where "wk2 = fold normalize_step [0..<?n] wk1"
  have wk: "w1 = w'" "wk_licenses wk = wk_licenses wk2"
      "wk_sources wk = explain_unresolved rs w' purls (wk_licenses wk2) roots (wk_sources wk2)"
    using assms(1) gh rs by (auto simp: resolve_package_licenses_def Let_def wk2_def)
  have "provenance_inv (origins rs) lics (start_work lics)"
    by (rule provenance_start) (simp add: origins_def)
  then have "provenance_inv (origins rs) lics (fst st)"
    using gh by (cases gh) (auto simp: origins_def dest: provenance_github)
  from provenance_resolvers [OF this, of rs purls] have inv: "provenance_inv (origins rs) lics wk1"
    by (simp add: rs origins_def)
  then have len1: "length (wk_licenses wk1) = ?n" "length (wk_sources wk1) = ?n"
    by (simp_all add: provenance_inv_def)
  from fold_normalize [of "[0..<?n]", OF _ len1(2,1)]
  have len2: "length (wk_licenses wk2) = ?n" "length (wk_sources wk2) = ?n"
    and lic2: "wk_licenses wk2 ! i = normalize (wk_licenses wk1 ! i)"
    and src2: "wk_sources wk2 ! i =
      (if normalize (wk_licenses wk1 ! i) \<noteq> wk_licenses wk1 ! i
       then with_modifier (wk_sources wk1 ! i) modifier_normalized else wk_sources wk1 ! i)"
    using assms(3) by (simp_all add: wk2_def)
  have expl: "wk_sources wk ! i =
      (if is_unknown_license (wk_licenses wk2 ! i)
       then unresolved_reason rs w' (purl_of purls i) (i \<in> set roots) else wk_sources wk2 ! i)"
      "length (wk_sources wk) = ?n"
    using nth_explain [of "wk_sources wk2" "wk_licenses wk2" i rs w' purls roots] assms(3) len2
    by (simp_all add: wk(3))
  have declared: "wk_licenses wk ! i = normalize (lics ! i)" if "\<not> is_unknown_license (lics ! i)"
    using inv that assms(3) by (simp add: wk(2) lic2 provenance_inv_def)
  have supplied: "wk_sources wk1 ! i \<in> origins rs" if "\<not> is_unknown_license (wk_licenses wk ! i)"
  proof -
    have "\<not> is_unknown_license (wk_licenses wk1 ! i)"
      using that normalize_unknown unfolding wk(2) lic2 by metis
    then show ?thesis using inv assms(3) by (simp add: provenance_inv_def)
  qed
  have "is_unresolved_reason (unresolved_reason rs w' purl root)" for purl root
    by (rule unresolved_reason_is_reason) (rule assms(2))
  then show ?thesis
    using declared supplied len2(1) expl by (auto simp: wk(2) src2)
qed

text \<open>A resolver that knows one package, and a document of four packages.\<close>

definition sample_resolver :: "unit registry_resolver" where
  "sample_resolver =
     \<lparr>rr_name = ''npm'', rr_resolve = (\<lambda>purl w. (if purl = ''pkg:npm/a'' then ''MIT'' else [], w)), rr_batch = None,
      rr_explain = Some (\<lambda>purl w. (has_prefix purl ''pkg:npm/'',
        if purl = ''pkg:npm/b@1'' then reason_not_published else [], purl = ''pkg:npm/a''))\<rparr>"

theorem every_license_accounted_witness:
  "\<exists>wk w'. resolve_package_licenses (None :: (unit, unit) github_lookup option) [sample_resolver]
      [''pkg:npm/a'', ''pkg:npm/b@1'', ''pkg:deb/c'', ''pkg:deb/d''] [[], ''NONE'', [], ''MPL 2.0''] [] () = Inr (wk, w') \<and>
    wk_sources wk = [''npm+latest'', ''not-published'', ''unsupported-ecosystem'', ''declared+normalized''] \<and>
    is_unresolved_reason (wk_sources wk ! 1)"
proof -
  let ?r = "resolve_package_licenses (None :: (unit, unit) github_lookup option) [sample_resolver]
      [''pkg:npm/a'', ''pkg:npm/b@1'', ''pkg:deb/c'', ''pkg:deb/d''] [[], ''NONE'', [], ''MPL 2.0''] [] ()"
  have "case ?r of Inl _ \<Rightarrow> False | Inr (wk, _) \<Rightarrow>
      wk_licenses wk = [''MIT'', ''NONE'', [], ''MPL-2.0''] \<and>
      wk_sources wk = [''npm+latest'', ''not-published'', ''unsupported-ecosystem'', ''declared+normalized'']"
    by code_simp
  then obtain wk w' where r: "?r = Inr (wk, w')" "wk_licenses wk = [''MIT'', ''NONE'', [], ''MPL-2.0'']"
      "wk_sources wk = [''npm+latest'', ''not-published'', ''unsupported-ecosystem'', ''declared+normalized'']"
    by (auto split: sum.splits prod.splits)
  have "explainers_lawful [sample_resolver] w'"
    by (auto simp: explainers_lawful_def sample_resolver_def is_unresolved_reason_def unresolved_reasons_def)
  then have "is_unresolved_reason (wk_sources wk ! 1)"
    using every_license_accounted [OF r(1), of 1] by (simp add: r(2) is_unknown_license_def) argo
  with r show ?thesis by blast
qed

end
