(* ===== verification/Job_Queue.thy ===== *)
theory Job_Queue
  imports Prelude
begin

text \<open>
  The ingestion queue, \<open>backend/internal/clickhouse/queue.go\<close>. The table is append-only: a status
  transition is a new row, the state of a job is its row with the greatest \<open>created_at\<close>. Rows are
  a list in insertion order, times are milliseconds. The reading of the server's clock is an
  argument of every write, one reading per statement (a function of the job it is for), because
  \<open>now64(3)\<close> is evaluated anew in each.
\<close>

subsection \<open>Rows and jobs\<close>

datatype job_status = StatusPending | StatusProcessing | StatusDone | StatusFailed

definition job_type_sbom :: string where "job_type_sbom = ''sbom''"

text \<open>The columns every transition copies.\<close>

record payload =
  pl_source_file :: string
  pl_sha256_hash :: string
  pl_job_type :: string
  pl_cluster :: string
  pl_namespace :: string
  pl_project :: string
  pl_source_repo :: string
  pl_source_ref :: string
  pl_target_sbom_id :: string
  pl_tags :: "string list"
  pl_parent :: string

record queue_row =
  qr_created_at :: int
  qr_job_id :: nat
  qr_payload :: payload
  qr_status :: job_status
  qr_claimed_by :: string
  qr_claimed_at :: "int option"
  qr_finished_at :: "int option"
  qr_error_message :: string
  qr_retry_after :: int

record ingestion_job =
  jb_created_at :: int
  jb_job_id :: nat
  jb_payload :: payload
  jb_status :: "job_status option"
  jb_claimed_by :: string
  jb_claimed_at :: "int option"
  jb_retry_after :: int
  jb_version :: int

text \<open>The zero \<open>time.Time\<close> as the table stores it.\<close>

definition zero_time :: int where "zero_time = 0"

subsection \<open>Enqueueing\<close>

definition enqueue_row :: "ingestion_job \<Rightarrow> queue_row" where
  "enqueue_row job =
     (let p = jb_payload job
      in \<lparr>qr_created_at = jb_created_at job, qr_job_id = jb_job_id job,
          qr_payload = p\<lparr>pl_job_type := (if pl_job_type p = [] then job_type_sbom else pl_job_type p)\<rparr>,
          qr_status = StatusPending, qr_claimed_by = [], qr_claimed_at = None, qr_finished_at = None,
          qr_error_message = [], qr_retry_after = jb_retry_after job\<rparr>)"

definition enqueue_jobs :: "ingestion_job list \<Rightarrow> queue_row list \<Rightarrow> queue_row list" where
  "enqueue_jobs jobs rows = (if jobs = [] then rows else rows @ map enqueue_row jobs)"

subsection \<open>The latest state of a job\<close>

text \<open>
  \<open>argMax(\<dots>, created_at)\<close> over the rows of a job. With several rows of the greatest
  \<open>created_at\<close> ClickHouse may return any; this takes the first in the order it is given, and
  \<open>Queue_Workers\<close> lets a query see the rows in any order.
\<close>

fun newest :: "queue_row list \<Rightarrow> queue_row option" where
  "newest [] = None"
| "newest (r # rs) =
     (case newest rs of
        None \<Rightarrow> Some r
      | Some r' \<Rightarrow> if qr_created_at r < qr_created_at r' then Some r' else Some r)"

definition rows_of :: "queue_row list \<Rightarrow> nat \<Rightarrow> queue_row list" where
  "rows_of rows jid = filter (\<lambda>r. qr_job_id r = jid) rows"

definition latest :: "queue_row list \<Rightarrow> nat \<Rightarrow> queue_row option" where
  "latest rows jid = newest (rows_of rows jid)"

definition job_ids :: "queue_row list \<Rightarrow> nat list" where
  "job_ids rows = remdups (map qr_job_id rows)"

text \<open>One row of \<open>latestJobs\<close> as \<open>selectJobs\<close> scans it into a job.\<close>

definition job_of :: "queue_row list \<Rightarrow> queue_row \<Rightarrow> ingestion_job" where
  "job_of rows r =
     \<lparr>jb_created_at = Min (qr_created_at ` set (rows_of rows (qr_job_id r))), jb_job_id = qr_job_id r,
      jb_payload = qr_payload r, jb_status = None, jb_claimed_by = [], jb_claimed_at = None,
      jb_retry_after = zero_time, jb_version = qr_created_at r\<rparr>"

definition select_jobs :: "(queue_row \<Rightarrow> bool) \<Rightarrow> nat \<Rightarrow> queue_row list \<Rightarrow> ingestion_job list" where
  "select_jobs P limit rows =
     take limit (sort_key jb_created_at
       (map (job_of rows) (filter P (List.map_filter (latest rows) (job_ids rows)))))"

subsection \<open>Transitions\<close>

definition next_version :: "int \<Rightarrow> ingestion_job \<Rightarrow> int" where
  "next_version server_now job = max server_now (jb_version job + 1)"

definition complete_row :: "int \<Rightarrow> int \<Rightarrow> ingestion_job \<Rightarrow> queue_row" where
  "complete_row server_now local_now job =
     \<lparr>qr_created_at = next_version server_now job, qr_job_id = jb_job_id job, qr_payload = jb_payload job,
      qr_status = StatusDone, qr_claimed_by = jb_claimed_by job, qr_claimed_at = jb_claimed_at job,
      qr_finished_at = Some local_now, qr_error_message = [], qr_retry_after = zero_time\<rparr>"

definition fail_row :: "int \<Rightarrow> int \<Rightarrow> string \<Rightarrow> ingestion_job \<Rightarrow> queue_row" where
  "fail_row server_now local_now msg job =
     \<lparr>qr_created_at = next_version server_now job, qr_job_id = jb_job_id job, qr_payload = jb_payload job,
      qr_status = StatusFailed, qr_claimed_by = jb_claimed_by job, qr_claimed_at = jb_claimed_at job,
      qr_finished_at = Some local_now, qr_error_message = msg, qr_retry_after = zero_time\<rparr>"

definition defer_row :: "int \<Rightarrow> int \<Rightarrow> string \<Rightarrow> ingestion_job \<Rightarrow> queue_row" where
  "defer_row server_now retry_after reason job =
     \<lparr>qr_created_at = next_version server_now job, qr_job_id = jb_job_id job, qr_payload = jb_payload job,
      qr_status = StatusPending, qr_claimed_by = [], qr_claimed_at = None,
      qr_finished_at = None, qr_error_message = reason, qr_retry_after = retry_after\<rparr>"

definition complete_job :: "int \<Rightarrow> int \<Rightarrow> ingestion_job \<Rightarrow> queue_row list \<Rightarrow> queue_row list" where
  "complete_job server_now local_now job rows = rows @ [complete_row server_now local_now job]"

definition fail_job :: "int \<Rightarrow> int \<Rightarrow> string \<Rightarrow> ingestion_job \<Rightarrow> queue_row list \<Rightarrow> queue_row list" where
  "fail_job server_now local_now msg job rows = rows @ [fail_row server_now local_now msg job]"

definition defer_job :: "int \<Rightarrow> int \<Rightarrow> string \<Rightarrow> ingestion_job \<Rightarrow> queue_row list \<Rightarrow> queue_row list" where
  "defer_job server_now retry_after reason job rows = rows @ [defer_row server_now retry_after reason job]"

text \<open>The loops of \<open>releaseOwnClaims\<close> and \<open>RequeueStaleJobs\<close>; both clocks are read per job.\<close>

definition defer_all :: "(nat \<Rightarrow> int) \<Rightarrow> (nat \<Rightarrow> int) \<Rightarrow> string \<Rightarrow> ingestion_job list \<Rightarrow> queue_row list \<Rightarrow> queue_row list" where
  "defer_all server_now local_now reason jobs rows =
     foldl (\<lambda>rows job. defer_job (server_now (jb_job_id job)) (local_now (jb_job_id job)) reason job rows) rows jobs"

definition sweep_limit :: nat where "sweep_limit = 10000"

definition release_own_claims :: "(nat \<Rightarrow> int) \<Rightarrow> (nat \<Rightarrow> int) \<Rightarrow> string \<Rightarrow> queue_row list \<Rightarrow> queue_row list" where
  "release_own_claims server_now local_now worker rows =
     defer_all server_now local_now (''requeued: claim abandoned by '' @ worker)
       (select_jobs (\<lambda>r. qr_status r = StatusProcessing \<and> qr_claimed_by r = worker) sweep_limit rows) rows"

definition is_stale :: "int \<Rightarrow> int \<Rightarrow> queue_row \<Rightarrow> bool" where
  "is_stale query_now older_than r \<longleftrightarrow> qr_status r = StatusProcessing \<and>
     (case qr_claimed_at r of None \<Rightarrow> False | Some t \<Rightarrow> t < query_now - older_than)"

definition requeue_stale_jobs ::
  "(nat \<Rightarrow> int) \<Rightarrow> (nat \<Rightarrow> int) \<Rightarrow> int \<Rightarrow> int \<Rightarrow> string \<Rightarrow> queue_row list \<Rightarrow> nat \<times> queue_row list" where
  "requeue_stale_jobs server_now local_now query_now older_than reason rows =
     (let stale = select_jobs (is_stale query_now older_than) sweep_limit rows
      in (length stale, defer_all server_now local_now reason stale rows))"

subsection \<open>Claiming\<close>

definition mark_claimed :: "int \<Rightarrow> string \<Rightarrow> ingestion_job \<Rightarrow> ingestion_job" where
  "mark_claimed server_now worker job =
     (let version = next_version server_now job
      in job\<lparr>jb_version := version, jb_status := Some StatusProcessing, jb_claimed_by := worker,
             jb_claimed_at := Some version\<rparr>)"

definition claim_row :: "string \<Rightarrow> ingestion_job \<Rightarrow> queue_row" where
  "claim_row worker job =
     \<lparr>qr_created_at = jb_version job, qr_job_id = jb_job_id job, qr_payload = jb_payload job,
      qr_status = StatusProcessing, qr_claimed_by = worker, qr_claimed_at = jb_claimed_at job,
      qr_finished_at = None, qr_error_message = [], qr_retry_after = zero_time\<rparr>"

definition claimable :: "int \<Rightarrow> queue_row \<Rightarrow> bool" where
  "claimable query_now r \<longleftrightarrow> qr_status r = StatusPending \<and> qr_retry_after r \<le> query_now"

definition owns_claim :: "queue_row list \<Rightarrow> string \<Rightarrow> ingestion_job \<Rightarrow> bool" where
  "owns_claim rows worker job \<longleftrightarrow>
     (case latest rows (jb_job_id job) of
        None \<Rightarrow> False
      | Some r \<Rightarrow> qr_status r = StatusProcessing \<and> qr_claimed_by r = worker)"

definition claim_pending ::
  "int \<Rightarrow> int \<Rightarrow> string \<Rightarrow> nat \<Rightarrow> queue_row list \<Rightarrow> ingestion_job list \<times> queue_row list" where
  "claim_pending query_now server_now worker limit rows =
     (let jobs = select_jobs (claimable query_now) limit rows
      in if jobs = [] then ([], rows)
         else let claimed = map (mark_claimed server_now worker) jobs;
                  rows' = rows @ map (claim_row worker) claimed
              in (filter (owns_claim rows' worker) claimed, rows'))"

text \<open>\<open>ClaimJobs\<close> while the lock is held: the worker's abandoned claims go back first.\<close>

definition claim_jobs ::
  "(nat \<Rightarrow> int) \<Rightarrow> (nat \<Rightarrow> int) \<Rightarrow> int \<Rightarrow> int \<Rightarrow> string \<Rightarrow> nat \<Rightarrow> queue_row list
     \<Rightarrow> ingestion_job list \<times> queue_row list" where
  "claim_jobs release_now local_now query_now server_now worker limit rows =
     claim_pending query_now server_now worker limit (release_own_claims release_now local_now worker rows)"

subsection \<open>What the watcher asks\<close>

definition known_hashes :: "queue_row list \<Rightarrow> string set" where
  "known_hashes rows =
     set (map (\<lambda>r. pl_sha256_hash (qr_payload r))
       (filter (\<lambda>r. qr_status r \<noteq> StatusFailed) (List.map_filter (latest rows) (job_ids rows))))"

subsection \<open>Well-formed tables\<close>

text \<open>
  Along the rows of one job the versions grow strictly and the copied columns never change, so the
  last row is the state of the job whichever row \<open>argMax\<close> would choose on a tie.
\<close>

definition follows :: "queue_row \<Rightarrow> queue_row \<Rightarrow> bool" where
  "follows r r' \<longleftrightarrow> qr_created_at r < qr_created_at r' \<and> qr_payload r' = qr_payload r"

definition rows_ok :: "queue_row list \<Rightarrow> bool" where
  "rows_ok rows \<longleftrightarrow> (\<forall>jid. sorted_wrt follows (rows_of rows jid))"

lemma rows_ok_Nil [simp]: "rows_ok []"
  by (simp add: rows_ok_def rows_of_def)

lemma newest_in: "newest rs = Some r \<Longrightarrow> r \<in> set rs"
  by (induction rs arbitrary: r) (auto split: option.splits if_splits)

lemma newest_None [simp]: "newest rs = None \<longleftrightarrow> rs = []"
  by (cases rs) (auto split: option.splits)

lemma newest_max: "newest rs = Some r \<Longrightarrow> r' \<in> set rs \<Longrightarrow> qr_created_at r' \<le> qr_created_at r"
  by (induction rs arbitrary: r) (fastforce split: option.splits if_splits)+

lemma newest_snoc:
  "newest (rs @ [r]) = (case newest rs of
     None \<Rightarrow> Some r | Some r' \<Rightarrow> if qr_created_at r' < qr_created_at r then Some r else Some r')"
  by (induction rs) (auto split: option.splits)

lemma rows_of_append: "rows_of (rows @ new) jid = rows_of rows jid @ rows_of new jid"
  by (simp add: rows_of_def)

lemma latest_in: "latest rows jid = Some r \<Longrightarrow> r \<in> set rows \<and> qr_job_id r = jid"
  by (auto simp: latest_def rows_of_def dest: newest_in)

lemma latest_payload:
  assumes "rows_ok rows" "latest rows jid = Some r" "r' \<in> set rows" "qr_job_id r' = jid"
  shows "qr_payload r' = qr_payload r"
proof -
  have "sorted_wrt follows (rows_of rows jid)" using assms(1) by (simp add: rows_ok_def)
  moreover have "r \<in> set (rows_of rows jid)" "r' \<in> set (rows_of rows jid)"
    using assms by (auto simp: latest_def rows_of_def dest: newest_in)
  ultimately show ?thesis
    by (metis (no_types, lifting) follows_def in_set_conv_nth linorder_neqE_nat sorted_wrt_nth_less)
qed

text \<open>A batch of rows, at most one per job, each after the latest row of its job.\<close>

definition succeeds :: "queue_row list \<Rightarrow> queue_row \<Rightarrow> bool" where
  "succeeds rows r \<longleftrightarrow> (case latest rows (qr_job_id r) of None \<Rightarrow> True | Some r0 \<Rightarrow> follows r0 r)"

lemma append_row:
  assumes "rows_ok rows" "succeeds rows r"
  shows "rows_ok (rows @ [r])" "latest (rows @ [r]) = (latest rows)(qr_job_id r \<mapsto> r)"
proof -
  let ?old = "rows_of rows (qr_job_id r)"
  have after: "follows r' r" if "r' \<in> set ?old" for r'
  proof -
    from that obtain r0 where r0: "latest rows (qr_job_id r) = Some r0"
      by (metis latest_def newest_None not_None_eq empty_iff empty_set)
    have "qr_created_at r' \<le> qr_created_at r0"
      using r0 that newest_max unfolding latest_def by blast
    moreover have "qr_payload r' = qr_payload r0"
      using that by (intro latest_payload [OF assms(1) r0]) (auto simp: rows_of_def)
    ultimately show ?thesis
      using assms(2) r0 by (simp add: succeeds_def follows_def)
  qed
  show "rows_ok (rows @ [r])"
    unfolding rows_ok_def
  proof
    fix jid
    have "sorted_wrt follows (rows_of rows jid)" using assms(1) by (simp add: rows_ok_def)
    then show "sorted_wrt follows (rows_of (rows @ [r]) jid)"
      using after by (cases "jid = qr_job_id r") (auto simp: rows_of_append rows_of_def sorted_wrt_append)
  qed
  show "latest (rows @ [r]) = (latest rows)(qr_job_id r \<mapsto> r)"
  proof
    fix jid
    have "newest (?old @ [r]) = Some r"
      using after newest_in [of ?old] by (auto simp: newest_snoc follows_def split: option.split)
    then show "latest (rows @ [r]) jid = ((latest rows)(qr_job_id r \<mapsto> r)) jid"
      by (simp add: latest_def rows_of_append rows_of_def)
  qed
qed

lemma append_rows:
  assumes "rows_ok rows" "distinct (map qr_job_id new)" "\<And>r. r \<in> set new \<Longrightarrow> succeeds rows r"
  shows "rows_ok (rows @ new)"
    and "latest (rows @ new) jid = (case find (\<lambda>r. qr_job_id r = jid) new of Some r \<Rightarrow> Some r | None \<Rightarrow> latest rows jid)"
proof -
  have "rows_ok (rows @ new) \<and>
      (\<forall>jid. latest (rows @ new) jid = (case find (\<lambda>r. qr_job_id r = jid) new of Some r \<Rightarrow> Some r | None \<Rightarrow> latest rows jid))"
    using assms
  proof (induction new rule: rev_induct)
    case (snoc r new)
    then have IH: "rows_ok (rows @ new)"
      "\<And>jid. latest (rows @ new) jid = (case find (\<lambda>r. qr_job_id r = jid) new of Some r \<Rightarrow> Some r | None \<Rightarrow> latest rows jid)"
      by auto
    have notin: "find (\<lambda>r'. qr_job_id r' = qr_job_id r) new = None"
      using snoc.prems(2) by (auto simp: find_None_iff) (metis imageI)
    then have "succeeds (rows @ new) r"
      using snoc.prems(3) [of r] by (simp add: succeeds_def IH(2))
    note step = append_row [OF IH(1) this]
    have find: "find (\<lambda>r'. qr_job_id r' = jid) (new @ [r]) =
        (case find (\<lambda>r'. qr_job_id r' = jid) new of Some r' \<Rightarrow> Some r' | None \<Rightarrow> if qr_job_id r = jid then Some r else None)" for jid
      by (induction new) auto
    show ?case
      using step notin by (auto simp: find IH(2) split: option.split)
  qed simp
  then show "rows_ok (rows @ new)"
    "latest (rows @ new) jid = (case find (\<lambda>r. qr_job_id r = jid) new of Some r \<Rightarrow> Some r | None \<Rightarrow> latest rows jid)"
    by blast+
qed

subsection \<open>Selecting jobs\<close>

lemma job_of_sel [simp]:
  "jb_job_id (job_of rows r) = qr_job_id r" "jb_payload (job_of rows r) = qr_payload r"
  "jb_version (job_of rows r) = qr_created_at r"
  by (simp_all add: job_of_def)

lemma set_latest_rows: "set (List.map_filter (latest rows) (job_ids rows)) = {r. latest rows (qr_job_id r) = Some r}"
proof -
  have "jid \<in> set (job_ids rows)" if "latest rows jid = Some r" for jid r
    using latest_in [OF that] by (auto simp: job_ids_def)
  moreover have "qr_job_id r = jid" if "latest rows jid = Some r" for jid r
    using latest_in [OF that] by blast
  ultimately show ?thesis
    by (auto simp: List.map_filter_def) force+
qed

lemma distinct_latest_rows: "distinct (map qr_job_id (List.map_filter (latest rows) (job_ids rows)))"
proof -
  have "map qr_job_id (List.map_filter (latest rows) ids) = filter (\<lambda>jid. latest rows jid \<noteq> None) ids" for ids
    using latest_in by (induction ids) (auto simp: List.map_filter_def)
  then show ?thesis by (simp add: job_ids_def)
qed

lemma select_jobs_sound:
  "job \<in> set (select_jobs P n rows) \<Longrightarrow>
     \<exists>r. latest rows (jb_job_id job) = Some r \<and> P r \<and> job = job_of rows r"
  using set_latest_rows [of rows] unfolding select_jobs_def by (auto dest!: in_set_takeD)

lemma select_jobs_distinct: "distinct (map jb_job_id (select_jobs P n rows))"
proof -
  let ?jobs = "map (job_of rows) (filter P (List.map_filter (latest rows) (job_ids rows)))"
  have "distinct (map qr_job_id (filter P (List.map_filter (latest rows) (job_ids rows))))"
    using distinct_latest_rows by (rule distinct_map_filter)
  moreover have "map jb_job_id ?jobs = map qr_job_id (filter P (List.map_filter (latest rows) (job_ids rows)))"
    by (simp add: comp_def)
  ultimately have "distinct (map jb_job_id ?jobs)" by metis
  then have "distinct (map jb_job_id (sort_key jb_created_at ?jobs))"
    by (metis distinct_map distinct_sort set_sort)
  then show ?thesis
    unfolding select_jobs_def by (metis distinct_take take_map)
qed

lemma select_jobs_complete:
  assumes "latest rows jid = Some r" "P r" "card {r. latest rows (qr_job_id r) = Some r \<and> P r} \<le> n"
  shows "job_of rows r \<in> set (select_jobs P n rows)"
proof -
  let ?rows = "filter P (List.map_filter (latest rows) (job_ids rows))"
  have "distinct ?rows"
    using distinct_latest_rows distinct_map distinct_filter by blast
  moreover have "set ?rows = {r. latest rows (qr_job_id r) = Some r \<and> P r}"
    using set_latest_rows [of rows] by auto
  ultimately have "length ?rows \<le> n" using assms(3) by (metis distinct_card)
  moreover have "r \<in> set ?rows"
    using assms(1,2) latest_in [OF assms(1)] set_latest_rows [of rows] by auto
  ultimately show ?thesis
    by (simp add: select_jobs_def)
qed

subsection \<open>What a transition does to the table\<close>

definition transition_row :: "ingestion_job \<Rightarrow> queue_row \<Rightarrow> bool" where
  "transition_row job r \<longleftrightarrow> qr_job_id r = jb_job_id job \<and> qr_payload r = jb_payload job \<and> jb_version job < qr_created_at r"

lemma transition_rows:
  "transition_row job (complete_row now l job)" "transition_row job (fail_row now l msg job)"
  "transition_row job (defer_row now t msg job)" "transition_row job (claim_row w (mark_claimed now w job))"
  by (simp_all add: transition_row_def complete_row_def fail_row_def defer_row_def claim_row_def mark_claimed_def
      next_version_def Let_def)

text \<open>A job whose version is the one of its latest row: what a worker may write a transition for.\<close>

definition fresh_job :: "queue_row list \<Rightarrow> ingestion_job \<Rightarrow> bool" where
  "fresh_job rows job \<longleftrightarrow> (\<exists>r. latest rows (jb_job_id job) = Some r \<and>
     qr_created_at r = jb_version job \<and> qr_payload r = jb_payload job)"

lemma transition_succeeds: "fresh_job rows job \<Longrightarrow> transition_row job r \<Longrightarrow> succeeds rows r"
  by (auto simp: fresh_job_def transition_row_def succeeds_def follows_def)

lemma select_jobs_fresh: "job \<in> set (select_jobs P n rows) \<Longrightarrow> fresh_job rows job"
  using select_jobs_sound [of job P n rows] by (auto simp: fresh_job_def)

lemma transition_batch:
  assumes "rows_ok rows" "distinct (map jb_job_id jobs)"
    and "\<forall>job \<in> set jobs. fresh_job rows job \<and> transition_row job (f job)"
  shows "rows_ok (rows @ map f jobs)"
    and "job \<in> set jobs \<Longrightarrow> latest (rows @ map f jobs) (jb_job_id job) = Some (f job)"
    and "jid \<notin> jb_job_id ` set jobs \<Longrightarrow> latest (rows @ map f jobs) jid = latest rows jid"
proof -
  have ids: "qr_job_id (f job) = jb_job_id job" if "job \<in> set jobs" for job
    using assms(3) that by (simp add: transition_row_def)
  have dist: "distinct (map qr_job_id (map f jobs))"
    using assms(2) ids by (simp add: comp_def cong: map_cong)
  have succ: "succeeds rows r" if "r \<in> set (map f jobs)" for r
    using that assms(3) transition_succeeds by auto
  show "rows_ok (rows @ map f jobs)"
    by (rule append_rows(1) [OF assms(1) dist succ])
  have latest: "latest (rows @ map f jobs) jid =
      (case find (\<lambda>r. qr_job_id r = jid) (map f jobs) of Some r \<Rightarrow> Some r | None \<Rightarrow> latest rows jid)" for jid
    by (rule append_rows(2) [OF assms(1) dist succ])
  show "latest (rows @ map f jobs) (jb_job_id job) = Some (f job)" if job: "job \<in> set jobs"
  proof -
    have "find (\<lambda>r. qr_job_id r = jb_job_id job) (map f jobs) = Some (f job)"
      using job ids assms(2) by (induction jobs) (auto simp: rev_image_eqI)
    then show ?thesis unfolding latest by (simp only: option.case)
  qed
  show "latest (rows @ map f jobs) jid = latest rows jid" if "jid \<notin> jb_job_id ` set jobs"
  proof -
    have "find (\<lambda>r. qr_job_id r = jid) (map f jobs) = None"
      using that ids by (auto simp: find_None_iff)
    then show ?thesis unfolding latest by (simp only: option.case)
  qed
qed

lemma defer_all_append:
  "defer_all sn ln reason jobs rows =
     rows @ map (\<lambda>job. defer_row (sn (jb_job_id job)) (ln (jb_job_id job)) reason job) jobs"
  by (induction jobs arbitrary: rows) (simp_all add: defer_all_def defer_job_def)

lemma release_own:
  assumes "rows_ok rows" "release_own_claims rn ln worker rows = rows'"
  shows "rows_ok rows'"
    and "latest rows' jid = Some r \<Longrightarrow> latest rows jid = Some r \<or>
      (\<exists>r0. latest rows jid = Some r0 \<and> qr_status r0 = StatusProcessing \<and> qr_claimed_by r0 = worker \<and>
        qr_payload r = qr_payload r0 \<and> qr_status r = StatusPending \<and> qr_claimed_by r = [])"
    and "latest rows jid = Some r0 \<Longrightarrow> \<not> (qr_status r0 = StatusProcessing \<and> qr_claimed_by r0 = worker) \<Longrightarrow>
      latest rows' jid = Some r0"
    and "latest rows jid = None \<Longrightarrow> latest rows' jid = None"
    and "card {r. latest rows (qr_job_id r) = Some r \<and> qr_status r = StatusProcessing \<and> qr_claimed_by r = worker} \<le> sweep_limit
      \<Longrightarrow> latest rows' jid = Some r \<Longrightarrow> \<not> (qr_status r = StatusProcessing \<and> qr_claimed_by r = worker)"
proof -
  define own where "own r \<longleftrightarrow> qr_status r = StatusProcessing \<and> qr_claimed_by r = worker" for r :: queue_row
  let ?jobs = "select_jobs own sweep_limit rows"
  define f where "f job = defer_row (rn (jb_job_id job)) (ln (jb_job_id job)) (''requeued: claim abandoned by '' @ worker) job" for job
  have rows': "rows' = rows @ map f ?jobs"
    using assms(2) by (simp add: release_own_claims_def defer_all_append f_def [abs_def] own_def [abs_def])
  have step: "\<forall>job \<in> set ?jobs. fresh_job rows job \<and> transition_row job (f job)"
    by (simp add: select_jobs_fresh f_def transition_rows)
  note batch = transition_batch [where jobs = ?jobs and f = f, OF assms(1) select_jobs_distinct step, folded rows']
  show "rows_ok rows'" by (rule batch(1))
  have selected: "\<exists>job r0. job \<in> set ?jobs \<and> jid = jb_job_id job \<and> latest rows jid = Some r0 \<and> own r0 \<and>
      jb_payload job = qr_payload r0 \<and> latest rows' jid = Some (f job)"
    if "jid \<in> jb_job_id ` set ?jobs" for jid
  proof -
    from that obtain job where job: "job \<in> set ?jobs" "jid = jb_job_id job" by blast
    then obtain r0 where "latest rows jid = Some r0" "own r0" "job = job_of rows r0"
      using select_jobs_sound by blast
    with job batch(2) [OF job(1)] show ?thesis by auto
  qed
  show "latest rows jid = Some r \<or> (\<exists>r0. latest rows jid = Some r0 \<and> qr_status r0 = StatusProcessing \<and>
      qr_claimed_by r0 = worker \<and> qr_payload r = qr_payload r0 \<and> qr_status r = StatusPending \<and> qr_claimed_by r = [])"
    if "latest rows' jid = Some r" for jid r
  proof (cases "jid \<in> jb_job_id ` set ?jobs")
    case True
    from selected [OF this] that show ?thesis
      by (auto simp: f_def defer_row_def own_def)
  next
    case False
    from batch(3) [OF this] that show ?thesis by simp
  qed
  show "latest rows' jid = Some r0"
    if "latest rows jid = Some r0" "\<not> (qr_status r0 = StatusProcessing \<and> qr_claimed_by r0 = worker)" for jid r0
    using that selected [of jid] batch(3) [of jid] by (auto simp: own_def)
  show "latest rows' jid = None" if "latest rows jid = None" for jid
    using that selected [of jid] batch(3) [of jid] by auto
  show "\<not> (qr_status r = StatusProcessing \<and> qr_claimed_by r = worker)"
    if "card {r. latest rows (qr_job_id r) = Some r \<and> qr_status r = StatusProcessing \<and> qr_claimed_by r = worker} \<le> sweep_limit"
      "latest rows' jid = Some r" for jid r
  proof (cases "jid \<in> jb_job_id ` set ?jobs")
    case True
    from selected [OF this] that show ?thesis by (auto simp: f_def defer_row_def)
  next
    case False
    with batch(3) that(2) have r: "latest rows jid = Some r" by simp
    have "\<not> own r"
    proof
      assume "own r"
      with r that(1) have "job_of rows r \<in> set ?jobs"
        by (intro select_jobs_complete) (simp_all add: own_def)
      then have "qr_job_id r \<in> jb_job_id ` set ?jobs" by (metis imageI job_of_sel(1))
      with False latest_in [OF r] show False by simp
    qed
    then show ?thesis by (simp add: own_def)
  qed
qed

text \<open>The handles a claim returns.\<close>

definition handle_ok :: "queue_row list \<Rightarrow> string \<Rightarrow> ingestion_job \<Rightarrow> bool" where
  "handle_ok rows worker job \<longleftrightarrow> fresh_job rows job \<and> jb_claimed_by job = worker \<and>
     (\<exists>r. latest rows (jb_job_id job) = Some r \<and> qr_status r = StatusProcessing \<and> qr_claimed_by r = worker)"

lemma handle_owns: "handle_ok rows worker job \<Longrightarrow> owns_claim rows worker job"
  by (auto simp: handle_ok_def owns_claim_def)

lemma claim_pending_spec:
  assumes "rows_ok rows" "claim_pending qn sn worker limit rows = (claimed, rows')"
  shows "rows_ok rows'"
    and "map jb_job_id claimed = map jb_job_id (select_jobs (claimable qn) limit rows)"
    and "job \<in> set claimed \<Longrightarrow> handle_ok rows' worker job"
    and "jid \<notin> jb_job_id ` set claimed \<Longrightarrow> latest rows' jid = latest rows jid"
proof -
  let ?jobs = "select_jobs (claimable qn) limit rows"
  define f where "f job = claim_row worker (mark_claimed sn worker job)" for job
  have step: "\<forall>job \<in> set ?jobs. fresh_job rows job \<and> transition_row job (f job)"
    by (simp add: select_jobs_fresh f_def transition_rows)
  note batch = transition_batch [where jobs = ?jobs and f = f, OF assms(1) select_jobs_distinct step]
  have mark: "jb_job_id (mark_claimed sn worker job) = jb_job_id job"
      "jb_claimed_by (mark_claimed sn worker job) = worker" for job
    by (simp_all add: mark_claimed_def Let_def)
  have handle: "handle_ok (rows @ map f ?jobs) worker (mark_claimed sn worker job)" if "job \<in> set ?jobs" for job
    using batch(2) [OF that] by (simp add: handle_ok_def fresh_job_def mark f_def claim_row_def)
  have "claimed = map (mark_claimed sn worker) ?jobs \<and> rows' = rows @ map f ?jobs"
  proof (cases "?jobs = []")
    case True
    then show ?thesis using assms(2) by (simp add: claim_pending_def)
  next
    case False
    have "owns_claim (rows @ map f ?jobs) worker job" if "job \<in> set (map (mark_claimed sn worker) ?jobs)" for job
      using that handle handle_owns by auto
    then have "filter (owns_claim (rows @ map f ?jobs) worker) (map (mark_claimed sn worker) ?jobs) = map (mark_claimed sn worker) ?jobs"
      by (intro filter_True ballI)
    moreover have "map (claim_row worker) (map (mark_claimed sn worker) ?jobs) = map f ?jobs"
      by (simp add: f_def)
    ultimately show ?thesis
      using assms(2) False unfolding claim_pending_def Let_def by (simp only: if_False prod.inject)
  qed
  then have claimed: "claimed = map (mark_claimed sn worker) ?jobs" and rows': "rows' = rows @ map f ?jobs" by auto
  show "rows_ok rows'" using batch(1) by (simp add: rows')
  show "map jb_job_id claimed = map jb_job_id ?jobs" by (simp add: claimed mark comp_def)
  show "handle_ok rows' worker job" if "job \<in> set claimed" for job
    using that handle by (auto simp: claimed rows')
  show "latest rows' jid = latest rows jid" if "jid \<notin> jb_job_id ` set claimed" for jid
    using that batch(3) [of jid] by (auto simp: claimed rows' image_image mark)
qed

subsection \<open>Handles and new jobs\<close>

text \<open>A handle depends on the latest row of its job only.\<close>

lemma handle_cong: "latest rows' (jb_job_id job) = latest rows (jb_job_id job) \<Longrightarrow> handle_ok rows' worker job = handle_ok rows worker job"
  by (simp add: handle_ok_def fresh_job_def)

lemma handle_latest:
  "handle_ok rows worker job \<Longrightarrow> \<exists>r. latest rows (jb_job_id job) = Some r \<and> qr_status r = StatusProcessing \<and>
     qr_claimed_by r = worker"
  by (simp add: handle_ok_def)

lemma enqueue_ok:
  assumes "rows_ok rows" "distinct (map jb_job_id jobs)" "\<forall>job \<in> set jobs. latest rows (jb_job_id job) = None"
  shows "rows_ok (enqueue_jobs jobs rows)"
    and "latest rows jid = Some r \<Longrightarrow> latest (enqueue_jobs jobs rows) jid = Some r"
proof -
  have ids: "qr_job_id (enqueue_row job) = jb_job_id job" for job by (simp add: enqueue_row_def Let_def)
  then have dist: "distinct (map qr_job_id (map enqueue_row jobs))" using assms(2) by (simp add: comp_def)
  have succ: "succeeds rows r" if "r \<in> set (map enqueue_row jobs)" for r
    using that assms(3) by (auto simp: succeeds_def ids)
  have eq: "enqueue_jobs jobs rows = rows @ map enqueue_row jobs" by (simp add: enqueue_jobs_def)
  show "rows_ok (enqueue_jobs jobs rows)"
    unfolding eq by (rule append_rows(1) [OF assms(1) dist succ])
  have "latest (rows @ map enqueue_row jobs) jid =
      (case find (\<lambda>r. qr_job_id r = jid) (map enqueue_row jobs) of Some r \<Rightarrow> Some r | None \<Rightarrow> latest rows jid)"
    by (rule append_rows(2) [OF assms(1) dist succ])
  moreover have "find (\<lambda>r. qr_job_id r = jid) (map enqueue_row jobs) = None" if "latest rows jid = Some r"
    using that assms(3) by (auto simp: find_None_iff ids)
  ultimately show "latest rows jid = Some r \<Longrightarrow> latest (enqueue_jobs jobs rows) jid = Some r"
    by (simp add: eq)
qed

subsection \<open>Properties\<close>

text \<open>
  C37: No claim of a worker is left behind, and no due job is forgotten: after \<open>ClaimJobs\<close> every job
  the table shows as processed by this worker is one of the jobs it was handed, and if there are no
  more due jobs than the limit, every one of them is handed out. (The sweep of old claims is
  bounded by 10000.)
\<close>

theorem claims_complete:
  assumes "rows_ok rows" "claim_jobs rn ln qn sn worker limit rows = (claimed, rows')"
    and "card {r. latest rows (qr_job_id r) = Some r \<and> qr_status r = StatusProcessing \<and> qr_claimed_by r = worker} \<le> sweep_limit"
    and "latest rows' jid = Some r"
  shows "(qr_status r = StatusProcessing \<and> qr_claimed_by r = worker \<longrightarrow> jid \<in> jb_job_id ` set claimed) \<and>
    (card {r. latest (release_own_claims rn ln worker rows) (qr_job_id r) = Some r \<and> claimable qn r} \<le> limit \<longrightarrow>
      \<not> claimable qn r)"
proof -
  let ?rel = "release_own_claims rn ln worker rows"
  note rel = release_own [OF assms(1) refl, where worker = worker and rn = rn and ln = ln]
  have pend: "claim_pending qn sn worker limit ?rel = (claimed, rows')"
    using assms(2) by (simp add: claim_jobs_def)
  note spec = claim_pending_spec [OF rel(1) pend]
  have "jid \<in> jb_job_id ` set claimed" if "qr_status r = StatusProcessing \<and> qr_claimed_by r = worker"
  proof (rule ccontr)
    assume "jid \<notin> jb_job_id ` set claimed"
    with spec(4) assms(4) have "latest ?rel jid = Some r" by simp
    from rel(5) [OF assms(3) this] that show False by blast
  qed
  moreover have "\<not> claimable qn r"
    if limit: "card {r. latest ?rel (qr_job_id r) = Some r \<and> claimable qn r} \<le> limit"
  proof (cases "jid \<in> jb_job_id ` set claimed")
    case True
    then obtain job where job: "job \<in> set claimed" "jid = jb_job_id job" by blast
    from handle_latest [OF spec(3) [OF job(1)]] job(2) assms(4) show ?thesis by (auto simp: claimable_def)
  next
    case False
    have r: "latest ?rel jid = Some r" using spec(4) [OF False] assms(4) by simp
    show ?thesis
    proof
      assume "claimable qn r"
      with r limit have "job_of ?rel r \<in> set (select_jobs (claimable qn) limit ?rel)"
        by (intro select_jobs_complete)
      then have "qr_job_id r \<in> jb_job_id ` set (select_jobs (claimable qn) limit ?rel)"
        by (metis imageI job_of_sel(1))
      then have "qr_job_id r \<in> set (map jb_job_id claimed)" unfolding spec(2) by simp
      with False latest_in [OF r] show False by simp
    qed
  qed
  ultimately show ?thesis by blast
qed

definition sample_job :: ingestion_job where
  "sample_job =
     \<lparr>jb_created_at = 100, jb_job_id = 7,
      jb_payload = \<lparr>pl_source_file = ''a.json'', pl_sha256_hash = ''h'', pl_job_type = [], pl_cluster = [], pl_namespace = [],
        pl_project = [], pl_source_repo = [], pl_source_ref = [], pl_target_sbom_id = [], pl_tags = [''x''], pl_parent = []\<rparr>,
      jb_status = None, jb_claimed_by = [], jb_claimed_at = None, jb_retry_after = 0, jb_version = 0\<rparr>"

definition sample_claim :: "ingestion_job list \<times> queue_row list" where
  "sample_claim = claim_jobs (\<lambda>_. 50) (\<lambda>_. 50) 150 60 ''w1'' 10 (enqueue_jobs [sample_job] [])"

lemma sample_claim_facts:
  "map jb_job_id (fst sample_claim) = [7]" "map jb_version (fst sample_claim) = [101]"
  "map qr_created_at (rows_of (snd sample_claim) 7) = [100, 101]"
  "latest (enqueue_jobs [sample_job] []) 7 \<noteq> None"
  by code_simp+

theorem claims_complete_witness:
  "\<exists>r. latest (snd sample_claim) 7 = Some r \<and> \<not> claimable 150 r"
proof -
  let ?rows = "enqueue_jobs [sample_job] []"
  have ok: "rows_ok ?rows" by (rule enqueue_ok(1)) (simp_all add: latest_def rows_of_def)
  have one: "{r. latest rows (qr_job_id r) = Some r \<and> P r} \<subseteq> set rows" for rows and P :: "queue_row \<Rightarrow> bool"
    using latest_in by blast
  then have card: "card {r. latest rows (qr_job_id r) = Some r \<and> P r} \<le> length rows" for rows and P :: "queue_row \<Rightarrow> bool"
    by (meson List.finite_set card_length card_mono le_trans)
  have len: "length ?rows = 1" "length (release_own_claims (\<lambda>_. 50) (\<lambda>_. 50) ''w1'' ?rows) = 1"
    by code_simp+
  obtain r where r: "latest (snd sample_claim) 7 = Some r"
  proof -
    have "latest (snd sample_claim) 7 \<noteq> None" by code_simp
    then show ?thesis using that by blast
  qed
  let ?rel = "release_own_claims (\<lambda>_. 50) (\<lambda>_. 50) ''w1'' ?rows"
  have c1: "card {r. latest ?rows (qr_job_id r) = Some r \<and> qr_status r = StatusProcessing \<and> qr_claimed_by r = ''w1''} \<le> sweep_limit"
    using card [of ?rows "\<lambda>r. qr_status r = StatusProcessing \<and> qr_claimed_by r = ''w1''"] len(1)
    by (simp add: sweep_limit_def)
  have c2: "card {r. latest ?rel (qr_job_id r) = Some r \<and> claimable 150 r} \<le> 10"
    using card [of ?rel "claimable 150"] len(2) by simp
  have "claim_jobs (\<lambda>_. 50) (\<lambda>_. 50) 150 60 ''w1'' 10 ?rows = (fst sample_claim, snd sample_claim)"
    by (simp add: sample_claim_def)
  from claims_complete [OF ok this c1 r] c2 have "\<not> claimable 150 r" by blast
  with r show ?thesis by blast
qed

end
