(* ===== verification/Queue_Workers.thy ===== *)
theory Queue_Workers
  imports Job_Queue
begin

text \<open>
  The workers on the ingestion queue: the main loop and the stale-claim sweep of
  \<open>backend/cmd/parsing-worker/main.go\<close>, \<open>ClaimJobs\<close> and \<open>RequeueStaleJobs\<close> of
  \<open>backend/internal/clickhouse/queue.go\<close> one statement at a time, and the Lease of
  \<open>backend/internal/claimlock/lock.go\<close> that serialises the claims of different processes. Statements
  of all workers interleave freely. A query sees the rows of the table in any order, so that
  \<open>argMax\<close> may choose any of several newest rows; every clock reading in a row is arbitrary. The
  clock \<open>qs_clock\<close> is the one the lock measures by, in milliseconds.
\<close>

subsection \<open>The claim lock\<close>

definition lease_duration :: int where "lease_duration = 15000"
definition renew_deadline :: int where "renew_deadline = 10000"
definition max_hold :: int where "max_hold = renew_deadline div 2"

definition stale_claim_after :: int where "stale_claim_after = 3600000"

text \<open>
  How far a worker is in its critical section: the claims of its own still to be released, the jobs
  chosen, the jobs marked as claimed, the jobs verified. \<open>cl_start\<close> is the time before the Lease was
  acquired; the context of the statements ends \<open>max_hold\<close> after it, and a statement whose context
  has ended has no effect.
\<close>

datatype section_phase =
  Entered | Releasing "ingestion_job list" | Chosen "ingestion_job list" | Marked "ingestion_job list" | Verified "ingestion_job list"

record claim_section =
  cl_start :: int
  cl_phase :: section_phase


text \<open>
  The table, the holder of the Lease with the time it last renewed it, and for each worker its
  critical section, the jobs it was handed and works on, and the sweep in progress with the time its
  query ran at. \<open>qs_swept\<close> records the jobs a sweep took back, with that time.
\<close>

record queue_state =
  qs_rows :: "queue_row list"
  qs_clock :: int
  qs_lease :: "(string \<times> int) option"
  qs_section :: "string \<Rightarrow> claim_section option"
  qs_holding :: "string \<Rightarrow> ingestion_job list"
  qs_sweeping :: "string \<Rightarrow> (int \<times> ingestion_job list) option"
  qs_swept :: "(nat \<times> int) set"

definition empty_queue :: queue_state where
  "empty_queue = \<lparr>qs_rows = [], qs_clock = 0, qs_lease = None, qs_section = (\<lambda>_. None), qs_holding = (\<lambda>_. []),
     qs_sweeping = (\<lambda>_. None), qs_swept = {}\<rparr>"

definition lease_free :: "queue_state \<Rightarrow> bool" where
  "lease_free s \<longleftrightarrow> (case qs_lease s of None \<Rightarrow> True | Some (_, t) \<Rightarrow> t + lease_duration \<le> qs_clock s)"

definition release_lease :: "string \<Rightarrow> (string \<times> int) option \<Rightarrow> (string \<times> int) option" where
  "release_lease worker l = (case l of None \<Rightarrow> None | Some (h, t) \<Rightarrow> if h = worker then None else l)"

text \<open>The section of a worker whose statements still run.\<close>

definition in_section :: "queue_state \<Rightarrow> string \<Rightarrow> section_phase \<Rightarrow> bool" where
  "in_section s worker ph \<longleftrightarrow>
     (\<exists>start. qs_section s worker = Some \<lparr>cl_start = start, cl_phase = ph\<rparr> \<and> qs_clock s < start + max_hold)"

definition set_phase :: "string \<Rightarrow> section_phase \<Rightarrow> queue_state \<Rightarrow> queue_state" where
  "set_phase worker ph s =
     s\<lparr>qs_section := (qs_section s)(worker := map_option (cl_phase_update (\<lambda>_. ph)) (qs_section s worker))\<rparr>"

definition leave_section :: "string \<Rightarrow> ingestion_job list \<Rightarrow> (string \<times> int) option \<Rightarrow> queue_state \<Rightarrow> queue_state" where
  "leave_section worker claimed lease s =
     s\<lparr>qs_section := (qs_section s)(worker := None), qs_lease := lease, qs_holding := (qs_holding s)(worker := claimed)\<rparr>"

definition seen_as :: "queue_row list \<Rightarrow> queue_row list \<Rightarrow> bool" where
  "seen_as rows seen \<longleftrightarrow> mset seen = mset rows"

subsection \<open>One statement of a critical section\<close>

definition own_claim :: "string \<Rightarrow> queue_row \<Rightarrow> bool" where
  "own_claim worker r \<longleftrightarrow> qr_status r = StatusProcessing \<and> qr_claimed_by r = worker"

definition claim_reason :: "string \<Rightarrow> string" where
  "claim_reason worker = ''requeued: claim abandoned by '' @ worker"

text \<open>The batch of \<open>claimJobs\<close>; nothing is inserted and verified when there is nothing to claim.\<close>

definition choose_phase :: "ingestion_job list \<Rightarrow> section_phase" where
  "choose_phase jobs = (if jobs = [] then Verified [] else Chosen jobs)"

inductive section_step :: "queue_state \<Rightarrow> queue_state \<Rightarrow> bool" where
  section_enter: "qs_section s worker = None \<Longrightarrow> qs_holding s worker = [] \<Longrightarrow> lease_free s \<Longrightarrow> start \<le> qs_clock s \<Longrightarrow>
     section_step s (s\<lparr>qs_lease := Some (worker, qs_clock s),
       qs_section := (qs_section s)(worker := Some \<lparr>cl_start = start, cl_phase = Entered\<rparr>)\<rparr>)"
| section_own: "in_section s worker Entered \<Longrightarrow> seen_as (qs_rows s) seen \<Longrightarrow>
     section_step s (set_phase worker (Releasing (select_jobs (own_claim worker) sweep_limit seen)) s)"
| section_release: "in_section s worker (Releasing (job # jobs)) \<Longrightarrow>
     section_step s (set_phase worker (Releasing jobs)
       (s\<lparr>qs_rows := defer_job sn local_now (claim_reason worker) job (qs_rows s)\<rparr>))"
| section_choose: "in_section s worker (Releasing []) \<Longrightarrow> seen_as (qs_rows s) seen \<Longrightarrow>
     section_step s (set_phase worker (choose_phase (select_jobs (claimable qn) limit seen)) s)"
| section_mark: "in_section s worker (Chosen jobs) \<Longrightarrow>
     section_step s (set_phase worker (Marked (map (mark_claimed sn worker) jobs))
       (s\<lparr>qs_rows := qs_rows s @ map (claim_row worker) (map (mark_claimed sn worker) jobs)\<rparr>))"
| section_verify: "in_section s worker (Marked jobs) \<Longrightarrow> seen_as (qs_rows s) seen \<Longrightarrow>
     section_step s (set_phase worker (Verified (filter (owns_claim seen worker) jobs)) s)"
| section_leave: "in_section s worker (Verified jobs) \<Longrightarrow> lease \<in> {qs_lease s, release_lease worker (qs_lease s)} \<Longrightarrow>
     section_step s (leave_section worker jobs lease s)"
| section_fail: "qs_section s worker \<noteq> None \<Longrightarrow> lease \<in> {qs_lease s, release_lease worker (qs_lease s)} \<Longrightarrow>
     section_step s (leave_section worker [] lease s)"

subsection \<open>All steps\<close>

text \<open>
  A worker that finishes a job appends the row of the outcome and lets go of the job, also when the
  insert fails (\<open>queue_abandon\<close>). The elector renews the Lease, and gives it up when it could not for
  \<open>renew_deadline\<close>; a Lease that was not renewed for \<open>lease_duration\<close> is free. The sweep of a worker
  runs next to its main loop: one query, then one insert per stale claim.
\<close>

definition let_go :: "string \<Rightarrow> ingestion_job \<Rightarrow> queue_state \<Rightarrow> queue_state" where
  "let_go worker job s =
     s\<lparr>qs_holding := (qs_holding s)(worker := filter (\<lambda>j. jb_job_id j \<noteq> jb_job_id job) (qs_holding s worker))\<rparr>"

definition crash :: "string \<Rightarrow> queue_state \<Rightarrow> queue_state" where
  "crash worker s =
     s\<lparr>qs_section := (qs_section s)(worker := None), qs_holding := (qs_holding s)(worker := []),
       qs_sweeping := (qs_sweeping s)(worker := None)\<rparr>"

definition sweep_job :: "string \<Rightarrow> int \<Rightarrow> ingestion_job list \<Rightarrow> int \<Rightarrow> int \<Rightarrow> string \<Rightarrow> ingestion_job \<Rightarrow> queue_state \<Rightarrow> queue_state" where
  "sweep_job worker qn jobs sn local_now reason job s =
     s\<lparr>qs_rows := defer_job sn local_now reason job (qs_rows s),
       qs_sweeping := (qs_sweeping s)(worker := Some (qn, jobs)), qs_swept := insert (jb_job_id job, qn) (qs_swept s)\<rparr>"

inductive queue_step :: "queue_state \<Rightarrow> queue_state \<Rightarrow> bool" where
  queue_tick: "qs_clock s \<le> t \<Longrightarrow> queue_step s (s\<lparr>qs_clock := t\<rparr>)"
| queue_enqueue: "distinct (map jb_job_id jobs) \<Longrightarrow> (\<forall>job \<in> set jobs. latest (qs_rows s) (jb_job_id job) = None) \<Longrightarrow>
     queue_step s (s\<lparr>qs_rows := enqueue_jobs jobs (qs_rows s)\<rparr>)"
| queue_section: "section_step s t \<Longrightarrow> queue_step s t"
| queue_renew: "qs_lease s = Some (worker, t) \<Longrightarrow> qs_section s worker \<noteq> None \<Longrightarrow>
     queue_step s (s\<lparr>qs_lease := Some (worker, qs_clock s)\<rparr>)"
| queue_give_up: "qs_lease s = Some (worker, t) \<Longrightarrow> qs_section s worker = Some sc \<Longrightarrow>
     cl_start sc + renew_deadline \<le> qs_clock s \<Longrightarrow> queue_step s (s\<lparr>qs_lease := None\<rparr>)"
| queue_complete: "job \<in> set (qs_holding s worker) \<Longrightarrow>
     queue_step s (let_go worker job (s\<lparr>qs_rows := complete_job sn local_now job (qs_rows s)\<rparr>))"
| queue_fail: "job \<in> set (qs_holding s worker) \<Longrightarrow>
     queue_step s (let_go worker job (s\<lparr>qs_rows := fail_job sn local_now msg job (qs_rows s)\<rparr>))"
| queue_defer: "job \<in> set (qs_holding s worker) \<Longrightarrow>
     queue_step s (let_go worker job (s\<lparr>qs_rows := defer_job sn retry_after reason job (qs_rows s)\<rparr>))"
| queue_abandon: "job \<in> set (qs_holding s worker) \<Longrightarrow> queue_step s (let_go worker job s)"
| queue_crash: "queue_step s (crash worker s)"
| queue_sweep: "qs_sweeping s worker = None \<Longrightarrow> seen_as (qs_rows s) seen \<Longrightarrow>
     queue_step s (s\<lparr>qs_sweeping := (qs_sweeping s)(worker :=
       Some (qn, select_jobs (is_stale qn stale_claim_after) sweep_limit seen))\<rparr>)"
| queue_sweep_job: "qs_sweeping s worker = Some (qn, job # jobs) \<Longrightarrow>
     queue_step s (sweep_job worker qn jobs sn local_now reason job s)"
| queue_sweep_end: "queue_step s (s\<lparr>qs_sweeping := (qs_sweeping s)(worker := None)\<rparr>)"

inductive queue_reachable :: "queue_state \<Rightarrow> bool" where
  queue_start: "queue_reachable empty_queue"
| queue_next: "queue_reachable s \<Longrightarrow> queue_step s t \<Longrightarrow> queue_reachable t"

subsection \<open>One job at a time\<close>












subsection \<open>The history of a job\<close>













lemma follows_trans: "follows a b \<Longrightarrow> follows b c \<Longrightarrow> follows a c"
  by (simp add: follows_def)



lemma enqueue_row_sel [simp]:
  "qr_job_id (enqueue_row job) = jb_job_id job" "qr_status (enqueue_row job) = StatusPending"
  by (simp_all add: enqueue_row_def Let_def)


subsection \<open>Every row follows a legal one\<close>

















subsection \<open>The lock holds\<close>






lemma set_phase_sel [simp]:
  "qs_rows (set_phase worker ph s) = qs_rows s" "qs_holding (set_phase worker ph s) = qs_holding s"
  "qs_swept (set_phase worker ph s) = qs_swept s" "qs_clock (set_phase worker ph s) = qs_clock s"
  "qs_lease (set_phase worker ph s) = qs_lease s" "qs_sweeping (set_phase worker ph s) = qs_sweeping s"
  by (simp_all add: set_phase_def)








lemma distinct_select [simp]: "distinct (map jb_job_id (select_jobs P n rows))"
  by (rule select_jobs_distinct)

lemma map_mark_id [simp]: "jb_job_id (mark_claimed sn worker job) = jb_job_id job" "jb_claimed_by (mark_claimed sn worker job) = worker"
  by (simp_all add: mark_claimed_def Let_def)



subsection \<open>A job no sweep took back\<close>
















subsection \<open>A section nobody disturbs\<close>

text \<open>When the statements of a section run one after the other, the section is \<open>ClaimJobs\<close>.\<close>

definition entered :: "queue_state \<Rightarrow> string \<Rightarrow> section_phase \<Rightarrow> queue_row list \<Rightarrow> queue_state" where
  "entered s worker ph rows =
     s\<lparr>qs_rows := rows, qs_lease := Some (worker, qs_clock s),
       qs_section := (qs_section s)(worker := Some \<lparr>cl_start = qs_clock s, cl_phase = ph\<rparr>)\<rparr>"

lemma entered_in: "in_section (entered s worker ph rows) worker ph"
  by (simp add: in_section_def entered_def max_hold_def renew_deadline_def)

lemma entered_set: "set_phase worker ph (entered s worker ph0 rows) = entered s worker ph rows"
  by (simp add: set_phase_def entered_def)

lemma entered_rows [simp]:
  "qs_rows (entered s worker ph rows) = rows" "(entered s worker ph rows)\<lparr>qs_rows := rows'\<rparr> = entered s worker ph rows'"
  by (simp_all add: entered_def)

lemma entered_step:
  "queue_reachable (entered s worker ph rows) \<Longrightarrow> section_step (entered s worker ph rows) t \<Longrightarrow> queue_reachable t"
  by (blast intro: queue_next queue_section)

lemma seen_as_refl [simp]: "seen_as rows rows"
  by (simp add: seen_as_def)

lemma release_undisturbed:
  "queue_reachable (entered s worker (Releasing jobs) rows) \<Longrightarrow>
     queue_reachable (entered s worker (Releasing []) (defer_all rn ln (claim_reason worker) jobs rows))"
proof (induction jobs arbitrary: rows)
  case (Cons job jobs)
  have "queue_reachable (entered s worker (Releasing jobs) (defer_job (rn (jb_job_id job)) (ln (jb_job_id job)) (claim_reason worker) job rows))"
    using entered_step [OF Cons.prems section_release [OF entered_in]] by (simp add: entered_set)
  from Cons.IH [OF this] show ?case by (simp add: defer_all_def)
qed (simp add: defer_all_def)

lemma claim_undisturbed:
  assumes "queue_reachable s" "qs_section s worker = None" "qs_holding s worker = []" "lease_free s"
    and "claim_jobs rn ln qn sn worker limit (qs_rows s) = (claimed, rows')"
  shows "queue_reachable (s\<lparr>qs_rows := rows', qs_lease := None, qs_holding := (qs_holding s)(worker := claimed)\<rparr>)"
proof -
  let ?rel = "release_own_claims rn ln worker (qs_rows s)"
  let ?jobs = "select_jobs (claimable qn) limit ?rel"
  have pend: "claim_pending qn sn worker limit ?rel = (claimed, rows')" using assms(5) by (simp add: claim_jobs_def)
  have "section_step s (entered s worker Entered (qs_rows s))"
    using section_enter [OF assms(2-4), of "qs_clock s"] by (simp add: entered_def)
  then have "queue_reachable (entered s worker Entered (qs_rows s))"
    using assms(1) by (blast intro: queue_next queue_section)
  from entered_step [OF this section_own [OF entered_in seen_as_refl]]
  have "queue_reachable (entered s worker (Releasing (select_jobs (own_claim worker) sweep_limit (qs_rows s))) (qs_rows s))"
    by (simp add: entered_set)
  from release_undisturbed [OF this, of rn ln]
  have "queue_reachable (entered s worker (Releasing []) ?rel)"
    by (simp add: release_own_claims_def claim_reason_def own_claim_def [abs_def])
  from entered_step [OF this section_choose [OF entered_in seen_as_refl, where qn = qn and limit = limit]]
  have chosen: "queue_reachable (entered s worker (choose_phase ?jobs) ?rel)" by (simp add: entered_set)
  have "queue_reachable (entered s worker (Verified claimed) rows')"
  proof (cases "?jobs = []")
    case True
    then show ?thesis using chosen pend by (simp add: choose_phase_def claim_pending_def)
  next
    case False
    let ?marked = "map (mark_claimed sn worker) ?jobs"
    have "queue_reachable (entered s worker (Chosen ?jobs) ?rel)" using chosen False by (simp add: choose_phase_def)
    from entered_step [OF this section_mark [OF entered_in, where sn = sn]]
    have "queue_reachable (entered s worker (Marked ?marked) (?rel @ map (claim_row worker) ?marked))"
      by (simp add: entered_set)
    from entered_step [OF this section_verify [OF entered_in seen_as_refl]]
    have "queue_reachable (entered s worker
        (Verified (filter (owns_claim (?rel @ map (claim_row worker) ?marked) worker) ?marked)) (?rel @ map (claim_row worker) ?marked))"
      unfolding entered_set entered_rows .
    moreover have "claimed = filter (owns_claim (?rel @ map (claim_row worker) ?marked) worker) ?marked"
        "rows' = ?rel @ map (claim_row worker) ?marked"
      using pend False by (auto simp: claim_pending_def Let_def simp del: map_map)
    ultimately show ?thesis by (simp only:)
  qed
  from entered_step [OF this section_leave [OF entered_in, where lease = None]]
  have "queue_reachable (leave_section worker claimed None (entered s worker (Verified claimed) rows'))"
    by (simp add: entered_def release_lease_def)
  moreover have "leave_section worker claimed None (entered s worker (Verified claimed) rows') =
      s\<lparr>qs_rows := rows', qs_lease := None, qs_holding := (qs_holding s)(worker := claimed)\<rparr>"
    using assms(2) by (simp add: leave_section_def entered_def fun_upd_idem)
  ultimately show ?thesis by simp
qed

subsection \<open>Properties\<close>



definition sample_queue :: queue_state where
  "sample_queue = empty_queue\<lparr>qs_rows := snd sample_claim, qs_holding := (\<lambda>_. [])(''w1'' := fst sample_claim)\<rparr>"

lemma sample_reachable: "queue_reachable sample_queue"
proof -
  let ?s = "empty_queue\<lparr>qs_rows := enqueue_jobs [sample_job] (qs_rows empty_queue)\<rparr>"
  have r: "queue_reachable ?s"
    by (rule queue_next [OF queue_start], rule queue_enqueue) (simp_all add: empty_queue_def latest_def rows_of_def)
  have "claim_jobs (\<lambda>_. 50) (\<lambda>_. 50) 150 60 ''w1'' 10 (qs_rows ?s) = (fst sample_claim, snd sample_claim)"
    by (simp add: empty_queue_def sample_claim_def)
  from claim_undisturbed [OF r _ _ _ this] show ?thesis
    by (simp add: empty_queue_def sample_queue_def lease_free_def)
qed



text \<open>
  The exception is real: a job that a worker holds for more than an hour is taken back by a sweep and
  handed to a second worker while the first one still works on it.
\<close>

definition swept_rows :: "queue_row list" where
  "swept_rows = snd (requeue_stale_jobs (\<lambda>_. 4000000) (\<lambda>_. 0) 4000000 stale_claim_after [] (snd sample_claim))"

lemma swept_facts:
  "map jb_job_id (select_jobs (is_stale 4000000 stale_claim_after) sweep_limit (snd sample_claim)) = [7]"
  "map jb_job_id (fst (claim_jobs (\<lambda>_. 50) (\<lambda>_. 50) 4000000 60 ''w2'' 10 swept_rows)) = [7]"
  by code_simp+

lemma swept_job_held_twice:
  "\<exists>s job job'. queue_reachable s \<and> job \<in> set (qs_holding s ''w1'') \<and> job' \<in> set (qs_holding s ''w2'') \<and>
     jb_job_id job' = jb_job_id job"
proof -
  obtain j where j: "select_jobs (is_stale 4000000 stale_claim_after) sweep_limit (snd sample_claim) = [j]"
    using swept_facts(1) by auto
  have rows: "defer_job 4000000 0 [] j (snd sample_claim) = swept_rows"
    by (simp add: swept_rows_def requeue_stale_jobs_def j defer_all_def)
  let ?s1 = "sample_queue\<lparr>qs_sweeping := (qs_sweeping sample_queue)(''w2'' := Some (4000000, [j]))\<rparr>"
  have "queue_step sample_queue ?s1"
    using queue_sweep [of sample_queue "''w2''" "qs_rows sample_queue" 4000000] j
    by (simp add: sample_queue_def empty_queue_def)
  then have r1: "queue_reachable ?s1" using sample_reachable by (blast intro: queue_next)
  let ?s2 = "sweep_job ''w2'' 4000000 [] 4000000 0 [] j ?s1"
  have "queue_step ?s1 ?s2" by (rule queue_sweep_job) simp
  then have r2: "queue_reachable ?s2" using r1 by (blast intro: queue_next)
  have s2: "qs_rows ?s2 = swept_rows" "qs_section ?s2 ''w2'' = None" "qs_holding ?s2 ''w2'' = []" "lease_free ?s2"
      "qs_holding ?s2 ''w1'' = fst sample_claim"
    using rows by (simp_all add: sweep_job_def sample_queue_def empty_queue_def lease_free_def)
  let ?claim = "claim_jobs (\<lambda>_. 50) (\<lambda>_. 50) 4000000 60 ''w2'' 10 swept_rows"
  have "claim_jobs (\<lambda>_. 50) (\<lambda>_. 50) 4000000 60 ''w2'' 10 (qs_rows ?s2) = (fst ?claim, snd ?claim)" by (simp add: s2(1))
  define s3 where "s3 = ?s2\<lparr>qs_rows := snd ?claim, qs_lease := None, qs_holding := (qs_holding ?s2)(''w2'' := fst ?claim)\<rparr>"
  have r3: "queue_reachable s3"
    unfolding s3_def using claim_undisturbed [OF r2 s2(2-4)] \<open>claim_jobs _ _ _ _ _ _ _ = _\<close> by blast
  obtain a b where ab: "fst sample_claim = [a]" "fst ?claim = [b]" "jb_job_id a = 7" "jb_job_id b = 7"
    using sample_claim_facts(1) swept_facts(2) by auto
  then have "a \<in> set (qs_holding s3 ''w1'')" "b \<in> set (qs_holding s3 ''w2'')" using s2(5) by (simp_all add: s3_def)
  with r3 ab(3,4) show ?thesis by metis
qed

end
