(* ===== verification/Rule_Watch.thy ===== *)
theory Rule_Watch
  imports Prelude
begin

text \<open>
  Watched rule documents, \<open>backend/internal/rulesource/source.go\<close> (where a document comes from) and
  \<open>watcher.go\<close> (keeping the last good version current). Files, the HTTP exchange and the object
  store are one environment per poll; \<open>sha\<close> is SHA-256 in hexadecimal, \<open>parse\<close> the parser the
  watcher is built with, \<open>url_parse\<close> gives scheme, host and
  rendering of a URL.
\<close>

subsection \<open>Sources\<close>

definition max_size :: nat where
  "max_size = 10485760"

datatype fetch_error = ErrNotFound | ErrNotModified | ErrFetch string | ErrTooLarge | ErrStatus nat

datatype fetcher =
    FileFetcher "string list"
  | HttpFetcher string string string
  | S3Fetcher string string

datatype source_error =
  NoSourceConfigured | InvalidS3Uri | NeedsS3 | NotAUrl | NotHttps

definition parse_s3_uri :: "string \<Rightarrow> (string \<times> string) option" where
  "parse_s3_uri uri =
     (let rest = trim_prefix uri ''s3://''
      in case index_by (\<lambda>c. c = CHR ''/'') rest of
           None \<Rightarrow> None
         | Some i \<Rightarrow> if i = 0 \<or> i = length rest - 1 then None else Some (take i rest, drop (Suc i) rest))"

definition new_fetcher ::
  "(string \<Rightarrow> (string \<times> string \<times> string) option) \<Rightarrow> string \<Rightarrow> string list \<Rightarrow> string \<Rightarrow> bool \<Rightarrow> source_error + fetcher" where
  "new_fetcher url_parse source paths tok has_s3 =
     (let src = trim_space source
      in if src = [] then (if paths = [] then Inl NoSourceConfigured else Inr (FileFetcher paths))
         else if has_prefix src ''s3://''
         then (case parse_s3_uri src of
                 None \<Rightarrow> Inl InvalidS3Uri
               | Some (bucket, key) \<Rightarrow> if \<not> has_s3 then Inl NeedsS3 else Inr (S3Fetcher bucket key))
         else (case url_parse src of
                 None \<Rightarrow> Inl NotAUrl
               | Some (scheme, host, rendered) \<Rightarrow>
                   if host = [] then Inl NotAUrl
                   else if scheme \<noteq> ''https'' then Inl NotHttps
                   else Inr (HttpFetcher rendered tok [])))"

definition describe :: "fetcher \<Rightarrow> (string \<Rightarrow> string) \<Rightarrow> string" where
  "describe f redact_url =
     (case f of
        FileFetcher paths \<Rightarrow> join_with '', '' (filter (\<lambda>p. p \<noteq> []) paths)
      | HttpFetcher u _ _ \<Rightarrow> redact_url u
      | S3Fetcher bucket key \<Rightarrow> ''s3://'' @ bucket @ ''/'' @ key)"

definition is_remote :: "fetcher \<Rightarrow> bool" where
  "is_remote f = (case f of FileFetcher _ \<Rightarrow> False | _ \<Rightarrow> True)"

text \<open>One poll's view of the world. A file is missing (\<open>None\<close>), unreadable or its content.\<close>

datatype http_reply = HttpFailed string | HttpReply nat "string + string" string

record environment =
  env_file :: "string \<Rightarrow> (string + string) option"
  env_http :: "string \<Rightarrow> string \<Rightarrow> string \<Rightarrow> http_reply"
  env_s3 :: "string \<Rightarrow> string \<Rightarrow> string + string"

definition limited_read :: "string + string \<Rightarrow> fetch_error + string" where
  "limited_read r =
     (case r of
        Inl e \<Rightarrow> Inl (ErrFetch e)
      | Inr data \<Rightarrow> if length data > max_size then Inl ErrTooLarge else Inr data)"

fun fetch_files :: "environment \<Rightarrow> string list \<Rightarrow> fetch_error + string" where
  "fetch_files env [] = Inl ErrNotFound"
| "fetch_files env (p # ps) =
     (if p = [] then fetch_files env ps
      else (case env_file env p of None \<Rightarrow> fetch_files env ps | Some r \<Rightarrow> limited_read r))"

definition fetch_http :: "environment \<Rightarrow> string \<Rightarrow> string \<Rightarrow> string \<Rightarrow> (fetch_error + string) \<times> fetcher" where
  "fetch_http env u tok etag =
     (case env_http env u tok etag of
        HttpFailed e \<Rightarrow> (Inl (ErrFetch e), HttpFetcher u tok etag)
      | HttpReply status body etag' \<Rightarrow>
          if status = 304 then (Inl ErrNotModified, HttpFetcher u tok etag)
          else if status \<noteq> 200 then (Inl (ErrStatus status), HttpFetcher u tok etag)
          else (case limited_read body of
                  Inl e \<Rightarrow> (Inl e, HttpFetcher u tok etag)
                | Inr data \<Rightarrow> (Inr data, HttpFetcher u tok etag')))"

definition fetch :: "environment \<Rightarrow> fetcher \<Rightarrow> (fetch_error + string) \<times> fetcher" where
  "fetch env f =
     (case f of
        FileFetcher paths \<Rightarrow> (fetch_files env paths, f)
      | HttpFetcher u tok etag \<Rightarrow> fetch_http env u tok etag
      | S3Fetcher bucket key \<Rightarrow> (limited_read (env_s3 env bucket key), f))"

definition forget_version :: "fetcher \<Rightarrow> fetcher" where
  "forget_version f = (case f of HttpFetcher u tok _ \<Rightarrow> HttpFetcher u tok [] | _ \<Rightarrow> f)"

subsection \<open>The watcher\<close>

datatype 'e watch_error = WatchFetch fetch_error | WatchInvalid 'e

record ('e, 'v) snapshot =
  sn_value :: "'v option"
  sn_digest :: string
  sn_present :: bool
  sn_ready :: bool
  sn_err :: "'e watch_error option"

record ('e, 'v) watcher =
  wt_fetcher :: fetcher
  wt_snap :: "('e, 'v) snapshot"

definition new_watcher :: "fetcher \<Rightarrow> ('e, 'v) watcher" where
  "new_watcher f =
     \<lparr>wt_fetcher = f, wt_snap = \<lparr>sn_value = None, sn_digest = [], sn_present = False, sn_ready = False, sn_err = None\<rparr>\<rparr>"

definition set_err :: "'e watch_error option \<Rightarrow> ('e, 'v) watcher \<Rightarrow> ('e, 'v) watcher" where
  "set_err e w = w\<lparr>wt_snap := (wt_snap w)\<lparr>sn_err := e\<rparr>\<rparr>"

definition apply_document ::
  "(string \<Rightarrow> string) \<Rightarrow> (string \<Rightarrow> 'e + 'v) \<Rightarrow> string \<Rightarrow> bool \<Rightarrow> ('e, 'v) watcher
     \<Rightarrow> bool \<times> 'e watch_error option \<times> ('e, 'v) watcher" where
  "apply_document sha parse data present w =
     (let digest = sha data; cur = wt_snap w
      in if sn_ready cur \<and> sn_digest cur = digest then (False, None, set_err None w)
         else
           let value = (if present then map_sum id Some (parse data) else Inr None)
           in (case value of
                 Inl e \<Rightarrow>
                   (False, Some (WatchInvalid e),
                    set_err (Some (WatchInvalid e)) (w\<lparr>wt_fetcher := forget_version (wt_fetcher w)\<rparr>))
               | Inr v \<Rightarrow>
                   (True, None,
                    w\<lparr>wt_snap := \<lparr>sn_value = v, sn_digest = digest, sn_present = present, sn_ready = True, sn_err = None\<rparr>\<rparr>)))"

definition refresh ::
  "(string \<Rightarrow> string) \<Rightarrow> (string \<Rightarrow> 'e + 'v) \<Rightarrow> environment \<Rightarrow> ('e, 'v) watcher
     \<Rightarrow> bool \<times> 'e watch_error option \<times> ('e, 'v) watcher" where
  "refresh sha parse env w0 =
     (case fetch env (wt_fetcher w0) of
        (r, f) \<Rightarrow>
          let w = w0\<lparr>wt_fetcher := f\<rparr>
          in (case r of
                Inl ErrNotModified \<Rightarrow> (False, None, set_err None w)
              | Inl ErrNotFound \<Rightarrow> apply_document sha parse [] False w
              | Inl e \<Rightarrow> (False, Some (WatchFetch e), set_err (Some (WatchFetch e)) w)
              | Inr data \<Rightarrow> apply_document sha parse data True w))"

text \<open>\<open>Run\<close> with a positive interval: one refresh per tick; the changes it reports, in order.\<close>

fun run_watcher ::
  "(string \<Rightarrow> string) \<Rightarrow> (string \<Rightarrow> 'e + 'v) \<Rightarrow> environment list \<Rightarrow> ('e, 'v) watcher
     \<Rightarrow> ('e, 'v) snapshot list \<times> ('e, 'v) watcher" where
  "run_watcher sha parse [] w = ([], w)"
| "run_watcher sha parse (env # envs) w =
     (case refresh sha parse env w of
        (changed, err, w') \<Rightarrow>
          (case run_watcher sha parse envs w' of
             (snaps, w'') \<Rightarrow> ((if err = None \<and> changed then wt_snap w' # snaps else snaps), w'')))"

subsection \<open>The document a source has\<close>

definition source_document :: "environment \<Rightarrow> fetcher \<Rightarrow> fetch_error + string" where
  "source_document env f = fst (fetch env (forget_version f))"

text \<open>
  What an HTTP source promises: an entity tag names one content for good, so a tag sent with a
  200 reply names its body, and 304 means that the current reply would be 200 with the content
  of the tag asked for.
\<close>

definition http_honest :: "(string \<Rightarrow> string) \<Rightarrow> environment \<Rightarrow> bool" where
  "http_honest content env \<longleftrightarrow>
     (\<forall>u tok etag. case env_http env u tok etag of
        HttpReply status body etag' \<Rightarrow>
          (status = 304 \<longrightarrow> etag \<noteq> [] \<and> env_http env u tok [] = HttpReply 200 (Inr (content etag)) etag) \<and>
          (status = 200 \<longrightarrow> env_http env u tok [] = HttpReply 200 body etag' \<and>
             (\<forall>data. body = Inr data \<longrightarrow> etag' \<noteq> [] \<longrightarrow> content etag' = data))
      | HttpFailed _ \<Rightarrow> True)"

definition source_digest :: "(string \<Rightarrow> string) \<Rightarrow> environment \<Rightarrow> fetcher \<Rightarrow> string option" where
  "source_digest sha env f =
     (case source_document env f of
        Inr data \<Rightarrow> Some (sha data)
      | Inl e \<Rightarrow> if e = ErrNotFound then Some (sha []) else None)"

subsection \<open>What the watcher keeps\<close>

definition loaded_from :: "(string \<Rightarrow> 'e + 'v) \<Rightarrow> ('e, 'v) snapshot \<Rightarrow> string \<Rightarrow> bool" where
  "loaded_from parse snap data \<longleftrightarrow>
     (if sn_present snap then (\<exists>v. sn_value snap = Some v \<and> parse data = Inr v) else data = [] \<and> sn_value snap = None)"

definition etag_ok :: "(string \<Rightarrow> string) \<Rightarrow> (string \<Rightarrow> string) \<Rightarrow> ('e, 'v) snapshot \<Rightarrow> fetcher \<Rightarrow> bool" where
  "etag_ok sha content snap f \<longleftrightarrow>
     (case f of
        HttpFetcher u tok etag \<Rightarrow>
          etag \<noteq> [] \<longrightarrow> sn_ready snap \<and> sn_digest snap = sha (content etag) \<and> length (content etag) \<le> max_size
      | _ \<Rightarrow> True)"

definition watch_inv ::
  "(string \<Rightarrow> string) \<Rightarrow> (string \<Rightarrow> 'e + 'v) \<Rightarrow> (string \<Rightarrow> string) \<Rightarrow> ('e, 'v) watcher \<Rightarrow> bool" where
  "watch_inv sha parse content w \<longleftrightarrow>
     (sn_ready (wt_snap w) \<longrightarrow> (\<exists>data. sn_digest (wt_snap w) = sha data \<and> loaded_from parse (wt_snap w) data)) \<and>
     etag_ok sha content (wt_snap w) (wt_fetcher w)"

text \<open>The fetcher after a fetch: unchanged, or holding the tag of the document just read.\<close>

definition tag_of_data :: "(string \<Rightarrow> string) \<Rightarrow> fetcher \<Rightarrow> string \<Rightarrow> bool" where
  "tag_of_data content f data \<longleftrightarrow>
     (case f of HttpFetcher u tok etag \<Rightarrow> etag \<noteq> [] \<longrightarrow> content etag = data \<and> length data \<le> max_size | _ \<Rightarrow> True)"

lemma limited_read_bound: "limited_read r = Inr data \<Longrightarrow> length data \<le> max_size"
  by (auto simp: limited_read_def split: sum.splits if_splits)

lemma fetch_cases:
  assumes "http_honest content env" "fetch env f = (r, f')"
  shows "(\<exists>data. r = Inr data \<and> source_document env f = Inr data \<and> tag_of_data content f' data) \<or>
     (r = Inl ErrNotModified \<and> f' = f \<and>
        (\<exists>u tok etag. f = HttpFetcher u tok etag \<and> etag \<noteq> [] \<and>
           source_document env f = limited_read (Inr (content etag)))) \<or>
     (\<exists>e. r = Inl e \<and> e \<noteq> ErrNotModified \<and> f' = f \<and> (e = ErrNotFound \<longrightarrow> source_document env f = Inl ErrNotFound))"
proof (cases f)
  case (HttpFetcher u tok etag)
  have honest: "case env_http env u tok etag of
        HttpReply status body etag' \<Rightarrow>
          (status = 304 \<longrightarrow> etag \<noteq> [] \<and> env_http env u tok [] = HttpReply 200 (Inr (content etag)) etag) \<and>
          (status = 200 \<longrightarrow> env_http env u tok [] = HttpReply 200 body etag' \<and>
             (\<forall>data. body = Inr data \<longrightarrow> etag' \<noteq> [] \<longrightarrow> content etag' = data))
      | HttpFailed _ \<Rightarrow> True"
    using assms(1) unfolding http_honest_def by blast
  show ?thesis
  proof (cases "env_http env u tok etag")
    case (HttpFailed e)
    then show ?thesis using assms(2) by (auto simp: HttpFetcher fetch_def fetch_http_def)
  next
    case (HttpReply status body etag')
    consider (Not) "status = 304" | (Ok) "status = 200" | (Other) "status \<noteq> 304" "status \<noteq> 200" by blast
    then show ?thesis
    proof cases
      case Not
      with honest HttpReply assms(2) show ?thesis
        by (auto simp: HttpFetcher fetch_def fetch_http_def source_document_def forget_version_def split: sum.split)
    next
      case Other
      with HttpReply assms(2) show ?thesis by (auto simp: HttpFetcher fetch_def fetch_http_def)
    next
      case Ok
      show ?thesis
      proof (cases "limited_read body")
        case (Inl e)
        then have "e \<noteq> ErrNotModified" "e \<noteq> ErrNotFound"
          by (auto simp: limited_read_def split: sum.splits if_splits)
        moreover have "r = Inl e" "f' = f"
          using Inl Ok HttpReply assms(2) by (simp_all add: HttpFetcher fetch_def fetch_http_def)
        ultimately show ?thesis by blast
      next
        case (Inr data)
        then have body: "body = Inr data" by (auto simp: limited_read_def split: sum.splits if_splits)
        have honest: "env_http env u tok [] = HttpReply 200 body etag'" "etag' \<noteq> [] \<longrightarrow> content etag' = data"
          using honest HttpReply Ok body by simp_all
        have "r = Inr data" "f' = HttpFetcher u tok etag'"
          using Inr Ok HttpReply assms(2) by (simp_all add: HttpFetcher fetch_def fetch_http_def)
        moreover have "source_document env f = Inr data"
          using honest(1) Inr by (simp add: HttpFetcher source_document_def forget_version_def fetch_def fetch_http_def)
        moreover have "tag_of_data content (HttpFetcher u tok etag') data"
          using honest(2) limited_read_bound [OF Inr] by (simp add: tag_of_data_def)
        ultimately show ?thesis by blast
      qed
    qed
  qed
next
  case (FileFetcher paths)
  have "fetch_files env ps \<noteq> Inl ErrNotModified" for ps
    by (induction ps) (auto simp: limited_read_def split: option.split sum.split)
  then show ?thesis
    using assms(2) by (cases r) (auto simp: FileFetcher fetch_def source_document_def forget_version_def tag_of_data_def)
next
  case (S3Fetcher bucket key)
  have "limited_read x \<noteq> Inl ErrNotModified" "limited_read x \<noteq> Inl ErrNotFound" for x
    by (auto simp: limited_read_def split: sum.split)
  then show ?thesis
    using assms(2) by (cases r) (auto simp: S3Fetcher fetch_def source_document_def forget_version_def tag_of_data_def)
qed

lemma apply_document_spec:
  assumes "etag_ok sha content (wt_snap w) f" "tag_of_data content (wt_fetcher w) data" "\<not> present \<longrightarrow> data = []"
    and "sn_ready (wt_snap w) \<longrightarrow> (\<exists>d. sn_digest (wt_snap w) = sha d \<and> loaded_from parse (wt_snap w) d)"
    and "apply_document sha parse data present w = (changed, err, w')"
  shows "watch_inv sha parse content w'"
    and "err = None \<Longrightarrow> sn_ready (wt_snap w') \<and> sn_err (wt_snap w') = None \<and> sn_digest (wt_snap w') = sha data"
    and "err \<noteq> None \<Longrightarrow> \<not> changed \<and> present \<and> wt_snap w' = (wt_snap w)\<lparr>sn_err := err\<rparr> \<and> (\<exists>e. parse data = Inl e \<and> err = Some (WatchInvalid e))"
    and "changed \<longleftrightarrow> err = None \<and> \<not> (sn_ready (wt_snap w) \<and> sn_digest (wt_snap w) = sha data)"
proof -
  consider (Same) "sn_ready (wt_snap w)" "sn_digest (wt_snap w) = sha data" "changed = False" "err = None" "w' = set_err None w"
    | (Bad) e where "\<not> (sn_ready (wt_snap w) \<and> sn_digest (wt_snap w) = sha data)" "present" "parse data = Inl e"
        "changed = False" "err = Some (WatchInvalid e)"
        "w' = set_err (Some (WatchInvalid e)) (w\<lparr>wt_fetcher := forget_version (wt_fetcher w)\<rparr>)"
    | (New) v where "\<not> (sn_ready (wt_snap w) \<and> sn_digest (wt_snap w) = sha data)"
        "if present then (\<exists>x. v = Some x \<and> parse data = Inr x) else v = None" "changed = True" "err = None"
        "w' = w\<lparr>wt_snap := \<lparr>sn_value = v, sn_digest = sha data, sn_present = present, sn_ready = True, sn_err = None\<rparr>\<rparr>"
    using assms(5) by (cases "parse data") (auto simp: apply_document_def Let_def split: if_splits)
  note cases3 = this
  have tag: "etag_ok sha content (snap :: ('c, 'd) snapshot) (wt_fetcher w)"
    if "sn_ready snap" "sn_digest snap = sha data" for snap
    using assms(2) that by (auto simp: etag_ok_def tag_of_data_def split: fetcher.splits)
  show "watch_inv sha parse content w'"
    using cases3
  proof cases
    case Same
    then show ?thesis
      using assms(4) tag [of "(wt_snap w)\<lparr>sn_err := None\<rparr>"] by (auto simp: watch_inv_def set_err_def loaded_from_def)
  next
    case (Bad e)
    then show ?thesis
      using assms(4) by (auto simp: watch_inv_def set_err_def loaded_from_def etag_ok_def forget_version_def split: fetcher.splits)
  next
    case (New v)
    then show ?thesis
      using assms(3) tag [of "\<lparr>sn_value = v, sn_digest = sha data, sn_present = present, sn_ready = True, sn_err = None\<rparr>"]
      by (auto simp: watch_inv_def loaded_from_def split: if_splits)
  qed
  show "err = None \<Longrightarrow> sn_ready (wt_snap w') \<and> sn_err (wt_snap w') = None \<and> sn_digest (wt_snap w') = sha data"
    "err \<noteq> None \<Longrightarrow> \<not> changed \<and> present \<and> wt_snap w' = (wt_snap w)\<lparr>sn_err := err\<rparr> \<and> (\<exists>e. parse data = Inl e \<and> err = Some (WatchInvalid e))"
    "changed \<longleftrightarrow> err = None \<and> \<not> (sn_ready (wt_snap w) \<and> sn_digest (wt_snap w) = sha data)"
    using cases3 by (cases; auto simp: set_err_def)+
qed

lemma refresh_spec:
  assumes "watch_inv sha parse content w" "http_honest content env" "refresh sha parse env w = (changed, err, w')"
  shows "watch_inv sha parse content w' \<and>
    (err = None \<longrightarrow> sn_ready (wt_snap w') \<and> sn_err (wt_snap w') = None \<and>
       source_digest sha env (wt_fetcher w) = Some (sn_digest (wt_snap w'))) \<and>
    (err \<noteq> None \<longrightarrow> wt_snap w' = (wt_snap w)\<lparr>sn_err := err\<rparr>) \<and>
    (changed \<longleftrightarrow> err = None \<and> \<not> (sn_ready (wt_snap w) \<and> sn_digest (wt_snap w) = sn_digest (wt_snap w')))"
proof -
  obtain r f' where f': "fetch env (wt_fetcher w) = (r, f')" by fastforce
  have inv: "sn_ready (wt_snap w) \<longrightarrow> (\<exists>d. sn_digest (wt_snap w) = sha d \<and> loaded_from parse (wt_snap w) d)"
      "etag_ok sha content (wt_snap w) (wt_fetcher w)"
    using assms(1) by (simp_all add: watch_inv_def)
  consider (Data) data where "r = Inr data" "source_document env (wt_fetcher w) = Inr data" "tag_of_data content f' data"
    | (Same) u tok etag where "r = Inl ErrNotModified" "f' = wt_fetcher w" "wt_fetcher w = HttpFetcher u tok etag" "etag \<noteq> []"
        "source_document env (wt_fetcher w) = limited_read (Inr (content etag))"
    | (Missing) "r = Inl ErrNotFound" "f' = wt_fetcher w" "source_document env (wt_fetcher w) = Inl ErrNotFound"
    | (Error) e where "r = Inl e" "e \<noteq> ErrNotModified" "e \<noteq> ErrNotFound" "f' = wt_fetcher w"
    using fetch_cases [OF assms(2) f'] by blast
  then show ?thesis
  proof cases
    case (Data data)
    have ref: "apply_document sha parse data True (w\<lparr>wt_fetcher := f'\<rparr>) = (changed, err, w')"
      using assms(3) Data(1) by (simp add: refresh_def f' Let_def)
    have spec: "watch_inv sha parse content w'"
      "err = None \<Longrightarrow> sn_ready (wt_snap w') \<and> sn_err (wt_snap w') = None \<and> sn_digest (wt_snap w') = sha data"
      "err \<noteq> None \<Longrightarrow> wt_snap w' = (wt_snap w)\<lparr>sn_err := err\<rparr>"
      "changed \<longleftrightarrow> err = None \<and> \<not> (sn_ready (wt_snap w) \<and> sn_digest (wt_snap w) = sha data)"
      using apply_document_spec [OF _ _ _ _ ref, of content "wt_fetcher w"] inv Data(3) by auto
    then show ?thesis
      using Data(2) by (auto simp: source_digest_def)
  next
    case Missing
    have ref: "apply_document sha parse [] False w = (changed, err, w')"
      using assms(3) Missing(1,2) by (simp add: refresh_def f' Let_def)
    have "wt_fetcher w = HttpFetcher u tok etag \<Longrightarrow> fst (fetch env (HttpFetcher u tok [])) \<noteq> Inl ErrNotFound" for u tok etag
      by (auto simp: fetch_def fetch_http_def limited_read_def split: http_reply.splits sum.splits if_splits)
    then have tag: "tag_of_data content (wt_fetcher w) []"
      using Missing(3) by (cases "wt_fetcher w") (auto simp: tag_of_data_def source_document_def forget_version_def)
    have spec: "watch_inv sha parse content w'"
      "err = None \<Longrightarrow> sn_ready (wt_snap w') \<and> sn_err (wt_snap w') = None \<and> sn_digest (wt_snap w') = sha []"
      "err = None"
      "changed \<longleftrightarrow> err = None \<and> \<not> (sn_ready (wt_snap w) \<and> sn_digest (wt_snap w) = sha [])"
      using apply_document_spec [OF inv(2) tag _ inv(1) ref] by auto
    then show ?thesis
      using Missing(3) by (auto simp: source_digest_def)
  next
    case (Same u tok etag)
    then have ready: "sn_ready (wt_snap w)" "sn_digest (wt_snap w) = sha (content etag)" "length (content etag) \<le> max_size"
      using inv(2) by (auto simp: etag_ok_def)
    have ref: "changed = False" "err = None" "w' = set_err None w"
      using assms(3) Same(1,2) by (auto simp: refresh_def f' Let_def)
    have "source_document env (wt_fetcher w) = Inr (content etag)"
      using Same(5) ready(3) by (simp add: limited_read_def)
    with ready ref inv show ?thesis
      by (auto simp: source_digest_def set_err_def watch_inv_def loaded_from_def etag_ok_def split: fetcher.splits)
  next
    case (Error e)
    have ref: "changed = False" "err = Some (WatchFetch e)" "w' = set_err (Some (WatchFetch e)) w"
      using assms(3) Error by (cases e; auto simp: refresh_def f' Let_def)+
    with inv show ?thesis
      by (auto simp: set_err_def watch_inv_def loaded_from_def etag_ok_def split: fetcher.splits)
  qed
qed

lemma fetch_forget: "fetch env f = (r, f') \<Longrightarrow> forget_version f' = forget_version f"
  by (cases f) (auto simp: fetch_def fetch_http_def forget_version_def split: http_reply.splits if_splits sum.splits)

lemma refresh_forget:
  assumes "refresh sha parse env w = (changed, err, w')"
  shows "forget_version (wt_fetcher w') = forget_version (wt_fetcher w)"
proof -
  obtain r f' where f': "fetch env (wt_fetcher w) = (r, f')" by fastforce
  have "forget_version (forget_version f) = forget_version f" for f
    by (simp add: forget_version_def split: fetcher.split)
  then have "apply_document sha parse data present v = (changed, err, w') \<Longrightarrow>
      forget_version (wt_fetcher w') = forget_version (wt_fetcher v)" for data present v
    by (auto simp: apply_document_def Let_def set_err_def split: if_splits sum.splits)
  with assms f' fetch_forget [OF f'] show ?thesis
    by (auto simp: refresh_def Let_def set_err_def split: sum.splits fetch_error.splits)
qed

lemma run_watcher_inv:
  "watch_inv sha parse content w \<Longrightarrow> (\<forall>env \<in> set envs. http_honest content env) \<Longrightarrow>
     watch_inv sha parse content (snd (run_watcher sha parse envs w)) \<and>
     forget_version (wt_fetcher (snd (run_watcher sha parse envs w))) = forget_version (wt_fetcher w)"
proof (induction envs arbitrary: w)
  case (Cons env envs)
  obtain changed err w' where r: "refresh sha parse env w = (changed, err, w')" using prod_cases3 by blast
  have "watch_inv sha parse content w'"
    using refresh_spec [OF Cons.prems(1) _ r] Cons.prems(2) by simp
  moreover obtain snaps w'' where "run_watcher sha parse envs w' = (snaps, w'')" by fastforce
  ultimately show ?case
    using Cons.IH [of w'] Cons.prems(2) refresh_forget [OF r] by (simp add: r)
qed simp

text \<open>
  A quirk the digest brings with it: once the absence of a document is current, an empty document is
  taken for the same and never reaches the parser, so it is neither reported as invalid nor present.
\<close>

lemma empty_document_as_missing:
  assumes "env_file env ''rules.json'' = Some (Inr [])" "sn_ready snap" "sn_digest snap = sha []" "\<not> sn_present snap"
    and "parse [] = Inl e"
  shows "refresh sha parse env \<lparr>wt_fetcher = FileFetcher [''rules.json''], wt_snap = snap\<rparr> =
    (False, None, \<lparr>wt_fetcher = FileFetcher [''rules.json''], wt_snap = snap\<lparr>sn_err := None\<rparr>\<rparr>)"
  using assms by (simp add: refresh_def fetch_def limited_read_def apply_document_def set_err_def)

subsection \<open>Properties\<close>

text \<open>
  C38: A refresh that reports no error leaves the watcher on the document the source has now: the
  digest is that of the current document (of an empty one when a file source has none), the value is
  what the parser made of a document with that digest, and a change is reported exactly when the
  digest moved or nothing was loaded before. A refresh that fails, for whatever reason, keeps value,
  digest and presence and only records the error. This holds after any history of polls, answers
  304 included, as long as an entity tag names one content.
\<close>

theorem watcher_follows_source:
  assumes "new_fetcher url_parse source paths tok has_s3 = Inr f"
    and "\<forall>env' \<in> set (env # envs). http_honest content env'"
    and "snd (run_watcher sha parse envs (new_watcher f)) = w" "refresh sha parse env w = (changed, err, w')"
  shows "(err = None \<longrightarrow> source_digest sha env f = Some (sn_digest (wt_snap w')) \<and> sn_ready (wt_snap w') \<and>
      sn_err (wt_snap w') = None \<and>
      (\<exists>data. sha data = sn_digest (wt_snap w') \<and> loaded_from parse (wt_snap w') data)) \<and>
    (err \<noteq> None \<longrightarrow> wt_snap w' = (wt_snap w)\<lparr>sn_err := err\<rparr>) \<and>
    (changed \<longleftrightarrow> err = None \<and> \<not> (sn_ready (wt_snap w) \<and> sn_digest (wt_snap w) = sn_digest (wt_snap w')))"
proof -
  have f: "forget_version f = f"
    using assms(1) by (auto simp: new_fetcher_def forget_version_def Let_def split: if_splits option.splits)
  have "watch_inv sha parse content (new_watcher f)"
    using f by (auto simp: watch_inv_def new_watcher_def etag_ok_def forget_version_def split: fetcher.splits)
  then have w: "watch_inv sha parse content w" "forget_version (wt_fetcher w) = f"
    using run_watcher_inv [where w = "new_watcher f" and envs = envs and sha = sha and parse = parse and content = content] assms(2,3) f by (auto simp: new_watcher_def)
  have "source_digest sha env (wt_fetcher w) = source_digest sha env f"
    using w(2) f by (simp add: source_digest_def source_document_def)
  moreover have "\<exists>data. sha data = sn_digest (wt_snap w') \<and> loaded_from parse (wt_snap w') data"
    if "sn_ready (wt_snap w')" "watch_inv sha parse content w'"
    using that by (auto simp: watch_inv_def)
  ultimately show ?thesis
    using refresh_spec [OF w(1) _ assms(4)] assms(2) by auto
qed

definition sample_env :: "string \<Rightarrow> environment" where
  "sample_env doc =
     \<lparr>env_file = (\<lambda>_. None),
      env_http = (\<lambda>_ _ etag. if etag = doc \<and> doc \<noteq> [] then HttpReply 304 (Inr []) [] else HttpReply 200 (Inr doc) doc),
      env_s3 = (\<lambda>_ _. Inl [])\<rparr>"

definition sample_parse :: "string \<Rightarrow> unit + string" where
  "sample_parse d = (if d = ''bad'' then Inl () else Inr d)"

definition sample_snapshot :: "unit watch_error option \<Rightarrow> (unit, string) snapshot" where
  "sample_snapshot e = \<lparr>sn_value = Some ''a'', sn_digest = ''a'', sn_present = True, sn_ready = True, sn_err = e\<rparr>"

lemma sample_polls:
  "refresh id sample_parse (sample_env ''a'') (new_watcher (HttpFetcher u tok [])) =
     (True, None, \<lparr>wt_fetcher = HttpFetcher u tok ''a'', wt_snap = sample_snapshot None\<rparr>)"
  "refresh id sample_parse (sample_env ''bad'') \<lparr>wt_fetcher = HttpFetcher u tok ''a'', wt_snap = sample_snapshot None\<rparr> =
     (False, Some (WatchInvalid ()), \<lparr>wt_fetcher = HttpFetcher u tok [], wt_snap = sample_snapshot (Some (WatchInvalid ()))\<rparr>)"
  "refresh id sample_parse (sample_env ''a'') \<lparr>wt_fetcher = HttpFetcher u tok [], wt_snap = sample_snapshot e\<rparr> =
     (False, None, \<lparr>wt_fetcher = HttpFetcher u tok ''a'', wt_snap = sample_snapshot None\<rparr>)"
  by (simp_all add: refresh_def fetch_def fetch_http_def sample_env_def limited_read_def max_size_def sample_parse_def
      apply_document_def Let_def new_watcher_def set_err_def forget_version_def sample_snapshot_def)

theorem watcher_follows_source_witness:
  "\<exists>w'. refresh id sample_parse (sample_env ''a'')
      (snd (run_watcher id sample_parse [sample_env ''a'', sample_env ''bad''] (new_watcher (HttpFetcher ''https://x/r'' [] [])))) =
      (False, None, w') \<and> sn_digest (wt_snap w') = ''a''"
proof -
  let ?f = "HttpFetcher ''https://x/r'' [] []"
  let ?w = "\<lparr>wt_fetcher = ?f, wt_snap = sample_snapshot (Some (WatchInvalid ()))\<rparr>"
  have new: "new_fetcher (\<lambda>u. Some (''https'', ''x'', u)) ''https://x/r'' [] [] False = Inr ?f"
    by code_simp
  have honest: "\<forall>env \<in> set (sample_env ''a'' # [sample_env ''a'', sample_env ''bad'']). http_honest id env"
    by (auto simp: http_honest_def sample_env_def)
  have digest: "source_digest id (sample_env ''a'') ?f = Some ''a''"
    by (simp add: source_digest_def source_document_def forget_version_def fetch_def fetch_http_def sample_env_def
        limited_read_def max_size_def)
  have run: "snd (run_watcher id sample_parse [sample_env ''a'', sample_env ''bad''] (new_watcher ?f)) = ?w"
    by (simp add: sample_polls)
  have "source_digest id (sample_env ''a'') ?f = Some (sn_digest (sample_snapshot None))"
    using watcher_follows_source [OF new honest run sample_polls(3)] by simp
  with digest have "sn_digest (sample_snapshot None) = ''a''" by simp
  then show ?thesis
    unfolding run sample_polls(3) by simp
qed

end
