(* ===== verification/License_Recheck.thy ===== *)
theory License_Recheck
  imports License_Check Job_Queue Rule_Watch
begin

text \<open>
  Re-applying changed license exceptions to stored results,
  \<open>backend/cmd/parsing-worker/license_recheck.go\<close>, with \<open>LatestLicenseRecheck\<close> of
  \<open>backend/internal/clickhouse/queries_license_recheck.go\<close>. The compliance table is the log of the rows
  inserted, each with the document name of its SBOM. \<open>new_id\<close> is \<open>uuid.NewSHA1\<close> in the recheck name
  space, \<open>show_id\<close> the text of a job id.
\<close>

subsection \<open>Queueing a recheck\<close>

definition job_type_license_recheck :: string where
  "job_type_license_recheck = ''license_recheck''"

record recheck_state =
  rs_job_id :: nat
  rs_digest :: string
  rs_status :: job_status
  rs_updated_at :: int

definition recheck_batch_size :: nat where "recheck_batch_size = 10000"
definition config_map_propagation :: int where "config_map_propagation = 90000"
definition recheck_stale_after :: int where "recheck_stale_after = 3600000"

definition recheck_delay :: "int \<Rightarrow> bool \<Rightarrow> int" where
  "recheck_delay interval remote = (let d = 2 * interval in if \<not> remote then d + config_map_propagation else d)"

definition recheck_poll_interval :: "int \<Rightarrow> int" where
  "recheck_poll_interval refresh_ms = (if refresh_ms \<le> 0 then 60000 else refresh_ms)"

definition short_digest :: "string \<Rightarrow> string" where
  "short_digest d = (if length d > 12 then take 12 d else d)"

definition min_created :: "queue_row list \<Rightarrow> nat \<Rightarrow> int" where
  "min_created rows jid = Min (qr_created_at ` set (rows_of rows jid))"

text \<open>\<open>ORDER BY min(created_at) DESC, job_id DESC LIMIT 1\<close>.\<close>

definition later_job :: "queue_row list \<Rightarrow> nat \<Rightarrow> nat \<Rightarrow> nat" where
  "later_job rows a b =
     (if min_created rows a < min_created rows b \<or> min_created rows a = min_created rows b \<and> a < b then b else a)"

definition latest_license_recheck :: "queue_row list \<Rightarrow> recheck_state option" where
  "latest_license_recheck rows0 =
     (let rows = filter (\<lambda>r. pl_job_type (qr_payload r) = job_type_license_recheck) rows0
      in case job_ids rows of
           [] \<Rightarrow> None
         | jid # jids \<Rightarrow>
             map_option (\<lambda>r. \<lparr>rs_job_id = qr_job_id r, rs_digest = pl_sha256_hash (qr_payload r),
                             rs_status = qr_status r, rs_updated_at = qr_created_at r\<rparr>)
               (latest rows (foldl (later_job rows) jid jids)))"

definition recheck_needs_retry :: "recheck_state \<Rightarrow> int \<Rightarrow> bool" where
  "recheck_needs_retry st now =
     (case rs_status st of
        StatusFailed \<Rightarrow> True
      | StatusProcessing \<Rightarrow> now - rs_updated_at st > recheck_stale_after
      | _ \<Rightarrow> False)"

definition recheck_job :: "(string \<Rightarrow> nat) \<Rightarrow> string \<Rightarrow> string \<Rightarrow> int \<Rightarrow> int \<Rightarrow> ingestion_job" where
  "recheck_job new_id prev digest delay now =
     \<lparr>jb_created_at = now, jb_job_id = new_id (prev @ ''|'' @ digest),
      jb_payload = \<lparr>pl_source_file = ''license-exceptions@'' @ short_digest digest, pl_sha256_hash = digest,
        pl_job_type = job_type_license_recheck, pl_cluster = [], pl_namespace = [], pl_project = [],
        pl_source_repo = [], pl_source_ref = [], pl_target_sbom_id = [], pl_tags = [], pl_parent = []\<rparr>,
      jb_status = None, jb_claimed_by = [], jb_claimed_at = None, jb_retry_after = now + delay, jb_version = 0\<rparr>"

definition ensure_license_recheck ::
  "(string \<Rightarrow> nat) \<Rightarrow> (nat \<Rightarrow> string) \<Rightarrow> string \<Rightarrow> int \<Rightarrow> int \<Rightarrow> queue_row list \<Rightarrow> queue_row list" where
  "ensure_license_recheck new_id show_id digest delay now rows =
     (case latest_license_recheck rows of
        None \<Rightarrow> enqueue_jobs [recheck_job new_id [] digest delay now] rows
      | Some st \<Rightarrow>
          if rs_digest st = digest \<and> \<not> recheck_needs_retry st now then rows
          else enqueue_jobs [recheck_job new_id (show_id (rs_job_id st)) digest delay now] rows)"

subsection \<open>Re-applying the rules\<close>

record stored_compliance =
  sc_sbom_id :: nat
  sc_result :: check_result
  sc_document_name :: string
  sc_checked_at :: int

definition row_key :: "stored_compliance \<Rightarrow> nat \<times> string" where
  "row_key row = (sc_sbom_id row, cr_license_id (sc_result row))"

definition recheck_row :: "int \<Rightarrow> exception_index option \<Rightarrow> stored_compliance \<Rightarrow> stored_compliance option" where
  "recheck_row now exceptions row =
     (let stored = sc_result row; next_result = reevaluate stored exceptions (sc_document_name row)
      in if same_outcome stored next_result then None
         else Some (row\<lparr>sc_checked_at := now,
                       sc_result := stored\<lparr>cr_non_compliant := cr_non_compliant next_result,
                                           cr_exempted := cr_exempted next_result,
                                           cr_exemption_reason := cr_exemption_reason next_result\<rparr>\<rparr>))"

definition changed_rows :: "int \<Rightarrow> exception_index option \<Rightarrow> stored_compliance list \<Rightarrow> stored_compliance list" where
  "changed_rows now exceptions table = List.map_filter (recheck_row now exceptions) table"

function batches :: "'a list \<Rightarrow> 'a list list" where
  "batches [] = []"
| "batches (x # xs) = take recheck_batch_size (x # xs) # batches (drop recheck_batch_size (x # xs))"
  by pat_completeness auto
termination batches by (relation "measure length") (auto simp: recheck_batch_size_def)

text \<open>
  \<open>license_compliance\<close> is a \<open>ReplacingMergeTree(checked_at)\<close>: of the rows of a key \<open>FINAL\<close> keeps the one
  with the greatest \<open>checked_at\<close>, among equal ones the last inserted. \<open>checked_at\<close> is in seconds.
\<close>

fun newest_check :: "stored_compliance list \<Rightarrow> stored_compliance option" where
  "newest_check [] = None"
| "newest_check (r # rs) =
     (case newest_check rs of
        None \<Rightarrow> Some r
      | Some r' \<Rightarrow> if sc_checked_at r \<le> sc_checked_at r' then Some r' else Some r)"

definition compliance_keys :: "stored_compliance list \<Rightarrow> (nat \<times> string) list" where
  "compliance_keys log = rev (remdups (rev (map row_key log)))"

definition current_compliance :: "stored_compliance list \<Rightarrow> stored_compliance list" where
  "current_compliance log = List.map_filter (\<lambda>k. newest_check (filter (\<lambda>r. row_key r = k) log)) (compliance_keys log)"

text \<open>\<open>InsertLicenseCompliance\<close> dates the rows by its own clock, whatever date they carry.\<close>

definition stamp :: "int \<Rightarrow> stored_compliance \<Rightarrow> stored_compliance" where
  "stamp at row = row\<lparr>sc_checked_at := at\<rparr>"

definition insert_compliance :: "int \<Rightarrow> stored_compliance list \<Rightarrow> stored_compliance list \<Rightarrow> stored_compliance list" where
  "insert_compliance at new log = log @ map (stamp at) new"

fun insert_batches :: "(nat \<Rightarrow> int) \<Rightarrow> nat \<Rightarrow> stored_compliance list list \<Rightarrow> stored_compliance list \<Rightarrow> stored_compliance list" where
  "insert_batches at k [] log = log"
| "insert_batches at k (b # bs) log = insert_batches at (Suc k) bs (insert_compliance (at k) b log)"

text \<open>
  The run; \<open>at\<close> is the clock of each insert, \<open>accepted\<close> tells how many inserts the database takes
  before it fails (\<open>None\<close>: all).
\<close>

definition process_license_recheck_job ::
  "int \<Rightarrow> (nat \<Rightarrow> int) \<Rightarrow> exception_index option \<Rightarrow> nat option \<Rightarrow> stored_compliance list \<Rightarrow> bool \<times> stored_compliance list" where
  "process_license_recheck_job now at exceptions accepted log =
     (let bs = batches (changed_rows now exceptions (current_compliance log));
          done = (case accepted of None \<Rightarrow> bs | Some k \<Rightarrow> take k bs)
      in (length done = length bs, insert_batches at 0 done log))"

datatype recheck_outcome = RecheckDone | RecheckSuperseded | RecheckDeferred int | RecheckFailed

definition run_license_recheck_job ::
  "(unit, exception_index) snapshot \<Rightarrow> int \<Rightarrow> (nat \<Rightarrow> int) \<Rightarrow> int \<Rightarrow> bool \<Rightarrow> nat option \<Rightarrow> queue_row list \<Rightarrow> ingestion_job
     \<Rightarrow> stored_compliance list \<Rightarrow> recheck_outcome \<times> stored_compliance list" where
  "run_license_recheck_job rules now at retry shutdown accepted rows job table =
     (if sn_digest rules \<noteq> pl_sha256_hash (jb_payload job)
      then (case latest_license_recheck rows of
              Some st \<Rightarrow> if rs_job_id st \<noteq> jb_job_id job then (RecheckSuperseded, table) else (RecheckDeferred (now + retry), table)
            | None \<Rightarrow> (RecheckDeferred (now + retry), table))
      else (case process_license_recheck_job now at (sn_value rules) accepted table of
              (ok, table') \<Rightarrow>
                if ok then (RecheckDone, table')
                else if shutdown then (RecheckDeferred now, table')
                else (RecheckFailed, table')))"

subsection \<open>The effect on one row\<close>

definition rechecked :: "int \<Rightarrow> exception_index option \<Rightarrow> stored_compliance \<Rightarrow> stored_compliance" where
  "rechecked now exceptions row = (case recheck_row now exceptions row of None \<Rightarrow> row | Some m \<Rightarrow> m)"

lemma recheck_row_key: "recheck_row now exceptions row = Some m \<Longrightarrow> row_key m = row_key row"
  by (auto simp: recheck_row_def row_key_def Let_def split: if_splits)

lemma same_outcome_refl [simp]: "same_outcome a a"
  by (simp add: same_outcome_def same_multiset_iff)

lemma same_outcome_trans: "same_outcome a b \<Longrightarrow> same_outcome b c \<Longrightarrow> same_outcome a c"
  by (simp add: same_outcome_def same_multiset_iff)

lemma same_outcome_sym: "same_outcome a b \<Longrightarrow> same_outcome b a"
  by (simp add: same_outcome_def same_multiset_iff)

lemma rechecked_outcome:
  "same_outcome (sc_result (rechecked now ex row)) (reevaluate (sc_result row) ex (sc_document_name row)) \<and>
   cr_license_id (sc_result (rechecked now ex row)) = cr_license_id (sc_result row) \<and>
   cr_category (sc_result (rechecked now ex row)) = cr_category (sc_result row) \<and>
   cr_package_count (sc_result (rechecked now ex row)) = cr_package_count (sc_result row) \<and>
   sc_document_name (rechecked now ex row) = sc_document_name row"
  by (simp add: rechecked_def recheck_row_def Let_def) (simp add: same_outcome_def same_multiset_iff)

text \<open>Re-evaluating depends on the packages of a result, not on how they were split before.\<close>

lemma reevaluate_cong:
  assumes "cr_license_id a = cr_license_id b" "cr_category a = cr_category b"
    and "mset (cr_non_compliant a) + mset (cr_exempted a) = mset (cr_non_compliant b) + mset (cr_exempted b)"
  shows "same_outcome (reevaluate a ex project) (reevaluate b ex project)"
proof -
  have "mset (filter P (cr_non_compliant a @ cr_exempted a)) = mset (filter P (cr_non_compliant b @ cr_exempted b))" for P
    using assms(3) by (metis mset_append mset_filter)
  then show ?thesis
    using assms by (simp add: same_outcome_def same_multiset_iff reevaluate_fields del: filter_append)
qed

lemma reevaluate_idem: "same_outcome (reevaluate (reevaluate a ex project) ex project) (reevaluate a ex project)"
proof (cases "fst (is_exempt ex [] (cr_license_id a) []) \<or> cr_category a = Permissive")
  case True
  then show ?thesis by (auto simp: same_outcome_def same_multiset_iff reevaluate_result)
next
  case False
  then show ?thesis
    by (auto simp: same_outcome_def same_multiset_iff reevaluate_result)
qed

lemma rechecked_stable: "recheck_row now' ex (rechecked now ex row) = None"
proof -
  let ?new = "rechecked now ex row" and ?doc = "sc_document_name row"
  let ?re = "reevaluate (sc_result row) ex ?doc"
  have out: "same_outcome (sc_result ?new) ?re" using rechecked_outcome by blast
  have "same_outcome (reevaluate (sc_result ?new) ex ?doc) (reevaluate ?re ex ?doc)"
    using out rechecked_outcome [of now ex row]
    by (intro reevaluate_cong) (auto simp: same_outcome_def same_multiset_iff reevaluate_result)
  then have "same_outcome (sc_result ?new) (reevaluate (sc_result ?new) ex ?doc)"
    using out reevaluate_idem same_outcome_sym same_outcome_trans by blast
  then show ?thesis
    using rechecked_outcome [of now ex row] by (simp add: recheck_row_def Let_def)
qed

subsection \<open>The effect on the table\<close>

lemma concat_batches [simp]: "concat (batches xs) = xs"
  by (induction xs rule: batches.induct) simp_all

lemma rechecked_key [simp]: "row_key (rechecked now ex row) = row_key row"
  by (auto simp: rechecked_def dest: recheck_row_key split: option.split)

lemma set_changed_rows: "m \<in> set (changed_rows now ex table) \<longleftrightarrow> (\<exists>row \<in> set table. recheck_row now ex row = Some m)"
  by (auto simp: changed_rows_def List.map_filter_def) force

lemma newest_check_None [simp]: "newest_check rs = None \<longleftrightarrow> rs = []"
  by (cases rs) (auto split: option.splits)

lemma newest_check_in: "newest_check rs = Some r \<Longrightarrow> r \<in> set rs"
  by (induction rs arbitrary: r) (auto split: option.splits if_splits)

lemma newest_check_snoc: "\<forall>r \<in> set rs. sc_checked_at r \<le> sc_checked_at m \<Longrightarrow> newest_check (rs @ [m]) = Some m"
  by (induction rs) auto

lemma set_compliance_keys [simp]: "set (compliance_keys log) = row_key ` set log"
  by (simp add: compliance_keys_def)

lemma remdups_known: "set ys \<subseteq> set xs \<Longrightarrow> remdups (ys @ xs) = remdups xs"
  by (induction ys) auto

lemma compliance_keys_known: "row_key ` set new \<subseteq> row_key ` set log \<Longrightarrow> compliance_keys (log @ new) = compliance_keys log"
  by (simp add: compliance_keys_def remdups_known)

definition current_row :: "stored_compliance list \<Rightarrow> nat \<times> string \<Rightarrow> stored_compliance" where
  "current_row log k = the (newest_check (filter (\<lambda>r. row_key r = k) log))"

lemma current_row_key:
  assumes "k \<in> row_key ` set log"
  shows "newest_check (filter (\<lambda>r. row_key r = k) log) = Some (current_row log k)" "row_key (current_row log k) = k"
proof -
  have "filter (\<lambda>r. row_key r = k) log \<noteq> []" using assms by (auto simp: filter_empty_conv)
  then show some: "newest_check (filter (\<lambda>r. row_key r = k) log) = Some (current_row log k)"
    unfolding current_row_def using newest_check_None option.collapse by metis
  show "row_key (current_row log k) = k" using newest_check_in [OF some] by simp
qed

lemma current_compliance_eq: "current_compliance log = map (current_row log) (compliance_keys log)"
proof -
  have "List.map_filter (\<lambda>k. newest_check (filter (\<lambda>r. row_key r = k) log)) ks = map (current_row log) ks"
    if "set ks \<subseteq> row_key ` set log" for ks
    using that by (induction ks) (simp_all add: List.map_filter_simps current_row_key(1))
  then show ?thesis by (simp add: current_compliance_def)
qed

lemma current_keys [simp]: "map row_key (current_compliance log) = compliance_keys log"
  unfolding current_compliance_eq map_map by (rule map_idI) (simp add: current_row_key(2))

lemma distinct_current: "distinct (map row_key (current_compliance log))"
  by (simp add: compliance_keys_def)

text \<open>The effect of an insert: under a clock that is not behind, a new row of a known key is the current one.\<close>

definition replaced :: "int \<Rightarrow> stored_compliance list \<Rightarrow> stored_compliance \<Rightarrow> stored_compliance" where
  "replaced at new row = (case find (\<lambda>m. row_key m = row_key row) new of Some m \<Rightarrow> stamp at m | None \<Rightarrow> row)"

lemma stamp_sel [simp]: "row_key (stamp at m) = row_key m" "sc_checked_at (stamp at m) = at"
  "sc_result (stamp at m) = sc_result m" "sc_document_name (stamp at m) = sc_document_name m"
  by (simp_all add: stamp_def row_key_def)

lemma filter_key_single:
  "distinct (map row_key new) \<Longrightarrow>
     filter (\<lambda>m. row_key m = k) new = (case find (\<lambda>m. row_key m = k) new of Some m \<Rightarrow> [m] | None \<Rightarrow> [])"
proof (induction new)
  case (Cons m new)
  show ?case
  proof (cases "row_key m = k")
    case True
    then have "filter (\<lambda>m. row_key m = k) new = []" using Cons.prems by (auto simp: filter_empty_conv) (metis imageI)
    then show ?thesis using True by simp
  next
    case False
    then show ?thesis using Cons by simp
  qed
qed simp

lemma insert_current:
  assumes "row_key ` set new \<subseteq> row_key ` set log" "distinct (map row_key new)" "\<forall>r \<in> set log. sc_checked_at r \<le> at"
  shows "current_compliance (insert_compliance at new log) = map (replaced at new) (current_compliance log)"
proof -
  have "row_key ` set (map (stamp at) new) \<subseteq> row_key ` set log" using assms(1) by (auto simp: image_image)
  then have keys: "compliance_keys (insert_compliance at new log) = compliance_keys log"
    unfolding insert_compliance_def by (rule compliance_keys_known)
  have "current_row (insert_compliance at new log) k = replaced at new (current_row log k)" if k: "k \<in> row_key ` set log" for k
  proof -
    let ?old = "filter (\<lambda>r. row_key r = k) log"
    have f: "filter (\<lambda>r. row_key r = k) (insert_compliance at new log) =
        ?old @ map (stamp at) (filter (\<lambda>m. row_key m = k) new)"
      by (simp add: insert_compliance_def filter_map comp_def)
    have key: "row_key (current_row log k) = k" by (rule current_row_key(2) [OF k])
    show ?thesis
    proof (cases "find (\<lambda>m. row_key m = k) new")
      case None
      then have "filter (\<lambda>r. row_key r = k) (insert_compliance at new log) = ?old"
        unfolding f filter_key_single [OF assms(2)] by simp
      then show ?thesis using None key by (simp add: current_row_def [of "insert_compliance at new log"] current_row_def [of log] replaced_def)
    next
      case (Some m)
      then have "filter (\<lambda>r. row_key r = k) (insert_compliance at new log) = ?old @ [stamp at m]"
        unfolding f filter_key_single [OF assms(2)] by simp
      moreover have "newest_check (?old @ [stamp at m]) = Some (stamp at m)"
        using assms(3) by (intro newest_check_snoc) simp
      ultimately show ?thesis using Some key by (simp add: current_row_def [of "insert_compliance at new log"] replaced_def)
    qed
  qed
  then show ?thesis by (simp add: current_compliance_eq keys)
qed

definition replaced_some :: "(stored_compliance \<Rightarrow> int) \<Rightarrow> stored_compliance list \<Rightarrow> stored_compliance \<Rightarrow> stored_compliance" where
  "replaced_some T new row = (case find (\<lambda>m. row_key m = row_key row) new of Some m \<Rightarrow> stamp (T row) m | None \<Rightarrow> row)"

lemma replaced_key: "row_key (replaced at new row) = row_key row"
  by (auto simp: replaced_def find_Some_iff split: option.split)

lemma find_append: "find P (xs @ ys) = (case find P xs of Some x \<Rightarrow> Some x | None \<Rightarrow> find P ys)"
  by (induction xs) auto

lemma insert_batches_current:
  assumes "row_key ` set (concat bs) \<subseteq> row_key ` set log" "distinct (map row_key (concat bs))"
    and "\<forall>r \<in> set log. sc_checked_at r \<le> at k" "mono at"
  shows "\<exists>T. current_compliance (insert_batches at k bs log) = map (replaced_some T (concat bs)) (current_compliance log)"
  using assms(1-3)
proof (induction bs arbitrary: k log)
  case Nil
  then show ?case by (simp add: replaced_some_def map_idI)
next
  case (Cons b bs)
  let ?log = "insert_compliance (at k) b log"
  have cur: "current_compliance ?log = map (replaced (at k) b) (current_compliance log)"
    using Cons.prems by (intro insert_current) auto
  have "\<forall>r \<in> set ?log. sc_checked_at r \<le> at (Suc k)"
    using Cons.prems(3) monoD [OF assms(4), of k "Suc k"] by (fastforce simp: insert_compliance_def)
  moreover have "row_key ` set (concat bs) \<subseteq> row_key ` set log" using Cons.prems(1) by (simp add: image_Un)
  then have "row_key ` set (concat bs) \<subseteq> row_key ` set ?log" by (simp only: insert_compliance_def set_append image_Un) blast
  ultimately obtain T where T: "current_compliance (insert_batches at (Suc k) bs ?log) =
      map (replaced_some T (concat bs)) (current_compliance ?log)"
    using Cons.IH [of ?log "Suc k"] Cons.prems(2) by auto
  define T' where "T' row = (if find (\<lambda>m. row_key m = row_key row) b = None then T row else at k)" for row
  have "replaced_some T (concat bs) (replaced (at k) b row) = replaced_some T' (concat (b # bs)) row" for row
  proof (cases "find (\<lambda>m. row_key m = row_key row) b")
    case None
    then have "T' row = T row" by (simp add: T'_def)
    then show ?thesis using None by (simp add: replaced_def replaced_some_def find_append split: option.split)
  next
    case (Some m)
    then have m: "m \<in> set b" "row_key m = row_key row" by (auto simp: find_Some_iff)
    have disj: "row_key ` set b \<inter> row_key ` set (concat bs) = {}" using Cons.prems(2) by simp
    have "row_key x \<noteq> row_key row" if "x \<in> set (concat bs)" for x
    proof
      assume "row_key x = row_key row"
      then have "row_key m \<in> row_key ` set (concat bs)" using that m(2) by (metis imageI)
      then show False using disj m(1) by blast
    qed
    then have "find (\<lambda>m. row_key m = row_key row) (concat bs) = None" unfolding find_None_iff by blast
    then show ?thesis using Some m(2)
      by (simp add: replaced_def replaced_some_def find_append T'_def)
  qed
  then have "current_compliance (insert_batches at k (b # bs) log) = map (replaced_some T' (concat (b # bs))) (current_compliance log)"
    by (simp add: T cur comp_def)
  then show ?case by blast
qed

lemma insert_batches_bound:
  "\<forall>r \<in> set log. sc_checked_at r \<le> B \<Longrightarrow> (\<And>k. at k \<le> B) \<Longrightarrow> \<forall>r \<in> set (insert_batches at k bs log). sc_checked_at r \<le> B"
proof (induction at k bs log rule: insert_batches.induct)
  case (2 at k b bs log)
  have "\<forall>r \<in> set (insert_compliance (at k) b log). sc_checked_at r \<le> B"
    using 2(2,3) by (auto simp: insert_compliance_def)
  from 2(1) [OF this 2(3)] show ?case by simp
qed simp

text \<open>The rows a run writes, and what it makes of the table.\<close>

lemma distinct_changed: "distinct (map row_key table) \<Longrightarrow> distinct (map row_key (changed_rows now ex table))"
proof (induction table)
  case (Cons row table)
  have "row_key row \<notin> row_key ` set (changed_rows now ex table)"
  proof
    assume "row_key row \<in> row_key ` set (changed_rows now ex table)"
    then obtain m where "m \<in> set (changed_rows now ex table)" "row_key m = row_key row" by auto
    then obtain row' where "row' \<in> set table" "row_key row' = row_key row" using recheck_row_key set_changed_rows by metis
    then have "row_key row \<in> set (map row_key table)" by (metis imageI list.set_map)
    then show False using Cons.prems by simp
  qed
  then show ?case
    using Cons by (auto simp: changed_rows_def List.map_filter_simps dest: recheck_row_key split: option.split)
qed (simp add: changed_rows_def List.map_filter_simps)

lemma find_changed:
  assumes "distinct (map row_key table)" "row \<in> set table"
  shows "find (\<lambda>m. row_key m = row_key row) (changed_rows now ex table) = recheck_row now ex row"
proof (cases "recheck_row now ex row")
  case None
  have "row_key m \<noteq> row_key row" if m: "m \<in> set (changed_rows now ex table)" for m
  proof
    assume k: "row_key m = row_key row"
    obtain row' where row': "row' \<in> set table" "recheck_row now ex row' = Some m" using m unfolding set_changed_rows by blast
    then have "row' = row" using k recheck_row_key [OF row'(2)] assms by (metis distinct_map inj_onD)
    with row' None show False by simp
  qed
  then show ?thesis using None by (simp add: find_None_iff)
next
  case (Some m)
  then have m: "m \<in> set (changed_rows now ex table)" "row_key m = row_key row"
    using assms(2) set_changed_rows recheck_row_key by blast+
  then obtain x where x: "find (\<lambda>m. row_key m = row_key row) (changed_rows now ex table) = Some x"
    by (cases "find (\<lambda>m. row_key m = row_key row) (changed_rows now ex table)") (auto simp: find_None_iff)
  then have "x \<in> set (changed_rows now ex table)" "row_key x = row_key row" by (auto simp: find_Some_iff)
  then have "x = m" using m distinct_changed [OF assms(1)] by (metis distinct_map inj_onD)
  then show ?thesis using x Some by simp
qed

lemma process_recheck:
  assumes "process_license_recheck_job now at ex accepted log = (ok, log')"
    and "\<forall>r \<in> set log. sc_checked_at r \<le> at 0" "mono at"
  shows "\<exists>T new. current_compliance log' = map (replaced_some T new) (current_compliance log) \<and>
      (\<exists>later. changed_rows now ex (current_compliance log) = new @ later) \<and>
      (accepted = None \<longrightarrow> ok \<and> new = changed_rows now ex (current_compliance log))"
proof -
  let ?cur = "current_compliance log"
  let ?bs = "batches (changed_rows now ex ?cur)"
  define ran where "ran = (case accepted of None \<Rightarrow> ?bs | Some k \<Rightarrow> take k ?bs)"
  have log': "log' = insert_batches at 0 ran log" "ok = (length ran = length ?bs)"
    using assms(1) by (simp_all add: process_license_recheck_job_def Let_def ran_def)
  obtain bs' where "?bs = ran @ bs'" unfolding ran_def by (metis append_Nil2 append_take_drop_id option.exhaust option.simps(4,5))
  then have split: "changed_rows now ex ?cur = concat ran @ concat bs'" by (metis concat_append concat_batches)
  have "row_key ` set (changed_rows now ex ?cur) \<subseteq> row_key ` set ?cur"
    using recheck_row_key by (fastforce simp: set_changed_rows)
  then have "row_key ` set (concat ran) \<subseteq> row_key ` set log"
    using split current_keys [of log] by (metis (no_types, opaque_lifting) Un_subset_iff image_Un list.set_map set_append set_compliance_keys)
  moreover have "distinct (map row_key (concat ran))"
    using distinct_changed [OF distinct_current, of now ex log] unfolding split by simp
  ultimately obtain T where "current_compliance log' = map (replaced_some T (concat ran)) ?cur"
    using insert_batches_current [OF _ _ assms(2,3), of ran] log'(1) by blast
  moreover have "accepted = None \<Longrightarrow> ok \<and> concat ran = changed_rows now ex ?cur"
    using log'(2) by (simp add: ran_def)
  ultimately show ?thesis using split by blast
qed

lemma recheck_row_stamp [simp]: "recheck_row now ex (stamp t row) = recheck_row now ex row"
  by (simp add: recheck_row_def stamp_def Let_def)

lemma recheck_row_stable: "recheck_row now ex row = Some m \<Longrightarrow> recheck_row now' ex m = None"
  using rechecked_stable [of now' ex now row] by (simp add: rechecked_def)

text \<open>A row after a run that may have been interrupted, and after a complete run.\<close>

lemma row_after_run:
  assumes "changed_rows now ex table = new @ later" "distinct (map row_key table)" "row \<in> set table"
  shows "replaced_some T new row = row \<or> (\<exists>m. recheck_row now ex row = Some m \<and> replaced_some T new row = stamp (T row) m)"
    and "new = changed_rows now ex table \<Longrightarrow>
      replaced_some T new row = (case recheck_row now ex row of Some m \<Rightarrow> stamp (T row) m | None \<Rightarrow> row)"
proof -
  have "recheck_row now ex row = (case find (\<lambda>m. row_key m = row_key row) new of Some x \<Rightarrow> Some x
      | None \<Rightarrow> find (\<lambda>m. row_key m = row_key row) later)"
    using find_changed [OF assms(2,3), of now ex] unfolding assms(1) find_append by simp
  then show "replaced_some T new row = row \<or> (\<exists>m. recheck_row now ex row = Some m \<and> replaced_some T new row = stamp (T row) m)"
    by (cases "find (\<lambda>m. row_key m = row_key row) new") (simp_all add: replaced_some_def)
  show "replaced_some T new row = (case recheck_row now ex row of Some m \<Rightarrow> stamp (T row) m | None \<Rightarrow> row)"
    if "new = changed_rows now ex table"
    using find_changed [OF assms(2,3), of now ex] by (simp add: replaced_some_def that)
qed

text \<open>A row after a run that may have been interrupted and a complete one.\<close>

lemma row_after_two_runs:
  assumes "row' = row \<or> (\<exists>m. recheck_row now ex row = Some m \<and> row' = stamp t m)"
    and "row'' = (case recheck_row now' ex row' of Some m \<Rightarrow> stamp t' m | None \<Rightarrow> row')"
  shows "recheck_row now0 ex row'' = None \<and> row_key row'' = row_key row \<and>
    same_outcome (sc_result row'') (reevaluate (sc_result row) ex (sc_document_name row))"
proof -
  have "(\<exists>n t m. recheck_row n ex row = Some m \<and> row'' = stamp t m) \<or> (recheck_row now' ex row = None \<and> row'' = row)"
  proof (cases "row' = row")
    case True
    then show ?thesis using assms(2) by (cases "recheck_row now' ex row") auto
  next
    case False
    then obtain m where m: "recheck_row now ex row = Some m" "row' = stamp t m" using assms(1) by blast
    then have "recheck_row now' ex row' = None" using recheck_row_stable by simp
    then show ?thesis using assms(2) m by auto
  qed
  then show ?thesis
  proof (elim disjE exE conjE)
    fix n t m assume m: "recheck_row n ex row = Some m" "row'' = stamp t m"
    then show ?thesis
      using rechecked_outcome [of n ex row] recheck_row_stable [OF m(1)] recheck_row_key [OF m(1)] by (simp add: rechecked_def)
  next
    assume none: "recheck_row now' ex row = None" "row'' = row"
    moreover have "recheck_row n ex row = None \<longleftrightarrow> recheck_row now' ex row = None" for n
      by (simp add: recheck_row_def Let_def)
    ultimately show ?thesis using rechecked_outcome [of now' ex row] by (simp add: rechecked_def)
  qed
qed

subsection \<open>Properties\<close>

text \<open>
  C39: a recheck can be interrupted anywhere and repeated. Whatever part of the changed rows a first run
  under the new exceptions inserted before it failed, a second run brings the current row of every SBOM
  and license to the outcome \<open>Reevaluate\<close> gives for the original row, and there is nothing to change
  afterwards; where the license is not permissive and the row came from an ingest, that outcome is the
  one a fresh ingest under the new exceptions stores. The clocks of the inserts are not behind the rows
  they replace, else \<open>FINAL\<close> keeps the old row.
\<close>

theorem recheck_restartable:
  assumes "process_license_recheck_job now at ex accepted log = (ok, log')"
    and "process_license_recheck_job now' at' ex None log' = (ok', log'')"
    and "\<forall>r \<in> set log. sc_checked_at r \<le> at 0" "mono at" "\<forall>k. at k \<le> at' 0" "mono at'"
    and "i < length (current_compliance log)"
  shows "ok' \<and> map row_key (current_compliance log'') = map row_key (current_compliance log) \<and>
    changed_rows now'' ex (current_compliance log'') = [] \<and>
    same_outcome (sc_result (current_compliance log'' ! i))
      (reevaluate (sc_result (current_compliance log ! i)) ex (sc_document_name (current_compliance log ! i))) \<and>
    (\<forall>p names lics old fresh.
       sc_result (current_compliance log ! i) \<in> set (check_with_exceptions p names lics old [sc_document_name (current_compliance log ! i)]) \<longrightarrow>
       fresh \<in> set (check_with_exceptions p names lics ex [sc_document_name (current_compliance log ! i)]) \<longrightarrow>
       cr_license_id (sc_result (current_compliance log ! i)) = cr_license_id fresh \<longrightarrow>
       cr_category (sc_result (current_compliance log ! i)) \<noteq> Permissive \<longrightarrow>
       same_outcome (sc_result (current_compliance log'' ! i)) fresh)"
proof -
  let ?cur = "current_compliance log" and ?cur' = "current_compliance log'" and ?cur'' = "current_compliance log''"
  obtain T new later where first: "?cur' = map (replaced_some T new) ?cur" "changed_rows now ex ?cur = new @ later"
    using process_recheck [OF assms(1,3,4)] by blast
  have "\<forall>r \<in> set log. sc_checked_at r \<le> at' 0" using assms(3,5) order_trans by blast
  then have "\<forall>r \<in> set log'. sc_checked_at r \<le> at' 0"
    using assms(1,5) insert_batches_bound [of log "at' 0" at 0]
    by (auto simp: process_license_recheck_job_def Let_def)
  from process_recheck [OF assms(2) this assms(6)] obtain T' where second: "ok'"
      "?cur'' = map (replaced_some T' (changed_rows now' ex ?cur')) ?cur'"
    by auto
  have final: "recheck_row now0 ex row'' = None \<and> row_key row'' = row_key row \<and>
      same_outcome (sc_result row'') (reevaluate (sc_result row) ex (sc_document_name row))"
    if row: "row \<in> set ?cur" and row'': "row'' = replaced_some T' (changed_rows now' ex ?cur') (replaced_some T new row)" for row row'' now0
  proof (rule row_after_two_runs)
    let ?row' = "replaced_some T new row"
    show "?row' = row \<or> (\<exists>m. recheck_row now ex row = Some m \<and> ?row' = stamp (T row) m)"
      by (rule row_after_run(1) [OF first(2) distinct_current row])
    show "row'' = (case recheck_row now' ex ?row' of Some m \<Rightarrow> stamp (T' ?row') m | None \<Rightarrow> ?row')"
      using row_after_run(2) [OF _ distinct_current, of now' ex log' "changed_rows now' ex ?cur'" "[]" ?row' T'] row first(1) row'' by simp
  qed
  have cur'': "?cur'' = map (\<lambda>row. replaced_some T' (changed_rows now' ex ?cur') (replaced_some T new row)) ?cur"
    by (simp add: second(2) first(1))
  have "changed_rows now'' ex ?cur'' = []"
    using final [of _ _ now''] set_changed_rows [of _ now'' ex ?cur''] unfolding cur'' by (metis (no_types, lifting) imageE in_set_conv_decomp list.set_map neq_Nil_conv option.distinct(1) append_Nil)
  moreover have "map row_key ?cur'' = map row_key ?cur"
    unfolding cur'' map_map comp_def by (rule map_cong [OF refl]) (use final in blast)
  moreover have outcome: "same_outcome (sc_result (?cur'' ! i)) (reevaluate (sc_result (?cur ! i)) ex (sc_document_name (?cur ! i)))"
    using final [of "?cur ! i"] assms(7) unfolding cur'' by simp
  moreover have "same_outcome (sc_result (?cur'' ! i)) fresh"
    if "sc_result (?cur ! i) \<in> set (check_with_exceptions p names lics old [sc_document_name (?cur ! i)])"
      "fresh \<in> set (check_with_exceptions p names lics ex [sc_document_name (?cur ! i)])"
      "cr_license_id (sc_result (?cur ! i)) = cr_license_id fresh" "cr_category (sc_result (?cur ! i)) \<noteq> Permissive"
    for p names lics old fresh
    using reevaluate_fresh [OF that(1-3)] that(4) outcome same_outcome_trans by blast
  ultimately show ?thesis using second(1) by blast
qed

definition sample_stored :: stored_compliance where
  "sample_stored =
     \<lparr>sc_sbom_id = 1,
      sc_result = \<lparr>cr_license_id = ''GPL-2.0'', cr_category = Copyleft, cr_package_count = 1,
        cr_non_compliant = [''foo/bar''], cr_exempted = [], cr_exemption_reason = []\<rparr>,
      sc_document_name = ''alpha'', sc_checked_at = 0\<rparr>"

theorem recheck_restartable_witness:
  "changed_rows 3 (Some (build_index sample_file))
     (current_compliance (snd (process_license_recheck_job 2 (\<lambda>_. 2) (Some (build_index sample_file)) None
       (snd (process_license_recheck_job 1 (\<lambda>_. 1) (Some (build_index sample_file)) (Some 0) [sample_stored]))))) = []"
proof -
  let ?ex = "Some (build_index sample_file)"
  let ?t1 = "snd (process_license_recheck_job 1 (\<lambda>_. 1) ?ex (Some 0) [sample_stored])"
  let ?t2 = "snd (process_license_recheck_job 2 (\<lambda>_. 2) ?ex None ?t1)"
  have "process_license_recheck_job 1 (\<lambda>_. 1) ?ex (Some 0) [sample_stored] =
      (fst (process_license_recheck_job 1 (\<lambda>_. 1) ?ex (Some 0) [sample_stored]), ?t1)"
    "process_license_recheck_job 2 (\<lambda>_. 2) ?ex None ?t1 = (fst (process_license_recheck_job 2 (\<lambda>_. 2) ?ex None ?t1), ?t2)"
    by simp_all
  note runs = this
  have len: "0 < length (current_compliance [sample_stored])" by code_simp
  have clocks: "\<forall>r \<in> set [sample_stored]. sc_checked_at r \<le> (1::int)" "mono (\<lambda>_::nat. 1::int)"
      "\<forall>k::nat. (1::int) \<le> 2" "mono (\<lambda>_::nat. 2::int)"
    by (simp_all add: sample_stored_def mono_def)
  from recheck_restartable [OF runs clocks len, of 3] show ?thesis by blast
qed

text \<open>
  The clock matters: what a worker whose clock is behind the stored rows inserts never becomes
  current, and its recheck is done all the same.
\<close>

lemma slow_clock_recheck_lost:
  "process_license_recheck_job 5 (\<lambda>_. 5) (Some (build_index sample_file)) None [sample_stored\<lparr>sc_checked_at := 7\<rparr>] = (True, log') \<Longrightarrow>
     current_compliance log' = [sample_stored\<lparr>sc_checked_at := 7\<rparr>]"
  "changed_rows 5 (Some (build_index sample_file)) [sample_stored\<lparr>sc_checked_at := 7\<rparr>] \<noteq> []"
proof -
  have "current_compliance (snd (process_license_recheck_job 5 (\<lambda>_. 5) (Some (build_index sample_file)) None
      [sample_stored\<lparr>sc_checked_at := 7\<rparr>])) = [sample_stored\<lparr>sc_checked_at := 7\<rparr>]"
    by code_simp
  then show "process_license_recheck_job 5 (\<lambda>_. 5) (Some (build_index sample_file)) None [sample_stored\<lparr>sc_checked_at := 7\<rparr>] = (True, log') \<Longrightarrow>
     current_compliance log' = [sample_stored\<lparr>sc_checked_at := 7\<rparr>]" by simp
  show "changed_rows 5 (Some (build_index sample_file)) [sample_stored\<lparr>sc_checked_at := 7\<rparr>] \<noteq> []" by code_simp
qed

subsection \<open>A recheck is queued once\<close>

definition previous_recheck :: "(nat \<Rightarrow> string) \<Rightarrow> queue_row list \<Rightarrow> string" where
  "previous_recheck show_id rows = (case latest_license_recheck rows of None \<Rightarrow> [] | Some st \<Rightarrow> show_id (rs_job_id st))"

lemma remdups_snoc: "x \<notin> set xs \<Longrightarrow> remdups (xs @ [x]) = remdups xs @ [x]"
  by (induction xs) auto

lemma later_job_in: "foldl (later_job rows) a bs \<in> insert a (set bs)"
  by (induction bs arbitrary: a) (auto simp: later_job_def)

lemma latest_recheck_snoc:
  assumes "pl_job_type (qr_payload r) = job_type_license_recheck" "qr_job_id r \<notin> qr_job_id ` set rows"
    and "\<forall>r' \<in> set rows. qr_created_at r' < qr_created_at r"
  shows "latest_license_recheck (rows @ [r]) =
     Some \<lparr>rs_job_id = qr_job_id r, rs_digest = pl_sha256_hash (qr_payload r), rs_status = qr_status r,
           rs_updated_at = qr_created_at r\<rparr>"
proof -
  define old where "old = filter (\<lambda>r. pl_job_type (qr_payload r) = job_type_license_recheck) rows"
  let ?id = "qr_job_id r"
  have sub: "set old \<subseteq> set rows" by (auto simp: old_def)
  then have fresh: "?id \<notin> set (map qr_job_id old)" using assms(2) by auto
  have ids: "job_ids (old @ [r]) = job_ids old @ [?id]"
    unfolding job_ids_def map_append list.map by (rule remdups_snoc [OF fresh])
  have mine: "rows_of (old @ [r]) ?id = [r]"
    using fresh by (auto simp: rows_of_def filter_empty_conv) (metis imageI)
  have later: "later_job (old @ [r]) a ?id = ?id" if "a \<in> set (job_ids old)" for a
  proof -
    have "rows_of (old @ [r]) a = rows_of old a" using that fresh by (auto simp: rows_of_def job_ids_def)
    moreover have "rows_of old a \<noteq> []" using that by (auto simp: rows_of_def job_ids_def filter_empty_conv)
    ultimately have "min_created (old @ [r]) a \<in> qr_created_at ` set (rows_of old a)"
      by (simp add: min_created_def del: set_filter)
    moreover have "qr_created_at r' < qr_created_at r" if "r' \<in> set (rows_of old a)" for r'
      using that sub assms(3) by (auto simp: rows_of_def)
    ultimately show ?thesis by (auto simp: later_job_def min_created_def mine)
  qed
  have pick: "(case job_ids (old @ [r]) of [] \<Rightarrow> None | jid # jids \<Rightarrow> Some (foldl (later_job (old @ [r])) jid jids)) = Some ?id"
  proof (cases "job_ids old")
    case (Cons jid jids)
    then have "foldl (later_job (old @ [r])) jid jids \<in> set (job_ids old)"
      using later_job_in [of "old @ [r]" jid jids] by simp
    with Cons later show ?thesis by (simp add: ids)
  qed (simp add: ids)
  have "latest (old @ [r]) ?id = Some r" by (simp add: latest_def mine)
  with pick show ?thesis
    using assms(1) by (auto simp: latest_license_recheck_def Let_def old_def [symmetric] split: list.splits)
qed

text \<open>
  Every poll leaves the queue with a recheck for the current rules: after
  \<open>ensureLicenseRecheck\<close> the latest recheck is for this digest and needs no retry, a second call at
  the same time adds nothing, and replicas that start from the same table enqueue the same job.
  The id of the new job is not in the table yet (the hash has no collision) and the clock is past
  the existing rows.
\<close>

theorem recheck_queued_once:
  assumes "new_id (previous_recheck show_id rows @ ''|'' @ digest) \<notin> qr_job_id ` set rows"
    and "\<forall>r \<in> set rows. qr_created_at r < now"
  shows "\<exists>st rows'. ensure_license_recheck new_id show_id digest delay now rows = rows' \<and>
    latest_license_recheck rows' = Some st \<and> rs_digest st = digest \<and> \<not> recheck_needs_retry st now \<and>
    ensure_license_recheck new_id show_id digest delay' now rows' = rows' \<and>
    (rows' = rows \<or>
     (\<exists>r. rows' = rows @ [r] \<and> qr_job_id r = new_id (previous_recheck show_id rows @ ''|'' @ digest) \<and>
        qr_status r = StatusPending \<and> qr_retry_after r = now + delay))"
proof -
  let ?again = "\<lambda>rows'. ensure_license_recheck new_id show_id digest delay' now rows' = rows'"
  show ?thesis
  proof (cases "\<exists>st. latest_license_recheck rows = Some st \<and> rs_digest st = digest \<and> \<not> recheck_needs_retry st now")
    case True
    then show ?thesis by (auto simp: ensure_license_recheck_def)
  next
    case False
    let ?r = "enqueue_row (recheck_job new_id (previous_recheck show_id rows) digest delay now)"
    have new: "ensure_license_recheck new_id show_id digest delay now rows = rows @ [?r]"
      using False by (auto simp: ensure_license_recheck_def previous_recheck_def enqueue_jobs_def split: option.splits)
    have r: "pl_job_type (qr_payload ?r) = job_type_license_recheck" "pl_sha256_hash (qr_payload ?r) = digest"
        "qr_created_at ?r = now" "qr_status ?r = StatusPending" "qr_retry_after ?r = now + delay"
        "qr_job_id ?r = new_id (previous_recheck show_id rows @ ''|'' @ digest)"
      by (simp_all add: enqueue_row_def recheck_job_def job_type_license_recheck_def)
    have "latest_license_recheck (rows @ [?r]) = Some \<lparr>rs_job_id = qr_job_id ?r, rs_digest = digest,
        rs_status = StatusPending, rs_updated_at = now\<rparr>"
      using latest_recheck_snoc [OF r(1), of rows] assms r by simp
    then show ?thesis
      using new r by (auto simp: recheck_needs_retry_def ensure_license_recheck_def [where rows = "rows @ [?r]"])
  qed
qed

theorem recheck_queued_once_witness:
  "\<exists>st. latest_license_recheck (ensure_license_recheck length (\<lambda>_. ''id'') ''d'' 5 100 []) = Some st \<and> rs_digest st = ''d''"
  using recheck_queued_once [of length "\<lambda>_. ''id''" "[]" "''d''" 100 5] by auto

end
