(* ===== verification/Packagist_Resolver.thy ===== *)
theory Packagist_Resolver
  imports License_Normalize Npm_Resolver
begin

text \<open>
  The Packagist license resolver, \<open>backend/internal/packagist/resolver.go\<close>: composer versions, the
  minified metadata files and their in-memory cache, the cache encoding with its marker for a license
  taken from the newest release. The mirror is a function from the file asked for to the response.
\<close>

subsection \<open>Names, versions, values\<close>

definition latest_marker :: string where "latest_marker = ''~''"

definition segment_char :: "char \<Rightarrow> bool" where
  "segment_char r \<longleftrightarrow> char_between CHR ''a'' CHR ''z'' r \<or> char_between CHR ''0'' CHR ''9'' r \<or>
     r = CHR ''-'' \<or> r = CHR ''_'' \<or> r = CHR ''.''"

definition valid_segment :: "string \<Rightarrow> bool" where
  "valid_segment s \<longleftrightarrow> \<not> (s = [] \<or> s = ''.'' \<or> s = ''..'') \<and> list_all segment_char s"

definition extract_composer_package :: "string \<Rightarrow> (string \<times> string) option" where
  "extract_composer_package purl =
     (if \<not> has_prefix purl ''pkg:composer/'' then None
      else
        let rest0 = before_any (drop 13 purl) ''?#'';
            (rest1, version1) =
              (case str_last_index rest0 ''@'' of Some i \<Rightarrow> (take i rest0, drop (Suc i) rest0) | None \<Rightarrow> (rest0, []));
            rest = unescape_or_keep rest1; version = unescape_or_keep version1
        in (case str_cut (to_lower (trim_space rest)) ''/'' of
              None \<Rightarrow> None
            | Some (vendor, pkg) \<Rightarrow>
                if \<not> valid_segment vendor \<or> \<not> valid_segment pkg then None
                else Some (vendor @ ''/'' @ pkg, trim_space version)))"

definition is_dev_version :: "string \<Rightarrow> bool" where
  "is_dev_version version \<longleftrightarrow> (let v = to_lower version in has_prefix v ''dev-'' \<or> has_suffix v ''-dev'')"

definition packagist_cache_key :: "string \<Rightarrow> string \<Rightarrow> string" where
  "packagist_cache_key name version = (if version = [] then name @ ''@*'' else name @ ''@'' @ version)"

definition packagist_split_value :: "string \<Rightarrow> string \<times> bool" where
  "packagist_split_value v =
     (if has_prefix v latest_marker then (trim_prefix v latest_marker, True)
      else (fst (split_cache_value v), False))"

subsection \<open>Metadata files\<close>

record composer_version =
  cv_version :: string
  cv_license :: "string list"

text \<open>
  An entry as decoded: the license field, if present, decodes as a string, or leaves some list
  (empty on a decoder error); a version that is absent or does not decode is empty.
\<close>

datatype composer_license = ComposerString string | ComposerList "string list"

record composer_entry =
  ce_license :: "composer_license option"
  ce_version :: "string option"

definition expand_license :: "composer_license option \<Rightarrow> string list \<Rightarrow> string list" where
  "expand_license raw current =
     (case raw of
        None \<Rightarrow> current
      | Some (ComposerString s) \<Rightarrow> if s \<noteq> ''__unset'' \<and> s \<noteq> [] then [s] else []
      | Some (ComposerList ls) \<Rightarrow> ls)"

fun expand_from :: "string list \<Rightarrow> composer_entry list \<Rightarrow> composer_version list" where
  "expand_from current [] = []"
| "expand_from current (e # es) =
     (let lic = expand_license (ce_license e) current
      in \<lparr>cv_version = (case ce_version e of None \<Rightarrow> [] | Some v \<Rightarrow> v), cv_license = lic\<rparr> # expand_from lic es)"

definition expand :: "composer_entry list \<Rightarrow> composer_version list" where
  "expand entries = expand_from [] entries"

text \<open>
  The file cache: a file known to be missing is stored as \<open>None\<close>. A mirror maps a file to the
  response whose body gives the entries of a package.
\<close>

type_synonym file_cache = "string \<rightharpoonup> composer_version list option"
type_synonym mirror = "string \<Rightarrow> (string \<Rightarrow> composer_entry list) http_response"

definition read_p2 :: "string \<Rightarrow> (string \<Rightarrow> composer_entry list) http_response \<Rightarrow> composer_version list option option" where
  "read_p2 name resp =
     (case resp of
        NoResponse \<Rightarrow> None
      | HttpResponse status body \<Rightarrow>
          if status = 404 then Some None
          else if status \<noteq> 200 then None
          else map_option (\<lambda>packages. Some (expand (packages (trim_suffix name ''~dev'')))) body)"

definition package_versions ::
  "mirror \<Rightarrow> (string \<Rightarrow> bool) \<Rightarrow> string \<Rightarrow> file_cache \<Rightarrow> composer_version list option option \<times> file_cache" where
  "package_versions mirror admitted name files =
     (case files name of
        Some cached \<Rightarrow> (Some cached, files)
      | None \<Rightarrow>
          if \<not> admitted name then (None, files)
          else (case read_p2 name (mirror name) of
                  None \<Rightarrow> (None, files)
                | Some versions \<Rightarrow> (Some versions, files(name \<mapsto> versions))))"

subsection \<open>Expressions and lookup\<close>

definition composer_expression :: "string list \<Rightarrow> string" where
  "composer_expression licenses =
     (let parts = filter (\<lambda>l. l \<noteq> []) (map recover licenses);
          parts' = (if length parts > 1
                    then map (\<lambda>p. if contains_str p '' '' then ''('' @ p @ '')'' else p) parts else parts)
      in join_with '' OR '' parts')"

definition license_value :: "string list \<Rightarrow> string" where
  "license_value licenses =
     (let lic = composer_expression licenses
      in if lic \<noteq> [] then lic else negative_cache_value reason_no_license_upstream)"

definition find_version :: "composer_version list \<Rightarrow> string \<Rightarrow> composer_version option" where
  "find_version versions version =
     (let want = trim_prefix (to_lower version) ''v''
      in find (\<lambda>v. trim_prefix (to_lower (cv_version v)) ''v'' = want) versions)"

definition stable_value :: "composer_version list option \<Rightarrow> string \<Rightarrow> string" where
  "stable_value releases version =
     (case releases of
        None \<Rightarrow> negative_cache_value reason_not_published
      | Some versions \<Rightarrow>
          (case (if version \<noteq> [] \<and> \<not> is_dev_version version then find_version versions version else None) of
             Some v \<Rightarrow> license_value (cv_license v)
           | None \<Rightarrow>
               (case versions of
                  [] \<Rightarrow> negative_cache_value reason_no_license_upstream
                | newest # _ \<Rightarrow>
                    let value = license_value (cv_license newest)
                    in if snd (split_cache_value value) \<noteq> [] then value else latest_marker @ value)))"

definition packagist_lookup ::
  "mirror \<Rightarrow> (string \<Rightarrow> bool) \<Rightarrow> string \<Rightarrow> string \<Rightarrow> file_cache \<Rightarrow> string \<times> file_cache" where
  "packagist_lookup mirror admitted name version files =
     (let from_stable = (\<lambda>files.
            case package_versions mirror admitted name files of
              (None, files') \<Rightarrow> ([], files')
            | (Some releases, files') \<Rightarrow> (stable_value releases version, files'))
      in if is_dev_version version
         then (case package_versions mirror admitted (name @ ''~dev'') files of
                 (None, files') \<Rightarrow> ([], files')
               | (Some dev, files') \<Rightarrow>
                   (case find_version (case dev of None \<Rightarrow> [] | Some vs \<Rightarrow> vs) version of
                      Some v \<Rightarrow> (license_value (cv_license v), files')
                    | None \<Rightarrow> from_stable files'))
         else from_stable files)"

definition packagist_resolve ::
  "mirror \<Rightarrow> (string \<Rightarrow> bool) \<Rightarrow> string \<Rightarrow> resolver_cache \<times> file_cache \<Rightarrow> string \<times> resolver_cache \<times> file_cache" where
  "packagist_resolve mirror admitted purl st =
     (case st of (c, files) \<Rightarrow>
        (case extract_composer_package purl of
           None \<Rightarrow> ([], c, files)
         | Some (name, version) \<Rightarrow>
             let key = packagist_cache_key name version
             in (case load_value c key of
                   (cached, found) \<Rightarrow>
                     if found then (fst (packagist_split_value cached), c, files)
                     else (case packagist_lookup mirror admitted name version files of
                             (value, files') \<Rightarrow> (fst (packagist_split_value value), store_value key value c, files')))))"

definition packagist_explain :: "resolver_cache \<Rightarrow> string \<Rightarrow> bool \<times> string \<times> bool" where
  "packagist_explain c purl =
     (case extract_composer_package purl of
        None \<Rightarrow> (False, [], False)
      | Some (name, version) \<Rightarrow>
          (case load_value c (packagist_cache_key name version) of
             (v, found) \<Rightarrow>
               if \<not> found then (True, [], False)
               else if snd (split_cache_value v) \<noteq> [] then (True, snd (split_cache_value v), False)
               else (True, [], snd (packagist_split_value v))))"

subsection \<open>Recovered licenses never look like a marker\<close>

lemma split_by_covers: "c \<in> set s \<Longrightarrow> P c \<or> (\<exists>w \<in> set (split_by P s). c \<in> set w)"
  by (induction s) (auto split: list.splits)

lemma spdx_tokens_chars:
  "spdx_tokens_ok b ts \<Longrightarrow> t \<in> set ts \<Longrightarrow> c \<in> set t \<Longrightarrow> c \<noteq> CHR ''!'' \<and> c \<noteq> CHR ''~''"
proof (induction b ts rule: spdx_tokens_ok.induct)
  case (2 b u ts)
  have upper: "c \<in> set ''ANDORWITH'' \<or> char_between CHR ''a'' CHR ''z'' c" if "to_upper t = k" "k \<in> {''AND'', ''OR'', ''WITH''}" for k
  proof -
    have "upper_char c \<in> set k" using that(1) 2(5) by (auto simp: to_upper_def)
    then show ?thesis using that(2) by (auto simp: upper_char_def split: if_splits)
  qed
  have id: "id_char c" if "match_string spdx_id_token t"
    using that 2(5) by (auto simp: spdx_id_token_iff id_char_def)
  have marks: "\<not> id_char CHR ''!''" "\<not> id_char CHR ''~''" "\<not> char_between CHR ''a'' CHR ''z'' CHR ''!''"
      "\<not> char_between CHR ''a'' CHR ''z'' CHR ''~''"
    by (simp_all add: id_char_def is_letter_def is_digit_def char_between_def)
  show ?case
  proof (cases "t = u")
    case True
    have "(\<exists>k \<in> {''AND'', ''OR'', ''WITH''}. to_upper t = k) \<or> match_string spdx_id_token t"
      using 2(3) True by (auto split: if_splits)
    then show ?thesis using upper id marks by auto
  next
    case False
    then show ?thesis using 2 by (auto split: if_splits)
  qed
qed simp

lemma looks_like_spdx_chars:
  assumes "looks_like_spdx s" "c \<in> set s"
  shows "c \<noteq> CHR ''!'' \<and> c \<noteq> CHR ''~''"
proof -
  let ?sep = "\<lambda>r. r = CHR '' '' \<or> r = CHR 0x09 \<or> r = CHR ''('' \<or> r = CHR '')''"
  consider "?sep c" | w where "w \<in> set (split_by ?sep s)" "c \<in> set w"
    using split_by_covers [OF assms(2), of ?sep] by blast
  then show ?thesis
  proof cases
    case 2
    then have "w \<in> set (fields_by ?sep s)" by (auto simp: fields_by_def)
    moreover have "spdx_tokens_ok True (fields_by ?sep s)"
      using assms(1) by (simp add: looks_like_spdx_def Let_def)
    ultimately show ?thesis using 2(2) by (intro spdx_tokens_chars)
  qed auto
qed

lemma recover_chars: "c \<in> set (recover raw) \<Longrightarrow> c \<noteq> CHR ''!'' \<and> c \<noteq> CHR ''~''"
proof -
  have "recover raw = [] \<or> looks_like_spdx (recover raw)"
    using license_ref_looks_like_spdx [of "trim_space raw"] by (simp add: recover_def Let_def)
  moreover assume "c \<in> set (recover raw)"
  ultimately show ?thesis using looks_like_spdx_chars by (metis list.set_cases list.distinct(1))
qed

lemma set_join_with: "set (join_with sep xs) \<subseteq> set sep \<union> \<Union> (set ` set xs)"
  by (induction sep xs rule: join_with.induct) auto

lemma composer_expression_chars: "c \<in> set (composer_expression ls) \<Longrightarrow> c \<noteq> CHR ''!'' \<and> c \<noteq> CHR ''~''"
proof -
  assume c: "c \<in> set (composer_expression ls)"
  define parts where "parts = filter (\<lambda>l. l \<noteq> []) (map recover ls)"
  define parts' where "parts' = (if length parts > 1
    then map (\<lambda>p. if contains_str p '' '' then ''('' @ p @ '')'' else p) parts else parts)"
  have "c \<in> set (join_with '' OR '' parts')"
    using c unfolding composer_expression_def Let_def parts'_def parts_def .
  then have "c \<in> set '' OR '' \<or> (\<exists>p \<in> set parts'. c \<in> set p)"
    using set_join_with [of "'' OR ''" parts'] by blast
  moreover have "c \<in> set ''()'' \<or> (\<exists>p \<in> set parts. c \<in> set p)" if "p \<in> set parts'" "c \<in> set p" for p
    using that by (auto simp: parts'_def split: if_splits)
  ultimately have "c \<in> set '' OR ()'' \<or> (\<exists>l \<in> set ls. c \<in> set (recover l))"
    by (auto simp: parts_def)
  then show ?thesis using recover_chars by auto
qed

lemma composer_expression_split:
  "split_cache_value (composer_expression ls) = (composer_expression ls, [])"
  "packagist_split_value (composer_expression ls) = (composer_expression ls, False)"
  "packagist_split_value (latest_marker @ composer_expression ls) = (composer_expression ls, True)"
proof -
  have "\<not> has_prefix (composer_expression ls) ''!''" "\<not> has_prefix (composer_expression ls) ''~''"
    using composer_expression_chars [of _ ls] by (cases "composer_expression ls"; auto simp: has_prefix_def)+
  then show "split_cache_value (composer_expression ls) = (composer_expression ls, [])"
    "packagist_split_value (composer_expression ls) = (composer_expression ls, False)"
    "packagist_split_value (latest_marker @ composer_expression ls) = (composer_expression ls, True)"
    by (simp_all add: packagist_split_value_def latest_marker_def trim_prefix_def has_prefix_def [of "CHR ''~'' # _"])
qed

subsection \<open>Which release answers\<close>

text \<open>
  What the mirror says of a file, without the file cache: no answer, not known, or its versions. A
  file cache is sound when it holds such answers.
\<close>

definition files_sound :: "mirror \<Rightarrow> file_cache \<Rightarrow> bool" where
  "files_sound mirror files \<longleftrightarrow> (\<forall>name v. files name = Some v \<longrightarrow> read_p2 name (mirror name) = Some v)"

lemma package_versions_sound:
  assumes "files_sound mirror files" "package_versions mirror (\<lambda>_. True) name files = (r, files')"
  shows "r = read_p2 name (mirror name)" "files_sound mirror files'"
proof -
  show "r = read_p2 name (mirror name)"
  proof (cases "files name")
    case (Some v)
    then have "read_p2 name (mirror name) = Some v" using assms(1) by (simp add: files_sound_def)
    with Some assms(2) show ?thesis by (simp add: package_versions_def)
  qed (use assms(2) in \<open>auto simp: package_versions_def split: option.splits\<close>)
  show "files_sound mirror files'"
    using assms by (auto simp: package_versions_def files_sound_def split: option.splits if_splits)
qed

text \<open>The release whose license is reported, and whether it stands in for the requested version.\<close>

definition chosen_release :: "mirror \<Rightarrow> string \<Rightarrow> string \<Rightarrow> (composer_version \<times> bool) option" where
  "chosen_release mirror name version =
     (let exact = (\<lambda>name. case read_p2 name (mirror name) of Some (Some vs) \<Rightarrow> find_version vs version | _ \<Rightarrow> None);
          newest = (case read_p2 name (mirror name) of Some (Some (v # _)) \<Rightarrow> Some (v, True) | _ \<Rightarrow> None)
      in if is_dev_version version
         then (case read_p2 (name @ ''~dev'') (mirror (name @ ''~dev'')) of
                 None \<Rightarrow> None
               | _ \<Rightarrow> (case exact (name @ ''~dev'') of Some v \<Rightarrow> Some (v, False) | None \<Rightarrow> newest))
         else if version = [] then newest
         else (case exact name of Some v \<Rightarrow> Some (v, False) | None \<Rightarrow> newest))"

lemma find_version_Nil [simp]: "find_version [] version = None"
  by (simp add: find_version_def)

lemma license_value_split:
  "packagist_split_value (license_value ls) = (composer_expression ls, False)"
  "snd (split_cache_value (license_value ls)) = (if composer_expression ls = [] then reason_no_license_upstream else [])"
proof -
  have "packagist_split_value (negative_cache_value reason_no_license_upstream) = ([], False)"
    by (simp add: packagist_split_value_def latest_marker_def negative_cache_value_def negative_marker_def
        reason_defs has_prefix_def split_cache_value_def)
  then show "packagist_split_value (license_value ls) = (composer_expression ls, False)"
    by (simp add: license_value_def Let_def composer_expression_split)
  show "snd (split_cache_value (license_value ls)) = (if composer_expression ls = [] then reason_no_license_upstream else [])"
    by (simp add: license_value_def Let_def composer_expression_split reason_defs)
qed

lemma stable_value_split:
  "packagist_split_value (stable_value (Some vs) version) =
     (case (if version \<noteq> [] \<and> \<not> is_dev_version version then find_version vs version else None) of
        Some v \<Rightarrow> (composer_expression (cv_license v), False)
      | None \<Rightarrow> (case vs of [] \<Rightarrow> ([], False)
               | v # _ \<Rightarrow> (composer_expression (cv_license v), composer_expression (cv_license v) \<noteq> [])))"
  "packagist_split_value (stable_value None version) = ([], False)"
proof -
  have neg: "packagist_split_value (negative_cache_value r) = ([], False)"
    if "r \<in> {reason_no_license_upstream, reason_not_published}" for r
    using that by (auto simp: packagist_split_value_def latest_marker_def negative_cache_value_def negative_marker_def
        reason_defs has_prefix_def split_cache_value_def)
  have newest: "packagist_split_value (if snd (split_cache_value (license_value ls)) \<noteq> [] then license_value ls
      else latest_marker @ license_value ls) = (composer_expression ls, composer_expression ls \<noteq> [])" for ls
  proof (cases "composer_expression ls = []")
    case True
    then show ?thesis using license_value_split [of ls] by (simp add: reason_defs)
  next
    case False
    then have "license_value ls = composer_expression ls" by (simp add: license_value_def)
    with False show ?thesis by (simp add: composer_expression_split)
  qed
  have marked: "packagist_split_value (latest_marker @ license_value ls) = (composer_expression ls, True)"
    if "composer_expression ls \<noteq> []" for ls
    using that by (simp add: license_value_def composer_expression_split)
  show "packagist_split_value (stable_value (Some vs) version) =
     (case (if version \<noteq> [] \<and> \<not> is_dev_version version then find_version vs version else None) of
        Some v \<Rightarrow> (composer_expression (cv_license v), False)
      | None \<Rightarrow> (case vs of [] \<Rightarrow> ([], False)
               | v # _ \<Rightarrow> (composer_expression (cv_license v), composer_expression (cv_license v) \<noteq> [])))"
    unfolding stable_value_def Let_def option.case
    by (cases vs) (simp_all add: newest marked neg license_value_split split: option.split)
  show "packagist_split_value (stable_value None version) = ([], False)"
    by (simp add: stable_value_def neg)
qed

lemma packagist_lookup_answer:
  assumes "files_sound mirror files" "packagist_lookup mirror (\<lambda>_. True) name version files = (v, files')"
  shows "files_sound mirror files'"
    and "packagist_split_value v = (case chosen_release mirror name version of None \<Rightarrow> ([], False)
      | Some (r, latest) \<Rightarrow> (composer_expression (cv_license r), latest \<and> composer_expression (cv_license r) \<noteq> []))"
proof -
  let ?stable = "read_p2 name (mirror name)"
  let ?newest = "case ?stable of Some (Some (v # _)) \<Rightarrow> Some (v, True) | _ \<Rightarrow> None"
  let ?exact = "if version \<noteq> [] \<and> \<not> is_dev_version version
    then (case ?stable of Some (Some vs) \<Rightarrow> find_version vs version | _ \<Rightarrow> None) else None"
  have empty: "packagist_split_value [] = ([], False)"
    by (simp add: packagist_split_value_def latest_marker_def has_prefix_def split_cache_value_def negative_marker_def)
  have from_stable: "packagist_split_value (case ?stable of None \<Rightarrow> [] | Some s \<Rightarrow> stable_value s version) =
      (case (case ?exact of Some v \<Rightarrow> Some (v, False) | None \<Rightarrow> ?newest) of None \<Rightarrow> ([], False)
       | Some (r, latest) \<Rightarrow> (composer_expression (cv_license r), latest \<and> composer_expression (cv_license r) \<noteq> []))"
  proof (cases ?stable)
    case (Some s)
    then show ?thesis by (cases s) (auto simp: stable_value_split split: option.split list.split)
  qed (simp add: empty)
  have stable: "files_sound mirror (snd (case package_versions mirror (\<lambda>_. True) name fs of
        (None, fs') \<Rightarrow> ([], fs') | (Some releases, fs') \<Rightarrow> (stable_value releases version, fs'))) \<and>
      fst (case package_versions mirror (\<lambda>_. True) name fs of
        (None, fs') \<Rightarrow> ([], fs') | (Some releases, fs') \<Rightarrow> (stable_value releases version, fs')) =
      (case ?stable of None \<Rightarrow> [] | Some s \<Rightarrow> stable_value s version)" if "files_sound mirror fs" for fs
    using package_versions_sound [OF that, of name] by (auto split: prod.split option.split)
  have "files_sound mirror files' \<and> packagist_split_value v = (case chosen_release mirror name version of None \<Rightarrow> ([], False)
      | Some (r, latest) \<Rightarrow> (composer_expression (cv_license r), latest \<and> composer_expression (cv_license r) \<noteq> []))"
  proof (cases "is_dev_version version")
    case False
    then have "v = (case ?stable of None \<Rightarrow> [] | Some s \<Rightarrow> stable_value s version)" "files_sound mirror files'"
      using assms(2) stable [OF assms(1)] by (auto simp: packagist_lookup_def Let_def)
    with False from_stable show ?thesis
      by (auto simp: chosen_release_def Let_def)
  next
    case True
    obtain dev fs where dev: "package_versions mirror (\<lambda>_. True) (name @ ''~dev'') files = (dev, fs)" by fastforce
    note sound = package_versions_sound [OF assms(1) dev]
    show ?thesis
    proof (cases dev)
      case None
      then show ?thesis
        using assms(2) True dev sound by (auto simp: packagist_lookup_def Let_def chosen_release_def empty)
    next
      case (Some d)
      let ?vs = "case d of None \<Rightarrow> [] | Some vs \<Rightarrow> vs"
      have devfile: "read_p2 (name @ ''~dev'') (mirror (name @ ''~dev'')) = Some d"
        using sound(1) Some by simp
      show ?thesis
      proof (cases "find_version ?vs version")
        case (Some r)
        then have "v = license_value (cv_license r)" "files' = fs"
          using assms(2) True dev \<open>dev = Some d\<close> by (auto simp: packagist_lookup_def Let_def)
        moreover have "chosen_release mirror name version = Some (r, False)"
          using True devfile Some by (cases d) (simp_all add: chosen_release_def Let_def)
        ultimately show ?thesis using sound(2) by (simp add: license_value_split)
      next
        case None
        then have "v = (case ?stable of None \<Rightarrow> [] | Some s \<Rightarrow> stable_value s version)" "files_sound mirror files'"
          using assms(2) True dev \<open>dev = Some d\<close> stable [OF sound(2)] by (auto simp: packagist_lookup_def Let_def)
        moreover have "chosen_release mirror name version = ?newest"
          using True devfile None by (cases d) (simp_all add: chosen_release_def Let_def)
        ultimately show ?thesis using from_stable True by simp
      qed
    qed
  qed
  then show "files_sound mirror files'"
    "packagist_split_value v = (case chosen_release mirror name version of None \<Rightarrow> ([], False)
      | Some (r, latest) \<Rightarrow> (composer_expression (cv_license r), latest \<and> composer_expression (cv_license r) \<noteq> []))"
    by blast+
qed

text \<open>
  C40: Without a cached answer the resolver reports the license of the release Packagist lists for the
  requested version, in the release file or, for a development branch, in the branch file; when
  that version is not listed, the one of the newest release, and \<open>Explain\<close> then marks it as such.
  The file cache, holding answers of the mirror, does not change this, and stays sound.
\<close>

theorem packagist_picks_release:
  assumes "files_sound mirror files" "extract_composer_package purl = Some (name, version)"
    and "c (packagist_cache_key name version) = None"
    and "packagist_resolve mirror (\<lambda>_. True) purl (c, files) = (lic, c', files')"
  shows "files_sound mirror files' \<and>
    lic = (case chosen_release mirror name version of None \<Rightarrow> [] | Some (v, _) \<Rightarrow> composer_expression (cv_license v)) \<and>
    (snd (snd (packagist_explain c' purl)) \<longleftrightarrow>
      lic \<noteq> [] \<and> (\<exists>v. chosen_release mirror name version = Some (v, True)))"
proof -
  obtain v files2 where look: "packagist_lookup mirror (\<lambda>_. True) name version files = (v, files2)" by fastforce
  have res: "lic = fst (packagist_split_value v)" "c' = store_value (packagist_cache_key name version) v c" "files' = files2"
    using assms(2-4) look by (auto simp: packagist_resolve_def load_value_def)
  note answer = packagist_lookup_answer [OF assms(1) look]
  let ?r = "chosen_release mirror name version"
  have lic: "lic = (case ?r of None \<Rightarrow> [] | Some (v, _) \<Rightarrow> composer_expression (cv_license v))"
    using answer(2) by (auto simp: res(1) split: option.split)
  have "snd (snd (packagist_explain c' purl)) \<longleftrightarrow> snd (packagist_split_value v)"
  proof (cases "v = []")
    case True
    then show ?thesis
      using assms(2,3)
      by (simp add: packagist_explain_def res(2) load_value_def store_value_def packagist_split_value_def
          has_prefix_def latest_marker_def)
  next
    case False
    have "\<not> has_prefix v ''~''" if "snd (split_cache_value v) \<noteq> []"
      using that by (cases v) (auto simp: split_cache_value_def has_prefix_def negative_marker_def split: if_splits)
    then show ?thesis
      using assms(2) False
      by (auto simp: packagist_explain_def res(2) load_value_def store_value_def packagist_split_value_def latest_marker_def)
  qed
  also have "\<dots> \<longleftrightarrow> lic \<noteq> [] \<and> (\<exists>v. ?r = Some (v, True))"
    using answer(2) by (auto simp: lic split: option.split)
  finally show ?thesis using answer(1) lic res(3) by blast
qed

definition sample_mirror :: mirror where
  "sample_mirror name =
     (if name = ''acme/lib''
      then HttpResponse 200 (Some (\<lambda>_. [\<lparr>ce_license = Some (ComposerString ''MIT''), ce_version = Some ''v2.0.0''\<rparr>,
             \<lparr>ce_license = None, ce_version = Some ''1.0.0''\<rparr>]))
      else HttpResponse 404 None)"

theorem packagist_picks_release_witness:
  "fst (packagist_resolve sample_mirror (\<lambda>_. True) ''pkg:composer/acme/lib@1.0.0'' (Map.empty, Map.empty)) = ''MIT''"
proof -
  let ?r = "packagist_resolve sample_mirror (\<lambda>_. True) ''pkg:composer/acme/lib@1.0.0'' (Map.empty, Map.empty)"
  have x: "extract_composer_package ''pkg:composer/acme/lib@1.0.0'' = Some (''acme/lib'', ''1.0.0'')" by code_simp
  have chosen: "(case chosen_release sample_mirror ''acme/lib'' ''1.0.0'' of None \<Rightarrow> [] | Some (v, _) \<Rightarrow> composer_expression (cv_license v)) = ''MIT''"
    by code_simp
  obtain lic c' files' where r: "?r = (lic, c', files')" using prod_cases3 by blast
  have "lic = (case chosen_release sample_mirror ''acme/lib'' ''1.0.0'' of None \<Rightarrow> [] | Some (v, _) \<Rightarrow> composer_expression (cv_license v))"
    using packagist_picks_release [OF _ x _ r] by (simp add: files_sound_def)
  with r chosen show ?thesis by simp
qed

end
