(* ===== verification/Go_Url.thy ===== *)
theory Go_Url
  imports Prelude
begin

text \<open>
  \<open>net/url.Parse\<close> of Go's standard library, as far as the program reads its result: scheme, host,
  path, fragment, raw query and whether user information is present. Strings are byte strings, an
  error is \<open>None\<close>. Address literals in brackets (\<open>[fe80::1]:80\<close>), whose syntax is that of
  \<open>net/netip\<close>, are a parameter: what \<open>parseHost\<close> returns for them. The module's language version
  (1.26) rejects a second colon in the host.
\<close>

record url =
  ur_scheme :: string
  ur_has_user :: bool
  ur_host :: string
  ur_path :: string
  ur_raw_query :: string
  ur_fragment :: string

definition ctl_byte :: "char \<Rightarrow> bool" where
  "ctl_byte c \<longleftrightarrow> (of_char c :: nat) < 32 \<or> (of_char c :: nat) = 127"

text \<open>\<open>getScheme\<close>: \<open>None\<close> is the error, the empty scheme means there is none.\<close>

fun scheme_end :: "bool \<Rightarrow> string \<Rightarrow> string \<Rightarrow> (string \<times> string) option option" where
  "scheme_end start acc [] = Some None"
| "scheme_end start acc (c # cs) =
     (if is_letter c then scheme_end False (acc @ [c]) cs
      else if is_digit c \<or> c = CHR ''+'' \<or> c = CHR ''-'' \<or> c = CHR ''.''
      then (if start then Some None else scheme_end False (acc @ [c]) cs)
      else if c = CHR '':''
      then (if start then None else Some (Some (acc, cs)))
      else Some None)"

definition get_scheme :: "string \<Rightarrow> (string \<times> string) option" where
  "get_scheme s = map_option (\<lambda>r. case r of None \<Rightarrow> ([], s) | Some p \<Rightarrow> p) (scheme_end True [] s)"

text \<open>Bytes a host may hold unescaped, and the escapes it may hold: non-ASCII bytes and \<open>%25\<close>.\<close>

definition host_byte :: "char \<Rightarrow> bool" where
  "host_byte c \<longleftrightarrow> is_letter c \<or> is_digit c \<or> c \<in> set ''-_.~!$&()*+,;=:[]<>'' \<or> c = CHR 0x27 \<or> c = CHR 0x22
     \<or> (of_char c :: nat) \<ge> 128"

fun host_unescape :: "string \<Rightarrow> string option" where
  "host_unescape [] = Some []"
| "host_unescape (c # cs) =
     (if c = CHR ''%''
      then (case cs of
              a # b # rest \<Rightarrow>
                (case (hex_value a, hex_value b) of
                   (Some x, Some y) \<Rightarrow>
                     (if x < 8 \<and> \<not> (a = CHR ''2'' \<and> b = CHR ''5'') then None
                      else map_option (\<lambda>s. char_of (16 * x + y) # s) (host_unescape rest))
                 | _ \<Rightarrow> None)
            | _ \<Rightarrow> None)
      else if host_byte c then map_option (\<lambda>s. c # s) (host_unescape cs) else None)"

definition valid_optional_port :: "string \<Rightarrow> bool" where
  "valid_optional_port p \<longleftrightarrow> p = [] \<or> (hd p = CHR '':'' \<and> (\<forall>c \<in> set (tl p). is_digit c))"

definition parse_host :: "(string \<Rightarrow> string option) \<Rightarrow> string \<Rightarrow> string option" where
  "parse_host ip_literal host =
     (if CHR ''['' \<in> set host then ip_literal host
      else (case str_index host '':'' of
              None \<Rightarrow> host_unescape host
            | Some i \<Rightarrow> if valid_optional_port (drop i host) then host_unescape host else None))"

definition userinfo_byte :: "char \<Rightarrow> bool" where
  "userinfo_byte c \<longleftrightarrow> is_letter c \<or> is_digit c \<or> c \<in> set ''-._:~!$&()*+,;=%@'' \<or> c = CHR 0x27"

definition userinfo_ok :: "string \<Rightarrow> bool" where
  "userinfo_ok u \<longleftrightarrow>
     (\<forall>c \<in> set u. userinfo_byte c) \<and>
     (case str_cut u '':'' of
        None \<Rightarrow> path_unescape u \<noteq> None
      | Some (name, password) \<Rightarrow> path_unescape name \<noteq> None \<and> path_unescape password \<noteq> None)"

text \<open>User information present or not, and the host.\<close>

definition parse_authority :: "(string \<Rightarrow> string option) \<Rightarrow> string \<Rightarrow> (bool \<times> string) option" where
  "parse_authority ip_literal a =
     (case str_last_index a ''@'' of
        None \<Rightarrow> map_option (\<lambda>h. (False, h)) (parse_host ip_literal a)
      | Some i \<Rightarrow>
          (case parse_host ip_literal (drop (i + 1) a) of
             None \<Rightarrow> None
           | Some h \<Rightarrow> if userinfo_ok (take i a) then Some (True, h) else None))"

definition cut_at :: "string \<Rightarrow> string \<Rightarrow> string \<times> string" where
  "cut_at s sep = (case str_cut s sep of None \<Rightarrow> (s, []) | Some p \<Rightarrow> p)"

definition cut_query :: "string \<Rightarrow> string \<times> string" where
  "cut_query rest =
     (if has_suffix rest ''?'' \<and> length (filter (\<lambda>c. c = CHR ''?'') rest) = 1 then (butlast rest, [])
      else cut_at rest ''?'')"

definition parse_hierarchical :: "(string \<Rightarrow> string option) \<Rightarrow> string \<Rightarrow> string \<Rightarrow> string \<Rightarrow> url option" where
  "parse_hierarchical ip_literal scheme rest query =
     (let located = (scheme \<noteq> [] \<or> \<not> has_prefix rest ''///'') \<and> has_prefix rest ''//'';
          after = drop 2 rest;
          authority = (case str_index after ''/'' of None \<Rightarrow> after | Some i \<Rightarrow> take i after);
          path = (if located then drop (length authority) after else rest)
      in (case (if located then parse_authority ip_literal authority else Some (False, [])) of
            None \<Rightarrow> None
          | Some (user, host) \<Rightarrow>
              map_option (\<lambda>p. \<lparr>ur_scheme = scheme, ur_has_user = user, ur_host = host, ur_path = p,
                               ur_raw_query = query, ur_fragment = []\<rparr>) (path_unescape path)))"

definition parse_url_body :: "(string \<Rightarrow> string option) \<Rightarrow> string \<Rightarrow> url option" where
  "parse_url_body ip_literal s =
     (if \<exists>c \<in> set s. ctl_byte c then None
      else if s = ''*'' then Some \<lparr>ur_scheme = [], ur_has_user = False, ur_host = [], ur_path = ''*'',
                                   ur_raw_query = [], ur_fragment = []\<rparr>
      else (case get_scheme s of
              None \<Rightarrow> None
            | Some (scheme0, rest0) \<Rightarrow>
                let scheme = to_lower scheme0; (rest, query) = cut_query rest0
                in if has_prefix rest ''/'' then parse_hierarchical ip_literal scheme rest query
                   else if scheme \<noteq> []
                   then Some \<lparr>ur_scheme = scheme, ur_has_user = False, ur_host = [], ur_path = [],
                              ur_raw_query = query, ur_fragment = []\<rparr>
                   else if contains_str (fst (cut_at rest ''/'')) '':'' then None
                   else parse_hierarchical ip_literal scheme rest query))"

definition parse_url :: "(string \<Rightarrow> string option) \<Rightarrow> string \<Rightarrow> url option" where
  "parse_url ip_literal raw =
     (let (u, frag) = cut_at raw ''#''
      in (case parse_url_body ip_literal u of
            None \<Rightarrow> None
          | Some r \<Rightarrow>
              if frag = [] then Some r
              else map_option (\<lambda>f. r\<lparr>ur_fragment := f\<rparr>) (path_unescape frag)))"

subsection \<open>Plain URLs\<close>

text \<open>Bytes with no meaning of their own in any part of a URL.\<close>

definition name_byte :: "char \<Rightarrow> bool" where
  "name_byte c \<longleftrightarrow> is_letter c \<or> is_digit c \<or> c = CHR ''-'' \<or> c = CHR ''_'' \<or> c = CHR ''.''"

lemma name_byteD:
  assumes "name_byte c"
  shows "\<not> ctl_byte c" "host_byte c" "\<not> go_space c" "c \<noteq> CHR ''/''" "c \<noteq> CHR ''@''" "c \<noteq> CHR ''%''" "c \<noteq> CHR ''?''"
    "c \<noteq> CHR ''#''" "c \<noteq> CHR '':''" "c \<noteq> CHR ''[''" "c \<noteq> CHR ''+''" "userinfo_byte c"
  using assms
  by (auto simp: name_byte_def ctl_byte_def host_byte_def userinfo_byte_def is_letter_def is_digit_def char_between_def go_space_def)

lemma host_unescape_plain: "\<forall>c \<in> set h. name_byte c \<Longrightarrow> host_unescape h = Some h"
  by (induction h) (simp_all add: name_byteD)

lemma parse_host_plain:
  assumes "\<forall>c \<in> set h. name_byte c"
  shows "parse_host ip_literal h = Some h"
proof -
  have "CHR ''['' \<notin> set h" "CHR '':'' \<notin> set h" using assms name_byteD(9,10) by auto
  then show ?thesis
    using host_unescape_plain [OF assms] by (simp add: parse_host_def str_index_single_none)
qed

lemma scheme_end_letters:
  "\<forall>c \<in> set w. is_letter c \<Longrightarrow> w \<noteq> [] \<or> \<not> st \<Longrightarrow>
     scheme_end st acc (w @ CHR '':'' # cs) = Some (Some (acc @ w, cs))"
proof (induction w arbitrary: st acc)
  case (Cons a w)
  have "scheme_end st acc ((a # w) @ CHR '':'' # cs) = scheme_end False (acc @ [a]) (w @ CHR '':'' # cs)"
    using Cons.prems by simp
  then show ?case using Cons by simp
qed (auto simp: is_letter_def is_digit_def char_between_def)

lemma parse_url_plain:
  assumes scheme: "scheme \<noteq> []" "\<forall>c \<in> set scheme. is_letter c" and host: "\<forall>c \<in> set host. name_byte c"
    and user: "user = [] \<or> (\<exists>name. user = name @ ''@'' \<and> (\<forall>c \<in> set name. name_byte c))"
    and path: "\<forall>c \<in> set path. name_byte c \<or> c = CHR ''/'' \<or> c = CHR ''@''" "path = [] \<or> hd path = CHR ''/''"
  shows "parse_url ip_literal (scheme @ ''://'' @ user @ host @ path) =
    Some \<lparr>ur_scheme = to_lower scheme, ur_has_user = (user \<noteq> []), ur_host = host, ur_path = path,
          ur_raw_query = [], ur_fragment = []\<rparr>"
proof -
  let ?s = "scheme @ ''://'' @ user @ host @ path" and ?rest = "''//'' @ user @ host @ path"
  have letter: "name_byte c" if "c \<in> set scheme" for c using that scheme(2) by (simp add: name_byte_def)
  have user_set: "name_byte c \<or> c = CHR ''@''" if "c \<in> set user" for c using that user by auto
  have "name_byte c \<or> c \<in> {CHR '':'', CHR ''/'', CHR ''@''}" if "c \<in> set ?s" for c
    using that host path(1) letter user_set by auto
  moreover have "c \<noteq> CHR ''#'' \<and> c \<noteq> CHR ''?'' \<and> \<not> ctl_byte c \<and> c \<noteq> CHR ''%''"
    if "name_byte c \<or> c \<in> {CHR '':'', CHR ''/'', CHR ''@''}" for c
    using that by (elim disjE) (simp add: name_byteD, auto simp: ctl_byte_def)
  ultimately have chars: "c \<noteq> CHR ''#'' \<and> c \<noteq> CHR ''?'' \<and> \<not> ctl_byte c \<and> c \<noteq> CHR ''%''" if "c \<in> set ?s" for c
    using that by blast
  have hash: "cut_at ?s ''#'' = (?s, [])"
    using chars [of "CHR ''#''"] unfolding cut_at_def by (subst str_cut_single_none) auto
  have no_q: "CHR ''?'' \<notin> set ?rest" using chars [of "CHR ''?''"] by auto
  have "\<not> has_suffix ?rest ''?''"
  proof
    assume "has_suffix ?rest ''?''"
    then obtain t where "?rest = t @ ''?''" unfolding has_suffix_iff by blast
    then show False using no_q by (metis in_set_conv_decomp)
  qed
  moreover have "str_cut ?rest ''?'' = None" using no_q by (intro str_cut_single_none)
  ultimately have query: "cut_query ?rest = (?rest, [])"
    by (simp add: cut_query_def cut_at_def)
  have gs: "get_scheme ?s = Some (scheme, ?rest)"
    using scheme_end_letters [OF scheme(2), of True "[]" ?rest] scheme(1) by (simp add: get_scheme_def)
  have before: "CHR ''/'' \<notin> set (user @ host)" 
    using host user_set name_byteD(4) [of "CHR ''/''"] user_set [of "CHR ''/''"] by auto
  have auth: "(case str_index (user @ host @ path) ''/'' of None \<Rightarrow> user @ host @ path
      | Some i \<Rightarrow> take i (user @ host @ path)) = user @ host"
  proof (cases path)
    case Nil
    then show ?thesis using before str_index_single_none by fastforce
  next
    case (Cons c p)
    then have "user @ host @ path = (user @ host) @ CHR ''/'' # p" using path(2) by simp
    then show ?thesis using str_index_single [OF before, of p] by simp
  qed
  have authority: "parse_authority ip_literal (user @ host) = Some (user \<noteq> [], host)"
  proof (cases "user = []")
    case True
    have "CHR ''@'' \<notin> set host" using host name_byteD(5) by auto
    then show ?thesis
      using True parse_host_plain [OF host] str_last_index_None [of host "CHR ''@''"]
      by (simp add: parse_authority_def)
  next
    case False
    then obtain name where name: "user = name @ ''@''" "\<forall>c \<in> set name. name_byte c" using user by blast
    have "CHR ''@'' \<notin> set host" using host name_byteD(5) by auto
    then have "str_last_index (name @ CHR ''@'' # host) ''@'' = Some (length name)"
      by (rule str_last_index_split)
    moreover have "userinfo_ok name"
    proof -
      have "CHR '':'' \<notin> set name" "CHR ''%'' \<notin> set name" using name(2) name_byteD(6,9) by auto
      then show ?thesis
        using name(2) by (simp add: userinfo_ok_def str_cut_single_none path_unescape_plain name_byteD)
    qed
    ultimately show ?thesis
      using name parse_host_plain [OF host] by (simp add: parse_authority_def)
  qed
  have "CHR ''%'' \<notin> set path" using chars [of "CHR ''%''"] by auto
  then have "parse_hierarchical ip_literal (to_lower scheme) ?rest [] =
      Some \<lparr>ur_scheme = to_lower scheme, ur_has_user = (user \<noteq> []), ur_host = host, ur_path = path,
            ur_raw_query = [], ur_fragment = []\<rparr>"
    using auth authority scheme(1)
    by (simp add: parse_hierarchical_def Let_def path_unescape_plain has_prefix_def)
  moreover have "?s \<noteq> ''*''" using scheme(1) by (cases scheme) auto
  ultimately have "parse_url_body ip_literal ?s =
      Some \<lparr>ur_scheme = to_lower scheme, ur_has_user = (user \<noteq> []), ur_host = host, ur_path = path,
            ur_raw_query = [], ur_fragment = []\<rparr>"
    using chars scheme(1) unfolding parse_url_body_def gs option.case prod.case Let_def query
    by (subst if_not_P, blast) (simp add: has_prefix_def)
  then show ?thesis
    unfolding parse_url_def hash by simp
qed

end
