(* ===== verification/Source_Repo.thy ===== *)
theory Source_Repo
  imports Go_Url
begin

text \<open>
  Source repository locators, \<open>backend/internal/sourcerepo/sourcerepo.go\<close>. \<open>url.Parse\<close> is the one of
  theory \<open>Go_Url\<close>, with its parameter for address literals.
\<close>

subsection \<open>Tables\<close>

definition browse_markers :: "(string \<times> bool) list" where
  "browse_markers =
     [(''/-/tree/'', False), (''/-/tags/'', False), (''/-/releases/'', False), (''/-/commit/'', True),
      (''/-/commits/'', False),
      (''/src/branch/'', False), (''/src/tag/'', False), (''/src/commit/'', True),
      (''/releases/download/'', True), (''/releases/tag/'', False), (''/tree/'', False), (''/commit/'', True),
      (''/commits/'', False)]"

definition known_forge_hosts :: "string list" where
  "known_forge_hosts =
     [''github.com'', ''gitlab.com'', ''bitbucket.org'', ''codeberg.org'', ''gitea.com'', ''gitee.com'', ''sr.ht'',
      ''git.sr.ht'', ''salsa.debian.org'', ''framagit.org'', ''invent.kde.org'', ''gitlab.freedesktop.org'',
      ''gitlab.gnome.org'', ''git.kernel.org'', ''opendev.org'', ''gerrit.googlesource.com'', ''go.googlesource.com'']"

definition listing_suffixes :: "string list" where
  "listing_suffixes = [''/-/releases'', ''/-/tags'', ''/releases'', ''/tags'', ''/commits'']"

subsection \<open>normalize\<close>

definition is_slash :: "char \<Rightarrow> bool" where "is_slash c \<longleftrightarrow> c = CHR ''/''"

text \<open>\<open>strings.Replace(s, ":", "/", 1)\<close>\<close>

definition replace_first_colon :: "string \<Rightarrow> string" where
  "replace_first_colon s = (case str_cut s '':'' of None \<Rightarrow> s | Some (a, b) \<Rightarrow> a @ ''/'' @ b)"

text \<open>The text handed to \<open>url.Parse\<close> and the evidence so far; \<open>None\<close> is the early return.\<close>

definition locator_text :: "string \<Rightarrow> (string \<times> bool) option" where
  "locator_text raw =
     (let s = trim_space raw
      in if s = [] \<or> to_upper s = ''NOASSERTION'' \<or> to_upper s = ''NONE'' then None
         else
           let git = has_prefix s ''git+''; s = trim_prefix s ''git+''
           in if contains_str s ''://'' then Some (s, git)
              else (case str_index s ''@'' of
                      None \<Rightarrow> None
                    | Some at \<Rightarrow>
                        if at > 0 \<and> contains_str (drop at s) '':''
                        then Some (''ssh://'' @ replace_first_colon s, True)
                        else None))"

text \<open>The suffix after the last \<open>@\<close>, then \<open>.git\<close>.\<close>

definition split_ref :: "string \<Rightarrow> string \<times> string \<times> bool" where
  "split_ref path =
     (case str_last_index path ''@'' of
        None \<Rightarrow> (path, [], False)
      | Some at \<Rightarrow> if at > 0 then (take at path, drop (at + 1) path, True) else (path, [], False))"

fun cut_marker :: "(string \<times> bool) list \<Rightarrow> string \<Rightarrow> string \<Rightarrow> (string \<times> string) option" where
  "cut_marker [] path ref = None"
| "cut_marker ((marker, first_segment_only) # ms) path ref =
     (case str_index path marker of
        None \<Rightarrow> cut_marker ms path ref
      | Some i \<Rightarrow>
          if i = 0 then cut_marker ms path ref
          else
            let rest = trim_by is_slash (drop (i + length marker) path);
                ref' = (if ref = [] \<and> rest \<noteq> [] then (if first_segment_only then fst (cut_at rest ''/'') else rest) else ref)
            in Some (take i path, ref'))"

definition trim_listing :: "string \<Rightarrow> string \<times> bool" where
  "trim_listing path =
     (case find (\<lambda>sfx. has_suffix path sfx \<and> length path > length sfx) listing_suffixes of
        None \<Rightarrow> (path, False)
      | Some sfx \<Rightarrow> (trim_suffix path sfx, True))"

definition normalize_path :: "string \<Rightarrow> string \<times> string \<times> bool" where
  "normalize_path path0 =
     (let (path, ref, e1) = split_ref (trim_suffix path0 ''/'');
          e2 = has_suffix path ''.git'';
          path = trim_suffix path ''.git'';
          (path, ref, e3) = (case cut_marker browse_markers path ref of
             None \<Rightarrow> (path, ref, False) | Some (p, r) \<Rightarrow> (p, r, True));
          (path, e4) = trim_listing path
      in (path, ref, e1 \<or> e2 \<or> e3 \<or> e4))"

definition normalize_locator :: "(string \<Rightarrow> url option) \<Rightarrow> string \<Rightarrow> string \<times> string \<times> bool" where
  "normalize_locator parse raw =
     (case locator_text raw of
        None \<Rightarrow> ([], [], False)
      | Some (s, e0) \<Rightarrow>
          (case parse s of
             None \<Rightarrow> ([], [], False)
           | Some u \<Rightarrow>
               if ur_scheme u \<notin> {''http'', ''https'', ''git'', ''ssh''} \<or> ur_host u = [] then ([], [], False)
               else
                 let host = to_lower (ur_host u);
                     e1 = ur_scheme u \<in> {''git'', ''ssh''} \<or> host \<in> set known_forge_hosts;
                     (path, ref, e2) = normalize_path (ur_path u)
                 in if path = [] \<or> path = ''/'' then ([], [], False)
                    else (''https://'' @ host @ path,
                          trim_space (if ref = [] then ur_fragment u else ref),
                          e0 \<or> e1 \<or> e2)))"

definition normalize_repo :: "(string \<Rightarrow> url option) \<Rightarrow> string \<Rightarrow> string \<times> string" where
  "normalize_repo parse raw = (case normalize_locator parse raw of (repo, ref, evident) \<Rightarrow> (repo, ref))"

definition normalize_strict :: "(string \<Rightarrow> url option) \<Rightarrow> string \<Rightarrow> string \<times> string" where
  "normalize_strict parse raw =
     (case normalize_locator parse raw of (repo, ref, evident) \<Rightarrow> if evident then (repo, ref) else ([], []))"

subsection \<open>Explicitly supplied values\<close>

definition is_valid_repo_url :: "(string \<Rightarrow> url option) \<Rightarrow> string \<Rightarrow> bool" where
  "is_valid_repo_url parse s =
     (case parse s of
        None \<Rightarrow> False
      | Some u \<Rightarrow> (ur_scheme u = ''http'' \<or> ur_scheme u = ''https'') \<and> ur_host u \<noteq> [] \<and> \<not> ur_has_user u
                   \<and> trim_by is_slash (ur_path u) \<noteq> [])"

text \<open>A multi-byte rune is above the space, so the bytes decide.\<close>

definition is_valid_ref :: "string \<Rightarrow> bool" where
  "is_valid_ref s \<longleftrightarrow> s \<noteq> [] \<and> length s \<le> 256 \<and> (\<forall>c \<in> set s. 32 < (of_char c :: nat) \<and> (of_char c :: nat) \<noteq> 127)"

subsection \<open>Paths by segments\<close>

definition slashed :: "string list \<Rightarrow> string" where
  "slashed segs = concat (map ((#) (CHR ''/'')) segs)"

definition slash_free :: "string list \<Rightarrow> bool" where
  "slash_free segs \<longleftrightarrow> (\<forall>s \<in> set segs. CHR ''/'' \<notin> set s)"

lemma slashed_simps [simp]:
  "slashed [] = []" "slashed (s # segs) = CHR ''/'' # s @ slashed segs"
  by (simp_all add: slashed_def)

lemma slash_free_simps [simp]:
  "slash_free []" "slash_free (s # segs) \<longleftrightarrow> CHR ''/'' \<notin> set s \<and> slash_free segs"
  by (auto simp: slash_free_def)

lemma split_at_slash:
  assumes "CHR ''/'' \<notin> set a" "CHR ''/'' \<notin> set b" "x = [] \<or> hd x = CHR ''/''"
  shows "has_prefix (a @ x) (b @ CHR ''/'' # y) \<longleftrightarrow> a = b \<and> has_prefix x (CHR ''/'' # y)"
  using assms
proof (induction b arbitrary: a)
  case Nil
  then show ?case by (cases a) (auto simp: has_prefix_iff)
next
  case (Cons c b)
  then show ?case by (cases a) (auto simp: has_prefix_iff)
qed

lemma slashed_tail: "slashed segs @ ''/'' = CHR ''/'' # tl (slashed segs @ ''/'')"
  by (cases segs) auto

lemma slashed_head: "slashed segs = [] \<or> hd (slashed segs) = CHR ''/''"
  by (cases segs) auto

lemma prefix_slashed:
  assumes "slash_free segs" "slash_free ms"
  shows "has_prefix (slashed segs) (slashed ms @ ''/'') \<longleftrightarrow> take (length ms) segs = ms \<and> length ms < length segs"
  using assms
proof (induction ms arbitrary: segs)
  case Nil
  then show ?case by (cases segs) (auto simp: has_prefix_iff)
next
  case (Cons m ms)
  show ?case
  proof (cases segs)
    case (Cons s segs')
    have "has_prefix (slashed segs) (slashed (m # ms) @ ''/'') \<longleftrightarrow>
        has_prefix (s @ slashed segs') (m @ CHR ''/'' # tl (slashed ms @ ''/''))"
      using Cons slashed_tail [of ms] by (simp add: has_prefix_def)
    also have "\<dots> \<longleftrightarrow> s = m \<and> has_prefix (slashed segs') (CHR ''/'' # tl (slashed ms @ ''/''))"
      using Cons.prems Cons by (intro split_at_slash) (auto simp: slashed_head)
    finally show ?thesis
      using Cons.IH [of segs'] Cons.prems Cons slashed_tail [of ms] by auto
  qed (simp add: has_prefix_iff)
qed

lemma str_index_skip:
  assumes "CHR ''/'' \<notin> set s" "m = CHR ''/'' # m'"
  shows "str_index (s @ rest) m = map_option (\<lambda>i. length s + i) (str_index rest m)"
  using assms(1) unfolding assms(2)
proof (induction s)
  case Nil
  then show ?case by (cases "str_index rest (CHR ''/'' # m')") auto
next
  case (Cons a s)
  then have "\<not> has_prefix ((a # s) @ rest) (CHR ''/'' # m')" by (auto simp: has_prefix_iff)
  then show ?case using Cons by (simp add: option.map_comp comp_def)
qed

lemma str_index_slashed:
  assumes "slash_free (s # segs)" "slash_free ms"
  shows "str_index (slashed (s # segs)) (slashed ms @ ''/'') =
    (if take (length ms) (s # segs) = ms \<and> length ms < length (s # segs) then Some 0
     else map_option (\<lambda>i. Suc (length s + i)) (str_index (slashed segs) (slashed ms @ ''/'')))"
proof -
  have "str_index (s @ slashed segs) (slashed ms @ ''/'') =
      map_option (\<lambda>i. length s + i) (str_index (slashed segs) (slashed ms @ ''/''))"
    using assms(1) by (intro str_index_skip [OF _ slashed_tail]) simp
  then show ?thesis
    using prefix_slashed [OF assms] by (simp add: option.map_comp comp_def)
qed

lemma str_index_slashed_Nil: "str_index (slashed []) (slashed ms @ ''/'') = None"
  by simp

subsection \<open>Plain locators\<close>

text \<open>Words that are part of a browse marker or a listing page, and names that are not.\<close>

definition marker_words :: "string list" where
  "marker_words = [''-'', ''tree'', ''tags'', ''releases'', ''commit'', ''commits'', ''src'', ''branch'', ''tag'', ''download'']"

definition plain_word :: "string \<Rightarrow> bool" where
  "plain_word w \<longleftrightarrow> w \<noteq> [] \<and> (\<forall>c \<in> set w. name_byte c) \<and> w \<notin> set marker_words \<and> \<not> has_suffix w ''.git''"

lemma plain_wordD:
  assumes "plain_word w"
  shows "w \<noteq> []" "CHR ''/'' \<notin> set w" "CHR ''@'' \<notin> set w" "\<And>c. c \<in> set w \<Longrightarrow> name_byte c" "\<And>c. c \<in> set w \<Longrightarrow> \<not> go_space c"
    "\<not> has_suffix w ''.git''" "w \<notin> set marker_words"
  using assms name_byteD(3) name_byteD(4) [of "CHR ''/''"] name_byteD(5) [of "CHR ''@''"]
  unfolding plain_word_def by blast+

lemma plain_word_not:
  assumes "plain_word w"
  shows "w \<noteq> ''-''" "w \<noteq> ''tree''" "w \<noteq> ''tags''" "w \<noteq> ''releases''" "w \<noteq> ''commit''" "w \<noteq> ''commits''"
    "w \<noteq> ''src''" "w \<noteq> ''branch''" "w \<noteq> ''tag''" "w \<noteq> ''download''"
  using plain_wordD(7) [OF assms] by (auto simp: marker_words_def)

lemma browse_markers_segments:
  "browse_markers =
     [(slashed [''-'', ''tree''] @ ''/'', False), (slashed [''-'', ''tags''] @ ''/'', False),
      (slashed [''-'', ''releases''] @ ''/'', False), (slashed [''-'', ''commit''] @ ''/'', True),
      (slashed [''-'', ''commits''] @ ''/'', False),
      (slashed [''src'', ''branch''] @ ''/'', False), (slashed [''src'', ''tag''] @ ''/'', False),
      (slashed [''src'', ''commit''] @ ''/'', True),
      (slashed [''releases'', ''download''] @ ''/'', True), (slashed [''releases'', ''tag''] @ ''/'', False),
      (slashed [''tree''] @ ''/'', False), (slashed [''commit''] @ ''/'', True), (slashed [''commits''] @ ''/'', False)]"
  by (simp add: browse_markers_def)

lemma trim_slashes_word:
  assumes "plain_word w"
  shows "trim_by is_slash w = w"
proof -
  have "hd w \<noteq> CHR ''/''" "last w \<noteq> CHR ''/''"
    using plain_wordD(1,2) [OF assms] hd_in_set [of w] last_in_set [of w] by metis+
  then show ?thesis by (simp add: trim_by_noop is_slash_def)
qed

lemma cut_at_word: "plain_word w \<Longrightarrow> cut_at w ''/'' = (w, [])"
  by (simp add: cut_at_def str_cut_single_none plain_wordD)

lemma cut_plain:
  assumes "plain_word own" "plain_word r"
  shows "cut_marker browse_markers (slashed [own, r]) ref = None"
  unfolding browse_markers_segments using assms
  by (simp del: slashed_simps add: str_index_slashed str_index_slashed_Nil plain_wordD plain_word_not)

lemma cut_browse:
  assumes "plain_word own" "plain_word r" "plain_word v"
  shows "cut_marker browse_markers (slashed [own, r, ''tree'', v]) [] = Some (slashed [own, r], v)"
    "cut_marker browse_markers (slashed [own, r, ''-'', ''tree'', v]) [] = Some (slashed [own, r], v)"
    "cut_marker browse_markers (slashed [own, r, ''src'', ''branch'', v]) [] = Some (slashed [own, r], v)"
    "cut_marker browse_markers (slashed [own, r, ''releases'', ''tag'', v]) [] = Some (slashed [own, r], v)"
    "cut_marker browse_markers (slashed [own, r, ''commit'', v]) [] = Some (slashed [own, r], v)"
  unfolding browse_markers_segments using assms
  by (simp_all del: slashed_simps add: str_index_slashed str_index_slashed_Nil plain_wordD plain_word_not)
    (simp_all add: trim_slashes_word cut_at_word plain_wordD drop_Cons' Let_def)

lemma has_suffix_last_word:
  assumes "CHR ''/'' \<notin> set w" "CHR ''/'' \<notin> set sfx" "has_suffix (x @ CHR ''/'' # w) (y @ CHR ''/'' # sfx)"
  shows "w = sfx"
proof -
  obtain t where "x @ CHR ''/'' # w = (t @ y) @ CHR ''/'' # sfx" using assms(3) by (auto simp: has_suffix_iff)
  then have "rev w @ CHR ''/'' # rev x = rev sfx @ CHR ''/'' # rev (t @ y)"
    by (metis append_Cons append_Nil append_assoc rev.simps(2) rev_append)
  moreover have "takeWhile (\<lambda>c. c \<noteq> CHR ''/'') (rev a @ CHR ''/'' # b) = rev a" if "CHR ''/'' \<notin> set a" for a b
    using that by (simp add: takeWhile_tail) (metis set_rev takeWhile_eq_all_conv)
  ultimately show ?thesis using assms(1,2) by (metis rev_rev_ident)
qed

lemma has_suffix_in_word:
  assumes "CHR ''/'' \<notin> set sfx"
  shows "has_suffix (x @ CHR ''/'' # w) sfx \<longleftrightarrow> has_suffix w sfx"
proof
  assume "has_suffix (x @ CHR ''/'' # w) sfx"
  then obtain t where t: "x @ CHR ''/'' # w = t @ sfx" by (auto simp: has_suffix_iff)
  then obtain u where "sfx = u @ CHR ''/'' # w \<or> u @ sfx = CHR ''/'' # w"
    unfolding append_eq_append_conv2 by metis
  then show "has_suffix w sfx"
    using assms by (cases u) (auto simp: has_suffix_iff)
next
  assume "has_suffix w sfx"
  then obtain t where "w = t @ sfx" by (auto simp: has_suffix_iff)
  then have "x @ CHR ''/'' # w = (x @ CHR ''/'' # t) @ sfx" by simp
  then show "has_suffix (x @ CHR ''/'' # w) sfx" using has_suffix_iff by blast
qed

lemma repo_path_ends:
  assumes "plain_word own" "plain_word r"
  shows "trim_suffix (slashed [own, r]) ''.git'' = slashed [own, r]" "\<not> has_suffix (slashed [own, r]) ''.git''"
    "trim_listing (slashed [own, r]) = (slashed [own, r], False)"
proof -
  let ?x = "CHR ''/'' # own"
  have path: "slashed [own, r] = ?x @ CHR ''/'' # r" by simp
  show git: "\<not> has_suffix (slashed [own, r]) ''.git''"
    unfolding path using plain_wordD(6) [OF assms(2)] by (subst has_suffix_in_word) auto
  then show "trim_suffix (slashed [own, r]) ''.git'' = slashed [own, r]" by (simp add: trim_suffix_def)
  have "\<not> has_suffix (?x @ CHR ''/'' # r) (y @ CHR ''/'' # sfx)" if "sfx \<in> set marker_words" "CHR ''/'' \<notin> set sfx" for y sfx
    using has_suffix_last_word [OF plain_wordD(2) [OF assms(2)], of sfx ?x y] plain_wordD(7) [OF assms(2)] that by blast
  from this [of "''releases''" "''/-''"] this [of "''tags''" "''/-''"] this [of "''releases''" "[]"]
    this [of "''tags''" "[]"] this [of "''commits''" "[]"]
  have "find (\<lambda>sfx. has_suffix (slashed [own, r]) sfx \<and> length (slashed [own, r]) > length sfx) listing_suffixes = None"
    by (simp add: listing_suffixes_def marker_words_def)
  then show "trim_listing (slashed [own, r]) = (slashed [own, r], False)"
    unfolding trim_listing_def by simp
qed

lemma trim_slash_word:
  assumes "w \<noteq> []" "CHR ''/'' \<notin> set w"
  shows "trim_suffix (x @ w) ''/'' = x @ w"
proof -
  have "last (x @ w) \<noteq> CHR ''/''" using assms last_in_set [of w] by (metis last_appendR)
  then have "\<not> has_suffix (x @ w) ''/''" by (metis has_suffix_iff last_snoc)
  then show ?thesis by (simp add: trim_suffix_def)
qed

lemma split_ref_none: "CHR ''@'' \<notin> set p \<Longrightarrow> split_ref p = (p, [], False)"
  by (simp add: split_ref_def str_last_index_None [THEN iffD2])

lemma split_ref_some: "CHR ''@'' \<notin> set v \<Longrightarrow> p \<noteq> [] \<Longrightarrow> split_ref (p @ CHR ''@'' # v) = (p, v, True)"
  by (simp add: split_ref_def str_last_index_split)

lemma normalize_repo_path:
  assumes "plain_word own" "plain_word r" "plain_word v"
  shows "normalize_path (slashed [own, r]) = (slashed [own, r], [], False)"
    "normalize_path (slashed [own, r] @ ''.git'') = (slashed [own, r], [], True)"
    "normalize_path (slashed [own, r] @ ''@'' @ v) = (slashed [own, r], v, True)"
    "normalize_path (slashed [own, r] @ ''.git@'' @ v) = (slashed [own, r], v, True)"
proof -
  let ?p = "slashed [own, r]"
  have p: "?p = (CHR ''/'' # own @ ''/'') @ r" by simp
  have at: "CHR ''@'' \<notin> set ?p" using assms plain_wordD(3) by simp
  have git: "trim_suffix (?p @ ''.git'') ''.git'' = ?p" "has_suffix (?p @ ''.git'') ''.git''"
    by (simp_all add: trim_suffix_def has_suffix_iff)
  note ends = repo_path_ends [OF assms(1,2)] cut_plain [OF assms(1,2)]
  have "trim_suffix ?p ''/'' = ?p"
    unfolding p using plain_wordD(1,2) [OF assms(2)] by (rule trim_slash_word)
  then show "normalize_path ?p = (?p, [], False)"
    using ends by (simp del: slashed_simps add: normalize_path_def split_ref_none [OF at])
  have "trim_suffix (?p @ ''.git'') ''/'' = ?p @ ''.git''" by (rule trim_slash_word) auto
  moreover have "split_ref (?p @ ''.git'') = (?p @ ''.git'', [], False)" using at by (intro split_ref_none) auto
  ultimately show "normalize_path (?p @ ''.git'') = (?p, [], True)"
    using ends git by (simp del: slashed_simps add: normalize_path_def)
  have tail: "trim_suffix (?p @ x @ ''@'' @ v) ''/'' = ?p @ x @ ''@'' @ v" for x
    using trim_slash_word [OF plain_wordD(1,2) [OF assms(3)], of "?p @ x @ ''@''"] by simp
  have "split_ref (?p @ CHR ''@'' # v) = (?p, v, True)" "split_ref ((?p @ ''.git'') @ CHR ''@'' # v) = (?p @ ''.git'', v, True)"
    using plain_wordD(3) [OF assms(3)] by (intro split_ref_some; simp)+
  then show "normalize_path (?p @ ''@'' @ v) = (?p, v, True)" "normalize_path (?p @ ''.git@'' @ v) = (?p, v, True)"
    using ends git tail [of "[]"] tail [of "''.git''"] by (simp_all del: slashed_simps add: normalize_path_def)
qed

lemma normalize_browse_path:
  assumes "plain_word own" "plain_word r" "plain_word v"
    and "segs \<in> {[''tree''], [''-'', ''tree''], [''src'', ''branch''], [''releases'', ''tag''], [''commit'']}"
  shows "normalize_path (slashed ([own, r] @ segs @ [v])) = (slashed [own, r], v, True)"
proof -
  let ?p = "slashed ([own, r] @ segs @ [v])" and ?x = "slashed ([own, r] @ segs)"
  have p: "?p = ?x @ CHR ''/'' # v" by (simp add: slashed_def)
  have "trim_suffix ?p ''/'' = ?p"
    unfolding p using trim_slash_word [OF plain_wordD(1,2) [OF assms(3)], of "?x @ ''/''"] by simp
  moreover have "split_ref ?p = (?p, [], False)"
    using assms plain_wordD(3) by (intro split_ref_none) auto
  moreover have "\<not> has_suffix ?p ''.git''"
    unfolding p using plain_wordD(6) [OF assms(3)] by (subst has_suffix_in_word) auto
  moreover from this have "trim_suffix ?p ''.git'' = ?p" by (simp add: trim_suffix_def)
  moreover have "cut_marker browse_markers ?p [] = Some (slashed [own, r], v)"
    using assms(4) cut_browse [OF assms(1-3)] by (auto simp del: slashed_simps)
  ultimately show ?thesis
    using repo_path_ends [OF assms(1,2)] by (simp del: slashed_simps add: normalize_path_def)
qed

definition plain_host :: "string \<Rightarrow> bool" where
  "plain_host h \<longleftrightarrow> h \<noteq> [] \<and> to_lower h = h \<and> (\<forall>c \<in> set h. name_byte c)"

definition repo_url :: "string \<Rightarrow> string \<Rightarrow> string \<Rightarrow> string" where
  "repo_url h own r = ''https://'' @ h @ slashed [own, r]"

lemma url_char_no_space:
  assumes "c \<in> {CHR '':'', CHR ''/'', CHR ''@''} \<or> name_byte c"
  shows "\<not> go_space c"
proof (cases "name_byte c")
  case True
  then show ?thesis by (simp add: name_byteD)
next
  case False
  then show ?thesis using assms by (auto simp: go_space_def)
qed

lemma locator_text_url:
  assumes "g \<in> {[], ''git+''}" "\<not> has_prefix s ''git+''" "contains_str s ''://''" "\<forall>c \<in> set s. \<not> go_space c"
  shows "locator_text (g @ s) = Some (s, g \<noteq> [])"
proof -
  have colon: "CHR '':'' \<in> set s" using assms(3) by (auto simp: contains_str_iff)
  moreover have "upper_char (CHR '':'') = CHR '':''" by code_simp
  ultimately have "CHR '':'' \<in> set (to_upper (g @ s))"
    by (simp add: to_upper_def) (metis imageI)
  then have "to_upper (g @ s) \<noteq> ''NOASSERTION''" "to_upper (g @ s) \<noteq> ''NONE''" by auto
  moreover have "trim_space (g @ s) = g @ s"
  proof (rule trim_space_plain)
    have "\<forall>c \<in> set ''git+''. \<not> go_space c" by code_simp
    then show "\<forall>c \<in> set (g @ s). \<not> go_space c" using assms(1,4) by auto
  qed
  moreover have "g @ s \<noteq> []" using colon by auto
  moreover have "trim_prefix (g @ s) ''git+'' = s" "has_prefix (g @ s) ''git+'' \<longleftrightarrow> g \<noteq> []"
    using assms(1,2) by (auto simp: trim_prefix_def has_prefix_def)
  ultimately show ?thesis using assms(3) by (simp add: locator_text_def Let_def)
qed

lemma name_byte_literals:
  "\<forall>c \<in> set ''git''. name_byte c" "\<forall>c \<in> set ''.git''. name_byte c"
  by code_simp+

lemma scheme_letters:
  assumes "scheme \<in> {''http'', ''https'', ''git'', ''ssh''}"
  shows "scheme \<noteq> []" "\<forall>c \<in> set scheme. is_letter c" "to_lower scheme = scheme"
  using assms by (elim insertE emptyE; hypsubst; code_simp)+

lemma normalize_located:
  assumes located: "locator_text raw = Some (scheme @ ''://'' @ user @ h @ path, e0)"
    and scheme: "scheme \<in> {''http'', ''https'', ''git'', ''ssh''}" and user: "user \<in> {[], ''git@''}"
    and host: "plain_host h" and path: "\<forall>c \<in> set path. name_byte c \<or> c = CHR ''/'' \<or> c = CHR ''@''" "hd path = CHR ''/''"
    and norm: "normalize_path path = (slashed [own, r], ref, e)" and ref: "ref = [] \<or> plain_word ref"
  shows "normalize_locator (parse_url ip_literal) raw =
    (repo_url h own r, ref, e0 \<or> scheme \<in> {''git'', ''ssh''} \<or> h \<in> set known_forge_hosts \<or> e)"
proof -
  have "parse_url ip_literal (scheme @ ''://'' @ user @ h @ path) =
      Some \<lparr>ur_scheme = to_lower scheme, ur_has_user = (user \<noteq> []), ur_host = h, ur_path = path,
            ur_raw_query = [], ur_fragment = []\<rparr>"
  proof (rule parse_url_plain)
    show "scheme \<noteq> []" "\<forall>c \<in> set scheme. is_letter c" using scheme_letters [OF scheme] by blast+
    show "\<forall>c \<in> set h. name_byte c" using host by (simp add: plain_host_def)
    show "user = [] \<or> (\<exists>name. user = name @ ''@'' \<and> (\<forall>c \<in> set name. name_byte c))"
      using user name_byte_literals(1) by (metis append.simps empty_iff insert_iff)
    show "\<forall>c \<in> set path. name_byte c \<or> c = CHR ''/'' \<or> c = CHR ''@''" "path = [] \<or> hd path = CHR ''/''"
      using path by blast+
  qed
  moreover have "to_lower scheme = scheme" using scheme_letters [OF scheme] by blast
  moreover have "trim_space ref = ref" using ref plain_wordD(5) by (auto intro: trim_space_plain)
  ultimately show ?thesis
    using located host norm scheme
    by (auto simp: normalize_locator_def plain_host_def repo_url_def)
qed

lemma no_spaces_url:
  assumes "\<forall>c \<in> set scheme. is_letter c" "user \<in> {[], ''git@''}" "plain_host h"
    "\<forall>c \<in> set path. name_byte c \<or> c = CHR ''/'' \<or> c = CHR ''@''"
  shows "\<forall>c \<in> set (scheme @ ''://'' @ user @ h @ path). \<not> go_space c"
proof -
  have "name_byte c \<or> c \<in> {CHR '':'', CHR ''/'', CHR ''@''}" if "c \<in> set (scheme @ ''://'' @ user @ h @ path)" for c
  proof -
    have "name_byte c" if "c \<in> set scheme" using assms(1) that by (simp add: name_byte_def)
    moreover have "name_byte c \<or> c = CHR ''@''" if "c \<in> set user" using assms(2) that name_byte_literals(1) by auto
    moreover have "name_byte c" if "c \<in> set h" using assms(3) that by (simp add: plain_host_def)
    ultimately show ?thesis using that assms(4) by auto
  qed
  then show ?thesis using url_char_no_space by blast
qed

lemma normalize_url:
  assumes "g \<in> {[], ''git+''}" "scheme \<in> {''http'', ''https'', ''git'', ''ssh''}" "user \<in> {[], ''git@''}" "plain_host h"
    "\<forall>c \<in> set path. name_byte c \<or> c = CHR ''/'' \<or> c = CHR ''@''" "hd path = CHR ''/''"
    "normalize_path path = (slashed [own, r], ref, e)" "ref = [] \<or> plain_word ref"
  shows "normalize_locator (parse_url ip_literal) (g @ scheme @ ''://'' @ user @ h @ path) =
    (repo_url h own r, ref, g \<noteq> [] \<or> scheme \<in> {''git'', ''ssh''} \<or> h \<in> set known_forge_hosts \<or> e)"
proof -
  let ?s = "scheme @ ''://'' @ user @ h @ path"
  have "contains_str ?s ''://''" by (metis contains_str_iff append.assoc)
  moreover have "\<not> has_prefix ?s ''git+''" using assms(2) by (auto simp: has_prefix_def)
  moreover have "\<forall>c \<in> set scheme. is_letter c" using assms(2) by (auto simp: is_letter_def char_between_def)
  ultimately show ?thesis
    using assms no_spaces_url [of scheme user h path]
    by (intro normalize_located) (auto simp: locator_text_url)
qed

lemma normalize_scp:
  assumes "plain_word own" "plain_word r" "plain_host h"
  shows "normalize_locator (parse_url ip_literal) (''git@'' @ h @ '':'' @ own @ ''/'' @ r @ ''.git'') = (repo_url h own r, [], True)"
proof -
  let ?raw = "''git@'' @ h @ '':'' @ own @ ''/'' @ r @ ''.git''"
  have names: "name_byte c" if "c \<in> set h \<union> set own \<union> set r" for c
    using that assms plain_wordD(4) by (auto simp: plain_host_def)
  have txt_ok: "locator_text ?raw = Some (''ssh'' @ ''://'' @ ''git@'' @ h @ slashed [own, r] @ ''.git'', True)"
  proof -
    have "c \<in> {CHR '':'', CHR ''/'', CHR ''@''} \<or> name_byte c" if "c \<in> set ?raw" for c
      using that names name_byte_literals by auto
    then have "\<forall>c \<in> set ?raw. \<not> go_space c" using url_char_no_space by blast
    then have "trim_space ?raw = ?raw" by (rule trim_space_plain)
    moreover have "\<not> contains_str ?raw ''://''"
    proof
      assume "contains_str ?raw ''://''"
      then obtain x y where xy: "(''git@'' @ h) @ CHR '':'' # own @ ''/'' @ r @ ''.git'' = x @ CHR '':'' # ''//'' @ y"
        by (auto simp: contains_str_iff)
      have no: "CHR '':'' \<notin> set (''git@'' @ h)" "CHR '':'' \<notin> set (own @ ''/'' @ r @ ''.git'')"
        using names name_byteD(9) by auto
      have "own @ ''/'' @ r @ ''.git'' = ''//'' @ y"
        using xy no by (metis append_Cons_eq_iff)
      then have "hd own = CHR ''/''" using plain_wordD(1) [OF assms(1)] by (cases own) auto
      then show False using plain_wordD(1,2) [OF assms(1)] hd_in_set [of own] by metis
    qed
    moreover have "str_cut ?raw '':'' = Some (''git@'' @ h, own @ ''/'' @ r @ ''.git'')"
      using str_cut_single [of "CHR '':''" "''git@'' @ h" "own @ ''/'' @ r @ ''.git''"] names name_byteD(9) by fastforce
    then have "replace_first_colon ?raw = ''git@'' @ h @ ''/'' @ own @ ''/'' @ r @ ''.git''"
      by (simp add: replace_first_colon_def)
    moreover have "contains_str (drop 3 ?raw) '':''" by simp
    moreover have "to_upper ?raw \<noteq> ''NOASSERTION''" "to_upper ?raw \<noteq> ''NONE''"
      by (simp_all add: to_upper_def upper_char_def char_between_def)
    ultimately show ?thesis
      by (simp add: locator_text_def Let_def trim_prefix_def has_prefix_def)
  qed
  have "\<forall>c \<in> set (slashed [own, r] @ ''.git''). name_byte c \<or> c = CHR ''/'' \<or> c = CHR ''@''"
    using names name_byte_literals by auto
  from normalize_located [OF txt_ok _ _ assms(3) this _ normalize_repo_path(2) [OF assms(1,2,1)]]
  show ?thesis by simp
qed

text \<open>
  The first marker of the list decides, not the first in the path: a directory of a browsed tree that is
  called \<open>src/branch\<close> leaves the browse marker in the repository. And the colon that \<open>scp\<close> syntax
  replaces is the first one, also when it belongs to the user name.
\<close>

lemma nested_marker_kept:
  "normalize_repo (parse_url (\<lambda>_. None)) ''https://github.com/x/y/tree/main/src/branch/z'' =
    (''https://github.com/x/y/tree/main'', ''z'')"
  by code_simp

lemma scp_user_with_colon:
  "normalize_repo (parse_url (\<lambda>_. None)) ''user:pw@host:x/y'' = (''https://user/pw'', ''host:x/y'')"
  by code_simp

subsection \<open>Properties\<close>

definition shapes_with_ref :: "string \<Rightarrow> string \<Rightarrow> string \<Rightarrow> string \<Rightarrow> string list" where
  "shapes_with_ref h own r v =
     [''git+https://'' @ h @ ''/'' @ own @ ''/'' @ r @ ''.git@'' @ v,
      ''https://'' @ h @ ''/'' @ own @ ''/'' @ r @ ''@'' @ v,
      ''https://'' @ h @ ''/'' @ own @ ''/'' @ r @ ''/tree/'' @ v,
      ''https://'' @ h @ ''/'' @ own @ ''/'' @ r @ ''/-/tree/'' @ v,
      ''https://'' @ h @ ''/'' @ own @ ''/'' @ r @ ''/src/branch/'' @ v,
      ''https://'' @ h @ ''/'' @ own @ ''/'' @ r @ ''/releases/tag/'' @ v,
      ''https://'' @ h @ ''/'' @ own @ ''/'' @ r @ ''/commit/'' @ v]"

definition shapes_without_ref :: "string \<Rightarrow> string \<Rightarrow> string \<Rightarrow> string list" where
  "shapes_without_ref h own r =
     [''git+https://'' @ h @ ''/'' @ own @ ''/'' @ r @ ''.git'',
      ''git+ssh://git@'' @ h @ ''/'' @ own @ ''/'' @ r @ ''.git'',
      ''git://'' @ h @ ''/'' @ own @ ''/'' @ r @ ''.git'',
      ''ssh://git@'' @ h @ ''/'' @ own @ ''/'' @ r,
      ''git@'' @ h @ '':'' @ own @ ''/'' @ r @ ''.git'',
      ''http://'' @ h @ ''/'' @ own @ ''/'' @ r @ ''.git'']"

text \<open>
  C27: The spellings of one repository agree. For a lower-case host, an owner, a repository and a ref of
  plain names (letters, digits, \<open>-\<close>, \<open>_\<close>, \<open>.\<close>, none of them a browse marker or ending in \<open>.git\<close>),
  every documented shape with a ref normalises to the same repository URL and that ref, every shape
  without one to the same URL and no ref, and all of them count as evident; the canonical URL itself is
  a fixed point, evident exactly on the known forge hosts.
\<close>

theorem locator_shapes_agree:
  assumes "plain_host h" "plain_word own" "plain_word r" "plain_word v"
  shows "map (normalize_locator (parse_url ip_literal)) (shapes_with_ref h own r v) = replicate 7 (repo_url h own r, v, True) \<and>
    map (normalize_locator (parse_url ip_literal)) (shapes_without_ref h own r) = replicate 6 (repo_url h own r, [], True) \<and>
    normalize_locator (parse_url ip_literal) (repo_url h own r) = (repo_url h own r, [], h \<in> set known_forge_hosts)"
proof -
  let ?p = "slashed [own, r]"
  have names: "name_byte c" if "c \<in> set own \<union> set r \<union> set v" for c
    using that assms plain_wordD(4) by auto
  have chars: "\<forall>c \<in> set (slashed [own, r] @ x). name_byte c \<or> c = CHR ''/'' \<or> c = CHR ''@''"
    if "\<forall>c \<in> set x. name_byte c \<or> c = CHR ''/'' \<or> c = CHR ''@''" for x
    using that names by auto
  have words: "\<forall>c \<in> set (x @ v). name_byte c \<or> c = CHR ''/'' \<or> c = CHR ''@''"
    if "x \<in> {[], ''@'', ''.git@'', ''/tree/'', ''/-/tree/'', ''/src/branch/'', ''/releases/tag/'', ''/commit/''}" for x
  proof -
    have "\<forall>c \<in> set x. name_byte c \<or> c = CHR ''/'' \<or> c = CHR ''@''"
      using that by (elim insertE emptyE; hypsubst; code_simp)
    then show ?thesis using names by auto
  qed
  note url = normalize_url [where own = own and r = r, OF _ _ _ assms(1)]
  note path = normalize_repo_path [OF assms(2-4)]
  note plain = chars [of "[]"] chars [of "''.git''"] name_byte_literals(2)
  note browse = normalize_browse_path [OF assms(2-4)]
  have with_ref: "normalize_locator (parse_url ip_literal) (g @ ''https'' @ ''://'' @ [] @ h @ ?p @ x @ v) = (repo_url h own r, v, True)"
    if "g \<in> {[], ''git+''}" "normalize_path (?p @ x @ v) = (?p, v, True)"
      "x \<in> {[], ''@'', ''.git@'', ''/tree/'', ''/-/tree/'', ''/src/branch/'', ''/releases/tag/'', ''/commit/''}" for g x
    using url [of g "''https''" "[]" "?p @ x @ v" v True ip_literal] that chars [OF words [OF that(3)]] assms(4) by simp
  have no_ref: "normalize_locator (parse_url ip_literal) (g @ scheme @ ''://'' @ user @ h @ ?p @ x) =
      (repo_url h own r, [], g \<noteq> [] \<or> scheme \<in> {''git'', ''ssh''} \<or> h \<in> set known_forge_hosts \<or> e)"
    if "g \<in> {[], ''git+''}" "scheme \<in> {''http'', ''https'', ''git'', ''ssh''}" "user \<in> {[], ''git@''}"
      "normalize_path (?p @ x) = (?p, [], e)" "x = [] \<or> x = ''.git''" for g scheme user x e
  proof -
    have "\<forall>c \<in> set x. name_byte c \<or> c = CHR ''/'' \<or> c = CHR ''@''" using that(5) name_byte_literals(2) by auto
    from url [OF that(1-3) chars [OF this] _ that(4)] show ?thesis by simp
  qed
  show ?thesis
  proof (intro conjI)
    show "map (normalize_locator (parse_url ip_literal)) (shapes_with_ref h own r v) = replicate 7 (repo_url h own r, v, True)"
      using with_ref [of "''git+''" "''.git@''"] with_ref [of "[]" "''@''"] with_ref [of "[]" "''/tree/''"]
        with_ref [of "[]" "''/-/tree/''"] with_ref [of "[]" "''/src/branch/''"] with_ref [of "[]" "''/releases/tag/''"]
        with_ref [of "[]" "''/commit/''"] path(3,4) browse [of "[''tree'']"] browse [of "[''-'', ''tree'']"]
        browse [of "[''src'', ''branch'']"] browse [of "[''releases'', ''tag'']"] browse [of "[''commit'']"]
      by (simp add: shapes_with_ref_def numeral_eq_Suc)
    show "map (normalize_locator (parse_url ip_literal)) (shapes_without_ref h own r) = replicate 6 (repo_url h own r, [], True)"
      using no_ref [of "''git+''" "''https''" "[]" "''.git''" True] no_ref [of "''git+''" "''ssh''" "''git@''" "''.git''" True]
        no_ref [of "[]" "''git''" "[]" "''.git''" True] no_ref [of "[]" "''ssh''" "''git@''" "[]" False]
        no_ref [of "[]" "''http''" "[]" "''.git''" True] path(1,2) normalize_scp [OF assms(2,3,1)]
      by (simp add: shapes_without_ref_def numeral_eq_Suc)
    show "normalize_locator (parse_url ip_literal) (repo_url h own r) = (repo_url h own r, [], h \<in> set known_forge_hosts)"
      using no_ref [of "[]" "''https''" "[]" "[]" False] path(1) by (simp add: repo_url_def)
  qed
qed

lemma locator_shapes_agree_witness:
  "plain_host ''github.com'' \<and> plain_word ''argoproj'' \<and> plain_word ''argo-cd'' \<and> plain_word ''v3.1.15'' \<and>
   shapes_with_ref ''github.com'' ''argoproj'' ''argo-cd'' ''v3.1.15'' ! 5 =
     ''https://github.com/argoproj/argo-cd/releases/tag/v3.1.15'' \<and>
   normalize_locator (parse_url (\<lambda>_. None)) (repo_url ''github.com'' ''argoproj'' ''argo-cd'') =
     (''https://github.com/argoproj/argo-cd'', [], True)"
proof -
  have names: "plain_host ''github.com''" "plain_word ''argoproj''" "plain_word ''argo-cd''" "plain_word ''v3.1.15''"
    by code_simp+
  have "repo_url ''github.com'' ''argoproj'' ''argo-cd'' = ''https://github.com/argoproj/argo-cd''"
    "shapes_with_ref ''github.com'' ''argoproj'' ''argo-cd'' ''v3.1.15'' ! 5 =
      ''https://github.com/argoproj/argo-cd/releases/tag/v3.1.15''"
    "''github.com'' \<in> set known_forge_hosts"
    by code_simp+
  with names locator_shapes_agree [OF names, of "\<lambda>_. None"] show ?thesis by simp
qed

end
