(* ===== verification/Vex_Statements.thy ===== *)
theory Vex_Statements
  imports Source_Repo Job_Queue
begin

text \<open>
  OpenVEX documents from the parser to the table: \<open>backend/internal/vex/parser.go\<close>,
  \<open>cmd/parsing-worker/vex_scope.go\<close>, \<open>vex_rescue.go\<close>, \<open>processVEXJob\<close> of \<open>main.go\<close>, the ownership
  stamp of \<open>ownership.go\<close>, and the statements' SQL in \<open>internal/clickhouse/vex_scope.go\<close>,
  \<open>vex_rescue.go\<close> and \<open>client.go\<close>. Decoding the JSON, parsing a timestamp and hashing a name to a UUID
  are parameters. A table is the list of its physical rows in insertion order, \<open>FINAL\<close> keeps the
  newest row of each sorting key. Logging is left out.
\<close>

subsection \<open>Documents\<close>

record vex_subcomponent =
  vs_id :: string
  vs_identifiers :: "(string \<times> string) list"

record vex_product =
  vp_id :: string
  vp_identifiers :: "(string \<times> string) list"
  vp_subcomponents :: "vex_subcomponent list"

record vex_vulnerability =
  vv_id :: string
  vv_name :: string
  vv_aliases :: "string list"

record document_statement =
  ds_vulnerability :: vex_vulnerability
  ds_products :: "vex_product list"
  ds_status :: string
  ds_status_notes :: string
  ds_justification :: string
  ds_impact_statement :: string
  ds_action_statement :: string
  ds_timestamp :: string

record open_vex_document =
  od_context :: string
  od_id :: string
  od_author :: string
  od_role :: string
  od_tooling :: string
  od_timestamp :: string
  od_statements :: "document_statement list"

text \<open>A statement as it is stored; the UUID is its text.\<close>

record vex_statement =
  vx_ingested_at :: int
  vx_vex_id :: string
  vx_document_id :: string
  vx_source_file :: string
  vx_sbom_id :: string
  vx_product_ref :: string
  vx_product_wide :: bool
  vx_product_purl :: string
  vx_vuln_id :: string
  vx_status :: string
  vx_justification :: string
  vx_impact_statement :: string
  vx_action_statement :: string
  vx_timestamp :: int
  vx_author :: string
  vx_role :: string
  vx_tooling :: string
  vx_status_notes :: string
  vx_cluster :: string
  vx_namespace :: string
  vx_project :: string

definition vex_product_wide :: string where "vex_product_wide = ''*''"

subsection \<open>Parsing\<close>

definition extract_purl :: "vex_product \<Rightarrow> string" where
  "extract_purl p =
     (case map_of (vp_identifiers p) ''purl'' of
        Some purl \<Rightarrow> if purl \<noteq> [] then purl else vp_id p
      | None \<Rightarrow> vp_id p)"

definition extract_subcomponent_purl :: "vex_subcomponent \<Rightarrow> string" where
  "extract_subcomponent_purl sc =
     (case map_of (vs_identifiers sc) ''purl'' of
        Some purl \<Rightarrow> if purl \<noteq> [] then purl else vs_id sc
      | None \<Rightarrow> vs_id sc)"

definition normalize_vuln_id :: "string \<Rightarrow> string" where
  "normalize_vuln_id i =
     (if has_prefix i ''http://'' \<or> has_prefix i ''https://''
      then (case str_last_index i ''/'' of
              Some idx \<Rightarrow> if idx < length i - 1 then drop (idx + 1) i else i
            | None \<Rightarrow> i)
      else i)"

definition vuln_reference :: "vex_vulnerability \<Rightarrow> string" where
  "vuln_reference v =
     (if vv_name v \<noteq> [] then vv_name v
      else if vv_id v \<noteq> [] then vv_id v
      else (case vv_aliases v of [] \<Rightarrow> [] | a # _ \<Rightarrow> a))"

definition statement_time :: "(string \<Rightarrow> int option) \<Rightarrow> int \<Rightarrow> open_vex_document \<Rightarrow> document_statement \<Rightarrow> int" where
  "statement_time parse_time now doc stmt =
     (if ds_timestamp stmt \<noteq> [] then (case parse_time (ds_timestamp stmt) of Some t \<Rightarrow> t | None \<Rightarrow> now)
      else if od_timestamp doc \<noteq> [] then (case parse_time (od_timestamp doc) of Some t \<Rightarrow> t | None \<Rightarrow> now)
      else now)"

definition match_purls :: "vex_product \<Rightarrow> string list" where
  "match_purls p =
     (if vp_subcomponents p \<noteq> []
      then filter (\<lambda>purl. purl \<noteq> []) (map extract_subcomponent_purl (vp_subcomponents p))
      else [extract_purl p])"

definition product_statements ::
  "(string \<Rightarrow> string) \<Rightarrow> int \<Rightarrow> string \<Rightarrow> open_vex_document \<Rightarrow> string \<Rightarrow> int \<Rightarrow> document_statement \<Rightarrow> vex_product
     \<Rightarrow> vex_statement list" where
  "product_statements uuid now source_file doc vuln stmt_time stmt p =
     map (\<lambda>purl.
       \<lparr>vx_ingested_at = now, vx_vex_id = uuid (od_id doc @ ''|'' @ vuln @ ''|'' @ purl), vx_document_id = od_id doc,
        vx_source_file = source_file, vx_sbom_id = [], vx_product_ref = extract_purl p,
        vx_product_wide = (vp_subcomponents p = []), vx_product_purl = purl, vx_vuln_id = vuln,
        vx_status = ds_status stmt, vx_justification = ds_justification stmt,
        vx_impact_statement = ds_impact_statement stmt, vx_action_statement = ds_action_statement stmt,
        vx_timestamp = stmt_time, vx_author = od_author doc, vx_role = od_role doc, vx_tooling = od_tooling doc,
        vx_status_notes = ds_status_notes stmt, vx_cluster = [], vx_namespace = [], vx_project = []\<rparr>)
       (filter (\<lambda>purl. purl \<noteq> []) (match_purls p))"

definition document_rows ::
  "(string \<Rightarrow> int option) \<Rightarrow> (string \<Rightarrow> string) \<Rightarrow> int \<Rightarrow> string \<Rightarrow> open_vex_document \<Rightarrow> vex_statement list" where
  "document_rows parse_time uuid now source_file doc =
     concat (map (\<lambda>stmt.
       let vuln = vuln_reference (ds_vulnerability stmt)
       in if vuln = [] then []
          else concat (map (product_statements uuid now source_file doc (normalize_vuln_id vuln)
                              (statement_time parse_time now doc stmt) stmt)
                 (ds_products stmt)))
       (od_statements doc))"

datatype vex_error = VexPanic | VexDecode | VexInvalid

definition parse_vex ::
  "(string \<Rightarrow> vex_error + open_vex_document) \<Rightarrow> (string \<Rightarrow> int option) \<Rightarrow> (string \<Rightarrow> string) \<Rightarrow> int \<Rightarrow> string \<Rightarrow> string
     \<Rightarrow> vex_error + string \<times> vex_statement list" where
  "parse_vex decode parse_time uuid now source_file data =
     (case decode data of
        Inl e \<Rightarrow> Inl e
      | Inr doc \<Rightarrow>
          if od_context doc = [] \<and> od_statements doc = [] then Inl VexInvalid
          else Inr (od_id doc, document_rows parse_time uuid now source_file doc))"

subsection \<open>Ownership\<close>

record ownership =
  ow_cluster :: string
  ow_namespace :: string
  ow_project :: string
  ow_tags :: "string list"
  ow_parent :: string

definition ownership_of :: "ingestion_job \<Rightarrow> ownership" where
  "ownership_of job =
     \<lparr>ow_cluster = pl_cluster (jb_payload job), ow_namespace = pl_namespace (jb_payload job),
      ow_project = pl_project (jb_payload job), ow_tags = pl_tags (jb_payload job), ow_parent = pl_parent (jb_payload job)\<rparr>"

definition apply_vex_statement :: "ownership \<Rightarrow> vex_statement \<Rightarrow> vex_statement" where
  "apply_vex_statement o' s = s\<lparr>vx_cluster := ow_cluster o', vx_namespace := ow_namespace o', vx_project := ow_project o'\<rparr>"

definition apply_vex_statements :: "ownership \<Rightarrow> vex_statement list \<Rightarrow> vex_statement list" where
  "apply_vex_statements o' stmts = map (apply_vex_statement o') stmts"

subsection \<open>Scoping a statement to an SBOM\<close>

record sbom_identity =
  si_sbom_id :: string
  si_source_repo :: string
  si_document_namespace :: string
  si_document_name :: string
  si_ingested_at :: int

definition names_sbom :: "string \<Rightarrow> sbom_identity \<Rightarrow> bool" where
  "names_sbom ref r \<longleftrightarrow>
     si_sbom_id r = ref \<or> (si_source_repo r \<noteq> [] \<and> si_source_repo r = ref) \<or>
     (si_document_namespace r \<noteq> [] \<and> si_document_namespace r = ref) \<or>
     (si_document_name r \<noteq> [] \<and> si_document_name r = ref)"

text \<open>\<open>Inl\<close> is a database error; the first newest match stands for the order SQL leaves open.\<close>

definition resolve_sbom_by_product_ref :: "bool \<Rightarrow> sbom_identity list \<Rightarrow> string \<Rightarrow> unit + string" where
  "resolve_sbom_by_product_ref reachable sboms ref =
     (if ref = [] then Inr []
      else if \<not> reachable then Inl ()
      else (case sort_key (\<lambda>r. - si_ingested_at r) (filter (names_sbom ref) sboms) of
              [] \<Rightarrow> Inr []
            | r # _ \<Rightarrow> Inr (si_sbom_id r)))"

definition found :: "unit + string \<Rightarrow> string" where
  "found r = (case r of Inl _ \<Rightarrow> [] | Inr i \<Rightarrow> i)"

definition lookup_ref :: "(string \<Rightarrow> unit + string) \<Rightarrow> (string \<Rightarrow> string) \<Rightarrow> string \<Rightarrow> string" where
  "lookup_ref resolve normalized ref =
     (let sid = found (resolve ref)
      in if sid \<noteq> [] then sid
         else let n = normalized ref in if n \<noteq> [] \<and> n \<noteq> ref then found (resolve n) else [])"

definition pin_statement :: "string \<Rightarrow> vex_statement \<Rightarrow> vex_statement" where
  "pin_statement sid s =
     s\<lparr>vx_sbom_id := sid, vx_product_purl := (if vx_product_wide s then vex_product_wide else vx_product_purl s)\<rparr>"

definition place :: "string \<Rightarrow> vex_statement \<Rightarrow> vex_statement" where
  "place sid s = (if sid = [] then s else pin_statement sid s)"

fun scope_loop ::
  "(string \<Rightarrow> unit + string) \<Rightarrow> (string \<Rightarrow> string) \<Rightarrow> (string \<rightharpoonup> string) \<Rightarrow> vex_statement list \<Rightarrow> vex_statement list" where
  "scope_loop resolve normalized cache [] = []"
| "scope_loop resolve normalized cache (s # stmts) =
     (let ref = vx_product_ref s
      in if ref = [] then s # scope_loop resolve normalized cache stmts
         else (case cache ref of
                 Some sid \<Rightarrow> place sid s # scope_loop resolve normalized cache stmts
               | None \<Rightarrow>
                   let sid = lookup_ref resolve normalized ref
                   in place sid s # scope_loop resolve normalized (cache(ref \<mapsto> sid)) stmts))"

definition scope_vex_statements ::
  "(string \<Rightarrow> unit + string) \<Rightarrow> (string \<Rightarrow> string) \<Rightarrow> string \<Rightarrow> vex_statement list \<Rightarrow> vex_statement list" where
  "scope_vex_statements resolve normalized target stmts =
     (if target \<noteq> [] then map (pin_statement target) stmts
      else scope_loop resolve normalized Map.empty stmts)"

subsection \<open>The table\<close>

definition vex_key :: "vex_statement \<Rightarrow> string \<times> string \<times> string" where
  "vex_key s = (vx_vuln_id s, vx_product_purl s, vx_vex_id s)"

text \<open>The row a \<open>ReplacingMergeTree\<close> keeps: the greatest version, of several the one inserted last.\<close>

fun newest_row :: "vex_statement list \<Rightarrow> vex_statement option" where
  "newest_row [] = None"
| "newest_row (r # rs) =
     (case newest_row rs of
        None \<Rightarrow> Some r
      | Some r' \<Rightarrow> if vx_ingested_at r' < vx_ingested_at r then Some r else Some r')"

definition is_current :: "vex_statement list \<Rightarrow> vex_statement \<Rightarrow> bool" where
  "is_current t r \<longleftrightarrow> newest_row (filter (\<lambda>r'. vex_key r' = vex_key r) t) = Some r"

definition final_rows :: "vex_statement list \<Rightarrow> vex_statement list" where
  "final_rows t = remdups (filter (is_current t) t)"

definition stored_row :: "vex_statement \<Rightarrow> vex_statement" where
  "stored_row s = s\<lparr>vx_product_wide := False\<rparr>"

definition insert_vex_statements :: "vex_statement list \<Rightarrow> vex_statement list \<Rightarrow> vex_statement list" where
  "insert_vex_statements t stmts = t @ map stored_row stmts"

definition unscoped :: "vex_statement \<Rightarrow> bool" where
  "unscoped r \<longleftrightarrow> vx_sbom_id r = []"

definition effective_ref :: "vex_statement \<Rightarrow> string" where
  "effective_ref r = (if vx_product_ref r = [] then vx_product_purl r else vx_product_ref r)"

definition query_unscoped :: "vex_statement list \<Rightarrow> vex_statement list" where
  "query_unscoped t = map (\<lambda>r. r\<lparr>vx_product_ref := effective_ref r\<rparr>) (filter unscoped (final_rows t))"

definition document_exists :: "vex_statement list \<Rightarrow> string \<Rightarrow> bool" where
  "document_exists t doc \<longleftrightarrow> filter (\<lambda>r. vx_document_id r = doc) (final_rows t) \<noteq> []"

definition unscoped_count :: "vex_statement list \<Rightarrow> string \<Rightarrow> nat" where
  "unscoped_count t doc = length (filter (\<lambda>r. vx_document_id r = doc \<and> unscoped r) (final_rows t))"

definition delete_document :: "string \<Rightarrow> vex_statement list \<Rightarrow> vex_statement list" where
  "delete_document doc t = filter (\<lambda>r. vx_document_id r \<noteq> doc) t"

definition delete_unscoped :: "string list \<Rightarrow> vex_statement list \<Rightarrow> vex_statement list" where
  "delete_unscoped ids t = filter (\<lambda>r. \<not> (unscoped r \<and> vx_vex_id r \<in> set ids)) t"

subsection \<open>Rescuing unscoped statements\<close>

text \<open>Which store operation fails.\<close>

datatype store_outcome = StoreOk | QueryFails | InsertFails | DeleteFails

definition rescued_rows ::
  "(string \<Rightarrow> unit + string) \<Rightarrow> (string \<Rightarrow> string) \<Rightarrow> int \<Rightarrow> vex_statement list \<Rightarrow> vex_statement list" where
  "rescued_rows resolve normalized now t =
     (let stmts = map (\<lambda>s. s\<lparr>vx_product_wide := (vx_product_ref s = vx_product_purl s)\<rparr>) (query_unscoped t);
          scoped = scope_vex_statements resolve normalized [] stmts
      in map (\<lambda>s. s\<lparr>vx_ingested_at := now\<rparr>) (filter (\<lambda>s. vx_sbom_id s \<noteq> []) scoped))"

definition rescue_unscoped_vex ::
  "(string \<Rightarrow> unit + string) \<Rightarrow> (string \<Rightarrow> string) \<Rightarrow> int \<Rightarrow> store_outcome \<Rightarrow> vex_statement list \<Rightarrow> vex_statement list" where
  "rescue_unscoped_vex resolve normalized now outcome t =
     (if outcome = QueryFails then t
      else
        let rescued = rescued_rows resolve normalized now t
        in if rescued = [] then t
           else if outcome = InsertFails then t
           else if outcome = DeleteFails then insert_vex_statements t rescued
           else delete_unscoped (map vx_vex_id rescued) (insert_vex_statements t rescued))"

subsection \<open>A VEX job\<close>

text \<open>
  \<open>processVEXJob\<close> once the document is open. \<open>exists_ok\<close> is whether the existence query worked (its error
  is dropped), \<open>outcome\<close> the first store operation that fails; the count fails with \<open>QueryFails\<close>.
\<close>

definition process_vex_job ::
  "(vex_error + string \<times> vex_statement list) \<Rightarrow> (string \<Rightarrow> unit + string) \<Rightarrow> (string \<Rightarrow> string) \<Rightarrow> bool \<Rightarrow> store_outcome
     \<Rightarrow> ingestion_job \<Rightarrow> vex_statement list \<Rightarrow> bool \<times> vex_statement list" where
  "process_vex_job parsed resolve normalized exists_ok outcome job t =
     (case parsed of
        Inl e \<Rightarrow> (False, t)
      | Inr (doc, stmts) \<Rightarrow>
          let existing = exists_ok \<and> document_exists t doc
          in if existing \<and> outcome = QueryFails then (False, t)
             else if existing \<and> unscoped_count t doc = 0 then (True, t)
             else
               let stmts = scope_vex_statements resolve normalized (pl_target_sbom_id (jb_payload job))
                             (apply_vex_statements (ownership_of job) stmts)
               in if existing \<and> outcome = DeleteFails then (False, t)
                  else
                    let t' = (if existing then delete_document doc t else t)
                    in if stmts = [] then (True, t')
                       else if outcome = InsertFails then (False, t')
                       else (True, insert_vex_statements t' stmts))"

subsection \<open>The memo of resolved products is transparent\<close>

definition scope_one :: "(string \<Rightarrow> unit + string) \<Rightarrow> (string \<Rightarrow> string) \<Rightarrow> vex_statement \<Rightarrow> vex_statement" where
  "scope_one resolve normalized s =
     (if vx_product_ref s = [] then s else place (lookup_ref resolve normalized (vx_product_ref s)) s)"

lemma scope_loop_map:
  assumes "\<forall>ref sid. cache ref = Some sid \<longrightarrow> sid = lookup_ref resolve normalized ref"
  shows "scope_loop resolve normalized cache stmts = map (scope_one resolve normalized) stmts"
  using assms
proof (induction stmts arbitrary: cache)
  case (Cons s stmts)
  show ?case
  proof (cases "vx_product_ref s = []")
    case True
    then show ?thesis using Cons by (simp add: scope_one_def)
  next
    case False
    show ?thesis
    proof (cases "cache (vx_product_ref s)")
      case None
      then show ?thesis
        using False Cons.prems by (simp add: scope_one_def Let_def Cons.IH)
    next
      case (Some sid)
      then show ?thesis using False Cons by (simp add: scope_one_def)
    qed
  qed
qed simp

lemma scope_untargeted: "scope_vex_statements resolve normalized [] stmts = map (scope_one resolve normalized) stmts"
  by (simp add: scope_vex_statements_def scope_loop_map)

lemma place_sel [simp]:
  "vx_vex_id (place sid s) = vx_vex_id s" "vx_vuln_id (place sid s) = vx_vuln_id s"
  "vx_sbom_id (place sid s) = (if sid = [] then vx_sbom_id s else sid)"
  by (simp_all add: place_def pin_statement_def)

lemma scope_one_sel [simp]:
  "vx_vex_id (scope_one resolve normalized s) = vx_vex_id s" "vx_vuln_id (scope_one resolve normalized s) = vx_vuln_id s"
  by (simp_all add: scope_one_def)

lemma stored_row_sel [simp]:
  "vx_vex_id (stored_row s) = vx_vex_id s" "vx_vuln_id (stored_row s) = vx_vuln_id s" "vx_sbom_id (stored_row s) = vx_sbom_id s"
  "vx_ingested_at (stored_row s) = vx_ingested_at s" "vx_product_ref (stored_row s) = vx_product_ref s"
  "vx_product_purl (stored_row s) = vx_product_purl s"
  by (simp_all add: stored_row_def)

subsection \<open>One statement id at a time\<close>

definition of_id :: "string \<Rightarrow> vex_statement list \<Rightarrow> vex_statement list" where
  "of_id i t = filter (\<lambda>r. vx_vex_id r = i) t"

lemma of_id_append [simp]: "of_id i (t @ u) = of_id i t @ of_id i u"
  by (simp add: of_id_def)

lemma of_id_map: "(\<And>s. vx_vex_id (f s) = vx_vex_id s) \<Longrightarrow> of_id i (map f t) = map f (of_id i t)"
  by (simp add: of_id_def filter_map comp_def)

lemma of_id_filter: "of_id i (filter P t) = filter P (of_id i t)"
  by (simp add: of_id_def conj_commute)

lemma set_of_id: "r \<in> set (of_id i t) \<longleftrightarrow> r \<in> set t \<and> vx_vex_id r = i"
  by (auto simp: of_id_def)

lemma is_current_of_id:
  assumes "vx_vex_id r = i"
  shows "is_current (of_id i t) r \<longleftrightarrow> is_current t r"
proof -
  have "filter (\<lambda>r'. vex_key r' = vex_key r) (of_id i t) = filter (\<lambda>r'. vex_key r' = vex_key r) t"
    using assms unfolding of_id_def filter_filter by (intro filter_cong) (auto simp: vex_key_def)
  then show ?thesis by (simp add: is_current_def)
qed

lemma final_rows_of_id: "of_id i (final_rows t) = final_rows (of_id i t)"
proof -
  have "filter (is_current (of_id i t)) (of_id i t) = of_id i (filter (is_current t) t)"
    unfolding of_id_def filter_filter
    by (intro filter_cong refl) (metis is_current_of_id of_id_def)
  then show ?thesis
    by (simp add: final_rows_def of_id_def remdups_filter)
qed

lemma query_unscoped_of_id: "of_id i (query_unscoped t) = query_unscoped (of_id i t)"
  unfolding query_unscoped_def by (subst of_id_map) (simp_all add: of_id_filter final_rows_of_id)

text \<open>The corrected copy of one stored row.\<close>

definition rescue_one :: "(string \<Rightarrow> unit + string) \<Rightarrow> (string \<Rightarrow> string) \<Rightarrow> vex_statement \<Rightarrow> vex_statement" where
  "rescue_one resolve normalized r =
     scope_one resolve normalized
       (r\<lparr>vx_product_ref := effective_ref r, vx_product_wide := (effective_ref r = vx_product_purl r)\<rparr>)"

lemma rescued_rows_eq:
  "rescued_rows resolve normalized now t =
     map (\<lambda>s. s\<lparr>vx_ingested_at := now\<rparr>)
       (filter (\<lambda>s. vx_sbom_id s \<noteq> []) (map (rescue_one resolve normalized) (filter unscoped (final_rows t))))"
  by (simp add: rescued_rows_def scope_untargeted query_unscoped_def rescue_one_def [abs_def] comp_def)

lemma rescue_one_sel [simp]:
  "vx_vex_id (rescue_one resolve normalized r) = vx_vex_id r" "vx_vuln_id (rescue_one resolve normalized r) = vx_vuln_id r"
  by (simp_all add: rescue_one_def)

lemma rescued_rows_of_id: "of_id i (rescued_rows resolve normalized now t) = rescued_rows resolve normalized now (of_id i t)"
  unfolding rescued_rows_eq
  by (subst of_id_map) (simp_all add: of_id_filter of_id_map final_rows_of_id)

lemma insert_of_id: "of_id i (insert_vex_statements t stmts) = insert_vex_statements (of_id i t) (of_id i stmts)"
  by (simp add: insert_vex_statements_def of_id_map)

lemma rescue_ok_of_id:
  "of_id i (rescue_unscoped_vex resolve normalized now StoreOk t) = rescue_unscoped_vex resolve normalized now StoreOk (of_id i t)"
proof -
  let ?R = "rescued_rows resolve normalized now"
  let ?all = "delete_unscoped (map vx_vex_id (?R t)) (insert_vex_statements t (?R t))"
  have split: "of_id i ?all = filter (\<lambda>r. \<not> (unscoped r \<and> vx_vex_id r \<in> vx_vex_id ` set (?R t)))
      (insert_vex_statements (of_id i t) (?R (of_id i t)))"
    by (simp add: delete_unscoped_def of_id_filter insert_of_id rescued_rows_of_id)
  have mem: "i \<in> vx_vex_id ` set (?R t) \<longleftrightarrow> ?R (of_id i t) \<noteq> []"
    using rescued_rows_of_id [of i resolve normalized now t, symmetric] by (force simp: of_id_def filter_empty_conv)
  have ids: "vx_vex_id r = i" if "r \<in> set (insert_vex_statements (of_id i t) (?R (of_id i t)))" for r
    using that by (auto simp: insert_vex_statements_def set_of_id rescued_rows_of_id [symmetric])
  have eq: "of_id i ?all = rescue_unscoped_vex resolve normalized now StoreOk (of_id i t)"
  proof (cases "?R (of_id i t) = []")
    case True
    then have "of_id i ?all = insert_vex_statements (of_id i t) []"
      unfolding split using ids mem by (auto simp: filter_id_conv)
    then show ?thesis using True by (simp add: rescue_unscoped_vex_def insert_vex_statements_def)
  next
    case False
    have "vx_vex_id r \<in> vx_vex_id ` set (?R (of_id i t))" if "vx_vex_id r = i" for r
    proof -
      obtain q where "q \<in> set (?R (of_id i t))" using False by (cases "?R (of_id i t)") auto
      moreover from this have "vx_vex_id q = i" using rescued_rows_of_id [of i resolve normalized now t] set_of_id by metis
      ultimately show ?thesis using that by force
    qed
    note memB = this
    have "filter (\<lambda>r. \<not> (unscoped r \<and> vx_vex_id r \<in> vx_vex_id ` set (?R t)))
        (insert_vex_statements (of_id i t) (?R (of_id i t))) =
      filter (\<lambda>r. \<not> (unscoped r \<and> vx_vex_id r \<in> set (map vx_vex_id (?R (of_id i t)))))
        (insert_vex_statements (of_id i t) (?R (of_id i t)))"
    proof (intro filter_cong refl)
      fix r
      assume "r \<in> set (insert_vex_statements (of_id i t) (?R (of_id i t)))"
      then have "vx_vex_id r = i" by (rule ids)
      with mem False memB [of r] show "(\<not> (unscoped r \<and> vx_vex_id r \<in> vx_vex_id ` set (?R t))) =
          (\<not> (unscoped r \<and> vx_vex_id r \<in> set (map vx_vex_id (?R (of_id i t)))))"
        by simp
    qed
    then show ?thesis
      unfolding split using False by (simp add: rescue_unscoped_vex_def delete_unscoped_def Let_def)
  qed
  show ?thesis
  proof (cases "?R t = []")
    case True
    then have "?R (of_id i t) = []"
      using rescued_rows_of_id [of i resolve normalized now t] by (simp add: of_id_def)
    then show ?thesis using True by (simp add: rescue_unscoped_vex_def)
  next
    case False
    then have "rescue_unscoped_vex resolve normalized now StoreOk t = ?all"
      by (simp add: rescue_unscoped_vex_def Let_def)
    with eq show ?thesis by simp
  qed
qed

subsection \<open>Rows of a single statement\<close>

lemma final_single [simp]: "final_rows [r] = [r]"
  by (simp add: final_rows_def is_current_def)

text \<open>What parsing must give for the stored columns to determine whether a statement is product-wide.\<close>

definition rescuable :: "vex_statement \<Rightarrow> bool" where
  "rescuable s \<longleftrightarrow> unscoped s \<and> vx_product_ref s \<noteq> [] \<and> (vx_product_wide s \<longleftrightarrow> vx_product_ref s = vx_product_purl s)"

definition content :: "vex_statement \<Rightarrow> vex_statement" where
  "content r = r\<lparr>vx_ingested_at := 0\<rparr>"

lemma rescue_one_stored:
  assumes "rescuable s"
  shows "rescue_one resolve normalized (stored_row s) = scope_one resolve normalized s"
proof -
  have "(stored_row s)\<lparr>vx_product_ref := effective_ref (stored_row s),
      vx_product_wide := (effective_ref (stored_row s) = vx_product_purl (stored_row s))\<rparr> = s"
    using assms by (cases s) (simp add: rescuable_def effective_ref_def stored_row_def)
  then show ?thesis by (simp add: rescue_one_def)
qed

lemma stored_content: "content (stored_row (s\<lparr>vx_ingested_at := now\<rparr>)) = content (stored_row s)"
  by (simp add: content_def stored_row_def)

lemma rescue_single:
  assumes "rescuable s"
    and later: "\<And>ref. lookup_ref resolve0 normalized ref \<noteq> [] \<Longrightarrow>
      lookup_ref resolve1 normalized ref = lookup_ref resolve0 normalized ref"
  shows "map content (final_rows (rescue_unscoped_vex resolve1 normalized now StoreOk [stored_row (scope_one resolve0 normalized s)])) =
    [content (stored_row (scope_one resolve1 normalized s))]"
proof (cases "lookup_ref resolve0 normalized (vx_product_ref s) = []")
  case False
  then have "scope_one resolve1 normalized s = scope_one resolve0 normalized s"
    using later by (simp add: scope_one_def)
  moreover have "\<not> unscoped (stored_row (scope_one resolve0 normalized s))"
    using assms(1) False by (simp add: unscoped_def rescuable_def scope_one_def)
  ultimately show ?thesis
    by (simp add: rescue_unscoped_vex_def rescued_rows_eq)
next
  case True
  have s: "unscoped s" "vx_product_ref s \<noteq> []" using assms(1) by (simp_all add: rescuable_def)
  have stay: "scope_one resolve0 normalized s = s" using True by (simp add: scope_one_def place_def)
  have rows: "rescued_rows resolve1 normalized now [stored_row s] =
      (if lookup_ref resolve1 normalized (vx_product_ref s) = [] then []
       else [(scope_one resolve1 normalized s)\<lparr>vx_ingested_at := now\<rparr>])"
    using s by (simp add: rescued_rows_eq rescue_one_stored [OF assms(1)] unscoped_def) (simp add: scope_one_def unscoped_def)
  show ?thesis
  proof (cases "lookup_ref resolve1 normalized (vx_product_ref s) = []")
    case True
    then have "scope_one resolve1 normalized s = s" by (simp add: scope_one_def place_def)
    then show ?thesis using True by (simp add: rescue_unscoped_vex_def rows stay)
  next
    case False
    then have "vx_sbom_id (scope_one resolve1 normalized s) \<noteq> []" using s by (simp add: scope_one_def)
    then show ?thesis
      using False s
      by (simp add: rescue_unscoped_vex_def rows stay Let_def insert_vex_statements_def delete_unscoped_def unscoped_def stored_content)
  qed
qed

subsection \<open>Parsed statements\<close>

text \<open>A document that names its products and no product as its own component.\<close>

definition well_identified :: "open_vex_document \<Rightarrow> bool" where
  "well_identified doc \<longleftrightarrow>
     (\<forall>stmt \<in> set (od_statements doc). \<forall>p \<in> set (ds_products stmt).
        extract_purl p \<noteq> [] \<and> (\<forall>sc \<in> set (vp_subcomponents p). extract_subcomponent_purl sc \<noteq> extract_purl p))"

lemma parsed_rescuable:
  assumes "well_identified doc" "s \<in> set (document_rows parse_time uuid now source_file doc)"
  shows "rescuable s" "vx_ingested_at s = now" "vx_document_id s = od_id doc"
proof -
  obtain stmt p vuln t where stmt: "stmt \<in> set (od_statements doc)" "p \<in> set (ds_products stmt)"
    and s: "s \<in> set (product_statements uuid now source_file doc vuln t stmt p)"
    using assms(2) by (auto simp: document_rows_def Let_def split: if_splits)
  have "extract_purl p \<noteq> []" "\<forall>sc \<in> set (vp_subcomponents p). extract_subcomponent_purl sc \<noteq> extract_purl p"
    using assms(1) stmt by (auto simp: well_identified_def)
  with s show "rescuable s" "vx_ingested_at s = now" "vx_document_id s = od_id doc"
    by (auto simp: product_statements_def rescuable_def unscoped_def match_purls_def split: if_splits)
qed

lemma owned_rescuable [simp]: "rescuable (apply_vex_statement own s) \<longleftrightarrow> rescuable s"
  by (simp add: rescuable_def apply_vex_statement_def unscoped_def)

lemma of_id_distinct:
  assumes "distinct (map vx_vex_id stmts)" "s \<in> set stmts"
  shows "of_id (vx_vex_id s) stmts = [s]"
  using assms
proof (induction stmts)
  case (Cons a stmts)
  show ?case
  proof (cases "a = s")
    case True
    moreover have "of_id (vx_vex_id s) stmts = []"
      using Cons.prems(1) True unfolding of_id_def by (auto simp: filter_empty_conv image_iff)
    ultimately show ?thesis by (simp add: of_id_def)
  next
    case False
    then have "s \<in> set stmts" using Cons.prems by simp
    moreover from this have "vx_vex_id a \<noteq> vx_vex_id s" using Cons.prems(1) by auto
    ultimately show ?thesis using Cons by (simp add: of_id_def)
  qed
qed simp

lemma process_untargeted:
  assumes "parsed = Inr (doc, stmts)" "pl_target_sbom_id (jb_payload job) = []" "\<not> document_exists t doc"
  shows "process_vex_job parsed resolve normalized exists_ok StoreOk job t =
    (True, insert_vex_statements t (map (scope_one resolve normalized \<circ> apply_vex_statement (ownership_of job)) stmts))"
  using assms
  by (simp add: process_vex_job_def scope_untargeted apply_vex_statements_def insert_vex_statements_def Let_def)

subsection \<open>No statement is lost\<close>

lemma newest_row_None [simp]: "newest_row rs = None \<longleftrightarrow> rs = []"
  by (cases rs) (auto split: option.splits)

lemma newest_row_in: "newest_row rs = Some r \<Longrightarrow> r \<in> set rs"
  by (induction rs arbitrary: r) (auto split: option.splits if_splits)

lemma newest_row_snoc: "\<forall>r \<in> set rs. vx_ingested_at r \<le> vx_ingested_at x \<Longrightarrow> newest_row (rs @ [x]) = Some x"
  by (induction rs) auto

lemma newest_row_batch:
  assumes "ys \<noteq> []" "\<forall>y \<in> set ys. vx_ingested_at y = now" "\<forall>r \<in> set rs. vx_ingested_at r \<le> now"
  shows "\<exists>y \<in> set ys. newest_row (rs @ ys) = Some y"
proof -
  obtain zs z where ys: "ys = zs @ [z]" using assms(1) by (metis rev_exhaust)
  have "newest_row ((rs @ zs) @ [z]) = Some z"
    using assms(2,3) ys by (intro newest_row_snoc) auto
  then show ?thesis using ys by auto
qed

lemma current_of_key:
  assumes "r \<in> set t"
  obtains q where "q \<in> set (final_rows t)" "vex_key q = vex_key r"
    "newest_row (filter (\<lambda>r'. vex_key r' = vex_key r) t) = Some q"
proof -
  have "filter (\<lambda>r'. vex_key r' = vex_key r) t \<noteq> []" using assms by (auto simp: filter_empty_conv)
  then obtain q where q: "newest_row (filter (\<lambda>r'. vex_key r' = vex_key r) t) = Some q"
    by (metis newest_row_None not_None_eq)
  then have "q \<in> set t" "vex_key q = vex_key r" using newest_row_in by fastforce+
  with q show ?thesis using that [of q] by (simp add: final_rows_def is_current_def)
qed

lemma vex_key_fields: "vex_key r = vex_key q \<longleftrightarrow>
    vx_vuln_id r = vx_vuln_id q \<and> vx_product_purl r = vx_product_purl q \<and> vx_vex_id r = vx_vex_id q"
  by (auto simp: vex_key_def)

lemma rescued_row:
  assumes "q \<in> set (rescued_rows resolve normalized now t)"
  shows "vx_ingested_at q = now" "\<not> unscoped q" "\<exists>r \<in> set (final_rows t). unscoped r \<and> vx_vex_id r = vx_vex_id q \<and> vx_vuln_id r = vx_vuln_id q"
  using assms by (auto simp: rescued_rows_eq unscoped_def)

lemma unscoped_after_rescue:
  assumes "r \<in> set (final_rows (rescue_unscoped_vex resolve normalized now StoreOk t))" "unscoped r"
  shows "effective_ref r = [] \<or> lookup_ref resolve normalized (effective_ref r) = []"
proof -
  let ?t = "of_id (vx_vex_id r) t"
  let ?R = "rescued_rows resolve normalized now ?t"
  have r: "r \<in> set (final_rows (rescue_unscoped_vex resolve normalized now StoreOk ?t))"
    using assms(1) by (simp add: rescue_ok_of_id [symmetric] final_rows_of_id [symmetric] set_of_id)
  show ?thesis
  proof (cases "?R = []")
    case True
    then have "r \<in> set (final_rows ?t)" using r by (simp add: rescue_unscoped_vex_def)
    then have "vx_sbom_id (rescue_one resolve normalized r) = []"
      using True assms(2) by (auto simp: rescued_rows_eq filter_empty_conv)
    then show ?thesis using assms(2) by (auto simp: rescue_one_def scope_one_def split: if_splits)
  next
    case False
    then obtain q where q: "q \<in> set ?R" by (cases ?R) auto
    then have "vx_vex_id q = vx_vex_id r"
      by (metis rescued_rows_of_id set_of_id)
    then have "vx_vex_id r \<in> vx_vex_id ` set ?R" using q by (metis image_eqI)
    moreover have "r \<in> set (delete_unscoped (map vx_vex_id ?R) (insert_vex_statements ?t ?R))"
      using r False by (simp add: rescue_unscoped_vex_def Let_def final_rows_def)
    ultimately show ?thesis using assms(2) by (simp add: delete_unscoped_def)
  qed
qed

lemma rescue_keeps:
  assumes ids: "\<forall>r \<in> set t. \<forall>r' \<in> set t. vx_vex_id r = vx_vex_id r' \<longrightarrow> vx_vuln_id r = vx_vuln_id r'"
    and now: "\<forall>r \<in> set t. vx_ingested_at r \<le> now" and r: "r \<in> set (final_rows t)"
  shows "\<exists>r' \<in> set (final_rows (rescue_unscoped_vex resolve normalized now outcome t)).
    vx_vex_id r' = vx_vex_id r \<and> vx_vuln_id r' = vx_vuln_id r \<and> (unscoped r' \<longrightarrow> unscoped r)"
proof -
  let ?R = "rescued_rows resolve normalized now t"
  let ?t' = "rescue_unscoped_vex resolve normalized now outcome t"
  have rt: "r \<in> set t" "is_current t r" using r by (auto simp: final_rows_def)
  consider (same) "?t' = t" | (kept) "outcome = DeleteFails" "?t' = t @ map stored_row ?R"
    | (full) "?R \<noteq> []" "?t' = delete_unscoped (map vx_vex_id ?R) (t @ map stored_row ?R)"
    by (cases outcome; cases "?R = []") (auto simp: rescue_unscoped_vex_def Let_def insert_vex_statements_def)
  then show ?thesis
  proof cases
    case same
    then show ?thesis using r by auto
  next
    case kept
    show ?thesis
    proof (cases "\<exists>q \<in> set ?R. vex_key (stored_row q) = vex_key r")
      case True
      let ?key = "\<lambda>r'. vex_key r' = vex_key r"
      have "\<exists>y \<in> set (filter ?key (map stored_row ?R)). newest_row (filter ?key t @ filter ?key (map stored_row ?R)) = Some y"
        using True now rescued_row(1) by (intro newest_row_batch [of _ now]) (auto simp: filter_empty_conv)
      then obtain q where q: "q \<in> set ?R" "?key (stored_row q)" "newest_row (filter ?key ?t') = Some (stored_row q)"
        using kept by auto
      then have "stored_row q \<in> set (final_rows ?t')" using kept by (simp add: final_rows_def is_current_def)
      then show ?thesis
        using q rescued_row(2) [OF q(1)]
        by (intro bexI [of _ "stored_row q"]) (simp_all add: vex_key_fields unscoped_def)
    next
      case False
      then have "is_current ?t' r"
        using rt kept by (auto simp: is_current_def filter_empty_conv)
      then show ?thesis using rt kept by (auto simp: final_rows_def)
    qed
  next
    case full
    show ?thesis
    proof (cases "vx_vex_id r \<in> vx_vex_id ` set ?R")
      case True
      then obtain q where q: "q \<in> set ?R" "vx_vex_id q = vx_vex_id r" by force
      obtain q0 where q0: "q0 \<in> set (final_rows t)" "vx_vex_id q0 = vx_vex_id q" "vx_vuln_id q0 = vx_vuln_id q"
        using rescued_row(3) [OF q(1)] by blast
      then have "q0 \<in> set t" by (simp add: final_rows_def)
      then have vuln: "vx_vuln_id q = vx_vuln_id r" using ids rt(1) q(2) q0(2,3) by metis
      have "stored_row q \<in> set ?t'"
        using full q(1) rescued_row(2) [OF q(1)] by (simp add: delete_unscoped_def unscoped_def)
      then obtain r' where r': "r' \<in> set (final_rows ?t')" "vex_key r' = vex_key (stored_row q)"
        by (rule current_of_key) blast
      moreover have "\<not> unscoped r'"
      proof -
        have "r' \<in> set ?t'" using r'(1) by (simp add: final_rows_def)
        moreover have "vx_vex_id r' = vx_vex_id r" using r'(2) q(2) by (simp add: vex_key_fields)
        ultimately show ?thesis using True unfolding full(2) delete_unscoped_def by auto
      qed
      ultimately show ?thesis using q vuln by (auto simp: vex_key_fields)
    next
      case False
      have "filter (\<lambda>r'. vex_key r' = vex_key r) ?t' = filter (\<lambda>r'. vex_key r' = vex_key r) t"
      proof -
        have "filter (\<lambda>r'. vex_key r' = vex_key r) (map stored_row ?R) = []"
          using False unfolding filter_empty_conv vex_key_fields by (auto simp: image_iff)
        moreover have "filter (\<lambda>r'. vex_key r' = vex_key r) (delete_unscoped (map vx_vex_id ?R) u) = filter (\<lambda>r'. vex_key r' = vex_key r) u" for u
          using False unfolding delete_unscoped_def filter_filter
          by (intro filter_cong refl) (simp add: vex_key_fields, metis)
        ultimately show ?thesis using full by simp
      qed
      then have "is_current ?t' r" using rt by (simp add: is_current_def)
      moreover have "r \<in> set ?t'" using rt(1) False full by (simp add: delete_unscoped_def)
      ultimately show ?thesis by (auto simp: final_rows_def)
    qed
  qed
qed

subsection \<open>Properties\<close>

text \<open>
  C28: The order in which a VEX document and the SBOM of its product arrive does not matter. Let a document
  name its products, and no product as its own component, with statement ids of its own. Ingested before
  the SBOM (against \<open>resolve0\<close>) and rescued once the SBOM can be resolved (\<open>resolve1\<close>, which keeps what
  \<open>resolve0\<close> found), each of its statements is current in the table exactly once, with the content it
  has when the document is ingested after the SBOM: scoped by \<open>resolve1\<close>, the product-wide marker
  included. Only the ingestion time differs.
\<close>

theorem vex_order_independent:
  assumes doc: "decode data = Inr doc" "well_identified doc"
    and parsed: "parse_vex decode parse_time uuid now source_file data = Inr (doc_id, stmts)"
    and job: "pl_target_sbom_id (jb_payload job) = []" "\<not> document_exists t doc_id"
    and ids: "distinct (map vx_vex_id stmts)" "\<forall>r \<in> set t. vx_vex_id r \<notin> vx_vex_id ` set stmts"
    and later: "\<forall>ref. lookup_ref resolve0 normalized ref \<noteq> [] \<longrightarrow>
      lookup_ref resolve1 normalized ref = lookup_ref resolve0 normalized ref"
    and s: "s \<in> set stmts"
  shows "map content (of_id (vx_vex_id s) (final_rows (rescue_unscoped_vex resolve1 normalized rescued_at StoreOk
        (snd (process_vex_job (Inr (doc_id, stmts)) resolve0 normalized exists_ok StoreOk job t))))) =
      [content (stored_row (scope_one resolve1 normalized (apply_vex_statement (ownership_of job) s)))] \<and>
    of_id (vx_vex_id s) (final_rows
        (snd (process_vex_job (Inr (doc_id, stmts)) resolve1 normalized exists_ok StoreOk job t))) =
      [stored_row (scope_one resolve1 normalized (apply_vex_statement (ownership_of job) s))]"
proof -
  let ?own = "apply_vex_statement (ownership_of job)"
  have stmts: "stmts = document_rows parse_time uuid now source_file doc"
    using parsed doc(1) by (simp add: parse_vex_def split: if_splits)
  have "rescuable s" using parsed_rescuable(1) [OF doc(2)] s stmts by blast
  then have resc: "rescuable (?own s)" by simp
  have "of_id (vx_vex_id s) t = []" using ids(2) s by (auto simp: of_id_def filter_empty_conv)
  moreover have "of_id (vx_vex_id s) stmts = [s]" using of_id_distinct [OF ids(1) s] .
  moreover have "of_id i (map (\<lambda>x. stored_row (scope_one resolve normalized (?own x))) stmts) =
      map (\<lambda>x. stored_row (scope_one resolve normalized (?own x))) (of_id i stmts)" for i resolve
    by (rule of_id_map) (simp add: apply_vex_statement_def)
  ultimately have only: "of_id (vx_vex_id s) (snd (process_vex_job (Inr (doc_id, stmts)) resolve normalized exists_ok StoreOk job t)) =
      [stored_row (scope_one resolve normalized (?own s))]" for resolve
    using process_untargeted [OF refl job, of stmts resolve normalized exists_ok]
    by (simp add: insert_vex_statements_def comp_def)
  show ?thesis
    unfolding final_rows_of_id rescue_ok_of_id only
    using rescue_single [OF resc, of resolve0 normalized resolve1 rescued_at] later by simp
qed

text \<open>
  C29: A rescue pass never loses a statement, whichever of its store operations fails: every statement
  current before is current after, with its id and vulnerability, and one that was scoped stays scoped.
  A pass that completes leaves no current statement unscoped whose product can be resolved. Ids are hashes
  that include the vulnerability, so rows of one id agree on it, and the clock does not run backwards.
\<close>

theorem vex_rescue_safe:
  assumes "\<forall>r \<in> set t. \<forall>r' \<in> set t. vx_vex_id r = vx_vex_id r' \<longrightarrow> vx_vuln_id r = vx_vuln_id r'"
    and "\<forall>r \<in> set t. vx_ingested_at r \<le> now"
  shows "(\<forall>r \<in> set (final_rows t). \<exists>r' \<in> set (final_rows (rescue_unscoped_vex resolve normalized now outcome t)).
      vx_vex_id r' = vx_vex_id r \<and> vx_vuln_id r' = vx_vuln_id r \<and> (unscoped r' \<longrightarrow> unscoped r)) \<and>
    (\<forall>r \<in> set (final_rows (rescue_unscoped_vex resolve normalized now StoreOk t)).
      unscoped r \<longrightarrow> effective_ref r = [] \<or> lookup_ref resolve normalized (effective_ref r) = [])"
  using rescue_keeps [OF assms] unscoped_after_rescue by blast

definition sample_subcomponent :: "string \<Rightarrow> vex_subcomponent" where
  "sample_subcomponent i = \<lparr>vs_id = i, vs_identifiers = []\<rparr>"

definition sample_document :: "vex_product list \<Rightarrow> open_vex_document" where
  "sample_document products =
     \<lparr>od_context = ''openvex'', od_id = ''doc'', od_author = ''a'', od_role = [], od_tooling = [], od_timestamp = [],
      od_statements =
        [\<lparr>ds_vulnerability = \<lparr>vv_id = ''https://pkg.go.dev/vuln/GO-1'', vv_name = [], vv_aliases = []\<rparr>,
          ds_products = products, ds_status = ''not_affected'', ds_status_notes = [], ds_justification = [],
          ds_impact_statement = [], ds_action_statement = [], ds_timestamp = []\<rparr>]\<rparr>"

definition sample_vex_job :: ingestion_job where
  "sample_vex_job =
     \<lparr>jb_created_at = 0, jb_job_id = 1,
      jb_payload = \<lparr>pl_source_file = ''v.json'', pl_sha256_hash = [], pl_job_type = ''vex'', pl_cluster = ''c'',
        pl_namespace = ''n'', pl_project = ''p'', pl_source_repo = [], pl_source_ref = [], pl_target_sbom_id = [],
        pl_tags = [], pl_parent = []\<rparr>,
      jb_status = None, jb_claimed_by = [], jb_claimed_at = None, jb_retry_after = 0, jb_version = 0\<rparr>"

definition sample_sbom :: sbom_identity where
  "sample_sbom =
     \<lparr>si_sbom_id = ''sbom-1'', si_source_repo = ''https://github.com/x/y'', si_document_namespace = [],
      si_document_name = ''y'', si_ingested_at = 5\<rparr>"

text \<open>
  Two products that share a vulnerable component give two rows with one sorting key: the table keeps the
  statement of the second product only.
\<close>

lemma shared_component_collides:
  defines "p \<equiv> \<lambda>i. \<lparr>vp_id = i, vp_identifiers = [], vp_subcomponents = [sample_subcomponent ''pkg:npm/z'']\<rparr>"
  shows "map vx_product_ref (document_rows (\<lambda>_. None) id 0 ''v.json'' (sample_document [p ''A'', p ''B''])) = [''A'', ''B'']"
    and "map vx_product_ref (final_rows (insert_vex_statements []
      (document_rows (\<lambda>_. None) id 0 ''v.json'' (sample_document [p ''A'', p ''B''])))) = [''B'']"
  unfolding p_def by code_simp+

text \<open>A statement pinned to a component that is spelled like its product is rescued as product-wide.\<close>

lemma pinned_component_widened:
  defines "rows \<equiv> document_rows (\<lambda>_. None) id 0 ''v.json''
      (sample_document [\<lparr>vp_id = ''y'', vp_identifiers = [], vp_subcomponents = [sample_subcomponent ''y'']\<rparr>])"
  shows "map vx_product_purl (map (scope_one (resolve_sbom_by_product_ref True [sample_sbom]) id) rows) = [''y'']"
    and "map vx_product_purl (rescue_unscoped_vex (resolve_sbom_by_product_ref True [sample_sbom]) id 1 StoreOk
      (insert_vex_statements [] rows)) = [''*'']"
  unfolding rows_def by code_simp+

lemma vex_order_independent_witness:
  "map content (of_id ''doc|GO-1|git+https://github.com/x/y.git'' (final_rows
      (rescue_unscoped_vex (resolve_sbom_by_product_ref True [sample_sbom]) (fst \<circ> normalize_repo (parse_url (\<lambda>_. None))) 9 StoreOk
        (snd (process_vex_job (Inr (''doc'', document_rows (\<lambda>_. None) id 3 ''v.json''
            (sample_document [\<lparr>vp_id = ''git+https://github.com/x/y.git'', vp_identifiers = [], vp_subcomponents = []\<rparr>])))
          (resolve_sbom_by_product_ref True []) (fst \<circ> normalize_repo (parse_url (\<lambda>_. None))) True StoreOk sample_vex_job []))))) =
    [content (stored_row (scope_one (resolve_sbom_by_product_ref True [sample_sbom]) (fst \<circ> normalize_repo (parse_url (\<lambda>_. None)))
      (apply_vex_statement (ownership_of sample_vex_job) (hd (document_rows (\<lambda>_. None) id 3 ''v.json''
            (sample_document [\<lparr>vp_id = ''git+https://github.com/x/y.git'', vp_identifiers = [], vp_subcomponents = []\<rparr>]))))))]"
proof -
  let ?doc = "sample_document [\<lparr>vp_id = ''git+https://github.com/x/y.git'', vp_identifiers = [], vp_subcomponents = []\<rparr>]"
  let ?rows = "document_rows (\<lambda>_. None) id 3 ''v.json'' ?doc"
  let ?norm = "fst \<circ> normalize_repo (parse_url (\<lambda>_. None))"
  have rows: "map vx_vex_id ?rows = [''doc|GO-1|git+https://github.com/x/y.git'']" by code_simp
  then obtain s where s: "?rows = [s]" "vx_vex_id s = ''doc|GO-1|git+https://github.com/x/y.git''" by auto
  have none: "lookup_ref (resolve_sbom_by_product_ref True []) ?norm ref = []" for ref
    by (simp add: lookup_ref_def resolve_sbom_by_product_ref_def found_def Let_def)
  have doc: "well_identified ?doc" by code_simp
  have parsed: "parse_vex (\<lambda>_. Inr ?doc) (\<lambda>_. None) id 3 ''v.json'' [] = Inr (''doc'', [s])"
    using s(1) by (simp add: parse_vex_def) (simp add: sample_document_def)
  have job: "pl_target_sbom_id (jb_payload sample_vex_job) = []" "\<not> document_exists [] ''doc''" by code_simp+
  show ?thesis
    using vex_order_independent [where s = s and ?resolve0.0 = "resolve_sbom_by_product_ref True []" and normalized = ?norm
        and ?resolve1.0 = "resolve_sbom_by_product_ref True [sample_sbom]" and rescued_at = 9 and exists_ok = True,
        OF refl doc parsed job] s none by simp
qed

lemma vex_rescue_safe_witness:
  "map vx_sbom_id (final_rows (rescue_unscoped_vex (resolve_sbom_by_product_ref True [sample_sbom]) id 9 DeleteFails
      (insert_vex_statements [] (document_rows (\<lambda>_. None) id 3 ''v.json''
        (sample_document [\<lparr>vp_id = ''y'', vp_identifiers = [], vp_subcomponents = []\<rparr>]))))) = [[], ''sbom-1''] \<and>
   list_all (\<lambda>r. effective_ref r = [] \<or> lookup_ref (resolve_sbom_by_product_ref True [sample_sbom]) id (effective_ref r) = [] \<or> \<not> unscoped r)
     (final_rows (rescue_unscoped_vex (resolve_sbom_by_product_ref True [sample_sbom]) id 9 StoreOk
      (insert_vex_statements [] (document_rows (\<lambda>_. None) id 3 ''v.json''
        (sample_document [\<lparr>vp_id = ''y'', vp_identifiers = [], vp_subcomponents = []\<rparr>])))))"
proof -
  let ?t = "insert_vex_statements [] (document_rows (\<lambda>_. None) id 3 ''v.json''
        (sample_document [\<lparr>vp_id = ''y'', vp_identifiers = [], vp_subcomponents = []\<rparr>]))"
  have "list_all (\<lambda>r. list_all (\<lambda>r'. vx_vex_id r = vx_vex_id r' \<longrightarrow> vx_vuln_id r = vx_vuln_id r') ?t) ?t"
    "list_all (\<lambda>r. vx_ingested_at r \<le> 9) ?t"
    by code_simp+
  then have "\<forall>r \<in> set ?t. \<forall>r' \<in> set ?t. vx_vex_id r = vx_vex_id r' \<longrightarrow> vx_vuln_id r = vx_vuln_id r'"
    "\<forall>r \<in> set ?t. vx_ingested_at r \<le> 9"
    unfolding list_all_iff by blast+
  from vex_rescue_safe [OF this, of "resolve_sbom_by_product_ref True [sample_sbom]" id]
  have "list_all (\<lambda>r. effective_ref r = [] \<or> lookup_ref (resolve_sbom_by_product_ref True [sample_sbom]) id (effective_ref r) = [] \<or> \<not> unscoped r)
     (final_rows (rescue_unscoped_vex (resolve_sbom_by_product_ref True [sample_sbom]) id 9 StoreOk ?t))"
    unfolding list_all_iff by blast
  moreover have "map vx_sbom_id (final_rows (rescue_unscoped_vex (resolve_sbom_by_product_ref True [sample_sbom]) id 9 DeleteFails ?t)) =
      [[], ''sbom-1'']"
    by code_simp
  ultimately show ?thesis by blast
qed

end
