(* ===== verification/Sbom_Name.thy ===== *)
theory Sbom_Name
  imports Go_Url Regex
begin

text \<open>
  Document names, \<open>backend/internal/sbomname/name.go\<close>. Decoding the naming metadata of a JSON document
  is a parameter; the log line and its abbreviation are left out.
\<close>

definition temp_name :: rx where
  "temp_name = rseq [rlit ''tmp'', ropt (rseq [rchar (CHR ''.''), rtimes 6 (RP (\<lambda>c. is_letter c \<or> is_digit c)),
      RStar (RP (\<lambda>c. is_letter c \<or> is_digit c))])]"

text \<open>\<open>path.Base\<close>\<close>

definition path_base :: "string \<Rightarrow> string" where
  "path_base p =
     (if p = [] then ''.''
      else
        let p1 = trim_right_by (\<lambda>c. c = CHR ''/'') p;
            p2 = (case str_last_index p1 ''/'' of None \<Rightarrow> p1 | Some i \<Rightarrow> drop (i + 1) p1)
        in if p2 = [] then ''/'' else p2)"

definition backslashes :: "string \<Rightarrow> string" where
  "backslashes s = replace_char (CHR 0x5C) ''/'' s"

definition needs_fallback :: "string \<Rightarrow> bool" where
  "needs_fallback name0 =
     (let name = trim_space name0
      in if name = [] then True
         else
           let normalized = backslashes name;
               absolute = has_prefix normalized ''/'' \<or> (length normalized > 2 \<and> take 2 (drop 1 normalized) = '':/'')
           in match_string temp_name (if absolute then path_base normalized else name))"

record naming_component =
  nc_id :: string
  nc_name :: string
  nc_version :: string

record naming_relationship =
  nr_from :: string
  nr_type :: string
  nr_to :: string

record naming_document =
  nd_id :: string
  nd_name :: string
  nd_spdx_version :: string
  nd_document_describes :: "string list"
  nd_packages :: "naming_component list"
  nd_relationships :: "naming_relationship list"
  nd_bom_format :: string
  nd_serial_number :: string
  nd_component :: "(string \<times> string) option"
  nd_predicate_type :: string
  nd_predicate :: string

definition empty_naming :: naming_document where
  "empty_naming =
     \<lparr>nd_id = [], nd_name = [], nd_spdx_version = [], nd_document_describes = [], nd_packages = [], nd_relationships = [],
      nd_bom_format = [], nd_serial_number = [], nd_component = None, nd_predicate_type = [], nd_predicate = []\<rparr>"

definition described_ids :: "naming_document \<Rightarrow> string set" where
  "described_ids doc =
     (let doc_id = (if nd_id doc = [] then ''SPDXRef-DOCUMENT'' else nd_id doc)
      in foldl (\<lambda>ids rel.
           if nr_type rel = ''DESCRIBES'' \<and> nr_from rel = doc_id then insert (nr_to rel) ids
           else if nr_type rel = ''DESCRIBED_BY'' \<and> nr_to rel = doc_id then insert (nr_from rel) ids
           else ids) (set (nd_document_describes doc)) (nd_relationships doc))"

definition described_root :: "naming_document \<Rightarrow> naming_component option" where
  "described_root doc =
     (let ids = described_ids doc
      in if card ids \<noteq> 1 \<or> [] \<in> ids then None
         else (case filter (\<lambda>c. nc_id c \<in> ids) (nd_packages doc) of [c] \<Rightarrow> Some c | _ \<Rightarrow> None))"

definition with_version :: "string \<Rightarrow> string \<Rightarrow> string" where
  "with_version name0 version0 =
     (let name = trim_space name0; version = trim_space version0
      in if to_upper version \<in> {[], ''NOASSERTION'', ''NONE'', ''UNKNOWN''} then name else name @ '' '' @ version)"

definition source_suffixes :: "string list" where
  "source_suffixes =
     [''.spdx.json'', ''_spdx.json'', ''.spdx3.json'', ''_spdx3.json'', ''.cdx.json'', ''_cdx.json'', ''.json'']"

definition source_label :: "(string \<Rightarrow> url option) \<Rightarrow> string \<Rightarrow> string option" where
  "source_label parse source =
     (if contains_str source ''://''
      then (case parse source of
              None \<Rightarrow> None
            | Some u \<Rightarrow>
                Some (if ur_scheme u = ''s3'' then trim_left_by (\<lambda>c. c = CHR ''/'') (ur_path u) else path_base (ur_path u)))
      else Some (path_base (backslashes source)))"

definition source_name :: "(string \<Rightarrow> url option) \<Rightarrow> string \<Rightarrow> string" where
  "source_name parse source0 =
     (let source = trim_space source0
      in if source = [] then []
         else (case source_label parse source of
                 None \<Rightarrow> []
               | Some label0 \<Rightarrow>
                   let label = (case find (has_suffix (to_lower label0)) source_suffixes of
                                  None \<Rightarrow> label0 | Some sfx \<Rightarrow> take (length label0 - length sfx) label0)
                   in if label = ''.'' \<or> label = ''/'' \<or> needs_fallback label then [] else label))"

definition metadata_name :: "naming_document \<Rightarrow> string" where
  "metadata_name doc =
     (if nd_spdx_version doc \<noteq> []
      then (if \<not> needs_fallback (nd_name doc) then nd_name doc
            else (case described_root doc of
                    Some root \<Rightarrow> if needs_fallback (nc_name root) then [] else with_version (nc_name root) (nc_version root)
                  | None \<Rightarrow> []))
      else if nd_bom_format doc = ''CycloneDX''
      then (case nd_component doc of
              Some (n, v) \<Rightarrow>
                if \<not> needs_fallback n then with_version n v
                else if needs_fallback (nd_serial_number doc) then [] else nd_serial_number doc
            | None \<Rightarrow> if needs_fallback (nd_serial_number doc) then [] else nd_serial_number doc)
      else [])"

definition naming_metadata :: "(string \<Rightarrow> naming_document option) \<Rightarrow> string \<Rightarrow> naming_document option" where
  "naming_metadata decode data =
     (let doc = (if has_prefix (trim_space data) ''<'' then Some empty_naming else decode data)
      in case doc of
           None \<Rightarrow> None
         | Some d \<Rightarrow>
             if nd_spdx_version d = [] \<and> contains_str (nd_predicate_type d) ''spdx'' \<and> nd_predicate d \<noteq> []
             then decode (nd_predicate d) else Some d)"

text \<open>\<open>Resolve\<close>; \<open>None\<close> is its error.\<close>

definition resolve_name ::
  "(string \<Rightarrow> naming_document option) \<Rightarrow> (string \<Rightarrow> url option) \<Rightarrow> string \<Rightarrow> string \<Rightarrow> string \<Rightarrow> string option" where
  "resolve_name decode parse data original source =
     (if \<not> needs_fallback original then Some original
      else (case naming_metadata decode data of
              None \<Rightarrow> None
            | Some doc \<Rightarrow>
                let n1 = metadata_name doc; n2 = (if n1 = [] then source_name parse source else n1)
                in Some (if n2 = [] then ''Unnamed SBOM'' else n2)))"

subsection \<open>Lemmas\<close>

lemma needs_fallback_Nil [simp]: "needs_fallback []"
  by (simp add: needs_fallback_def)

lemma resolve_name_nonempty: "resolve_name decode parse data original source = Some n \<Longrightarrow> n \<noteq> []"
  by (auto simp: resolve_name_def Let_def split: if_splits option.splits)

end
