(* ===== verification/Sbom_Document.thy ===== *)
theory Sbom_Document
  imports Source_Repo Sbom_Name Dep_Graph
begin

text \<open>
  What a parsed SBOM is, \<open>SBOM\<close> and \<open>SBOMPackages\<close> of \<open>backend/pkg/models/sbom.go\<close>, and the code the
  parsers call but that is not in the repository: decoding JSON (which may panic), hashing a name to a
  UUID, parsing a timestamp, and the protobom library. They are the fields of \<open>sbom_library\<close>, an
  argument of every definition that uses them. UUIDs are texts, times are milliseconds.
\<close>

record sbom =
  sb_ingested_at :: int
  sb_sbom_id :: string
  sb_source_file :: string
  sb_spdx_version :: string
  sb_document_name :: string
  sb_document_namespace :: string
  sb_sha256_hash :: string
  sb_creation_date :: int
  sb_creator_tools :: "string list"
  sb_cluster :: string
  sb_namespace :: string
  sb_project :: string
  sb_source_repo :: string
  sb_source_ref :: string
  sb_document_version :: string
  sb_tags :: "string list"
  sb_parent :: string
  sb_root_purl :: string
  sb_supplier :: string

record sbom_packages =
  sp_ingested_at :: int
  sp_sbom_id :: string
  sp_source_file :: string
  sp_spdx_ids :: "string list"
  sp_names :: "string list"
  sp_versions :: "string list"
  sp_purls :: "string list"
  sp_licenses :: "string list"
  sp_license_sources :: "string list"
  sp_rel_sources :: "32 word list"
  sp_rel_targets :: "32 word list"
  sp_rel_types :: "string list"
  sp_depths :: "16 word list"
  sp_cluster :: string
  sp_namespace :: string
  sp_project :: string
  sp_root_indices :: "32 word list"
  sp_direct_indices :: "32 word list"

datatype 'a decoded = Decoded 'a | DecodeError | DecodePanic

datatype document_error = ReadError | FormatError | PredicateError | NameError | PanicError | NotCycloneDX | LibraryError | EmptyDocument

subsection \<open>SPDX documents\<close>

record spdx_external_ref =
  xr_category :: string
  xr_type :: string
  xr_locator :: string

record spdx_package =
  pk_id :: string
  pk_name :: string
  pk_version :: string
  pk_download_location :: string
  pk_external_refs :: "spdx_external_ref list"
  pk_license_concluded :: string
  pk_license_declared :: string
  pk_annotation_comments :: "string list"
  pk_supplier :: string
  pk_originator :: string

record spdx_relationship =
  rl_element :: string
  rl_type :: string
  rl_related :: string

record spdx_document =
  sd_id :: string
  sd_version :: string
  sd_name :: string
  sd_namespace :: string
  sd_describes :: "string list"
  sd_created :: string
  sd_creators :: "string list"
  sd_packages :: "spdx_package list"
  sd_relationships :: "spdx_relationship list"

definition empty_spdx :: spdx_document where
  "empty_spdx =
     \<lparr>sd_id = [], sd_version = [], sd_name = [], sd_namespace = [], sd_describes = [], sd_created = [], sd_creators = [],
      sd_packages = [], sd_relationships = []\<rparr>"

subsection \<open>CycloneDX documents\<close>

record cdx_license =
  cl_license :: "(string \<times> string) option"
  cl_expression :: string

text \<open>An external reference is its type and URL, an organization its name.\<close>

record cdx_component =
  cc_bom_ref :: string
  cc_name :: string
  cc_version :: string
  cc_purl :: string
  cc_licenses :: "cdx_license list"
  cc_external_references :: "(string \<times> string) list"
  cc_pedigree_commits :: "string list option"
  cc_supplier :: "string option"
  cc_manufacturer :: "string option"

record cdx_tool =
  ct_vendor :: string
  ct_name :: string
  ct_version :: string

record cdx_dependency =
  cd_ref :: string
  cd_depends_on :: "string list"

record cdx_document =
  cx_bom_format :: string
  cx_spec_version :: string
  cx_serial_number :: string
  cx_timestamp :: string
  cx_tools :: "cdx_tool list"
  cx_component :: "cdx_component option"
  cx_manufacturer :: "string option"
  cx_manufacture :: "string option"
  cx_supplier :: "string option"
  cx_components :: "cdx_component list"
  cx_dependencies :: "cdx_dependency list"

subsection \<open>Documents of the protobom library\<close>

record pb_node =
  pn_id :: string
  pn_name :: string
  pn_version :: string
  pn_purl :: "string option"
  pn_licenses :: "string list"
  pn_concluded :: string

record pb_edge =
  pe_type :: string
  pe_from :: string
  pe_to :: "string list"

record pb_node_list =
  pl_nodes :: "pb_node list"
  pl_edges :: "pb_edge list"
  pl_roots :: "string list"

record pb_metadata =
  pm_name :: string
  pm_version :: string
  pm_date :: "int option"
  pm_tools :: "cdx_tool list"
  pm_format :: "string option"

record pb_document =
  pd_metadata :: "pb_metadata option"
  pd_nodes :: "pb_node_list option"

subsection \<open>Code outside the repository\<close>

text \<open>
  \<open>lib_spdx d0 data\<close> is \<open>json.Unmarshal\<close> into a document that is \<open>d0\<close> before; the envelope is the
  predicate type and the raw predicate; an annotation is its field and raw value; a context is what
  \<open>@context\<close> holds, a string or an array of strings. The probe keeps the fields decoded before an error;
  its \<open>None\<close> is a panic.
\<close>

datatype json_context = NoContext | SingleContext string | ManyContexts "string list" | OtherContext

record format_probe =
  fp_bom_format :: string
  fp_spdx_version :: string
  fp_predicate_type :: string
  fp_context :: json_context

record sbom_library =
  lib_uuid :: "string \<Rightarrow> string"
  lib_time :: "string \<Rightarrow> int option"
  lib_ip_literal :: "string \<Rightarrow> string option"
  lib_naming :: "string \<Rightarrow> naming_document option"
  lib_spdx :: "spdx_document \<Rightarrow> string \<Rightarrow> spdx_document decoded"
  lib_envelope :: "string \<Rightarrow> (string \<times> string) decoded"
  lib_annotation :: "string \<Rightarrow> (string \<times> string) decoded"
  lib_cdx :: "string \<Rightarrow> cdx_document decoded"
  lib_probe :: "string \<Rightarrow> format_probe option"
  lib_protobom :: "string \<Rightarrow> pb_document option decoded"

definition lib_url :: "sbom_library \<Rightarrow> string \<Rightarrow> url option" where
  "lib_url lib = parse_url (lib_ip_literal lib)"

subsection \<open>Well-formed package arrays\<close>

text \<open>
  The arrays run in parallel, the relationship arrays too, and every index points into them.
\<close>

definition index_ok :: "nat \<Rightarrow> 32 word \<Rightarrow> bool" where
  "index_ok n i \<longleftrightarrow> unat i < n"

definition packages_ok :: "sbom_packages \<Rightarrow> bool" where
  "packages_ok p \<longleftrightarrow>
     length (sp_spdx_ids p) = length (sp_names p) \<and> length (sp_versions p) = length (sp_names p) \<and>
     length (sp_purls p) = length (sp_names p) \<and> length (sp_licenses p) = length (sp_names p) \<and>
     length (sp_rel_targets p) = length (sp_rel_sources p) \<and> length (sp_rel_types p) = length (sp_rel_sources p) \<and>
     list_all (index_ok (length (sp_names p)))
       (sp_rel_sources p @ sp_rel_targets p @ sp_root_indices p @ sp_direct_indices p)"

end
