(* ===== verification/Spdx_Parser.thy ===== *)
theory Spdx_Parser
  imports Sbom_Document
begin

text \<open>
  The SPDX parser, \<open>backend/internal/spdx/parser.go\<close>: from a decoded document to the SBOM row and the
  parallel package arrays. The case-insensitive file-name pattern is read over ASCII.
\<close>

subsection \<open>Names\<close>

definition go_temp_module_re :: rx where
  "go_temp_module_re =
     (let alnum = RP (\<lambda>c. is_letter c \<or> is_digit c)
      in rseq [rlit ''tmp.'', rtimes 6 alnum, RStar alnum])"

definition file_extensions :: "string list" where
  "file_extensions =
     [''sh'', ''bash'', ''zsh'', ''bat'', ''ps1'', ''toml'', ''txt'', ''json'', ''yaml'', ''yml'', ''lock'', ''mod'', ''sum'',
      ''xml'', ''cfg'', ''ini'', ''md'']"

definition file_artifact_name :: "string \<Rightarrow> bool" where
  "file_artifact_name name \<longleftrightarrow> list_ex (\<lambda>ext. has_suffix (to_lower name) (''.'' @ ext)) file_extensions"

definition default_document_spdx_id :: string where "default_document_spdx_id = ''SPDXRef-DOCUMENT''"

definition purl_name :: "string \<Rightarrow> string" where
  "purl_name purl =
     (case str_index purl ''/'' of
        None \<Rightarrow> []
      | Some i \<Rightarrow>
          let cleaned = drop (i + 1) purl
          in case str_last_index cleaned ''@'' of None \<Rightarrow> cleaned | Some at \<Rightarrow> take at cleaned)"

definition clean_package_name :: "string \<Rightarrow> string \<Rightarrow> string \<Rightarrow> string" where
  "clean_package_name name purl spdx_id =
     (if \<not> match_string go_temp_module_re name then name
      else if purl \<noteq> [] \<and> purl_name purl \<noteq> [] then purl_name purl
      else if has_prefix spdx_id ''SPDXRef-Package-'' then trim_prefix spdx_id ''SPDXRef-Package-''
      else if has_prefix spdx_id ''SPDXRef-'' then trim_prefix spdx_id ''SPDXRef-''
      else name)"

definition package_purl :: "spdx_package \<Rightarrow> string" where
  "package_purl pkg =
     (case find (\<lambda>r. xr_type r = ''purl'') (pk_external_refs pkg) of None \<Rightarrow> [] | Some r \<Rightarrow> xr_locator r)"

subsection \<open>File entries\<close>

text \<open>The scan of the annotations; decoding one may panic.\<close>

fun file_tier :: "sbom_library \<Rightarrow> string list \<Rightarrow> bool decoded" where
  "file_tier lib [] = Decoded False"
| "file_tier lib (comment # cs) =
     (if \<not> contains_str comment ''waybill:component-tier'' then file_tier lib cs
      else (case lib_annotation lib comment of
              DecodePanic \<Rightarrow> DecodePanic
            | DecodeError \<Rightarrow> file_tier lib cs
            | Decoded (field, raw) \<Rightarrow>
                if field = ''waybill:component-tier'' \<and> trim_by (\<lambda>c. c = CHR 0x22) raw = ''file'' then Decoded True
                else file_tier lib cs))"

definition usable_version :: "string \<Rightarrow> bool" where
  "usable_version v \<longleftrightarrow> v \<noteq> [] \<and> v \<noteq> ''NOASSERTION''"

definition is_file_artifact :: "sbom_library \<Rightarrow> spdx_package \<Rightarrow> string \<Rightarrow> bool \<Rightarrow> bool" where
  "is_file_artifact lib pkg purl referenced =
     (if file_tier lib (pk_annotation_comments pkg) = Decoded True then True
      else if purl \<noteq> [] \<or> referenced then False
      else if usable_version (pk_version pkg) then False
      else let name = trim_space (pk_name pkg)
           in name \<noteq> [] \<and> \<not> contains_any name [CHR '' '', CHR 0x09] \<and> file_artifact_name name)"

subsection \<open>What the document describes\<close>

definition described_roots :: "spdx_document \<Rightarrow> string set" where
  "described_roots doc =
     (let doc_id = (if sd_id doc = [] then default_document_spdx_id else sd_id doc)
      in foldl (\<lambda>roots rel.
           if rl_type rel = ''DESCRIBES'' \<and> (rl_element rel = doc_id \<or> rl_element rel = default_document_spdx_id)
           then insert (rl_related rel) roots else roots)
         (set (filter (\<lambda>i. i \<noteq> []) (sd_describes doc))) (sd_relationships doc))"

definition root_packages :: "spdx_document \<Rightarrow> spdx_package list" where
  "root_packages doc = filter (\<lambda>p. pk_id p \<in> described_roots doc) (sd_packages doc)"

definition extract_document_version :: "spdx_document \<Rightarrow> string" where
  "extract_document_version doc =
     (case find (\<lambda>p. usable_version (pk_version p)) (root_packages doc) of None \<Rightarrow> [] | Some p \<Rightarrow> pk_version p)"

subsection \<open>Source repository\<close>

text \<open>The first element on which the lookup succeeds (an empty repository is a miss).\<close>

fun first_repo :: "('a \<Rightarrow> string \<times> string) \<Rightarrow> 'a list \<Rightarrow> string \<times> string" where
  "first_repo f [] = ([], [])"
| "first_repo f (x # xs) = (if fst (f x) \<noteq> [] then f x else first_repo f xs)"

definition vcs_category :: "string \<Rightarrow> bool" where
  "vcs_category c \<longleftrightarrow> c \<in> {''PACKAGE-MANAGER'', ''PACKAGE_MANAGER'', ''OTHER''}"

definition repo_of_root :: "sbom_library \<Rightarrow> spdx_package \<Rightarrow> string \<times> string" where
  "repo_of_root lib p =
     (let here = normalize_repo (lib_url lib) (pk_download_location p)
      in if fst here \<noteq> [] then here
         else first_repo (\<lambda>r. normalize_repo (lib_url lib) (xr_locator r))
                (filter (\<lambda>r. vcs_category (xr_category r)) (pk_external_refs p)))"

definition source_repo_from_roots :: "sbom_library \<Rightarrow> spdx_document \<Rightarrow> string \<times> string" where
  "source_repo_from_roots lib doc = first_repo (repo_of_root lib) (root_packages doc)"

definition is_creator_source_kind :: "string \<Rightarrow> bool" where
  "is_creator_source_kind s \<longleftrightarrow> s \<noteq> [] \<and> list_all is_letter s"

definition creator_source_locator :: "string \<Rightarrow> string option" where
  "creator_source_locator creator =
     (case str_index (to_lower creator) ''source:'' of
        None \<Rightarrow> None
      | Some i \<Rightarrow>
          let rest0 = trim_space (drop (i + 7) creator)
          in if rest0 = [] then None
             else
               let rest = (case index_any rest0 [CHR '' '', CHR 0x09] of
                             Some sp \<Rightarrow> if sp > 0 then take sp rest0 else rest0 | None \<Rightarrow> rest0)
               in case str_cut rest '':'' of
                    Some (kind, loc) \<Rightarrow> if is_creator_source_kind kind \<and> contains_str loc ''://'' then Some loc else Some rest
                  | None \<Rightarrow> Some rest)"

fun repo_from_creators :: "sbom_library \<Rightarrow> string \<Rightarrow> string list \<Rightarrow> string \<times> string" where
  "repo_from_creators lib repo [] = (repo, [])"
| "repo_from_creators lib repo (c # cs) =
     (case creator_source_locator c of
        None \<Rightarrow> repo_from_creators lib repo cs
      | Some locator \<Rightarrow>
          let (r, rf) = normalize_strict (lib_url lib) locator
          in if r = [] then repo_from_creators lib repo cs
             else if rf \<noteq> [] then (r, rf)
             else repo_from_creators lib (if repo = [] then r else repo) cs)"

definition spdx_source_repo :: "sbom_library \<Rightarrow> spdx_document \<Rightarrow> string \<times> string" where
  "spdx_source_repo lib doc =
     (let roots = source_repo_from_roots lib doc; creators = repo_from_creators lib [] (sd_creators doc)
      in if fst roots \<noteq> [] then roots
         else if fst creators \<noteq> [] then creators
         else normalize_strict (lib_url lib) (sd_namespace doc))"

subsection \<open>Grouping signals\<close>

definition actor_prefixes :: "string list" where
  "actor_prefixes = [''Organization:'', ''Person:'', ''Tool:'']"

definition spdx_actor_name :: "string \<Rightarrow> string" where
  "spdx_actor_name actor =
     (let s0 = trim_space actor
      in if to_upper s0 \<in> {[], ''NOASSERTION'', ''NONE''} then []
         else
           let s = (case find (\<lambda>p. length p \<le> length s0 \<and> equal_fold (take (length p) s0) p) actor_prefixes of
                      None \<Rightarrow> s0 | Some p \<Rightarrow> trim_space (drop (length p) s0))
           in case str_last_index s '' ('' of
                Some i \<Rightarrow> if i > 0 \<and> has_suffix s '')'' then trim_space (take i s) else s
              | None \<Rightarrow> s)"

definition grouping_step :: "string \<times> string \<Rightarrow> spdx_package \<Rightarrow> string \<times> string" where
  "grouping_step acc p =
     (case acc of (purl, supplier) \<Rightarrow>
        let purl' = (if purl = [] then package_purl p else purl);
            s1 = (if supplier = [] then spdx_actor_name (pk_supplier p) else supplier);
            s2 = (if s1 = [] then spdx_actor_name (pk_originator p) else s1)
        in (purl', s2))"

definition spdx_grouping_signals :: "spdx_document \<Rightarrow> string \<times> string" where
  "spdx_grouping_signals doc = foldl grouping_step ([], []) (root_packages doc)"

subsection \<open>The package arrays\<close>

record spdx_arrays =
  ar_index :: "string \<rightharpoonup> 32 word"
  ar_ids :: "string list"
  ar_names :: "string list"
  ar_versions :: "string list"
  ar_purls :: "string list"
  ar_licenses :: "string list"
  ar_roots :: "32 word list"

definition empty_arrays :: spdx_arrays where
  "empty_arrays =
     \<lparr>ar_index = Map.empty, ar_ids = [], ar_names = [], ar_versions = [], ar_purls = [], ar_licenses = [], ar_roots = []\<rparr>"

definition referenced_ids :: "spdx_document \<Rightarrow> string set" where
  "referenced_ids doc = foldl (\<lambda>s r. insert (rl_related r) (insert (rl_element r) s)) {} (sd_relationships doc)"

definition package_license :: "spdx_package \<Rightarrow> string" where
  "package_license p =
     (if pk_license_declared p = [] \<or> pk_license_declared p = ''NOASSERTION'' then pk_license_concluded p
      else pk_license_declared p)"

definition dropped :: "sbom_library \<Rightarrow> string set \<Rightarrow> string set \<Rightarrow> spdx_package \<Rightarrow> bool" where
  "dropped lib roots referenced p \<longleftrightarrow>
     pk_id p \<notin> roots \<and> is_file_artifact lib p (package_purl p) (pk_id p \<in> referenced)"

definition spdx_package_step :: "sbom_library \<Rightarrow> string set \<Rightarrow> string set \<Rightarrow> spdx_arrays \<Rightarrow> spdx_package \<Rightarrow> spdx_arrays" where
  "spdx_package_step lib roots referenced a p =
     (if dropped lib roots referenced p then a
      else
        let idx = of_nat (length (ar_ids a)); purl = package_purl p
        in \<lparr>ar_index = (ar_index a)(pk_id p \<mapsto> idx), ar_ids = ar_ids a @ [pk_id p],
            ar_names = ar_names a @ [clean_package_name (pk_name p) purl (pk_id p)],
            ar_versions = ar_versions a @ [pk_version p], ar_purls = ar_purls a @ [purl],
            ar_licenses = ar_licenses a @ [package_license p],
            ar_roots = (if pk_id p \<in> roots then ar_roots a @ [idx] else ar_roots a)\<rparr>)"

fun spdx_relations :: "(string \<rightharpoonup> 32 word) \<Rightarrow> spdx_relationship list \<Rightarrow> (32 word \<times> 32 word \<times> string) list" where
  "spdx_relations index [] = []"
| "spdx_relations index (r # rs) =
     (case (index (rl_element r), index (rl_related r)) of
        (Some s, Some t) \<Rightarrow> (s, t, rl_type r) # spdx_relations index rs
      | _ \<Rightarrow> spdx_relations index rs)"

definition spdx_arrays_of :: "sbom_library \<Rightarrow> spdx_document \<Rightarrow> spdx_arrays" where
  "spdx_arrays_of lib doc =
     foldl (spdx_package_step lib (described_roots doc) (referenced_ids doc)) empty_arrays (sd_packages doc)"

definition spdx_packages :: "sbom_library \<Rightarrow> int \<Rightarrow> string \<Rightarrow> string \<Rightarrow> spdx_document \<Rightarrow> sbom_packages" where
  "spdx_packages lib now sbom_id source_file doc =
     (let a = spdx_arrays_of lib doc; rels = spdx_relations (ar_index a) (sd_relationships doc)
      in \<lparr>sp_ingested_at = now, sp_sbom_id = sbom_id, sp_source_file = source_file, sp_spdx_ids = ar_ids a,
          sp_names = ar_names a, sp_versions = ar_versions a, sp_purls = ar_purls a, sp_licenses = ar_licenses a,
          sp_license_sources = [], sp_rel_sources = map fst rels, sp_rel_targets = map (fst \<circ> snd) rels,
          sp_rel_types = map (snd \<circ> snd) rels, sp_depths = [], sp_cluster = [], sp_namespace = [], sp_project = [],
          sp_root_indices = ar_roots a, sp_direct_indices = []\<rparr>)"

subsection \<open>Parse\<close>

definition decode_document :: "sbom_library \<Rightarrow> string \<Rightarrow> document_error + spdx_document" where
  "decode_document lib data =
     (case lib_spdx lib empty_spdx data of
        DecodePanic \<Rightarrow> Inl PanicError
      | DecodeError \<Rightarrow> Inl FormatError
      | Decoded doc \<Rightarrow>
          if sd_version doc \<noteq> [] then Inr doc
          else (case lib_envelope lib data of
                  DecodePanic \<Rightarrow> Inl PanicError
                | DecodeError \<Rightarrow> Inr doc
                | Decoded (predicate_type, predicate) \<Rightarrow>
                    if predicate \<noteq> [] \<and> contains_str predicate_type ''spdx''
                    then (case lib_spdx lib doc predicate of
                            DecodePanic \<Rightarrow> Inl PanicError | DecodeError \<Rightarrow> Inl PredicateError | Decoded d \<Rightarrow> Inr d)
                    else Inr doc))"

definition spdx_sbom :: "sbom_library \<Rightarrow> int \<Rightarrow> string \<Rightarrow> string \<Rightarrow> string \<Rightarrow> spdx_document \<Rightarrow> sbom" where
  "spdx_sbom lib now source_file hash doc_name doc =
     (let (repo, ref) = spdx_source_repo lib doc; (purl, supplier) = spdx_grouping_signals doc
      in \<lparr>sb_ingested_at = now, sb_sbom_id = lib_uuid lib hash, sb_source_file = source_file,
          sb_spdx_version = sd_version doc, sb_document_name = doc_name, sb_document_namespace = sd_namespace doc,
          sb_sha256_hash = hash,
          sb_creation_date = (case lib_time lib (sd_created doc) of None \<Rightarrow> now | Some t \<Rightarrow> t),
          sb_creator_tools = sd_creators doc, sb_cluster = [], sb_namespace = [], sb_project = [], sb_source_repo = repo,
          sb_source_ref = ref, sb_document_version = extract_document_version doc, sb_tags = [], sb_parent = [],
          sb_root_purl = purl, sb_supplier = supplier\<rparr>)"

definition parse_spdx :: "sbom_library \<Rightarrow> int \<Rightarrow> string \<Rightarrow> string \<Rightarrow> string \<Rightarrow> document_error + sbom \<times> sbom_packages" where
  "parse_spdx lib now data source_file hash =
     (case decode_document lib data of
        Inl e \<Rightarrow> Inl e
      | Inr doc \<Rightarrow>
          (case resolve_name (lib_naming lib) (lib_url lib) data (sd_name doc) source_file of
             None \<Rightarrow> Inl NameError
           | Some doc_name \<Rightarrow>
               if list_ex (\<lambda>p. pk_id p \<notin> described_roots doc \<and> file_tier lib (pk_annotation_comments p) = DecodePanic)
                    (sd_packages doc)
               then Inl PanicError
               else
               Inr (spdx_sbom lib now source_file hash doc_name doc,
                    spdx_packages lib now (lib_uuid lib hash) source_file doc)))"

subsection \<open>The arrays and the document\<close>

text \<open>
  \<open>arrays_hold roots kept a\<close>: the arrays hold the packages \<open>kept\<close> in order, the index finds an entry of every id
  and nothing else, and the roots are the positions of the described ids.
\<close>

definition arrays_hold :: "string set \<Rightarrow> spdx_package list \<Rightarrow> spdx_arrays \<Rightarrow> bool" where
  "arrays_hold roots kept a \<longleftrightarrow>
     ar_ids a = map pk_id kept \<and>
     ar_names a = map (\<lambda>p. clean_package_name (pk_name p) (package_purl p) (pk_id p)) kept \<and>
     ar_versions a = map pk_version kept \<and> ar_purls a = map package_purl kept \<and>
     ar_licenses a = map package_license kept \<and>
     (\<forall>i idx. ar_index a i = Some idx \<longrightarrow> unat idx < length kept \<and> pk_id (kept ! unat idx) = i) \<and>
     dom (ar_index a) = pk_id ` set kept \<and>
     map unat (ar_roots a) = filter (\<lambda>i. pk_id (kept ! i) \<in> roots) [0..<length kept]"

lemma arrays_hold_index:
  "arrays_hold roots kept a \<Longrightarrow> ar_index a j = Some x \<Longrightarrow> unat x < length kept \<and> pk_id (kept ! unat x) = j"
  by (simp add: arrays_hold_def)

lemma filter_upt_snoc:
  "filter (\<lambda>i. P ((xs @ [x]) ! i)) [0..<length (xs @ [x])] =
     filter (\<lambda>i. P (xs ! i)) [0..<length xs] @ (if P x then [length xs] else [])"
proof -
  have "filter (\<lambda>i. P ((xs @ [x]) ! i)) [0..<length xs] = filter (\<lambda>i. P (xs ! i)) [0..<length xs]"
    by (intro filter_cong) (auto simp: nth_append)
  then show ?thesis by (simp add: nth_append)
qed

lemma arrays_hold_step:
  assumes "arrays_hold roots kept a" "length kept < 2 ^ 32"
  shows "arrays_hold roots (if dropped lib roots referenced p then kept else kept @ [p])
    (spdx_package_step lib roots referenced a p)"
proof (cases "dropped lib roots referenced p")
  case True
  then show ?thesis using assms(1) by (simp add: spdx_package_step_def)
next
  case False
  have n: "unat (of_nat (length kept) :: 32 word) = length kept"
    using assms(2) by (simp add: unat_of_nat)
  have len: "length (ar_ids a) = length kept" using assms(1) by (simp add: arrays_hold_def)
  have "filter (\<lambda>i. pk_id ((kept @ [p]) ! i) \<in> roots) [0..<length (kept @ [p])] =
      filter (\<lambda>i. pk_id (kept ! i) \<in> roots) [0..<length kept] @ (if pk_id p \<in> roots then [length kept] else [])"
    by (rule filter_upt_snoc [where P = "\<lambda>x. pk_id x \<in> roots"])
  note roots = this
  have "unat idx < length (kept @ [p]) \<and> pk_id ((kept @ [p]) ! unat idx) = i"
    if "((ar_index a)(pk_id p \<mapsto> of_nat (length kept))) i = Some idx" for i idx
    using that assms(1) n by (auto simp: arrays_hold_def nth_append less_SucI split: if_splits)
  with roots show ?thesis
    using assms(1) False n by (simp add: arrays_hold_def spdx_package_step_def Let_def len)
qed

lemma arrays_hold_fold:
  assumes "length pkgs \<le> 2 ^ 32"
  shows "arrays_hold roots (filter (\<lambda>p. \<not> dropped lib roots referenced p) pkgs)
    (foldl (spdx_package_step lib roots referenced) empty_arrays pkgs)"
  using assms
proof (induction pkgs rule: rev_induct)
  case Nil
  then show ?case by (simp add: arrays_hold_def empty_arrays_def)
next
  case (snoc p pkgs)
  let ?kept = "filter (\<lambda>p. \<not> dropped lib roots referenced p) pkgs"
  have "length pkgs < 2 ^ 32" using snoc.prems by simp
  with length_filter_le have "length ?kept < 2 ^ 32" by (rule le_less_trans)
  with snoc show ?case
    using arrays_hold_step [of roots ?kept "foldl (spdx_package_step lib roots referenced) empty_arrays pkgs" lib referenced p]
    by (cases "dropped lib roots referenced p") simp_all
qed

lemma spdx_relations_between:
  assumes "\<And>i idx. index i = Some idx \<Longrightarrow> unat idx < length ids \<and> ids ! unat idx = i"
  shows "map (\<lambda>(s, t, ty). (ids ! unat s, ids ! unat t, ty)) (spdx_relations index rels) =
      map (\<lambda>r. (rl_element r, rl_related r, rl_type r))
        (filter (\<lambda>r. rl_element r \<in> dom index \<and> rl_related r \<in> dom index) rels)"
    and "(s, t, ty) \<in> set (spdx_relations index rels) \<Longrightarrow> unat s < length ids \<and> unat t < length ids"
  using assms by (induction rels) (auto split: option.splits)

lemma zip_triples: "zip (map fst xs) (zip (map (fst \<circ> snd) xs) (map (snd \<circ> snd) xs)) = xs"
  by (induction xs) auto

text \<open>The packages the parser keeps.\<close>

definition kept_packages :: "sbom_library \<Rightarrow> spdx_document \<Rightarrow> spdx_package list" where
  "kept_packages lib doc = filter (\<lambda>p. \<not> dropped lib (described_roots doc) (referenced_ids doc) p) (sd_packages doc)"

lemma spdx_arrays_hold:
  assumes "length (sd_packages doc) \<le> 2 ^ 32"
  shows "arrays_hold (described_roots doc) (kept_packages lib doc) (spdx_arrays_of lib doc)"
  using arrays_hold_fold [OF assms] by (simp add: spdx_arrays_of_def kept_packages_def)

lemma spdx_packages_ok:
  assumes "length (sd_packages doc) \<le> 2 ^ 32"
  shows "packages_ok (spdx_packages lib now i source_file doc)"
proof -
  let ?a = "spdx_arrays_of lib doc" and ?k = "kept_packages lib doc"
  have h: "arrays_hold (described_roots doc) ?k ?a" using spdx_arrays_hold [OF assms] .
  have rel: "unat s < length ?k \<and> unat t < length ?k" if "(s, t, ty) \<in> set (spdx_relations (ar_index ?a) (sd_relationships doc))" for s t ty
    using spdx_relations_between(2) [OF _ that, of "map pk_id ?k"] h by (auto simp: arrays_hold_def)
  have "unat idx < length ?k" if "idx \<in> set (ar_roots ?a)" for idx
  proof -
    have "set (map unat (ar_roots ?a)) = set (filter (\<lambda>i. pk_id (?k ! i) \<in> described_roots doc) [0..<length ?k])"
      using h unfolding arrays_hold_def by argo
    then show ?thesis using that by auto
  qed
  with h rel show ?thesis
    by (force simp: packages_ok_def spdx_packages_def arrays_hold_def list_all_iff index_ok_def Let_def)
qed

subsection \<open>Properties\<close>

text \<open>
  C31: The arrays are the document's packages. For a document of at most \<open>2 ^ 32\<close> packages the entries are
  its packages in document order, without the file entries that are not described; the root indices are
  exactly the positions of the described ids; and the relationship arrays are exactly the relationships
  between retained packages, in order, each end pointing at an entry with its id.
\<close>

theorem spdx_arrays_faithful:
  assumes "length (sd_packages doc) \<le> 2 ^ 32"
  shows "sp_spdx_ids (spdx_packages lib now i f doc) = map pk_id (kept_packages lib doc) \<and>
    sp_purls (spdx_packages lib now i f doc) = map package_purl (kept_packages lib doc) \<and>
    sp_licenses (spdx_packages lib now i f doc) = map package_license (kept_packages lib doc) \<and>
    map unat (sp_root_indices (spdx_packages lib now i f doc)) =
      filter (\<lambda>j. pk_id (kept_packages lib doc ! j) \<in> described_roots doc) [0..<length (kept_packages lib doc)] \<and>
    map (\<lambda>(s, t, ty). (pk_id (kept_packages lib doc ! unat s), pk_id (kept_packages lib doc ! unat t), ty))
        (zip (sp_rel_sources (spdx_packages lib now i f doc))
          (zip (sp_rel_targets (spdx_packages lib now i f doc)) (sp_rel_types (spdx_packages lib now i f doc)))) =
      map (\<lambda>r. (rl_element r, rl_related r, rl_type r))
        (filter (\<lambda>r. rl_element r \<in> pk_id ` set (kept_packages lib doc) \<and> rl_related r \<in> pk_id ` set (kept_packages lib doc))
          (sd_relationships doc)) \<and>
    packages_ok (spdx_packages lib now i f doc)"
proof -
  let ?a = "spdx_arrays_of lib doc" and ?k = "kept_packages lib doc"
  let ?rels = "spdx_relations (ar_index ?a) (sd_relationships doc)"
  have h: "arrays_hold (described_roots doc) ?k ?a" using spdx_arrays_hold [OF assms] .
  have idx: "unat x < length (map pk_id ?k) \<and> map pk_id ?k ! unat x = j" if "ar_index ?a j = Some x" for j x
    using arrays_hold_index [OF h that] by simp
  have "map (\<lambda>(s, t, ty). (map pk_id ?k ! unat s, map pk_id ?k ! unat t, ty)) ?rels =
      map (\<lambda>r. (rl_element r, rl_related r, rl_type r))
        (filter (\<lambda>r. rl_element r \<in> dom (ar_index ?a) \<and> rl_related r \<in> dom (ar_index ?a)) (sd_relationships doc))"
    using idx by (rule spdx_relations_between(1))
  moreover have "map (\<lambda>(s, t, ty). (map pk_id ?k ! unat s, map pk_id ?k ! unat t, ty)) ?rels =
      map (\<lambda>(s, t, ty). (pk_id (?k ! unat s), pk_id (?k ! unat t), ty)) ?rels"
  proof (rule map_cong)
    fix x
    assume x: "x \<in> set ?rels"
    obtain src tgt ty where "x = (src, tgt, ty)" by (cases x)
    with spdx_relations_between(2) [OF idx, of "ar_index ?a" src tgt ty "sd_relationships doc"] x
    show "(case x of (s, t, ty) \<Rightarrow> (map pk_id ?k ! unat s, map pk_id ?k ! unat t, ty)) =
        (case x of (s, t, ty) \<Rightarrow> (pk_id (?k ! unat s), pk_id (?k ! unat t), ty))"
      by simp
  qed simp
  moreover have "zip (map fst ?rels) (zip (map (fst \<circ> snd) ?rels) (map (snd \<circ> snd) ?rels)) = ?rels"
    by (rule zip_triples)
  moreover have "dom (ar_index ?a) = pk_id ` set ?k" using h by (simp add: arrays_hold_def)
  ultimately have rels: "map (\<lambda>(s, t, ty). (pk_id (?k ! unat s), pk_id (?k ! unat t), ty))
        (zip (map fst ?rels) (zip (map (fst \<circ> snd) ?rels) (map (snd \<circ> snd) ?rels))) =
      map (\<lambda>r. (rl_element r, rl_related r, rl_type r))
        (filter (\<lambda>r. rl_element r \<in> pk_id ` set ?k \<and> rl_related r \<in> pk_id ` set ?k) (sd_relationships doc))"
    by (simp only:)
  have fields: "ar_ids ?a = map pk_id ?k" "ar_purls ?a = map package_purl ?k" "ar_licenses ?a = map package_license ?k"
    "map unat (ar_roots ?a) = filter (\<lambda>j. pk_id (?k ! j) \<in> described_roots doc) [0..<length ?k]"
    using h unfolding arrays_hold_def by argo+
  show ?thesis
    using fields rels spdx_packages_ok [OF assms, of lib now i f]
    unfolding spdx_packages_def Let_def sbom_packages.simps by argo
qed

definition sample_package :: "string \<Rightarrow> string \<Rightarrow> spdx_package" where
  "sample_package i name =
     \<lparr>pk_id = i, pk_name = name, pk_version = [], pk_download_location = [], pk_external_refs = [],
      pk_license_concluded = ''MIT'', pk_license_declared = [], pk_annotation_comments = [], pk_supplier = [], pk_originator = []\<rparr>"

definition sample_spdx :: spdx_document where
  "sample_spdx = empty_spdx\<lparr>sd_version := ''SPDX-2.3'', sd_name := ''app'', sd_describes := [''A''],
     sd_packages := [sample_package ''F'' ''run.sh'', sample_package ''A'' ''app'', sample_package ''B'' ''lib''],
     sd_relationships := [\<lparr>rl_element = ''A'', rl_type = ''DEPENDS_ON'', rl_related = ''B''\<rparr>]\<rparr>"

definition undecoding_library :: sbom_library where
  "undecoding_library =
     \<lparr>lib_uuid = (\<lambda>s. s), lib_time = (\<lambda>_. None), lib_ip_literal = (\<lambda>_. None), lib_naming = (\<lambda>_. None),
      lib_spdx = (\<lambda>_ _. DecodeError), lib_envelope = (\<lambda>_. DecodeError), lib_annotation = (\<lambda>_. DecodeError),
      lib_cdx = (\<lambda>_. DecodeError), lib_probe = (\<lambda>_. None), lib_protobom = (\<lambda>_. DecodeError)\<rparr>"

lemma spdx_arrays_faithful_witness:
  "sp_spdx_ids (spdx_packages undecoding_library 0 ''i'' ''a.json'' sample_spdx) = [''A'', ''B''] \<and>
   map unat (sp_root_indices (spdx_packages undecoding_library 0 ''i'' ''a.json'' sample_spdx)) = [0]"
proof -
  let ?lib = undecoding_library
  have len: "length (sd_packages sample_spdx) \<le> 2 ^ 32" by (simp add: sample_spdx_def)
  have roots: "described_roots sample_spdx = {''A''}" "referenced_ids sample_spdx = {''A'', ''B''}"
    by code_simp+
  have kept: "kept_packages ?lib sample_spdx = [sample_package ''A'' ''app'', sample_package ''B'' ''lib'']"
  proof -
    have "is_file_artifact ?lib (sample_package ''F'' ''run.sh'') [] False"
      "\<not> is_file_artifact ?lib (sample_package ''B'' ''lib'') [] True"
      "package_purl (sample_package ''F'' ''run.sh'') = []" "package_purl (sample_package ''B'' ''lib'') = []"
      by (simp add: is_file_artifact_def sample_package_def usable_version_def; code_simp)
        (simp_all add: is_file_artifact_def sample_package_def package_purl_def)
    moreover have "sd_packages sample_spdx = [sample_package ''F'' ''run.sh'', sample_package ''A'' ''app'', sample_package ''B'' ''lib'']"
      by (simp add: sample_spdx_def)
    moreover have "pk_id (sample_package j n) = j" for j n by (simp add: sample_package_def)
    ultimately show ?thesis by (simp add: kept_packages_def dropped_def roots)
  qed
  show ?thesis
    using spdx_arrays_faithful [OF len, of ?lib 0 "''i''" "''a.json''"]
    by (simp add: kept roots) (simp add: sample_package_def)
qed

end
