(* ===== verification/Cyclonedx_Parser.thy ===== *)
theory Cyclonedx_Parser
  imports Sbom_Document
begin

text \<open>
  The CycloneDX parser, \<open>backend/internal/cyclonedx/parser.go\<close>. The product is \<open>metadata.component\<close>, outside
  the component array: what it depends on is recorded as direct, not as a relationship.
\<close>

subsection \<open>Licenses, tools, source repository\<close>

definition cdx_license_part :: "cdx_license \<Rightarrow> string option" where
  "cdx_license_part l =
     (if cl_expression l \<noteq> [] then Some (cl_expression l)
      else (case cl_license l of
              None \<Rightarrow> None
            | Some (i, n) \<Rightarrow> if i \<noteq> [] then Some i else if n \<noteq> [] then Some n else None))"

definition extract_license :: "cdx_license list \<Rightarrow> string" where
  "extract_license lics =
     (let parts = List.map_filter cdx_license_part lics
      in if parts = [] then ''NOASSERTION'' else join_with '' AND '' parts)"

definition tool_text :: "cdx_tool \<Rightarrow> string" where
  "tool_text t =
     ''Tool: '' @ (if ct_vendor t \<noteq> [] then ct_vendor t @ '' '' @ ct_name t else ct_name t)
       @ (if ct_version t \<noteq> [] then '' '' @ ct_version t else [])"

fun first_reference :: "(string \<Rightarrow> string \<times> string) \<Rightarrow> string list \<Rightarrow> (string \<times> string) list \<Rightarrow> string \<times> string" where
  "first_reference f types [] = ([], [])"
| "first_reference f types ((ty, url) # rs) =
     (if ty \<in> set types \<and> fst (f url) \<noteq> [] then f url else first_reference f types rs)"

definition cdx_source_repo :: "sbom_library \<Rightarrow> cdx_document \<Rightarrow> string \<times> string" where
  "cdx_source_repo lib doc =
     (case cx_component doc of
        None \<Rightarrow> ([], [])
      | Some root \<Rightarrow>
          let vcs = first_reference (normalize_repo (lib_url lib)) [''vcs''] (cc_external_references root);
              (repo, ref) = (if fst vcs \<noteq> [] then vcs
                 else first_reference (normalize_strict (lib_url lib)) [''distribution'', ''distribution-intake'']
                        (cc_external_references root))
          in if repo = [] then ([], [])
             else (repo, if ref = []
                         then (case cc_pedigree_commits root of Some (c # _) \<Rightarrow> trim_space c | _ \<Rightarrow> ref)
                         else ref))"

definition cdx_grouping_signals :: "cdx_document \<Rightarrow> string \<times> string" where
  "cdx_grouping_signals doc =
     (let root_purl = (case cx_component doc of None \<Rightarrow> [] | Some root \<Rightarrow> trim_space (cc_purl root));
          of_root = (\<lambda>f. case cx_component doc of None \<Rightarrow> None | Some root \<Rightarrow> f root);
          candidates = [cx_manufacturer doc, cx_manufacture doc, of_root cc_manufacturer, cx_supplier doc, of_root cc_supplier]
      in (root_purl,
          case find (\<lambda>c. case c of None \<Rightarrow> False | Some n \<Rightarrow> trim_space n \<noteq> []) candidates of
            Some (Some n) \<Rightarrow> trim_space n | _ \<Rightarrow> []))"

subsection \<open>The arrays\<close>

text \<open>A later component with the same reference replaces the earlier one; empty references are not indexed.\<close>

fun bom_ref_index :: "nat \<Rightarrow> (string \<rightharpoonup> 32 word) \<Rightarrow> cdx_component list \<Rightarrow> (string \<rightharpoonup> 32 word)" where
  "bom_ref_index i m [] = m"
| "bom_ref_index i m (c # cs) =
     bom_ref_index (Suc i) (if cc_bom_ref c \<noteq> [] then m(cc_bom_ref c \<mapsto> of_nat i) else m) cs"

definition known_targets :: "(string \<rightharpoonup> 32 word) \<Rightarrow> string list \<Rightarrow> 32 word list" where
  "known_targets index targets = List.map_filter index targets"

text \<open>Relationships as source and target, and the direct dependencies of the product.\<close>

fun cdx_dependencies ::
  "(string \<rightharpoonup> 32 word) \<Rightarrow> string \<Rightarrow> cdx_dependency list \<Rightarrow> (32 word \<times> 32 word) list \<times> 32 word list" where
  "cdx_dependencies index root_ref [] = ([], [])"
| "cdx_dependencies index root_ref (d # ds) =
     (case cdx_dependencies index root_ref ds of (rels, direct) \<Rightarrow>
        let targets = known_targets index (cd_depends_on d)
        in if root_ref \<noteq> [] \<and> cd_ref d = root_ref \<and> index root_ref = None then (rels, targets @ direct)
           else (case index (cd_ref d) of
                   None \<Rightarrow> (rels, direct)
                 | Some s \<Rightarrow> (map (Pair s) targets @ rels, direct)))"

definition cdx_root_ref :: "cdx_document \<Rightarrow> string" where
  "cdx_root_ref doc = (case cx_component doc of None \<Rightarrow> [] | Some root \<Rightarrow> cc_bom_ref root)"

definition cdx_packages :: "int \<Rightarrow> string \<Rightarrow> string \<Rightarrow> cdx_document \<Rightarrow> sbom_packages" where
  "cdx_packages now sbom_id source_file doc =
     (let cs = cx_components doc;
          (rels, direct) = cdx_dependencies (bom_ref_index 0 Map.empty cs) (cdx_root_ref doc) (cx_dependencies doc)
      in \<lparr>sp_ingested_at = now, sp_sbom_id = sbom_id, sp_source_file = source_file, sp_spdx_ids = map cc_bom_ref cs,
          sp_names = map cc_name cs, sp_versions = map cc_version cs, sp_purls = map cc_purl cs,
          sp_licenses = map (extract_license \<circ> cc_licenses) cs, sp_license_sources = [],
          sp_rel_sources = map fst rels, sp_rel_targets = map snd rels, sp_rel_types = map (\<lambda>_. ''DEPENDS_ON'') rels,
          sp_depths = [], sp_cluster = [], sp_namespace = [], sp_project = [], sp_root_indices = [],
          sp_direct_indices = direct\<rparr>)"

subsection \<open>Parse\<close>

definition cdx_original_name :: "cdx_document \<Rightarrow> string" where
  "cdx_original_name doc =
     (case cx_component doc of
        None \<Rightarrow> []
      | Some root \<Rightarrow>
          if \<not> needs_fallback (cc_name root) \<and> cc_version root \<noteq> [] then cc_name root @ '' '' @ cc_version root
          else cc_name root)"

definition cdx_sbom :: "sbom_library \<Rightarrow> int \<Rightarrow> string \<Rightarrow> string \<Rightarrow> string \<Rightarrow> cdx_document \<Rightarrow> sbom" where
  "cdx_sbom lib now source_file hash doc_name doc =
     (let (repo, ref) = cdx_source_repo lib doc; (purl, supplier) = cdx_grouping_signals doc
      in \<lparr>sb_ingested_at = now, sb_sbom_id = lib_uuid lib hash, sb_source_file = source_file,
          sb_spdx_version = ''CycloneDX-'' @ cx_spec_version doc, sb_document_name = doc_name,
          sb_document_namespace = cx_serial_number doc, sb_sha256_hash = hash,
          sb_creation_date = (case lib_time lib (cx_timestamp doc) of None \<Rightarrow> now | Some t \<Rightarrow> t),
          sb_creator_tools = map tool_text (cx_tools doc), sb_cluster = [], sb_namespace = [], sb_project = [],
          sb_source_repo = repo, sb_source_ref = ref,
          sb_document_version = (case cx_component doc of None \<Rightarrow> [] | Some root \<Rightarrow> cc_version root),
          sb_tags = [], sb_parent = [], sb_root_purl = purl, sb_supplier = supplier\<rparr>)"

text \<open>Nothing recovers a panic of the decoder here; it is the result \<open>PanicError\<close>, the end of the process.\<close>

definition parse_cyclonedx :: "sbom_library \<Rightarrow> int \<Rightarrow> string \<Rightarrow> string \<Rightarrow> string \<Rightarrow> document_error + sbom \<times> sbom_packages" where
  "parse_cyclonedx lib now data source_file hash =
     (case lib_cdx lib data of
        DecodePanic \<Rightarrow> Inl PanicError
      | DecodeError \<Rightarrow> Inl FormatError
      | Decoded doc \<Rightarrow>
          if cx_bom_format doc \<noteq> ''CycloneDX'' then Inl NotCycloneDX
          else (case resolve_name (lib_naming lib) (lib_url lib) data (cdx_original_name doc) source_file of
                  None \<Rightarrow> Inl NameError
                | Some doc_name \<Rightarrow>
                    Inr (cdx_sbom lib now source_file hash doc_name doc,
                         cdx_packages now (lib_uuid lib hash) source_file doc)))"

subsection \<open>Lemmas\<close>

lemma bom_ref_index_bound:
  assumes "\<And>r idx. m r = Some idx \<Longrightarrow> unat idx < i + length cs" "i + length cs \<le> 2 ^ 32"
    "bom_ref_index i m cs r = Some idx"
  shows "unat idx < i + length cs"
  using assms
proof (induction cs arbitrary: i m)
  case (Cons c cs)
  let ?m = "if cc_bom_ref c \<noteq> [] then m(cc_bom_ref c \<mapsto> of_nat i) else m"
  have "unat (of_nat i :: 32 word) = i" using Cons.prems(2) by (simp add: unat_of_nat)
  then have "unat idx < Suc i + length cs" if "?m r = Some idx" for r idx
    using that Cons.prems(1) [of r idx] by (auto split: if_splits)
  from Cons.IH [of ?m "Suc i", OF this] Cons.prems(2,3) show ?case by simp
qed simp

lemma cdx_dependencies_bound:
  assumes "\<forall>r idx. index r = Some idx \<longrightarrow> unat idx < n"
  shows "\<forall>(s, t) \<in> set (fst (cdx_dependencies index root_ref ds)). unat s < n \<and> unat t < n"
    and "\<forall>t \<in> set (snd (cdx_dependencies index root_ref ds)). unat t < n"
proof -
  have t: "unat t < n" if "t \<in> set (known_targets index ts)" for t ts
    using that assms by (force simp: known_targets_def List.map_filter_def)
  show "\<forall>(s, t) \<in> set (fst (cdx_dependencies index root_ref ds)). unat s < n \<and> unat t < n"
    using t assms by (induction ds) (auto simp: Let_def split: prod.split option.split)
  show "\<forall>t \<in> set (snd (cdx_dependencies index root_ref ds)). unat t < n"
    using t by (induction ds) (auto simp: Let_def split: prod.split option.split)
qed

lemma cdx_packages_ok:
  assumes "length (cx_components doc) \<le> 2 ^ 32"
  shows "packages_ok (cdx_packages now i source_file doc)"
proof -
  let ?index = "bom_ref_index 0 Map.empty (cx_components doc)"
  have "\<forall>r idx. ?index r = Some idx \<longrightarrow> unat idx < length (cx_components doc)"
    using bom_ref_index_bound [of Map.empty 0 "cx_components doc"] assms by simp
  note bounds = cdx_dependencies_bound [OF this, of "cdx_root_ref doc" "cx_dependencies doc"]
  obtain rels direct where "cdx_dependencies ?index (cdx_root_ref doc) (cx_dependencies doc) = (rels, direct)"
    by (cases "cdx_dependencies ?index (cdx_root_ref doc) (cx_dependencies doc)")
  with bounds show ?thesis
    by (fastforce simp: packages_ok_def cdx_packages_def Let_def list_all_iff index_ok_def)
qed

end
