(* ===== verification/Protobom_Parser.thy ===== *)
theory Protobom_Parser
  imports Sbom_Document
begin

text \<open>
  The converter from protobom documents, \<open>backend/internal/protobomparser/parser.go\<close>. Reading a document
  is the library's; a time is zero in the year 1, which is where the library puts a missing one.
\<close>

definition protobom_zero_time :: int where "protobom_zero_time = -62135596800000"

definition extract_node_license :: "pb_node \<Rightarrow> string" where
  "extract_node_license node =
     (if pn_licenses node \<noteq> [] then join_with '' AND '' (pn_licenses node)
      else if pn_concluded node \<noteq> [] \<and> pn_concluded node \<noteq> ''NOASSERTION'' \<and> pn_concluded node \<noteq> ''NONE''
      then pn_concluded node else ''NOASSERTION'')"

definition with_format_version :: "string \<Rightarrow> string \<Rightarrow> string" where
  "with_format_version name format =
     (case str_index format ''version='' of None \<Rightarrow> name | Some i \<Rightarrow> name @ ''-'' @ drop (i + 8) format)"

definition format_by_nodes :: "pb_node list \<Rightarrow> string" where
  "format_by_nodes nodes = (if list_ex (\<lambda>n. has_prefix (pn_id n) ''SPDXRef-'') nodes then ''SPDX-2.3'' else ''Unknown'')"

definition detect_format :: "pb_metadata option \<Rightarrow> pb_node list \<Rightarrow> string" where
  "detect_format md nodes =
     (case Option.bind md pm_format of
        None \<Rightarrow> format_by_nodes nodes
      | Some format \<Rightarrow>
          if contains_str format ''cyclonedx'' then with_format_version ''CycloneDX'' format
          else if contains_str format ''spdx'' then with_format_version ''SPDX'' format
          else format_by_nodes nodes)"

definition pb_tool_text :: "cdx_tool \<Rightarrow> string" where
  "pb_tool_text t =
     ''Tool: '' @ (if ct_vendor t \<noteq> [] then ct_vendor t @ '' '' @ ct_name t else ct_name t)
       @ (if ct_version t \<noteq> [] then '' '' @ ct_version t else [])"

definition pb_creation_date :: "int \<Rightarrow> pb_metadata option \<Rightarrow> int" where
  "pb_creation_date now md =
     (case Option.bind md pm_date of None \<Rightarrow> now | Some t \<Rightarrow> if t = protobom_zero_time then now else t)"

text \<open>A later node with the same id replaces the earlier one.\<close>

fun node_id_index :: "nat \<Rightarrow> (string \<rightharpoonup> 32 word) \<Rightarrow> pb_node list \<Rightarrow> (string \<rightharpoonup> 32 word)" where
  "node_id_index i m [] = m"
| "node_id_index i m (n # ns) = node_id_index (Suc i) (m(pn_id n \<mapsto> of_nat i)) ns"

definition edge_relations :: "(string \<rightharpoonup> 32 word) \<Rightarrow> pb_edge \<Rightarrow> (32 word \<times> 32 word \<times> string) list" where
  "edge_relations index edge =
     (case index (pe_from edge) of
        None \<Rightarrow> []
      | Some s \<Rightarrow> map (\<lambda>t. (s, t, pe_type edge)) (List.map_filter index (pe_to edge)))"

definition pb_packages :: "int \<Rightarrow> string \<Rightarrow> string \<Rightarrow> pb_node_list \<Rightarrow> sbom_packages" where
  "pb_packages now sbom_id source_file nl =
     (let nodes = pl_nodes nl; index = node_id_index 0 Map.empty nodes;
          rels = concat (map (edge_relations index) (pl_edges nl))
      in \<lparr>sp_ingested_at = now, sp_sbom_id = sbom_id, sp_source_file = source_file, sp_spdx_ids = map pn_id nodes,
          sp_names = map pn_name nodes, sp_versions = map pn_version nodes,
          sp_purls = map (\<lambda>n. case pn_purl n of None \<Rightarrow> [] | Some p \<Rightarrow> p) nodes,
          sp_licenses = map extract_node_license nodes, sp_license_sources = [],
          sp_rel_sources = map fst rels, sp_rel_targets = map (fst \<circ> snd) rels, sp_rel_types = map (snd \<circ> snd) rels,
          sp_depths = [], sp_cluster = [], sp_namespace = [], sp_project = [],
          sp_root_indices = List.map_filter index (pl_roots nl), sp_direct_indices = []\<rparr>)"

definition pb_sbom :: "sbom_library \<Rightarrow> int \<Rightarrow> string \<Rightarrow> string \<Rightarrow> pb_metadata option \<Rightarrow> pb_node list \<Rightarrow> sbom" where
  "pb_sbom lib now source_file hash md nodes =
     \<lparr>sb_ingested_at = now, sb_sbom_id = lib_uuid lib hash, sb_source_file = source_file,
      sb_spdx_version = detect_format md nodes,
      sb_document_name = (case md of None \<Rightarrow> [] | Some m \<Rightarrow> pm_name m),
      sb_document_namespace = (case md of None \<Rightarrow> [] | Some m \<Rightarrow> pm_version m), sb_sha256_hash = hash,
      sb_creation_date = pb_creation_date now md,
      sb_creator_tools = (case md of None \<Rightarrow> [] | Some m \<Rightarrow> map pb_tool_text (pm_tools m)),
      sb_cluster = [], sb_namespace = [], sb_project = [], sb_source_repo = [], sb_source_ref = [],
      sb_document_version = [], sb_tags = [], sb_parent = [], sb_root_purl = [], sb_supplier = []\<rparr>"

definition convert_document ::
  "sbom_library \<Rightarrow> int \<Rightarrow> pb_document option \<Rightarrow> string \<Rightarrow> string \<Rightarrow> document_error + sbom \<times> sbom_packages" where
  "convert_document lib now doc source_file hash =
     (case doc of
        None \<Rightarrow> Inl EmptyDocument
      | Some d \<Rightarrow>
          (case pd_nodes d of
             None \<Rightarrow> Inl EmptyDocument
           | Some nl \<Rightarrow>
               Inr (pb_sbom lib now source_file hash (pd_metadata d) (pl_nodes nl),
                    pb_packages now (lib_uuid lib hash) source_file nl)))"

definition parse_protobom :: "sbom_library \<Rightarrow> int \<Rightarrow> string \<Rightarrow> string \<Rightarrow> string \<Rightarrow> document_error + sbom \<times> sbom_packages" where
  "parse_protobom lib now data source_file hash =
     (case lib_protobom lib data of
        DecodePanic \<Rightarrow> Inl PanicError
      | DecodeError \<Rightarrow> Inl LibraryError
      | Decoded doc \<Rightarrow>
          (case convert_document lib now doc source_file hash of
             Inl e \<Rightarrow> Inl e
           | Inr (sb, pk) \<Rightarrow>
               (case resolve_name (lib_naming lib) (lib_url lib) data (sb_document_name sb) source_file of
                  None \<Rightarrow> Inl NameError
                | Some name \<Rightarrow> Inr (sb\<lparr>sb_document_name := name\<rparr>, pk))))"

subsection \<open>Lemmas\<close>

lemma node_id_index_bound:
  assumes "\<And>r idx. m r = Some idx \<Longrightarrow> unat idx < i + length ns" "i + length ns \<le> 2 ^ 32"
    "node_id_index i m ns r = Some idx"
  shows "unat idx < i + length ns"
  using assms
proof (induction ns arbitrary: i m)
  case (Cons n ns)
  let ?m = "m(pn_id n \<mapsto> of_nat i)"
  have "unat (of_nat i :: 32 word) = i" using Cons.prems(2) by (simp add: unat_of_nat)
  then have m: "unat idx < Suc i + length ns" if "?m r = Some idx" for r idx
    using that Cons.prems(1) [of r idx] by (auto split: if_splits)
  have "node_id_index (Suc i) ?m ns r = Some idx" "Suc i + length ns \<le> 2 ^ 32" using Cons.prems(2,3) by simp_all
  with m have "unat idx < Suc i + length ns" by (intro Cons.IH [of ?m "Suc i"])
  then show ?case by simp
qed simp

lemma map_filter_bound:
  assumes "\<forall>r idx. index r = Some idx \<longrightarrow> unat idx < n" "t \<in> set (List.map_filter index ts)"
  shows "unat (t :: 32 word) < n"
  using assms by (force simp: List.map_filter_def)

lemma edge_relations_bound:
  assumes "\<forall>r idx. index r = Some idx \<longrightarrow> unat idx < n" "(s, t, ty) \<in> set (edge_relations index e)"
  shows "unat s < n \<and> unat t < n"
  using assms map_filter_bound [OF assms(1)] by (auto simp: edge_relations_def split: option.splits)

lemma pb_packages_ok:
  assumes "length (pl_nodes nl) \<le> 2 ^ 32"
  shows "packages_ok (pb_packages now i source_file nl)"
proof -
  let ?index = "node_id_index 0 Map.empty (pl_nodes nl)" and ?n = "length (pl_nodes nl)"
  have index: "\<forall>r idx. ?index r = Some idx \<longrightarrow> unat idx < ?n"
    using node_id_index_bound [of Map.empty 0 "pl_nodes nl"] assms by simp
  have "unat (fst r) < ?n \<and> unat (fst (snd r)) < ?n"
    if r: "r \<in> set (concat (map (edge_relations ?index) (pl_edges nl)))" for r
  proof -
    obtain e where "r \<in> set (edge_relations ?index e)" using r by auto
    with edge_relations_bound [OF index, of "fst r" "fst (snd r)" "snd (snd r)" e] show ?thesis by simp
  qed
  note rels = this
  obtain rels where r: "concat (map (edge_relations ?index) (pl_edges nl)) = rels" by simp
  have "\<forall>r \<in> set rels. unat (fst r) < ?n \<and> unat (fst (snd r)) < ?n" using rels unfolding r by blast
  moreover have "\<forall>x \<in> set (List.map_filter ?index (pl_roots nl)). unat x < ?n"
    using map_filter_bound [OF index] by blast
  ultimately show ?thesis
    by (simp add: packages_ok_def pb_packages_def Let_def list_all_iff index_ok_def r ball_Un)
qed

end
