(* ===== verification/Sbom_Parse.thy ===== *)
theory Sbom_Parse
  imports Spdx_Parser Cyclonedx_Parser Protobom_Parser
begin

text \<open>
  Parsing of an SBOM, \<open>backend/internal/sbom/parse.go\<close>: format detection, the parser of the format, the
  repair of npm identities (\<open>npm_identity.go\<close>) and the dependency depths.
\<close>

subsection \<open>npm identities\<close>

definition npm_purl_prefix :: string where "npm_purl_prefix = ''pkg:npm/''"

text \<open>The last comma-separated entry of a lockfile key.\<close>

definition last_entry :: "string \<Rightarrow> string" where
  "last_entry s = (case str_last_index s '','' of None \<Rightarrow> s | Some i \<Rightarrow> trim_space (drop (i + 1) s))"

definition escape_scope :: "string \<Rightarrow> string" where
  "escape_scope name = (if has_prefix name ''@'' then ''%40'' @ drop 1 name else name)"

definition normalize_yarn_patch_purl :: "string \<Rightarrow> string option" where
  "normalize_yarn_patch_purl rest0 =
     (let rest = last_entry rest0
      in case str_index rest ''@patch:'' of
           None \<Rightarrow> None
         | Some i \<Rightarrow>
             if i = 0 then None
             else
               let name = take i rest;
                   v0 = (case str_last_index rest ''@'' of None \<Rightarrow> rest | Some j \<Rightarrow> drop (j + 1) rest)
               in if has_prefix v0 ''patch:'' then None
                  else
                    let v = trim_prefix (trim_prefix v0 ''npm%3A'') ''npm:''
                    in if v = [] \<or> contains_any v '' ,#/^~*<>'' \<or> contains_any name '' ,'' then None
                       else Some (npm_purl_prefix @ escape_scope name @ ''@'' @ v))"

definition split_entry :: "string \<Rightarrow> string \<times> string" where
  "split_entry rest =
     (case str_index (drop 1 rest) ''@'' of None \<Rightarrow> (rest, []) | Some at \<Rightarrow> (take (at + 1) rest, drop (at + 2) rest))"

definition resolve_alias :: "string \<times> string \<Rightarrow> string \<times> string" where
  "resolve_alias nv =
     (case cut_prefix (snd nv) ''npm:'' of
        None \<Rightarrow> nv
      | Some v \<Rightarrow>
          (case str_last_index v ''@'' of
             None \<Rightarrow> (fst nv, v)
           | Some j \<Rightarrow> if j > 0 then (take j v, drop (j + 1) v) else (fst nv, v)))"

definition unescape_scope :: "string \<Rightarrow> string" where
  "unescape_scope s = (if has_prefix s ''%40'' then ''@'' @ drop 3 s else s)"

definition normalize_npm_purl :: "string \<Rightarrow> string" where
  "normalize_npm_purl purl =
     (if \<not> has_prefix purl npm_purl_prefix then purl
      else
        let rest = drop (length npm_purl_prefix) purl
        in if contains_str rest ''@patch:''
           then (case normalize_yarn_patch_purl rest of Some out \<Rightarrow> out | None \<Rightarrow> purl)
           else
             let (body, sfx) = (case index_any rest ''?#'' of None \<Rightarrow> (rest, []) | Some i \<Rightarrow> (take i rest, drop i rest))
             in if \<not> contains_str body '','' \<and> \<not> contains_str body ''@npm:'' then purl
                else
                  let entry = unescape_scope (last_entry body)
                  in if entry = [] then purl
                     else
                       let (name, version) = resolve_alias (split_entry entry)
                       in if name = [] \<or> contains_any name '' ,'' then purl
                          else npm_purl_prefix @ escape_scope name @ (if version \<noteq> [] then ''@'' @ version else []) @ sfx)"

definition cut_protocol :: "string \<Rightarrow> string \<Rightarrow> string" where
  "cut_protocol name proto = (case str_index name proto of None \<Rightarrow> name | Some i \<Rightarrow> if i > 0 then take i name else name)"

definition normalize_npm_name :: "string \<Rightarrow> string" where
  "normalize_npm_name name =
     (if \<not> contains_str name '','' \<and> \<not> contains_str name ''@npm:'' \<and> \<not> contains_str name ''@patch:'' then name
      else foldl cut_protocol (last_entry name) [''@npm:'', ''@patch:''])"

text \<open>Names beyond the purls, and purls beyond the names, are left as they are.\<close>

fun repair_names :: "string list \<Rightarrow> string list \<Rightarrow> string list" where
  "repair_names (p # ps) (n # ns) =
     (if has_prefix p npm_purl_prefix then normalize_npm_name n else n) # repair_names ps ns"
| "repair_names _ ns = ns"

definition normalize_npm_identities :: "sbom_packages \<Rightarrow> sbom_packages" where
  "normalize_npm_identities p =
     p\<lparr>sp_names := repair_names (sp_purls p) (sp_names p), sp_purls := map normalize_npm_purl (sp_purls p)\<rparr>"

subsection \<open>Parse\<close>

definition protobom_enabled :: "string \<Rightarrow> bool" where
  "protobom_enabled v \<longleftrightarrow> equal_fold v ''true'' \<or> v = ''1''"

definition is_spdx3_context :: "json_context \<Rightarrow> bool" where
  "is_spdx3_context c =
     (case c of
        SingleContext s \<Rightarrow> contains_str s ''spdx.org/rdf/3''
      | ManyContexts ss \<Rightarrow> list_ex (\<lambda>s. contains_str s ''spdx.org/rdf/3'') ss
      | _ \<Rightarrow> False)"

definition dispatch ::
  "sbom_library \<Rightarrow> bool \<Rightarrow> int \<Rightarrow> string \<Rightarrow> string \<Rightarrow> string \<Rightarrow> document_error + sbom \<times> sbom_packages" where
  "dispatch lib use_protobom now data source_file hash =
     (if use_protobom then parse_protobom lib now data source_file hash
      else (case lib_probe lib data of
              None \<Rightarrow> Inl PanicError
            | Some probe \<Rightarrow>
                if is_spdx3_context (fp_context probe) then parse_protobom lib now data source_file hash
                else if fp_bom_format probe = ''CycloneDX'' then parse_cyclonedx lib now data source_file hash
                else parse_spdx lib now data source_file hash))"

text \<open>An index outside the depth array would be a panic.\<close>

definition assign_depths :: "sbom_packages \<Rightarrow> sbom_packages option" where
  "assign_depths p =
     map_option (\<lambda>ds. p\<lparr>sp_depths := ds\<rparr>)
       (compute (length (sp_names p)) (sp_rel_sources p) (sp_rel_targets p) (sp_rel_types p)
          (sp_root_indices p) (sp_direct_indices p))"

definition parse_document ::
  "sbom_library \<Rightarrow> bool \<Rightarrow> int \<Rightarrow> string option \<Rightarrow> string \<Rightarrow> string \<Rightarrow> document_error + sbom \<times> sbom_packages" where
  "parse_document lib use_protobom now input source_file hash =
     (case input of
        None \<Rightarrow> Inl ReadError
      | Some data \<Rightarrow>
          (case dispatch lib use_protobom now data source_file hash of
             Inl e \<Rightarrow> Inl e
           | Inr (sb, p) \<Rightarrow>
               (case assign_depths (normalize_npm_identities p) of
                  None \<Rightarrow> Inl PanicError
                | Some q \<Rightarrow> Inr (sb, q))))"

subsection \<open>Every parser's arrays\<close>

text \<open>No decoded document has more entries than a 32-bit index can tell apart.\<close>

definition documents_bounded :: "sbom_library \<Rightarrow> bool" where
  "documents_bounded lib \<longleftrightarrow>
     (\<forall>d0 data doc. lib_spdx lib d0 data = Decoded doc \<longrightarrow> length (sd_packages doc) \<le> 2 ^ 32) \<and>
     (\<forall>data doc. lib_cdx lib data = Decoded doc \<longrightarrow> length (cx_components doc) \<le> 2 ^ 32) \<and>
     (\<forall>data doc nl. lib_protobom lib data = Decoded (Some doc) \<longrightarrow> pd_nodes doc = Some nl \<longrightarrow> length (pl_nodes nl) \<le> 2 ^ 32)"

lemma documents_boundedD:
  assumes "documents_bounded lib"
  shows "lib_spdx lib d0 data = Decoded doc \<Longrightarrow> length (sd_packages doc) \<le> 2 ^ 32"
    and "lib_cdx lib data = Decoded cdoc \<Longrightarrow> length (cx_components cdoc) \<le> 2 ^ 32"
    and "lib_protobom lib data = Decoded (Some pdoc) \<Longrightarrow> pd_nodes pdoc = Some nl \<Longrightarrow> length (pl_nodes nl) \<le> 2 ^ 32"
  using assms unfolding documents_bounded_def by blast+

definition few_packages :: "sbom_packages \<Rightarrow> bool" where
  "few_packages p \<longleftrightarrow> packages_ok p \<and> length (sp_names p) \<le> 2 ^ 32"

lemma decode_document_bounded:
  assumes "documents_bounded lib" "decode_document lib data = Inr doc"
  shows "length (sd_packages doc) \<le> 2 ^ 32"
  using assms(2) documents_boundedD(1) [OF assms(1)]
  by (auto simp: decode_document_def split: decoded.splits if_splits prod.splits)

lemma spdx_names_bound: "length (sp_names (spdx_packages lib now i f doc)) \<le> length (sd_packages doc)"
  if "length (sd_packages doc) \<le> 2 ^ 32"
  using spdx_arrays_hold [OF that, of lib]
  by (simp add: spdx_packages_def Let_def arrays_hold_def kept_packages_def)

lemma cdx_names: "length (sp_names (cdx_packages now i f doc)) = length (cx_components doc)"
  by (simp add: cdx_packages_def Let_def split: prod.split)

lemma pb_names: "length (sp_names (pb_packages now i f nl)) = length (pl_nodes nl)"
  by (simp add: pb_packages_def Let_def)

lemma parse_spdx_few:
  assumes "documents_bounded lib" "parse_spdx lib now data f h = Inr (sb, p)"
  shows "few_packages p"
proof -
  obtain doc where doc: "decode_document lib data = Inr doc" "p = spdx_packages lib now (lib_uuid lib h) f doc"
    using assms(2) by (auto simp: parse_spdx_def split: sum.splits option.splits if_splits)
  note len = decode_document_bounded [OF assms(1) doc(1)]
  show ?thesis
    using spdx_packages_ok [OF len] spdx_names_bound [OF len] len doc(2)
    by (meson few_packages_def le_trans)
qed

lemma parse_cyclonedx_few:
  assumes "documents_bounded lib" "parse_cyclonedx lib now data f h = Inr (sb, p)"
  shows "few_packages p"
proof -
  obtain doc where doc: "lib_cdx lib data = Decoded doc" "p = cdx_packages now (lib_uuid lib h) f doc"
    using assms(2) by (auto simp: parse_cyclonedx_def split: decoded.splits option.splits if_splits)
  note len = documents_boundedD(2) [OF assms(1) doc(1)]
  show ?thesis using cdx_packages_ok [OF len] len by (simp add: doc(2) few_packages_def cdx_names)
qed

lemma parse_protobom_few:
  assumes "documents_bounded lib" "parse_protobom lib now data f h = Inr (sb, p)"
  shows "few_packages p"
proof -
  obtain doc nl where doc: "lib_protobom lib data = Decoded (Some doc)" "pd_nodes doc = Some nl"
      "p = pb_packages now (lib_uuid lib h) f nl"
    using assms(2) by (auto simp: parse_protobom_def convert_document_def split: decoded.splits option.splits)
  note len = documents_boundedD(3) [OF assms(1) doc(1,2)]
  show ?thesis using pb_packages_ok [OF len] len by (simp add: doc(3) few_packages_def pb_names)
qed

lemma dispatch_few:
  assumes "documents_bounded lib" "dispatch lib pb now data f h = Inr (sb, p)"
  shows "few_packages p"
  using assms parse_spdx_few parse_cyclonedx_few parse_protobom_few
  by (auto simp: dispatch_def split: if_splits option.splits)

lemma length_repair_names [simp]: "length (repair_names ps ns) = length ns"
  by (induction ps ns rule: repair_names.induct) auto

lemma normalize_identities_few: "few_packages p \<Longrightarrow> few_packages (normalize_npm_identities p)"
  by (simp add: few_packages_def packages_ok_def normalize_npm_identities_def)

text \<open>The depth of a package is its distance from what the document describes.\<close>

definition depths_are_distances :: "sbom_packages \<Rightarrow> bool" where
  "depths_are_distances p \<longleftrightarrow>
     (let n = length (sp_names p); E = dep_rel n (relationships (sp_rel_sources p) (sp_rel_targets p) (sp_rel_types p))
      in length (sp_depths p) = n \<and>
         (\<forall>v. known (sp_depths p) v = shortest E (product_roots n E (sp_root_indices p) (sp_direct_indices p))
            (in_range n (sp_direct_indices p)) v))"

lemma assign_depths_total:
  assumes "few_packages p"
  shows "\<exists>q. assign_depths p = Some q \<and> depths_are_distances q \<and> packages_ok q \<and> q = p\<lparr>sp_depths := sp_depths q\<rparr>"
proof -
  have n: "length (sp_names p) \<le> 2 ^ 32" and ok: "packages_ok p" using assms by (simp_all add: few_packages_def)
  obtain ds where ds: "compute (length (sp_names p)) (sp_rel_sources p) (sp_rel_targets p) (sp_rel_types p)
        (sp_root_indices p) (sp_direct_indices p) = Some ds"
      "depths_are_distances (p\<lparr>sp_depths := ds\<rparr>)"
    using compute_result [OF n] unfolding depths_are_distances_def Let_def by fastforce
  then show ?thesis using ok by (simp add: assign_depths_def packages_ok_def)
qed

subsection \<open>Properties\<close>

text \<open>
  C30: Whatever parser the format selects, what Parse returns is well formed: the arrays run in parallel,
  every index points into them, and the depths are the distances of the packages from the described
  product. Nothing after the parser fails: Parse returns an error exactly when the parser does.
\<close>

theorem parse_wellformed:
  assumes "documents_bounded lib"
  shows "case dispatch lib use_protobom now data f h of
      Inl e \<Rightarrow> parse_document lib use_protobom now (Some data) f h = Inl e
    | Inr (sb, p) \<Rightarrow>
        (\<exists>q. parse_document lib use_protobom now (Some data) f h = Inr (sb, q) \<and> packages_ok q \<and> depths_are_distances q \<and>
           q = (normalize_npm_identities p)\<lparr>sp_depths := sp_depths q\<rparr>)"
proof (cases "dispatch lib use_protobom now data f h")
  case (Inl e)
  then show ?thesis by (simp add: parse_document_def)
next
  case (Inr r)
  obtain sb p where r: "r = (sb, p)" by (cases r)
  have "few_packages (normalize_npm_identities p)"
    using dispatch_few [OF assms] Inr r normalize_identities_few by blast
  from assign_depths_total [OF this] Inr r show ?thesis by (auto simp: parse_document_def)
qed

definition sample_library :: sbom_library where
  "sample_library =
     \<lparr>lib_uuid = (\<lambda>s. s), lib_time = (\<lambda>_. None), lib_ip_literal = (\<lambda>_. None), lib_naming = (\<lambda>_. None),
      lib_spdx = (\<lambda>_ _. Decoded sample_spdx), lib_envelope = (\<lambda>_. DecodeError), lib_annotation = (\<lambda>_. DecodeError),
      lib_cdx = (\<lambda>_. DecodeError), lib_probe = (\<lambda>_. Some (\<lparr>fp_bom_format = [], fp_spdx_version = ''SPDX-2.3'',
        fp_predicate_type = [], fp_context = NoContext\<rparr>)), lib_protobom = (\<lambda>_. DecodeError)\<rparr>"

lemma parse_wellformed_witness:
  "\<exists>sb q. parse_document sample_library False 0 (Some ''{}'') ''app.json'' ''h'' = Inr (sb, q) \<and>
     packages_ok q \<and> depths_are_distances q"
proof -
  have bounded: "documents_bounded sample_library"
    by (simp add: documents_bounded_def sample_library_def sample_spdx_def)
  have name: "\<not> needs_fallback ''app''" by code_simp
  have doc: "decode_document sample_library ''{}'' = Inr sample_spdx"
    by (simp add: decode_document_def sample_library_def sample_spdx_def)
  have "file_tier sample_library [] = Decoded False" by simp
  then have "\<exists>r. parse_spdx sample_library 0 ''{}'' ''app.json'' ''h'' = Inr r"
    using name by (simp add: parse_spdx_def doc resolve_name_def) (simp add: sample_spdx_def sample_package_def)
  then obtain sb p where "dispatch sample_library False 0 ''{}'' ''app.json'' ''h'' = Inr (sb, p)"
    by (auto simp: dispatch_def sample_library_def is_spdx3_context_def)
  with parse_wellformed [OF bounded, of False 0 "''{}''" "''app.json''" "''h''"] show ?thesis by auto
qed

subsection \<open>Lockfile keys\<close>

text \<open>A package name as npm writes it, a possible scope sign only in front; and a resolved version.\<close>

definition npm_word :: "string \<Rightarrow> bool" where
  "npm_word w \<longleftrightarrow> list_all (\<lambda>c. c \<notin> set ''@,?#%:'' \<and> \<not> go_space c) w"

definition npm_name :: "string \<Rightarrow> bool" where
  "npm_name n \<longleftrightarrow> n \<noteq> [] \<and> npm_word (tl n) \<and> (npm_word [hd n] \<or> hd n = CHR ''@'')"

definition canonical_purl :: "string \<Rightarrow> string \<Rightarrow> string" where
  "canonical_purl n v = npm_purl_prefix @ escape_scope n @ ''@'' @ v"

definition purl_suffix :: "string \<Rightarrow> bool" where
  "purl_suffix s \<longleftrightarrow> (s = [] \<or> hd s \<in> set ''?#'') \<and> CHR '':'' \<notin> set s"

lemma npm_wordD: "npm_word w \<Longrightarrow> c \<in> set w \<Longrightarrow> c \<notin> set ''@,?#%:'' \<and> \<not> go_space c"
  by (auto simp: npm_word_def list_all_iff)

lemma npm_nameD:
  assumes "npm_name n" "c \<in> set n"
  shows "c \<notin> set '',?#%:'' \<and> \<not> go_space c"
proof -
  have at: "CHR ''@'' \<notin> set '',?#%:'' \<and> \<not> go_space CHR ''@''" by code_simp
  obtain a m where n: "n = a # m" using assms(1) by (cases n) (auto simp: npm_name_def)
  show ?thesis
  proof (cases "c = CHR ''@''")
    case False
    then have "npm_word [c] \<or> c \<in> set m" "npm_word m"
      using assms n by (auto simp: npm_name_def npm_word_def)
    then show ?thesis using npm_wordD [of "[c]" c] npm_wordD [of m c] by auto
  qed (use at in simp)
qed

lemma contains_patch_left:
  assumes "contains_str (a @ b) (w @ [d])" "d \<notin> set b"
  shows "contains_str a (w @ [d])"
proof -
  obtain u v where "a @ b = u @ (w @ [d]) @ v" using assms(1) by (auto simp: contains_str_iff)
  moreover define p where "p = u @ w"
  ultimately have "a @ b = p @ d # v" by simp
  then have "\<exists>us. a = p @ us \<and> us @ b = d # v" using assms(2) by (auto simp: append_eq_append_conv2)
  then obtain us where us: "a = p @ us" "us @ b = d # v" by blast
  then obtain us' where "us = d # us'" using assms(2) by (cases us) auto
  with us have "a = u @ (w @ [d]) @ us'" by (simp add: p_def)
  then show ?thesis unfolding contains_str_iff by blast
qed

lemma last_entry_snoc:
  assumes "CHR '','' \<notin> set e" "\<forall>c \<in> set e. \<not> go_space c"
  shows "last_entry (k @ '', '' @ e) = e"
proof -
  have sp: "go_space CHR '' ''" by code_simp
  have "trim_space (CHR '' '' # e) = trim_space e"
  proof (cases "e = []")
    case True
    then show ?thesis by (simp add: trim_space_def trim_by_def trim_left_by_def trim_right_by_def sp)
  next
    case False
    then show ?thesis using assms(2) sp
      by (cases e rule: rev_cases) (auto simp: trim_space_def trim_by_def trim_left_by_def trim_right_by_def)
  qed
  also have "\<dots> = e" using assms(2) by (rule trim_space_plain)
  finally show ?thesis
    using str_last_index_split [of "CHR '',''" "CHR '' '' # e" k] assms(1) by (simp add: last_entry_def)
qed

lemma last_entry_single: "CHR '','' \<notin> set e \<Longrightarrow> last_entry e = e"
  by (simp add: last_entry_def str_last_index_None [THEN iffD2])

lemma split_entry_name:
  assumes "npm_name n"
  shows "split_entry (n @ CHR ''@'' # v) = (n, v)"
proof -
  obtain a m where n: "n = a # m" using assms by (cases n) (auto simp: npm_name_def)
  then have "CHR ''@'' \<notin> set m" using assms npm_wordD [of m "CHR ''@''"] by (auto simp: npm_name_def)
  then show ?thesis by (simp add: split_entry_def n str_index_single)
qed

lemma unescape_escape:
  assumes "npm_name n"
  shows "unescape_scope (escape_scope n @ t) = n @ t" "unescape_scope (n @ t) = n @ t"
proof -
  obtain a m where n: "n = a # m" using assms by (cases n) (auto simp: npm_name_def)
  then have "a \<noteq> CHR ''%''" using npm_nameD [OF assms, of a] by auto
  then show "unescape_scope (escape_scope n @ t) = n @ t" "unescape_scope (n @ t) = n @ t"
    by (auto simp: unescape_scope_def escape_scope_def n has_prefix_iff)
qed

lemma normalize_body:
  assumes "\<not> contains_str (body @ sfx) ''@patch:''" "\<forall>c \<in> set body. c \<notin> set ''?#''" "purl_suffix sfx"
  shows "normalize_npm_purl (npm_purl_prefix @ body @ sfx) =
    (if \<not> contains_str body '','' \<and> \<not> contains_str body ''@npm:'' then npm_purl_prefix @ body @ sfx
     else let entry = unescape_scope (last_entry body)
          in if entry = [] then npm_purl_prefix @ body @ sfx
             else let (name, version) = resolve_alias (split_entry entry)
                  in if name = [] \<or> contains_any name '' ,'' then npm_purl_prefix @ body @ sfx
                     else npm_purl_prefix @ escape_scope name @ (if version \<noteq> [] then ''@'' @ version else []) @ sfx)"
proof -
  let ?P = "\<lambda>c. c \<in> set ''?#''"
  have "index_by ?P (body @ sfx) = map_option (\<lambda>i. length body + i) (index_by ?P sfx)"
    using assms(2) by (intro index_by_append) auto
  moreover have "sfx = [] \<or> index_by ?P sfx = Some 0"
    using assms(3) by (cases sfx) (auto simp: purl_suffix_def)
  ultimately have "(case index_any (body @ sfx) ''?#'' of None \<Rightarrow> (body @ sfx, [])
      | Some i \<Rightarrow> (take i (body @ sfx), drop i (body @ sfx))) = (body, sfx)"
    by (auto simp: index_any_def)
  then show ?thesis
    using assms(1) by (simp add: normalize_npm_purl_def Let_def)
qed

lemma no_protocol: "CHR '':'' \<notin> set s \<Longrightarrow> \<not> contains_str s ''@npm:'' \<and> \<not> contains_str s ''@patch:''"
  by (auto simp: contains_str_iff)

lemma entry_chars:
  assumes "npm_name n" "npm_word v"
  shows "\<forall>c \<in> set (n @ ''@'' @ v). c \<notin> set '',?#%:'' \<and> \<not> go_space c"
proof -
  have at: "CHR ''@'' \<notin> set '',?#%:'' \<and> \<not> go_space CHR ''@''" by code_simp
  show ?thesis
  proof
    fix c
    assume "c \<in> set (n @ ''@'' @ v)"
    then have "c \<in> set n \<or> c = CHR ''@'' \<or> c \<in> set v" by auto
    then show "c \<notin> set '',?#%:'' \<and> \<not> go_space c"
      using at npm_nameD [OF assms(1), of c] npm_wordD [OF assms(2), of c] by auto
  qed
qed

lemma resolve_alias_plain: "npm_word v \<Longrightarrow> resolve_alias (n, v) = (n, v)"
proof -
  assume "npm_word v"
  then have "CHR '':'' \<notin> set v" using npm_wordD [of v "CHR '':''"] by auto
  then have "\<not> has_prefix v ''npm:''" by (auto simp: has_prefix_iff)
  then show ?thesis by (simp add: resolve_alias_def cut_prefix_def)
qed

lemma resolve_alias_real:
  assumes "npm_name n" "npm_word v"
  shows "resolve_alias (a, ''npm:'' @ n @ ''@'' @ v) = (n, v)"
proof -
  have "CHR ''@'' \<notin> set v" using npm_wordD [OF assms(2), of "CHR ''@''"] by auto
  then have "str_last_index (n @ CHR ''@'' # v) ''@'' = Some (length n)" by (rule str_last_index_split)
  then show ?thesis using assms(1) by (simp add: resolve_alias_def cut_prefix_def has_prefix_def npm_name_def)
qed

lemma name_accepted: "npm_name n \<Longrightarrow> n \<noteq> [] \<and> \<not> contains_any n '' ,''"
proof -
  assume n: "npm_name n"
  have sp: "go_space CHR '' ''" by code_simp
  have "c \<notin> set '' ,''" if "c \<in> set n" for c using npm_nameD [OF n that] sp by auto
  then show ?thesis using n by (auto simp: contains_any_def npm_name_def)
qed

lemma normalize_to_canonical:
  assumes "npm_name n" "npm_word v" "v \<noteq> []" "purl_suffix sfx" "\<forall>c \<in> set body. c \<notin> set ''?#''"
    "\<not> contains_str (body @ sfx) ''@patch:''" "contains_str body '','' \<or> contains_str body ''@npm:''"
    "resolve_alias (split_entry (unescape_scope (last_entry body))) = (n, v)" "unescape_scope (last_entry body) \<noteq> []"
  shows "normalize_npm_purl (npm_purl_prefix @ body @ sfx) = canonical_purl n v @ sfx"
  unfolding normalize_body [OF assms(6) assms(5) assms(4)]
  using assms(3,7-9) name_accepted [OF assms(1)] by (auto simp: Let_def canonical_purl_def)

lemma set_escape_scope: "set (escape_scope n) \<subseteq> set n \<union> set ''%40''"
  using set_drop_subset [of 1 n] by (auto simp: escape_scope_def split: if_split_asm)

lemma key_chars:
  assumes "npm_name n" "npm_word v" "w \<in> {n, escape_scope n}"
  shows "\<forall>c \<in> set (w @ ''@'' @ v). c \<notin> set '',?#:'' \<and> \<not> go_space c"
proof
  fix c
  assume "c \<in> set (w @ ''@'' @ v)"
  then have "c \<in> set (n @ ''@'' @ v) \<or> c \<in> set ''%40''" using set_escape_scope [of n] assms(3) by auto
  moreover have "\<forall>c \<in> set ''%40''. c \<notin> set '',?#:'' \<and> \<not> go_space c" by code_simp
  ultimately show "c \<notin> set '',?#:'' \<and> \<not> go_space c" using entry_chars [OF assms(1,2)] by auto
qed

lemma yarn_key_purl:
  assumes "npm_name n" "npm_word v" "v \<noteq> []" "purl_suffix sfx" "w \<in> {n, escape_scope n}"
    and "\<forall>c \<in> set keys. c \<notin> set ''?#''" "\<not> contains_str keys ''@patch:''"
  shows "normalize_npm_purl (npm_purl_prefix @ (keys @ '', '' @ w @ ''@'' @ v) @ sfx) = canonical_purl n v @ sfx"
proof -
  note chars = key_chars [OF assms(1,2,5)]
  have unescaped: "unescape_scope (w @ t) = n @ t" for t using unescape_escape [OF assms(1)] assms(5) by auto
  have last: "last_entry (keys @ '', '' @ w @ ''@'' @ v) = w @ ''@'' @ v" using chars by (intro last_entry_snoc) auto
  have "\<not> contains_str (keys @ '', '' @ w @ ''@'' @ v @ sfx) ''@patch:''"
    using contains_patch_left [of keys "'', '' @ w @ ''@'' @ v @ sfx" "''@patch''" "CHR '':''"] assms(4,7) chars
    by (auto simp: purl_suffix_def)
  then have patch: "\<not> contains_str ((keys @ '', '' @ w @ ''@'' @ v) @ sfx) ''@patch:''" by simp
  have body: "\<forall>c \<in> set (keys @ '', '' @ w @ ''@'' @ v). c \<notin> set ''?#''" using assms(6) chars by auto
  have entry: "unescape_scope (last_entry (keys @ '', '' @ w @ ''@'' @ v)) = n @ CHR ''@'' # v"
    unfolding last using unescaped [of "''@'' @ v"] by simp
  have "resolve_alias (split_entry (n @ CHR ''@'' # v)) = (n, v)"
    by (simp add: split_entry_name [OF assms(1)] resolve_alias_plain [OF assms(2)])
  then show ?thesis
    using normalize_to_canonical [OF assms(1-4) body patch] unfolding entry by simp
qed

lemma no_patch_in_alias:
  assumes "CHR '':'' \<notin> set alias"
  shows "\<not> contains_str (alias @ ''@npm:'') ''@patch:''"
proof
  assume "contains_str (alias @ ''@npm:'') ''@patch:''"
  then obtain p q where "alias @ ''@npm:'' = p @ ''@patch:'' @ q" by (auto simp: contains_str_iff)
  then have eq: "rev (alias @ ''@npm:'') = rev (p @ ''@patch:'' @ q)" by (rule arg_cong)
  show False
  proof (cases "rev q")
    case (Cons a list)
    then have "CHR '':'' \<in> set (tl (rev (p @ ''@patch:'' @ q)))" by simp
    then have "CHR '':'' \<in> set (tl (rev (alias @ ''@npm:'')))" by (simp only: eq)
    then show False using assms by simp
  qed (use eq in simp)
qed

lemma yarn_alias_purl:
  assumes "npm_name n" "npm_word v" "v \<noteq> []" "purl_suffix sfx" "npm_name alias"
  shows "normalize_npm_purl (npm_purl_prefix @ (alias @ ''@npm:'' @ n @ ''@'' @ v) @ sfx) = canonical_purl n v @ sfx"
proof -
  let ?body = "alias @ ''@npm:'' @ n @ ''@'' @ v"
  note chars = entry_chars [OF assms(1,2)]
  have achars: "\<forall>c \<in> set alias. c \<notin> set '',?#%:''" using npm_nameD [OF assms(5)] by auto
  then have "\<not> contains_str (alias @ ''@npm:'') ''@patch:''" using no_patch_in_alias by auto
  then have "\<not> contains_str (?body @ sfx) ''@patch:''"
    using contains_patch_left [of "alias @ ''@npm:''" "n @ ''@'' @ v @ sfx" "''@patch''" "CHR '':''"] chars assms(4)
    by (auto simp: purl_suffix_def)
  moreover have "split_entry ?body = (alias, ''npm:'' @ n @ ''@'' @ v)"
    using split_entry_name [OF assms(5), of "''npm:'' @ n @ ''@'' @ v"] by simp
  moreover have "contains_str ?body ''@npm:''" unfolding contains_str_iff by blast
  moreover have "\<forall>c \<in> set ?body. c \<notin> set '',?#%''" using achars chars by auto
  moreover from this have "last_entry ?body = ?body" by (intro last_entry_single) auto
  ultimately show ?thesis
    using assms resolve_alias_real [OF assms(1,2)] unescape_escape(2) [OF assms(5)]
    by (intro normalize_to_canonical) auto
qed

lemma canonical_purl_kept:
  assumes "npm_name n" "npm_word v" "purl_suffix sfx"
  shows "normalize_npm_purl (canonical_purl n v @ sfx) = canonical_purl n v @ sfx"
proof -
  let ?c = "escape_scope n @ ''@'' @ v"
  have chars: "\<forall>c \<in> set ?c. c \<notin> set '',?#:'' \<and> \<not> go_space c" by (rule key_chars [OF assms(1,2)]) simp
  then have "CHR '':'' \<notin> set (?c @ sfx)" "CHR '':'' \<notin> set ?c" "CHR '','' \<notin> set ?c"
    using assms(3) by (auto simp: purl_suffix_def)
  then show ?thesis
    using normalize_body [of ?c sfx] no_protocol [of "?c @ sfx"] no_protocol [of ?c] chars assms(3)
    by (simp add: canonical_purl_def)
qed

lemma yarn_key_name:
  assumes "npm_name n"
  shows "normalize_npm_name (keys @ '', '' @ n) = n"
proof -
  have n: "CHR '','' \<notin> set n" "CHR '':'' \<notin> set n" "\<forall>c \<in> set n. \<not> go_space c" using npm_nameD [OF assms] by auto
  have "cut_protocol n ''@npm:'' = n" "cut_protocol n ''@patch:'' = n"
    using no_protocol [OF n(2)] by (auto simp: cut_protocol_def contains_str_def)
  then show ?thesis using last_entry_snoc [OF n(1,3), of keys] by (simp add: normalize_npm_name_def)
qed

text \<open>
  npm identities that a generator copied from a Yarn lockfile key are repaired: the purl of a key of
  any number of entries becomes the canonical purl of the last, resolved entry, its name the name of that
  package; an alias becomes the purl of the package it stands for; a canonical purl is left as it is,
  qualifiers included.
\<close>

theorem yarn_identity_repaired:
  assumes "npm_name n" "npm_word v" "v \<noteq> []" "purl_suffix sfx"
    and "w \<in> {n, escape_scope n}"
    and "\<forall>c \<in> set keys. c \<notin> set ''?#''" "\<not> contains_str keys ''@patch:''"
    and "npm_name alias"
  shows "normalize_npm_purl (npm_purl_prefix @ (keys @ '', '' @ w @ ''@'' @ v) @ sfx) = canonical_purl n v @ sfx \<and>
    normalize_npm_name (keys @ '', '' @ n) = n \<and>
    normalize_npm_purl (npm_purl_prefix @ (alias @ ''@npm:'' @ n @ ''@'' @ v) @ sfx) = canonical_purl n v @ sfx \<and>
    normalize_npm_purl (canonical_purl n v @ sfx) = canonical_purl n v @ sfx"
  using yarn_key_purl [OF assms(1-7)] yarn_key_name [OF assms(1)] yarn_alias_purl [OF assms(1-4,8)]
    canonical_purl_kept [OF assms(1,2,4)] by blast

lemma yarn_identity_repaired_witness:
  "normalize_npm_purl ''pkg:npm/%40types/estree@npm:*, @types/estree@1.0.8'' = ''pkg:npm/%40types/estree@1.0.8'' \<and>
   normalize_npm_purl ''pkg:npm/ajv@npm:@types/estree@1.0.8'' = ''pkg:npm/%40types/estree@1.0.8''"
proof -
  have hyps: "npm_name ''@types/estree''" "npm_word ''1.0.8''" "''1.0.8'' \<noteq> []" "purl_suffix []"
    "''@types/estree'' \<in> {''@types/estree'', escape_scope ''@types/estree''}"
    "\<forall>c \<in> set ''%40types/estree@npm:*''. c \<notin> set ''?#''" "\<not> contains_str ''%40types/estree@npm:*'' ''@patch:''"
    "npm_name ''ajv''"
    by code_simp+
  from yarn_identity_repaired [OF hyps] show ?thesis
    by (simp add: canonical_purl_def npm_purl_prefix_def escape_scope_def has_prefix_def)
qed

end
