(* ===== verification/Osv.thy ===== *)
theory Osv
  imports Complex_Main Regex Dep_Graph
begin

text \<open>
  Vulnerability data: the OSV client, \<open>backend/internal/osv/client.go\<close>, and what becomes of an entry,
  \<open>backend/internal/osvutil\<close>. What the service answers to the attempts of a request is a function of
  the attempt. CVSS scores are exact rationals, as are the tokens of the limiter: on all 2592 complete
  vectors the floating-point computation rounds to the same tenth. Reading a plain number
  (\<open>fmt.Sscanf\<close>) is a parameter.
\<close>

subsection \<open>Entries\<close>

record affected =
  af_versions :: "string list"
  af_fixed :: "string list list"

record vuln_entry =
  ve_id :: string
  ve_summary :: string
  ve_aliases :: "string list"
  ve_severity :: "(string \<times> string) list"
  ve_affected :: "affected list"
  ve_database_severity :: "string option"
  ve_json :: string

text \<open>The fixed versions of an affected package are those of its ranges' events; a missing one is empty.\<close>

subsection \<open>Requests\<close>

datatype 'a http_answer = ContextDone | RequestInvalid | NetworkFailure | HttpStatus nat | Undecodable | Answer 'a

datatype osv_error = OsvCancelled | OsvRequest | OsvStatus nat | OsvDecode | OsvRetriesExhausted

definition max_retries :: nat where "max_retries = 5"

definition retryable_status :: "nat \<Rightarrow> bool" where
  "retryable_status s \<longleftrightarrow> s = 429 \<or> s = 503"

text \<open>The wait before a retry, in milliseconds.\<close>

definition backoff :: "nat \<Rightarrow> nat" where
  "backoff attempt = (if attempt = 0 then 0 else min 30000 (500 * 2 ^ (attempt - 1)))"

definition retry_answer :: "'a http_answer \<Rightarrow> bool" where
  "retry_answer a = (case a of NetworkFailure \<Rightarrow> True | HttpStatus s \<Rightarrow> retryable_status s | _ \<Rightarrow> False)"

definition final_answer :: "'a http_answer \<Rightarrow> osv_error + 'a" where
  "final_answer a =
     (case a of
        ContextDone \<Rightarrow> Inl OsvCancelled
      | RequestInvalid \<Rightarrow> Inl OsvRequest
      | NetworkFailure \<Rightarrow> Inl OsvRetriesExhausted
      | HttpStatus s \<Rightarrow> Inl (OsvStatus s)
      | Undecodable \<Rightarrow> Inl OsvDecode
      | Answer x \<Rightarrow> Inr x)"

text \<open>
  The timeout of the HTTP client, in milliseconds: an exchange is cut off after it. What the client then
  makes of the exchange is part of the answer.
\<close>

definition http_timeout :: nat where "http_timeout = 60000"

text \<open>
  The retry loop: its result, the number of attempts and the time they took. Attempt \<open>k\<close> waits for its
  backoff and then \<open>limit k\<close> for the limiter, and its exchange takes \<open>took k\<close>.
\<close>

function osv_attempts ::
  "(nat \<Rightarrow> nat) \<Rightarrow> (nat \<Rightarrow> nat) \<Rightarrow> (nat \<Rightarrow> 'a http_answer) \<Rightarrow> nat \<Rightarrow> nat \<Rightarrow> (osv_error + 'a) \<times> nat \<times> nat" where
  "osv_attempts limit took answers attempt elapsed =
     (if attempt > max_retries then (Inl OsvRetriesExhausted, attempt, elapsed)
      else
        let elapsed' = elapsed + (backoff attempt + limit attempt + min http_timeout (took attempt))
        in if retry_answer (answers attempt) then osv_attempts limit took answers (Suc attempt) elapsed'
           else (final_answer (answers attempt), Suc attempt, elapsed'))"
  by pat_completeness auto
termination by (relation "measure (\<lambda>(_, _, _, attempt, _). Suc max_retries - attempt)") auto

declare osv_attempts.simps [simp del]

text \<open>The result does not depend on the times.\<close>

definition osv_request :: "(nat \<Rightarrow> 'a http_answer) \<Rightarrow> osv_error + 'a" where
  "osv_request answers = fst (osv_attempts (\<lambda>_. 0) (\<lambda>_. 0) answers 0 0)"

text \<open>
  The limiter all clients of a process share: a bucket of tokens, with times in seconds. An attempt at a
  token takes one or says how long to wait for the next attempt.
\<close>

record token_bucket =
  tb_rate :: rat
  tb_burst :: nat
  tb_tokens :: rat
  tb_last_refill :: rat

definition new_token_bucket :: "rat \<Rightarrow> nat \<Rightarrow> rat \<Rightarrow> token_bucket" where
  "new_token_bucket rate burst now = \<lparr>tb_rate = rate, tb_burst = burst, tb_tokens = of_nat burst, tb_last_refill = now\<rparr>"

definition global_limiter :: "rat \<Rightarrow> token_bucket" where
  "global_limiter now = new_token_bucket 10 5 now"

definition try_token :: "rat \<Rightarrow> token_bucket \<Rightarrow> rat option \<times> token_bucket" where
  "try_token now b =
     (let tokens = min (of_nat (tb_burst b)) (tb_tokens b + (now - tb_last_refill b) * tb_rate b)
      in if tokens \<ge> 1 then (None, b\<lparr>tb_tokens := tokens - 1, tb_last_refill := now\<rparr>)
         else (Some ((1 - tokens) / tb_rate b), b\<lparr>tb_tokens := tokens, tb_last_refill := now\<rparr>))"

text \<open>The attempts of all callers, in the order they hold the lock, and the number of tokens taken.\<close>

fun tokens_taken :: "rat list \<Rightarrow> token_bucket \<Rightarrow> nat \<times> token_bucket" where
  "tokens_taken [] b = (0, b)"
| "tokens_taken (now # later) b =
     (case try_token now b of
        (wait, b') \<Rightarrow> (case tokens_taken later b' of (n, b'') \<Rightarrow> (if wait = None then Suc n else n, b'')))"

text \<open>The results of a batch are the ids found for each query.\<close>

type_synonym batch_response = "string list list"

definition query_batch :: "(string list \<Rightarrow> nat \<Rightarrow> batch_response http_answer) \<Rightarrow> string list \<Rightarrow> osv_error + batch_response" where
  "query_batch service purls =
     (let queries = filter (\<lambda>p. p \<noteq> []) purls
      in if queries = [] then Inr [] else osv_request (service queries))"

definition get_vulnerability :: "(string \<Rightarrow> nat \<Rightarrow> vuln_entry http_answer) \<Rightarrow> string \<Rightarrow> osv_error + vuln_entry" where
  "get_vulnerability service i = osv_request (service i)"

subsection \<open>Hydration\<close>

text \<open>
  The first loop separates known ids from those to fetch; \<open>None\<close> in the result is the placeholder. The
  fetches run concurrently in the code, each for an id of its own, so one after the other here. A
  shutdown after \<open>stop\<close> of them loses the result; what was fetched stays in the cache.
\<close>

fun hydrate_plan ::
  "(string \<rightharpoonup> vuln_entry) \<Rightarrow> (string \<rightharpoonup> vuln_entry option) \<Rightarrow> string list \<Rightarrow> string list
     \<Rightarrow> (string \<rightharpoonup> vuln_entry option) \<times> string list" where
  "hydrate_plan cache result to_fetch [] = (result, to_fetch)"
| "hydrate_plan cache result to_fetch (i # ids) =
     (if result i \<noteq> None then hydrate_plan cache result to_fetch ids
      else (case cache i of
              Some e \<Rightarrow> hydrate_plan cache (result(i \<mapsto> Some e)) to_fetch ids
            | None \<Rightarrow> hydrate_plan cache (result(i \<mapsto> None)) (to_fetch @ [i]) ids))"

definition hydrate_one ::
  "(string \<Rightarrow> osv_error + vuln_entry) \<Rightarrow> string \<Rightarrow> (string \<rightharpoonup> vuln_entry option) \<times> (string \<rightharpoonup> vuln_entry)
     \<Rightarrow> (string \<rightharpoonup> vuln_entry option) \<times> (string \<rightharpoonup> vuln_entry)" where
  "hydrate_one fetch i st =
     (case st of (result, cache) \<Rightarrow>
        (case fetch i of
           Inl _ \<Rightarrow> (result, cache)
         | Inr e \<Rightarrow> (result(i \<mapsto> Some e), cache(i \<mapsto> e))))"

definition hydrate_vulns ::
  "(string \<Rightarrow> osv_error + vuln_entry) \<Rightarrow> nat option \<Rightarrow> (string \<rightharpoonup> vuln_entry) \<Rightarrow> string list
     \<Rightarrow> (string \<rightharpoonup> vuln_entry) option \<times> (string \<rightharpoonup> vuln_entry)" where
  "hydrate_vulns fetch stop cache ids =
     (case hydrate_plan cache Map.empty [] ids of (result, to_fetch) \<Rightarrow>
        (case stop of
           Some k \<Rightarrow>
             if k < length to_fetch then (None, snd (fold (hydrate_one fetch) (take k to_fetch) (result, cache)))
             else (case fold (hydrate_one fetch) to_fetch (result, cache) of (r, c) \<Rightarrow> (Some (\<lambda>i. Option.bind (r i) id), c))
         | None \<Rightarrow> (case fold (hydrate_one fetch) to_fetch (result, cache) of (r, c) \<Rightarrow> (Some (\<lambda>i. Option.bind (r i) id), c))))"

subsection \<open>CVSS scores\<close>

definition attack_vector_score :: "string \<Rightarrow> rat option" where
  "attack_vector_score v = map_of [(''N'', 85 / 100), (''A'', 62 / 100), (''L'', 55 / 100), (''P'', 20 / 100)] v"

definition attack_complexity_score :: "string \<Rightarrow> rat option" where
  "attack_complexity_score v = map_of [(''L'', 77 / 100), (''H'', 44 / 100)] v"

definition user_interaction_score :: "string \<Rightarrow> rat option" where
  "user_interaction_score v = map_of [(''N'', 85 / 100), (''R'', 62 / 100)] v"

definition privileges_required_score :: "string \<Rightarrow> string \<Rightarrow> rat option" where
  "privileges_required_score v scp =
     (if scp = ''C'' then map_of [(''N'', 85 / 100), (''L'', 68 / 100), (''H'', 50 / 100)] v
      else map_of [(''N'', 85 / 100), (''L'', 62 / 100), (''H'', 27 / 100)] v)"

definition impact_score :: "string \<Rightarrow> rat option" where
  "impact_score v = map_of [(''H'', 56 / 100), (''L'', 22 / 100), (''N'', 0)] v"

text \<open>\<open>math.Round\<close>.\<close>

definition go_round :: "rat \<Rightarrow> int" where
  "go_round x = (if x \<ge> 0 then \<lfloor>x + 1 / 2\<rfloor> else \<lceil>x - 1 / 2\<rceil>)"

definition cvss_round_up :: "rat \<Rightarrow> rat" where
  "cvss_round_up v = (let x = of_int (go_round (v * 100000)) / 100000 :: rat in of_int \<lceil>x * 10\<rceil> / 10)"

definition metric_map :: "string list \<Rightarrow> string \<rightharpoonup> string" where
  "metric_map parts = foldl (\<lambda>m p. case str_cut p '':'' of Some (k, v) \<Rightarrow> m(k \<mapsto> v) | None \<Rightarrow> m) Map.empty parts"

definition metric :: "(string \<rightharpoonup> string) \<Rightarrow> string \<Rightarrow> string" where
  "metric m k = (case m k of Some v \<Rightarrow> v | None \<Rightarrow> [])"

definition base_score :: "string \<Rightarrow> rat \<Rightarrow> rat \<Rightarrow> rat \<Rightarrow> rat \<Rightarrow> rat \<Rightarrow> rat \<Rightarrow> rat \<Rightarrow> rat" where
  "base_score scp av ac pr ui c i a =
     (let iss = 1 - (1 - c) * (1 - i) * (1 - a);
          impact = (if scp = ''U'' then 642 / 100 * iss
                    else 752 / 100 * (iss - 29 / 1000) - 325 / 100 * (iss - 2 / 100) ^ 15)
      in if impact \<le> 0 then 0
         else
           let exploitability = 822 / 100 * av * ac * pr * ui;
               base = (if scp = ''U'' then impact + exploitability else 108 / 100 * (impact + exploitability))
           in cvss_round_up (if base > 10 then 10 else base))"

definition compute_cvss_v3 :: "string \<Rightarrow> rat option" where
  "compute_cvss_v3 vector =
     (let m = metric_map (drop 1 (split_char (CHR ''/'') vector)); scp = metric m ''S''
      in case (attack_vector_score (metric m ''AV''), attack_complexity_score (metric m ''AC''),
               user_interaction_score (metric m ''UI'')) of
           (Some av, Some ac, Some ui) \<Rightarrow>
             if scp \<noteq> ''U'' \<and> scp \<noteq> ''C'' then None
             else (case (privileges_required_score (metric m ''PR'') scp, impact_score (metric m ''C''),
                         impact_score (metric m ''I''), impact_score (metric m ''A'')) of
                     (Some pr, Some c, Some i, Some a) \<Rightarrow> Some (base_score scp av ac pr ui c i a)
                   | _ \<Rightarrow> None)
         | _ \<Rightarrow> None)"

text \<open>\<open>None\<close> is the score \<open>-1\<close>.\<close>

definition parse_cvss_score :: "(string \<Rightarrow> rat option) \<Rightarrow> string \<Rightarrow> rat option" where
  "parse_cvss_score number score =
     (case (if contains_str score ''/'' then None else number score) of
        Some f \<Rightarrow> Some f
      | None \<Rightarrow> if has_prefix score ''CVSS:3'' then compute_cvss_v3 score else None)"

definition score_to_severity :: "rat \<Rightarrow> string" where
  "score_to_severity score =
     (if score \<ge> 9 then ''CRITICAL'' else if score \<ge> 7 then ''HIGH'' else if score \<ge> 4 then ''MEDIUM'' else ''LOW'')"

fun first_score :: "(string \<Rightarrow> rat option) \<Rightarrow> (string \<times> string) list \<Rightarrow> rat option" where
  "first_score number [] = None"
| "first_score number ((ty, score) # ss) =
     (if ty = ''CVSS_V3''
      then (case parse_cvss_score number score of
              Some f \<Rightarrow> if f \<ge> 0 then Some f else first_score number ss
            | None \<Rightarrow> first_score number ss)
      else first_score number ss)"

definition severity_labels :: "string list" where
  "severity_labels = [''CRITICAL'', ''HIGH'', ''MEDIUM'', ''LOW'']"

definition classify_severity :: "(string \<Rightarrow> rat option) \<Rightarrow> vuln_entry \<Rightarrow> string" where
  "classify_severity number v =
     (case first_score number (ve_severity v) of
        Some score \<Rightarrow> score_to_severity score
      | None \<Rightarrow>
          (case Option.bind (ve_database_severity v) (\<lambda>s. if to_upper s \<in> set severity_labels then Some (to_upper s) else None) of
             Some label \<Rightarrow> label
           | None \<Rightarrow> if ve_severity v \<noteq> [] then ''MEDIUM'' else ''LOW''))"

subsection \<open>Rows\<close>

record vulnerability =
  vu_discovered_at :: int
  vu_sbom_id :: string
  vu_source_file :: string
  vu_purl :: string
  vu_vuln_id :: string
  vu_severity :: string
  vu_summary :: string
  vu_affected_versions :: "string list"
  vu_aliases :: "string list"
  vu_fixed_version :: string
  vu_osv_json :: string
  vu_dependency_depth :: "16 word"
  vu_cluster :: string
  vu_namespace :: string
  vu_project :: string

definition extract_fixed_version :: "vuln_entry \<Rightarrow> string" where
  "extract_fixed_version v =
     (case find (\<lambda>f. f \<noteq> []) (concat (concat (map af_fixed (ve_affected v)))) of None \<Rightarrow> [] | Some f \<Rightarrow> f)"

definition extract_affected_versions :: "vuln_entry \<Rightarrow> string list" where
  "extract_affected_versions v = concat (map af_versions (ve_affected v))"

definition build_vulnerability ::
  "(string \<Rightarrow> rat option) \<Rightarrow> int \<Rightarrow> vuln_entry \<Rightarrow> string \<Rightarrow> string \<Rightarrow> string \<Rightarrow> 16 word \<Rightarrow> vulnerability" where
  "build_vulnerability number now entry sbom_id source_file purl depth =
     \<lparr>vu_discovered_at = now, vu_sbom_id = sbom_id, vu_source_file = source_file, vu_purl = purl, vu_vuln_id = ve_id entry,
      vu_severity = classify_severity number entry, vu_summary = ve_summary entry,
      vu_affected_versions = extract_affected_versions entry, vu_aliases = ve_aliases entry,
      vu_fixed_version = extract_fixed_version entry, vu_osv_json = ve_json entry, vu_dependency_depth = depth,
      vu_cluster = [], vu_namespace = [], vu_project = []\<rparr>"

subsection \<open>Lemmas\<close>

definition delay :: "(nat \<Rightarrow> nat) \<Rightarrow> (nat \<Rightarrow> nat) \<Rightarrow> nat \<Rightarrow> nat" where
  "delay limit took k = backoff k + limit k + min http_timeout (took k)"

lemma osv_attempts_spec:
  assumes "attempt \<le> Suc max_retries"
  shows "osv_attempts limit took answers attempt elapsed =
    (case find (\<lambda>k. \<not> retry_answer (answers k)) [attempt..<Suc max_retries] of
       Some k \<Rightarrow> (final_answer (answers k), Suc k, elapsed + sum (delay limit took) {attempt..k})
     | None \<Rightarrow> (Inl OsvRetriesExhausted, Suc max_retries, elapsed + sum (delay limit took) {attempt..<Suc max_retries}))"
  using assms
proof (induction limit took answers attempt elapsed rule: osv_attempts.induct)
  case (1 limit took answers attempt elapsed)
  show ?case
  proof (cases "attempt > max_retries")
    case True
    then have "attempt = Suc max_retries" using 1(2) by simp
    then show ?thesis by (simp add: osv_attempts.simps)
  next
    case False
    then have up: "[attempt..<Suc max_retries] = attempt # [Suc attempt..<Suc max_retries]"
      by (subst upt_conv_Cons) auto
    show ?thesis
    proof (cases "retry_answer (answers attempt)")
      case True
      have at: "attempt < Suc max_retries" using False by simp
      let ?P = "\<lambda>k. \<not> retry_answer (answers k)"
      have IH: "osv_attempts limit took answers (Suc attempt) (elapsed + delay limit took attempt) =
        (case find ?P [Suc attempt..<Suc max_retries] of
           Some k \<Rightarrow> (final_answer (answers k), Suc k, elapsed + delay limit took attempt + sum (delay limit took) {Suc attempt..k})
         | None \<Rightarrow> (Inl OsvRetriesExhausted, Suc max_retries, elapsed + delay limit took attempt + sum (delay limit took) {Suc attempt..<Suc max_retries}))"
        using 1(1) [OF False refl True] at unfolding delay_def by simp
      have step: "osv_attempts limit took answers attempt elapsed = osv_attempts limit took answers (Suc attempt) (elapsed + delay limit took attempt)"
        using False True by (simp add: osv_attempts.simps [of limit took answers attempt] delay_def)
      show ?thesis
      proof (cases "find ?P [Suc attempt..<Suc max_retries]")
        case None
        then show ?thesis
          unfolding step IH up using True sum.atLeast_Suc_lessThan [OF at, of "delay limit took"] by simp
      next
        case (Some k)
        then have "k \<in> set [Suc attempt..<Suc max_retries]" unfolding find_Some_iff using nth_mem by blast
        then have "attempt \<le> k" by auto
        with Some show ?thesis
          unfolding step IH up using True sum.atLeast_Suc_atMost [of attempt k "delay limit took"] by simp
      qed
    next
      case False
      then show ?thesis
        using \<open>\<not> attempt > max_retries\<close> up by (simp add: osv_attempts.simps [of limit took answers attempt] delay_def del: upt_Suc)
    qed
  qed
qed

lemma backoff_total: "k \<le> max_retries \<Longrightarrow> sum backoff {0..k} \<le> 15500"
proof -
  assume "k \<le> max_retries"
  then have "sum backoff {0..k} \<le> sum backoff {0..max_retries}" by (intro sum_mono2) auto
  also have "\<dots> = sum_list (map backoff [0..<6])"
    by (simp add: max_retries_def sum_list_distinct_conv_sum_set atLeastLessThanSuc_atLeastAtMost [symmetric])
  also have "\<dots> = 15500" by (simp add: backoff_def upt_rec [of _ 6])
  finally show ?thesis .
qed

lemma delay_total:
  assumes "n \<le> 6"
  shows "sum (delay limit took) {0..<n} \<le> 15500 + 60000 * n + sum limit {0..<n}"
proof -
  have "sum backoff {0..<n} \<le> 15500"
    using backoff_total [of "n - 1"] assms
    by (cases n) (simp_all add: max_retries_def atLeastLessThanSuc_atLeastAtMost)
  moreover have "sum (\<lambda>k. min http_timeout (took k)) {0..<n} \<le> 60000 * n"
    using sum_bounded_above [of "{0..<n}" "\<lambda>k. min http_timeout (took k)" 60000] by (simp add: http_timeout_def)
  moreover have "sum (delay limit took) {0..<n} =
      sum backoff {0..<n} + sum limit {0..<n} + sum (\<lambda>k. min http_timeout (took k)) {0..<n}"
    by (simp add: delay_def sum.distrib)
  ultimately show ?thesis by linarith
qed

text \<open>To evaluate a request, the times are not computed.\<close>

lemma osv_request_code [code]:
  "osv_request answers =
     (case find (\<lambda>k. \<not> retry_answer (answers k)) [0..<6] of
        Some k \<Rightarrow> final_answer (answers k) | None \<Rightarrow> Inl OsvRetriesExhausted)"
proof -
  have "Suc max_retries = 6" by (simp add: max_retries_def)
  from osv_attempts_spec [OF le0, of "\<lambda>_. 0" "\<lambda>_. 0" answers 0, unfolded this] show ?thesis
    by (simp add: osv_request_def split: option.split)
qed

text \<open>
  The limiter: however many callers there are, from a full bucket no more requests pass than the burst
  and what the rate allows for the time since; and a caller nobody overtakes waits once at most, for
  at most the time of one token.
\<close>

lemma tokens_taken_bound:
  assumes "tokens_taken tries b = (n, b')" "sorted (tb_last_refill b # tries)" "0 \<le> tb_rate b" "0 \<le> tb_tokens b"
  shows "of_nat n \<le> tb_tokens b + (last (tb_last_refill b # tries) - tb_last_refill b) * tb_rate b"
  using assms
proof (induction tries arbitrary: b n b')
  case (Cons now later)
  obtain wait b1 where t: "try_token now b = (wait, b1)" by fastforce
  obtain m b2 where r: "tokens_taken later b1 = (m, b2)" by fastforce
  have now: "tb_last_refill b1 = now" "tb_rate b1 = tb_rate b" "tb_last_refill b \<le> now"
    using t Cons.prems(2) by (auto simp: try_token_def Let_def split: if_splits)
  have gain: "0 \<le> (now - tb_last_refill b) * tb_rate b" using now(3) Cons.prems(3) by simp
  have taken: "0 \<le> tb_tokens b1"
    "(if wait = None then 1 else 0) + tb_tokens b1 \<le> tb_tokens b + (now - tb_last_refill b) * tb_rate b"
    using t gain Cons.prems(4) by (auto simp: try_token_def Let_def split: if_splits)
  have "of_nat m \<le> tb_tokens b1 + (last (now # later) - now) * tb_rate b"
    using Cons.IH [OF r] Cons.prems(2,3) now taken(1) by simp
  moreover have "(last (now # later) - now) * tb_rate b + (now - tb_last_refill b) * tb_rate b =
      (last (tb_last_refill b # now # later) - tb_last_refill b) * tb_rate b"
    by (simp add: algebra_simps)
  moreover have "n = (if wait = None then Suc m else m)" using Cons.prems(1) t r by (simp split: if_splits)
  ultimately show ?case using taken(2) by (cases wait) auto
qed simp

lemma limiter_rate:
  assumes "tokens_taken tries (global_limiter start) = (n, b')" "sorted (start # tries)"
  shows "of_nat n \<le> 5 + 10 * (last (start # tries) - start)"
  using tokens_taken_bound [OF assms(1)] assms(2) by (simp add: global_limiter_def new_token_bucket_def algebra_simps)

lemma limiter_alone:
  assumes "try_token now b = (Some w, b')" "0 < tb_rate b" "1 \<le> tb_burst b" "0 \<le> tb_tokens b" "tb_last_refill b \<le> now"
    and "now + w \<le> later"
  shows "0 < w" "w \<le> 1 / tb_rate b" "fst (try_token later b') = None"
proof -
  define tokens where "tokens = min (of_nat (tb_burst b)) (tb_tokens b + (now - tb_last_refill b) * tb_rate b)"
  have w: "tokens < 1" "w = (1 - tokens) / tb_rate b" "b' = b\<lparr>tb_tokens := tokens, tb_last_refill := now\<rparr>"
    using assms(1) unfolding try_token_def tokens_def by (auto simp: Let_def split: if_splits)
  have "0 \<le> (now - tb_last_refill b) * tb_rate b" using assms(2,5) by simp
  then have tokens: "0 \<le> tokens" using assms(4) by (simp add: tokens_def)
  show "0 < w" "w \<le> 1 / tb_rate b" using w(1,2) tokens assms(2) by (simp_all add: divide_right_mono)
  have "w \<le> later - now" using assms(6) by linarith
  then have "w * tb_rate b \<le> (later - now) * tb_rate b" using assms(2) by (intro mult_right_mono) simp_all
  then have "1 \<le> tokens + (later - now) * tb_rate b" using w(2) assms(2) by simp
  moreover have "(1 :: rat) \<le> of_nat (tb_burst b)" using assms(3) by simp
  ultimately show "fst (try_token later b') = None" by (simp add: try_token_def w(3) Let_def)
qed

lemma not_retried: "(\<not> retry_answer a) = (a \<notin> {NetworkFailure, HttpStatus 429, HttpStatus 503})"
  by (cases a) (auto simp: retry_answer_def retryable_status_def)

lemma go_round_bounds:
  assumes "0 \<le> x" "x \<le> of_int n"
  shows "0 \<le> go_round x \<and> go_round x \<le> n"
proof -
  have "0 \<le> \<lfloor>x + 1 / 2\<rfloor>" "\<lfloor>x + 1 / 2\<rfloor> \<le> n" using assms by linarith+
  then show ?thesis using assms(1) by (simp add: go_round_def)
qed

lemma round_up_bounds:
  assumes "0 \<le> v" "v \<le> 10"
  shows "\<exists>k::nat. k \<le> 100 \<and> cvss_round_up v = of_nat k / 10"
proof -
  define x :: rat where "x = of_int (go_round (v * 100000)) / 100000"
  have r: "0 \<le> go_round (v * 100000)" "go_round (v * 100000) \<le> 1000000"
    using go_round_bounds [of "v * 100000" 1000000] assms by auto
  then have "(of_int (go_round (v * 100000)) :: rat) \<le> of_int 1000000" by (simp only: of_int_le_iff)
  then have "0 \<le> x * 10" "x * 10 \<le> 100" using r(1) by (simp_all add: x_def)
  then have c: "0 \<le> \<lceil>x * 10\<rceil>" "\<lceil>x * 10\<rceil> \<le> 100" by linarith+
  then have "nat \<lceil>x * 10\<rceil> \<le> 100" by linarith
  moreover have "(of_int \<lceil>x * 10\<rceil> :: rat) = of_nat (nat \<lceil>x * 10\<rceil>)" using c(1) by simp
  ultimately have "nat \<lceil>x * 10\<rceil> \<le> 100" "(of_int \<lceil>x * 10\<rceil> :: rat) = of_nat (nat \<lceil>x * 10\<rceil>)" by blast+
  then show ?thesis unfolding cvss_round_up_def Let_def x_def by metis
qed

lemma base_score_bounds:
  assumes "0 \<le> av" "0 \<le> ac" "0 \<le> pr" "0 \<le> ui"
  shows "\<exists>k::nat. k \<le> 100 \<and> base_score scp av ac pr ui c i a = of_nat k / 10"
proof -
  define iss where "iss = 1 - (1 - c) * (1 - i) * (1 - a)"
  define impact where "impact = (if scp = ''U'' then 642 / 100 * iss
    else 752 / 100 * (iss - 29 / 1000) - 325 / 100 * (iss - 2 / 100) ^ 15)"
  define ex where "ex = 822 / 100 * av * ac * pr * ui"
  define base where "base = (if scp = ''U'' then impact + ex else 108 / 100 * (impact + ex))"
  have eq: "base_score scp av ac pr ui c i a = (if impact \<le> 0 then 0 else cvss_round_up (if base > 10 then 10 else base))"
    by (simp only: base_score_def Let_def iss_def impact_def ex_def base_def)
  show ?thesis
  proof (cases "impact \<le> 0")
    case True
    then show ?thesis by (intro exI [of _ 0]) (simp add: eq)
  next
    case False
    have "0 \<le> ex" using assms by (simp add: ex_def)
    with False have "0 \<le> base" by (simp add: base_def)
    then show ?thesis using False round_up_bounds [of "if base > 10 then 10 else base"] by (simp add: eq)
  qed
qed

lemma scores_nonneg:
  "attack_vector_score v = Some s \<Longrightarrow> 0 \<le> s" "attack_complexity_score v = Some s \<Longrightarrow> 0 \<le> s"
  "user_interaction_score v = Some s \<Longrightarrow> 0 \<le> s" "privileges_required_score v scp = Some s \<Longrightarrow> 0 \<le> s"
  by (auto simp: attack_vector_score_def attack_complexity_score_def user_interaction_score_def
      privileges_required_score_def split: if_splits)

lemma compute_cvss_bounds:
  assumes "compute_cvss_v3 v = Some s"
  shows "\<exists>k::nat. k \<le> 100 \<and> s = of_nat k / 10"
proof -
  define m where "m = metric_map (drop 1 (split_char (CHR ''/'') v))"
  obtain av ac ui pr c i a where parts: "attack_vector_score (metric m ''AV'') = Some av"
      "attack_complexity_score (metric m ''AC'') = Some ac" "user_interaction_score (metric m ''UI'') = Some ui"
      "privileges_required_score (metric m ''PR'') (metric m ''S'') = Some pr"
      "s = base_score (metric m ''S'') av ac pr ui c i a"
    using assms unfolding compute_cvss_v3_def Let_def m_def [symmetric]
    by (simp split: option.splits if_splits) blast
  then show ?thesis using base_score_bounds scores_nonneg by blast
qed

definition plan_ok :: "(string \<rightharpoonup> vuln_entry) \<Rightarrow> (string \<rightharpoonup> vuln_entry option) \<Rightarrow> string list \<Rightarrow> bool" where
  "plan_ok cache result to_fetch \<longleftrightarrow>
     (\<forall>i. result i = Some None \<longleftrightarrow> i \<in> set to_fetch) \<and> (\<forall>i \<in> set to_fetch. cache i = None) \<and>
     (\<forall>i e. result i = Some (Some e) \<longrightarrow> cache i = Some e)"

lemma plan_ok_cached:
  assumes "plan_ok cache result tf" "result i = None" "cache i = Some e"
  shows "plan_ok cache (result(i \<mapsto> Some e)) tf"
proof -
  have "i \<notin> set tf" using assms by (metis option.distinct(1) plan_ok_def)
  then show ?thesis using assms(1,3) unfolding plan_ok_def by simp
qed

lemma plan_ok_new: "plan_ok cache result tf \<Longrightarrow> cache i = None \<Longrightarrow> plan_ok cache (result(i \<mapsto> None)) (tf @ [i])"
  unfolding plan_ok_def by simp

lemma hydrate_plan_spec:
  "hydrate_plan cache result tf ids = (result', tf') \<Longrightarrow> plan_ok cache result tf \<Longrightarrow>
     plan_ok cache result' tf' \<and> dom result' = dom result \<union> set ids"
proof (induction cache result tf ids rule: hydrate_plan.induct)
  case (2 cache result tf i ids)
  consider (seen) r where "result i = Some r" | (cached) e where "result i = None" "cache i = Some e"
    | (new) "result i = None" "cache i = None" by (cases "result i"; cases "cache i") auto
  then show ?case
  proof cases
    case seen
    then have "hydrate_plan cache result tf ids = (result', tf')" using 2(4) by simp
    from 2(1) [OF _ this 2(5)] seen show ?thesis by auto
  next
    case cached
    then have "hydrate_plan cache (result(i \<mapsto> Some e)) tf ids = (result', tf')" using 2(4) by simp
    then have "plan_ok cache result' tf' \<and> dom result' = dom (result(i \<mapsto> Some e)) \<union> set ids"
      using 2(3) [OF _ cached(2) _ plan_ok_cached [OF 2(5) cached]] cached(1) by blast
    then show ?thesis by simp
  next
    case new
    then have "hydrate_plan cache (result(i \<mapsto> None)) (tf @ [i]) ids = (result', tf')" using 2(4) by simp
    then have "plan_ok cache result' tf' \<and> dom result' = dom (result(i \<mapsto> None)) \<union> set ids"
      using 2(2) [OF _ new(2) _ plan_ok_new [OF 2(5) new(2)]] new(1) by blast
    then show ?thesis by simp
  qed
qed simp

text \<open>What a fetch puts into the maps; the cache only grows by answers of the service.\<close>

definition fetched :: "(string \<Rightarrow> osv_error + vuln_entry) \<Rightarrow> string \<Rightarrow> vuln_entry option" where
  "fetched fetch i = (case fetch i of Inl _ \<Rightarrow> None | Inr e \<Rightarrow> Some e)"

lemma hydrate_fold:
  "fold (hydrate_one fetch) is (result, cache) =
     (\<lambda>i. if i \<in> set is \<and> fetched fetch i \<noteq> None then Some (fetched fetch i) else result i,
      \<lambda>i. if i \<in> set is \<and> fetched fetch i \<noteq> None then fetched fetch i else cache i)"
proof (induction "is" rule: rev_induct)
  case (snoc x xs)
  then show ?case by (cases "fetch x") (auto simp: hydrate_one_def fetched_def fun_eq_iff)
qed simp

lemma hydrate_result:
  "hydrate_vulns fetch None cache ids =
     (Some (\<lambda>i. if i \<in> set ids then (case cache i of Some e \<Rightarrow> Some e | None \<Rightarrow> fetched fetch i) else None),
      \<lambda>i. case cache i of Some e \<Rightarrow> Some e | None \<Rightarrow> if i \<in> set ids then fetched fetch i else None)"
proof -
  obtain result tf where plan: "hydrate_plan cache Map.empty [] ids = (result, tf)" by fastforce
  then have ok: "plan_ok cache result tf" and dom: "dom result = set ids"
    using hydrate_plan_spec [OF plan] by (simp_all add: plan_ok_def)
  have tf: "i \<in> set tf \<longleftrightarrow> i \<in> set ids \<and> cache i = None" for i
  proof
    assume "i \<in> set tf"
    then have "result i = Some None" "cache i = None" using ok by (simp_all add: plan_ok_def)
    then show "i \<in> set ids \<and> cache i = None" using dom by blast
  next
    assume i: "i \<in> set ids \<and> cache i = None"
    then obtain r where "result i = Some r" using dom by blast
    then show "i \<in> set tf" using i ok by (cases r) (auto simp: plan_ok_def)
  qed
  have res: "result i = (if i \<in> set ids then Some (cache i) else None)" for i
  proof (cases "result i")
    case None
    then have "i \<notin> dom result" by (simp add: domIff)
    then show ?thesis using None unfolding dom by simp
  next
    case (Some r)
    then show ?thesis using dom ok tf [of i] by (cases r) (auto simp: plan_ok_def dom_def)
  qed
  show ?thesis
    by (auto simp: hydrate_vulns_def plan hydrate_fold tf res fun_eq_iff split: option.split)
qed

subsection \<open>Properties\<close>

text \<open>
  C26: a request to OSV ends. Whatever the service answers there are at most six attempts. Their number
  and the result are those of the first answer that is not a network failure, a 429 or a 503, and the
  result is the exhaustion error when all six are. They take at most 15.5 seconds of backoff, 60 seconds for each
  exchange, and what the limiter makes them wait, which is all the time there is: the context may end
  it sooner.
\<close>

theorem osv_request_ends:
  "case osv_attempts limit took answers 0 0 of (result, attempts, elapsed) \<Rightarrow>
     result = osv_request answers \<and> attempts \<le> 6 \<and>
     elapsed \<le> 15500 + 60000 * attempts + sum limit {0..<attempts} \<and>
     (case find (\<lambda>k. answers k \<notin> {NetworkFailure, HttpStatus 429, HttpStatus 503}) [0..<6] of
        None \<Rightarrow> attempts = 6 \<and> result = Inl OsvRetriesExhausted
      | Some k \<Rightarrow> attempts = Suc k \<and>
          result = (case answers k of
             Answer x \<Rightarrow> Inr x
           | HttpStatus s \<Rightarrow> Inl (OsvStatus s)
           | Undecodable \<Rightarrow> Inl OsvDecode
           | RequestInvalid \<Rightarrow> Inl OsvRequest
           | _ \<Rightarrow> Inl OsvCancelled))"
proof -
  let ?f = "find (\<lambda>k. answers k \<notin> {NetworkFailure, HttpStatus 429, HttpStatus 503}) [0..<6]"
  have six: "Suc max_retries = 6" by (simp add: max_retries_def)
  note spec = osv_attempts_spec [OF le0, of _ _ answers 0, unfolded not_retried six]
  show ?thesis
  proof (cases ?f)
    case None
    then show ?thesis
      using spec [of limit took] spec [of "\<lambda>_. 0" "\<lambda>_. 0"] delay_total [of 6 limit took]
      by (simp add: osv_request_def del: upt_Suc)
  next
    case (Some k)
    then have k: "k < 6" "answers k \<noteq> NetworkFailure" unfolding find_Some_iff by auto
    have "final_answer (answers k) = (case answers k of Answer x \<Rightarrow> Inr x | HttpStatus s \<Rightarrow> Inl (OsvStatus s)
        | Undecodable \<Rightarrow> Inl OsvDecode | RequestInvalid \<Rightarrow> Inl OsvRequest | _ \<Rightarrow> Inl OsvCancelled)"
      using k(2) by (simp add: final_answer_def split: http_answer.split)
    then show ?thesis
      using Some k(1) spec [of limit took] spec [of "\<lambda>_. 0" "\<lambda>_. 0"] delay_total [of "Suc k" limit took]
      by (simp add: osv_request_def atLeastLessThanSuc_atLeastAtMost del: upt_Suc)
  qed
qed

text \<open>
  C27: the base score computed from a CVSS vector is one of 0.0, 0.1, \<dots>, 10.0, and the severity of an
  entry is always one of the four labels.
\<close>

theorem cvss_score_bounded:
  "(case compute_cvss_v3 vector of None \<Rightarrow> True | Some s \<Rightarrow> (\<exists>k::nat. k \<le> 100 \<and> s = of_nat k / 10)) \<and>
   classify_severity number entry \<in> set severity_labels"
proof -
  have "score_to_severity s \<in> set severity_labels" for s by (simp add: score_to_severity_def severity_labels_def)
  moreover have "''MEDIUM'' \<in> set severity_labels" "''LOW'' \<in> set severity_labels" by (simp_all add: severity_labels_def)
  ultimately show ?thesis
    using compute_cvss_bounds [of vector] by (auto simp: classify_severity_def bind_eq_Some_conv split: option.splits)
qed

end
