(* ===== verification/Vuln_Identity.thy ===== *)
theory Vuln_Identity
  imports Osv
begin

text \<open>
  The names of a vulnerability: its CVE, \<open>backend/internal/osvutil/cveid.go\<close>, and the lookups by any of
  its ids, \<open>backend/internal/clickhouse/vuln_aliases.go\<close>. A Go map of findings is the list of its
  entries in some order. The rows are the \<open>FINAL\<close> ones.
\<close>

subsection \<open>CVE ids\<close>

definition cve_pattern :: rx where
  "cve_pattern = rseq [rlit ''CVE-'', rtimes 4 (RP is_digit), rlit ''-'', rtimes 4 (RP is_digit), RStar (RP is_digit)]"

definition is_cve :: "string \<Rightarrow> bool" where
  "is_cve i = match_string cve_pattern i"

definition better_cve :: "string \<Rightarrow> string \<Rightarrow> string" where
  "better_cve best a0 = (let a = trim_space a0 in if is_cve a \<and> (best = [] \<or> a < best) then a else best)"

definition cve_id :: "string \<Rightarrow> string list \<Rightarrow> string" where
  "cve_id vuln_id aliases = (if is_cve vuln_id then vuln_id else foldl better_cve [] aliases)"

subsection \<open>Aliases\<close>

fun drop_aliases :: "string \<Rightarrow> string list \<Rightarrow> string list \<Rightarrow> string list" where
  "drop_aliases vuln_id out [] = out"
| "drop_aliases vuln_id out (a # rest) =
     (if a = [] \<or> a = vuln_id \<or> a \<in> set out then drop_aliases vuln_id out rest
      else drop_aliases vuln_id (out @ [a]) rest)"

text \<open>Nil and the empty slice are both the empty list.\<close>

definition normalize_aliases :: "string \<Rightarrow> string list \<Rightarrow> string list" where
  "normalize_aliases vuln_id aliases = sort (drop_aliases vuln_id [] aliases)"

definition identify :: "string \<Rightarrow> string list \<Rightarrow> string list \<times> string" where
  "identify vuln_id aliases = (let norm = normalize_aliases vuln_id aliases in (norm, cve_id vuln_id norm))"

definition add_names :: "string list \<Rightarrow> (string \<rightharpoonup> string set) \<Rightarrow> string \<Rightarrow> (string \<rightharpoonup> string set)" where
  "add_names grp acc i = acc(i \<mapsto> (case acc i of None \<Rightarrow> {} | Some s \<Rightarrow> s) \<union> set grp)"

definition union_step :: "string set \<Rightarrow> (string \<rightharpoonup> string set) \<Rightarrow> string \<times> string list \<Rightarrow> (string \<rightharpoonup> string set)" where
  "union_step want acc finding =
     (let grp = fst finding # snd finding in foldl (add_names grp) acc (filter (\<lambda>i. i \<in> want) grp))"

definition alias_groups :: "string list \<Rightarrow> (string \<times> string list) list \<Rightarrow> (string \<rightharpoonup> string list)" where
  "alias_groups requested findings =
     (\<lambda>i. case foldl (union_step (set requested)) Map.empty findings i of
            None \<Rightarrow> None
          | Some names \<Rightarrow>
              let norm = normalize_aliases i (sorted_list_of_set names) in if norm = [] then None else Some norm)"

text \<open>\<open>WHERE vuln_id IN (?) OR hasAny(aliases, ?)\<close>, grouped by id with the union of the aliases.\<close>

definition names_row :: "vulnerability \<Rightarrow> string list" where
  "names_row r = vu_vuln_id r # vu_aliases r"

definition lookup_findings :: "string list \<Rightarrow> vulnerability list \<Rightarrow> (string \<times> string list) list" where
  "lookup_findings ids rows =
     (let hits = filter (\<lambda>r. list_ex (\<lambda>n. n \<in> set ids) (names_row r)) rows
      in map (\<lambda>i. (i, remdups (concat (map vu_aliases (filter (\<lambda>r. vu_vuln_id r = i) hits))))) (remdups (map vu_vuln_id hits)))"

definition lookup_aliases :: "string list \<Rightarrow> vulnerability list \<Rightarrow> (string \<rightharpoonup> string list)" where
  "lookup_aliases ids rows = (if ids = [] then Map.empty else alias_groups ids (lookup_findings ids rows))"

definition resolve_vuln_ids :: "string \<Rightarrow> vulnerability list \<Rightarrow> string list" where
  "resolve_vuln_ids i rows = sort (remdups (map vu_vuln_id (filter (\<lambda>r. vu_vuln_id r = i \<or> i \<in> set (vu_aliases r)) rows)))"

text \<open>The ids of the statements; the answer is their aliases and CVE ids.\<close>

definition attach_vex_aliases :: "string list \<Rightarrow> vulnerability list \<Rightarrow> (string list \<times> string) list" where
  "attach_vex_aliases items rows =
     (let groups = lookup_aliases (remdups (filter (\<lambda>i. i \<noteq> []) items)) rows
      in map (\<lambda>i. let aliases = (case groups i of None \<Rightarrow> [] | Some xs \<Rightarrow> xs) in (aliases, cve_id i aliases)) items)"

subsection \<open>Lemmas\<close>

lemma drop_aliases_set: "set (drop_aliases v out xs) = set out \<union> (set xs - {[], v})"
  by (induction v out xs rule: drop_aliases.induct) auto

lemma drop_aliases_distinct: "distinct out \<Longrightarrow> distinct (drop_aliases v out xs)"
  by (induction v out xs rule: drop_aliases.induct) auto

lemma normalize_aliases_eq: "normalize_aliases v xs = sorted_list_of_set (set xs - {[], v})"
  unfolding normalize_aliases_def
  by (intro sorted_distinct_set_unique) (simp_all add: drop_aliases_set drop_aliases_distinct)

lemma better_cve_fold:
  assumes "best = [] \<or> is_cve best"
  shows "foldl better_cve best xs =
    (let cs = {a \<in> trim_space ` set xs. is_cve a} \<union> (if best = [] then {} else {best}) in if cs = {} then [] else Min cs)"
  using assms
proof (induction xs arbitrary: best)
  case (Cons a xs)
  have nil: "\<not> is_cve []" by code_simp
  let ?cs = "\<lambda>b xs. {a \<in> trim_space ` set xs. is_cve a} \<union> (if b = [] then {} else {b})"
  let ?b = "better_cve best a"
  have b: "?b = [] \<or> is_cve ?b" using Cons.prems by (simp add: better_cve_def Let_def)
  show ?case
  proof (cases "is_cve (trim_space a)")
    case False
    then have "?b = best" "?cs best (a # xs) = ?cs best xs" by (auto simp: better_cve_def Let_def)
    then show ?thesis using Cons by simp
  next
    case True
    let ?t = "trim_space a" and ?S = "{a \<in> trim_space ` set xs. is_cve a}"
    have t: "?t \<noteq> []" using True nil by auto
    have eq: "?cs best (a # xs) = insert ?t ?S \<union> (if best = [] then {} else {best})" using True by auto
    have "?b \<noteq> []" using True t by (auto simp: better_cve_def Let_def)
    then have "foldl better_cve best (a # xs) = Min (insert ?b ?S)" using Cons.IH [OF b] by (simp add: Let_def)
    moreover define S where "S = ?S"
    moreover have "finite S" by (simp add: S_def)
    moreover have "?b = Min (insert ?t (if best = [] then {} else {best}))"
      using True by (auto simp: better_cve_def Let_def min_def)
    ultimately show ?thesis
      unfolding eq S_def [symmetric] by (cases "S = {}") (simp_all add: Let_def min.assoc min.commute min.left_commute insert_commute)
  qed
qed (simp add: Let_def)

lemma add_names_fold:
  "foldl (add_names grp) acc is i =
     (if i \<in> set is then Some ((case acc i of None \<Rightarrow> {} | Some s \<Rightarrow> s) \<union> set grp) else acc i)"
  by (induction "is" arbitrary: acc) (auto simp: add_names_def)

definition related :: "(string \<times> string list) list \<Rightarrow> string \<Rightarrow> string set" where
  "related findings i = \<Union> {set (v # xs) | v xs. (v, xs) \<in> set findings \<and> i \<in> set (v # xs)}"

definition group_of :: "string set \<Rightarrow> (string \<times> string list) list \<Rightarrow> string \<Rightarrow> string set option" where
  "group_of want findings i = (if i \<in> want \<and> (\<exists>v xs. (v, xs) \<in> set findings \<and> i \<in> set (v # xs)) then Some (related findings i) else None)"

lemma union_step_apply:
  "union_step want acc (v, xs) i =
     (if i \<in> want \<and> i \<in> set (v # xs) then Some ((case acc i of None \<Rightarrow> {} | Some s \<Rightarrow> s) \<union> set (v # xs)) else acc i)"
  unfolding union_step_def Let_def fst_conv snd_conv add_names_fold by auto

lemma union_fold: "foldl (union_step want) Map.empty findings i = group_of want findings i"
proof (induction findings rule: rev_induct)
  case Nil
  then show ?case by (simp add: group_of_def)
next
  case (snoc f findings)
  obtain v xs where f: "f = (v, xs)" by (cases f)
  let ?grp = "v # xs"
  have step: "foldl (union_step want) Map.empty (findings @ [f]) i =
      (if i \<in> want \<and> i \<in> set ?grp
       then Some ((case group_of want findings i of None \<Rightarrow> {} | Some s \<Rightarrow> s) \<union> set ?grp) else group_of want findings i)"
    by (simp only: foldl_append foldl.simps f union_step_apply snoc)
  have rel: "related (findings @ [f]) i = related findings i \<union> (if i \<in> set ?grp then set ?grp else {})"
    by (auto simp: related_def f)
  have "related findings i = {}" if "\<nexists>v xs. (v, xs) \<in> set findings \<and> i \<in> set (v # xs)"
    using that by (auto simp: related_def)
  then show ?case unfolding step group_of_def rel by (auto simp: f)
qed

lemma alias_groups_eq:
  "alias_groups requested findings i =
     (case group_of (set requested) findings i of
        None \<Rightarrow> None
      | Some names \<Rightarrow> if names - {[], i} = {} then None else Some (sorted_list_of_set (names - {[], i})))"
proof (cases "group_of (set requested) findings i")
  case (Some names)
  have "related findings i \<subseteq> \<Union> ((\<lambda>(v, xs). set (v # xs)) ` set findings)" by (auto simp: related_def)
  then have "finite (related findings i)" by (rule finite_subset) auto
  then have "finite names" using Some by (auto simp: group_of_def split: if_splits)
  then show ?thesis
    using Some by (simp add: alias_groups_def union_fold normalize_aliases_eq Let_def)
qed (simp add: alias_groups_def union_fold)

text \<open>Findings stored under one id list the same aliases.\<close>

definition consistent_aliases :: "vulnerability list \<Rightarrow> bool" where
  "consistent_aliases rows \<longleftrightarrow>
     (\<forall>r \<in> set rows. \<forall>r' \<in> set rows. vu_vuln_id r = vu_vuln_id r' \<longrightarrow> set (vu_aliases r) = set (vu_aliases r'))"

definition other_names :: "string \<Rightarrow> vulnerability list \<Rightarrow> string set" where
  "other_names i rows = \<Union> (set ` names_row ` {r \<in> set rows. i \<in> set (names_row r)}) - {[], i}"

definition smallest_cve :: "string set \<Rightarrow> string" where
  "smallest_cve names = (let cs = {n \<in> trim_space ` names. is_cve n} in if cs = {} then [] else Min cs)"

definition hits_of :: "string list \<Rightarrow> vulnerability list \<Rightarrow> vulnerability list" where
  "hits_of ids rows = filter (\<lambda>r. list_ex (\<lambda>n. n \<in> set ids) (names_row r)) rows"

definition aliases_of :: "vulnerability list \<Rightarrow> string \<Rightarrow> string list" where
  "aliases_of hits v = remdups (concat (map vu_aliases (filter (\<lambda>r. vu_vuln_id r = v) hits)))"

lemma lookup_findings_eq:
  "lookup_findings ids rows = map (\<lambda>v. (v, aliases_of (hits_of ids rows) v)) (remdups (map vu_vuln_id (hits_of ids rows)))"
  by (simp add: lookup_findings_def hits_of_def aliases_of_def Let_def)

text \<open>A finding of the lookup has the names of the rows it was made of.\<close>

lemma finding_names:
  assumes "v \<in> vu_vuln_id ` set hits"
  shows "n \<in> set (v # aliases_of hits v) \<longleftrightarrow> (\<exists>r \<in> set hits. vu_vuln_id r = v \<and> n \<in> set (names_row r))"
  using assms by (auto simp: aliases_of_def names_row_def)

lemma lookup_findings_member:
  "(v, xs) \<in> set (lookup_findings ids rows) \<longleftrightarrow> v \<in> vu_vuln_id ` set (hits_of ids rows) \<and> xs = aliases_of (hits_of ids rows) v"
  unfolding lookup_findings_eq by auto

text \<open>
  The names a lookup puts together: those of the rows of the answer that are stored under the id of a
  row that carries the name asked for.
\<close>

definition carried_names :: "string list \<Rightarrow> vulnerability list \<Rightarrow> string \<Rightarrow> string set" where
  "carried_names ids rows i =
     {n. \<exists>r \<in> set rows. \<exists>r' \<in> set rows. vu_vuln_id r = vu_vuln_id r' \<and> i \<in> set (names_row r) \<and>
        n \<in> set (names_row r') \<and> set (names_row r') \<inter> set ids \<noteq> {}}"

lemma hits_of_member: "r \<in> set (hits_of ids rows) \<longleftrightarrow> r \<in> set rows \<and> set (names_row r) \<inter> set ids \<noteq> {}"
  by (auto simp: hits_of_def list_ex_iff)

lemma carried_hits:
  assumes "i \<in> set ids"
  shows "n \<in> carried_names ids rows i \<longleftrightarrow>
    (\<exists>r r'. r \<in> set (hits_of ids rows) \<and> r' \<in> set (hits_of ids rows) \<and> vu_vuln_id r = vu_vuln_id r' \<and>
       i \<in> set (names_row r) \<and> n \<in> set (names_row r'))"
proof -
  have "set (names_row r) \<inter> set ids \<noteq> {}" if "i \<in> set (names_row r)" for r using that assms by blast
  then show ?thesis unfolding carried_names_def hits_of_member mem_Collect_eq Bex_def by metis
qed

lemma related_lookup:
  assumes "i \<in> set ids"
  shows "related (lookup_findings ids rows) i = carried_names ids rows i"
proof -
  let ?hits = "hits_of ids rows"
  have "related (lookup_findings ids rows) i =
      {n. \<exists>v \<in> vu_vuln_id ` set ?hits. i \<in> set (v # aliases_of ?hits v) \<and> n \<in> set (v # aliases_of ?hits v)}"
    unfolding related_def lookup_findings_member by blast
  also have "\<dots> = {n. \<exists>v \<in> vu_vuln_id ` set ?hits. (\<exists>r \<in> set ?hits. vu_vuln_id r = v \<and> i \<in> set (names_row r)) \<and>
      (\<exists>r \<in> set ?hits. vu_vuln_id r = v \<and> n \<in> set (names_row r))}"
    by (intro Collect_cong bex_cong refl) (simp only: finding_names)
  also have "\<dots> = carried_names ids rows i"
  proof (rule set_eqI)
    fix n
    show "n \<in> {n. \<exists>v \<in> vu_vuln_id ` set ?hits. (\<exists>r \<in> set ?hits. vu_vuln_id r = v \<and> i \<in> set (names_row r)) \<and>
        (\<exists>r \<in> set ?hits. vu_vuln_id r = v \<and> n \<in> set (names_row r))} \<longleftrightarrow> n \<in> carried_names ids rows i"
      unfolding carried_hits [OF assms] mem_Collect_eq bex_simps Bex_def image_iff by metis
  qed
  finally show ?thesis .
qed

lemma group_lookup:
  assumes "i \<in> set ids"
  shows "group_of (set ids) (lookup_findings ids rows) i =
    (if carried_names ids rows i = {} then None else Some (carried_names ids rows i))"
proof -
  have "(\<exists>v xs. (v, xs) \<in> set (lookup_findings ids rows) \<and> i \<in> set (v # xs)) \<longleftrightarrow> related (lookup_findings ids rows) i \<noteq> {}"
  proof
    assume "\<exists>v xs. (v, xs) \<in> set (lookup_findings ids rows) \<and> i \<in> set (v # xs)"
    then obtain v xs where "(v, xs) \<in> set (lookup_findings ids rows)" "i \<in> set (v # xs)" by blast
    then have "i \<in> related (lookup_findings ids rows) i" unfolding related_def by blast
    then show "related (lookup_findings ids rows) i \<noteq> {}" by blast
  next
    assume "related (lookup_findings ids rows) i \<noteq> {}"
    then show "\<exists>v xs. (v, xs) \<in> set (lookup_findings ids rows) \<and> i \<in> set (v # xs)" unfolding related_def by blast
  qed
  then show ?thesis using assms by (simp add: group_of_def related_lookup)
qed

lemma other_names_carried: "i \<in> set ids \<Longrightarrow> other_names i rows \<subseteq> carried_names ids rows i"
  unfolding other_names_def carried_names_def by blast

lemma carried_consistent:
  assumes "consistent_aliases rows"
  shows "carried_names ids rows i - {[], i} \<subseteq> other_names i rows"
proof
  fix n assume n: "n \<in> carried_names ids rows i - {[], i}"
  then obtain r r' where r: "r \<in> set rows" "r' \<in> set rows" "vu_vuln_id r = vu_vuln_id r'" "i \<in> set (names_row r)" "n \<in> set (names_row r')"
    by (auto simp: carried_names_def)
  then have "set (vu_aliases r) = set (vu_aliases r')" using assms unfolding consistent_aliases_def by blast
  then have "set (names_row r) = set (names_row r')" using r(3) by (simp add: names_row_def)
  then show "n \<in> other_names i rows" using r n unfolding other_names_def by blast
qed

lemma cve_id_eq: "cve_id i as = (if is_cve i then i else smallest_cve (set as))"
  using better_cve_fold [of "[]" as] by (simp add: cve_id_def smallest_cve_def Let_def)

subsection \<open>Properties\<close>

text \<open>
  C25: a flaw is found under any of its names. Looking up ids gives for each of them the sorted names,
  the empty one and itself apart, of the rows of the answer that are stored under the id of a row that
  carries it as its id or as an alias; no answer stands for no name. Whatever order the rows and the
  aliases have, the names next to it in a row are among them, and so are the ids the other lookup
  refers it to. Rows of one id may list different aliases, as those stored before the column was added
  list none until they are scanned again; where they list the same ones, the answer is just the names next to it, and
  does not depend on what else is asked for. A CVE id stands for itself, another id for the smallest
  CVE id among its names.
\<close>

theorem vuln_found_by_any_name:
  assumes "i \<in> set ids" "names = carried_names ids rows i - {[], i}"
  shows "lookup_aliases ids rows i = (if names = {} then None else Some (sorted_list_of_set names)) \<and>
    other_names i rows \<subseteq> names \<and>
    (consistent_aliases rows \<longrightarrow> names = other_names i rows) \<and>
    set (resolve_vuln_ids i rows) - {[], i} \<subseteq> names \<and>
    cve_id i (sorted_list_of_set names) = (if is_cve i then i else smallest_cve names)"
proof (intro conjI impI)
  have ids: "ids \<noteq> []" using assms(1) by auto
  have "carried_names ids rows i \<subseteq> \<Union> (set ` names_row ` set rows)" by (auto simp: carried_names_def)
  then have fin: "finite names" unfolding assms(2) by (auto intro: finite_subset)
  show "lookup_aliases ids rows i = (if names = {} then None else Some (sorted_list_of_set names))"
    using ids by (simp add: lookup_aliases_def alias_groups_eq group_lookup [OF assms(1)] assms(2))
  show others: "other_names i rows \<subseteq> names"
    using other_names_carried [OF assms(1)] unfolding assms(2) other_names_def by blast
  show "names = other_names i rows" if "consistent_aliases rows"
    using others carried_consistent [OF that] unfolding assms(2) by blast
  have "set (resolve_vuln_ids i rows) - {[], i} \<subseteq> other_names i rows"
    by (auto simp: resolve_vuln_ids_def other_names_def names_row_def)
  then show "set (resolve_vuln_ids i rows) - {[], i} \<subseteq> names" using others by blast
  show "cve_id i (sorted_list_of_set names) = (if is_cve i then i else smallest_cve names)"
    using fin by (simp add: cve_id_eq)
qed

definition sample_vulnerability :: "string \<Rightarrow> string list \<Rightarrow> vulnerability" where
  "sample_vulnerability i aliases =
     \<lparr>vu_discovered_at = 0, vu_sbom_id = ''s'', vu_source_file = ''a.json'', vu_purl = ''pkg:golang/x@1'', vu_vuln_id = i,
      vu_severity = ''HIGH'', vu_summary = [], vu_affected_versions = [], vu_aliases = aliases, vu_fixed_version = [],
      vu_osv_json = [], vu_dependency_depth = 1, vu_cluster = [], vu_namespace = [], vu_project = []\<rparr>"

lemma vuln_found_by_any_name_witness:
  "lookup_aliases [''CVE-2024-45338''] [sample_vulnerability ''GO-2024-3333'' [''CVE-2024-45338'', ''GHSA-w32m''], sample_vulnerability ''GO-2024-3333'' []]
     ''CVE-2024-45338'' = Some [''GHSA-w32m'', ''GO-2024-3333'']"
proof -
  let ?r = "sample_vulnerability ''GO-2024-3333'' [''CVE-2024-45338'', ''GHSA-w32m'']" and ?old = "sample_vulnerability ''GO-2024-3333'' []"
  have names: "names_row ?r = [''GO-2024-3333'', ''CVE-2024-45338'', ''GHSA-w32m'']" "names_row ?old = [''GO-2024-3333'']"
    by (simp_all add: names_row_def sample_vulnerability_def)
  have "carried_names [''CVE-2024-45338''] [?r, ?old] ''CVE-2024-45338'' = set (names_row ?r)"
    unfolding carried_names_def by (auto simp: names)
  then have n: "{''GHSA-w32m'', ''GO-2024-3333''} = carried_names [''CVE-2024-45338''] [?r, ?old] ''CVE-2024-45338'' - {[], ''CVE-2024-45338''}"
    by (auto simp: names)
  have sorted: "sorted_list_of_set {''GHSA-w32m'', ''GO-2024-3333''} = [''GHSA-w32m'', ''GO-2024-3333'']"
    by code_simp
  have "''CVE-2024-45338'' \<in> set [''CVE-2024-45338'']" by simp
  from vuln_found_by_any_name [OF this n] show ?thesis unfolding sorted by simp
qed

end
