(* ===== verification/Doc_Store.thy ===== *)
theory Doc_Store
  imports Sbom_Name Utf8
begin

text \<open>
  The store of original documents, \<open>backend/internal/docstore\<close>, with \<open>ParseURI\<close> of
  \<open>backend/internal/s3/client.go\<close>. The world holds the files, by their absolute paths, and the objects of the
  buckets; \<open>ok\<close> is whether the file system or the S3 service performs the operation. Writing a file is
  atomic in the code (temporary file and rename), so a failing operation changes nothing. Compression
  is a parameter; the S3 library rejects bucket names with a slash.
\<close>

record storage =
  st_files :: "string \<rightharpoonup> string"
  st_objects :: "string \<times> string \<rightharpoonup> string"

definition backend_s3 :: string where "backend_s3 = ''s3''"
definition backend_fs :: string where "backend_fs = ''fs''"

definition gzip_suffix :: string where "gzip_suffix = ''.gz''"
definition encoding_gzip :: string where "encoding_gzip = ''gzip''"
definition encoding_identity :: string where "encoding_identity = []"

definition reserved_s3_prefix :: string where "reserved_s3_prefix = ''_bomhort/originals/''"

subsection \<open>Keys and references\<close>

definition split_store_ref :: "string \<Rightarrow> string \<Rightarrow> string option" where
  "split_store_ref ref scheme =
     (case cut_prefix ref (scheme @ ''://'') of None \<Rightarrow> None | Some rest \<Rightarrow> if rest = [] then None else Some rest)"

definition name_char :: "char \<Rightarrow> bool" where
  "name_char c \<longleftrightarrow> is_letter c \<or> is_digit c \<or> c \<in> set ''.-_@''"

text \<open>A rune that is not allowed becomes one underscore, however many bytes it has.\<close>

function map_runes :: "string \<Rightarrow> string" where
  "map_runes [] = []"
| "map_runes (c # s) = (if name_char c then c else CHR ''_'') # map_runes (drop (rune_width (c # s)) (c # s))"
  by pat_completeness auto
termination by (relation "measure length") (use rune_width_pos in auto)

definition sanitize_name :: "string \<Rightarrow> string" where
  "sanitize_name s =
     (let out = trim_left_by (\<lambda>c. c = CHR ''.'') (map_runes s)
      in if length out > 200 then drop (length out - 200) out else out)"

definition document_key :: "string \<Rightarrow> string \<Rightarrow> string" where
  "document_key sbom_id source_file =
     (let base = path_base (backslashes source_file)
      in if base = [] \<or> base = ''.'' \<or> base = ''/'' then sbom_id @ ''/document.json''
         else let clean = sanitize_name base in sbom_id @ ''/'' @ (if clean = [] then ''document.json'' else clean))"

text \<open>\<open>filepath.Clean\<close> of a path anchored at the root, as its segments.\<close>

definition clean_step :: "string list \<Rightarrow> string \<Rightarrow> string list" where
  "clean_step acc seg = (if seg = [] \<or> seg = ''.'' then acc else if seg = ''..'' then butlast acc else acc @ [seg])"

definition safe_rel :: "string \<Rightarrow> string option" where
  "safe_rel key =
     (let rel = join_with ''/'' (foldl clean_step [] (split_char (CHR ''/'') (backslashes key)))
      in if rel = [] then None else Some rel)"

definition parse_object_uri :: "string \<Rightarrow> (string \<times> string) option" where
  "parse_object_uri uri = (case cut_prefix uri ''s3://'' of None \<Rightarrow> None | Some rest \<Rightarrow> str_cut rest ''/'')"

subsection \<open>The raw stores\<close>

text \<open>\<open>filepath.Join\<close> of an absolute, clean root with a relative path that is clean.\<close>

definition file_at :: "string \<Rightarrow> string \<Rightarrow> string" where
  "file_at root rel = (if has_suffix root ''/'' then root @ rel else root @ ''/'' @ rel)"

definition fs_put :: "string \<Rightarrow> bool \<Rightarrow> string \<Rightarrow> string \<Rightarrow> storage \<Rightarrow> (string \<times> storage) option" where
  "fs_put root ok key data w =
     (case safe_rel key of
        None \<Rightarrow> None
      | Some rel \<Rightarrow>
          if ok then Some (''fs://'' @ rel, w\<lparr>st_files := (st_files w)(file_at root rel \<mapsto> data)\<rparr>) else None)"

definition fs_path :: "string \<Rightarrow> string \<Rightarrow> string option" where
  "fs_path root ref = map_option (file_at root) (Option.bind (split_store_ref ref ''fs'') safe_rel)"

definition fs_get :: "string \<Rightarrow> string \<Rightarrow> storage \<Rightarrow> string option" where
  "fs_get root ref w = Option.bind (fs_path root ref) (st_files w)"

definition fs_delete :: "string \<Rightarrow> bool \<Rightarrow> string \<Rightarrow> storage \<Rightarrow> storage option" where
  "fs_delete root ok ref w =
     (case fs_path root ref of
        None \<Rightarrow> None
      | Some path \<Rightarrow> if ok then Some (w\<lparr>st_files := (st_files w)(path := None)\<rparr>) else None)"

record s3_store =
  s3_bucket :: string
  s3_prefix :: string
  s3_clients :: "string list"

definition new_s3_store :: "string list \<Rightarrow> string \<Rightarrow> string \<Rightarrow> s3_store option" where
  "new_s3_store clients bucket pfx =
     (if bucket = [] then None
      else
        let p = (if pfx = [] then reserved_s3_prefix else pfx)
        in Some \<lparr>s3_bucket = bucket, s3_prefix = (if has_suffix p ''/'' then p else p @ ''/''), s3_clients = clients\<rparr>)"

definition s3_reachable :: "bool \<Rightarrow> s3_store \<Rightarrow> string \<Rightarrow> bool" where
  "s3_reachable ok s bucket \<longleftrightarrow> ok \<and> bucket \<in> set (s3_clients s) \<and> CHR ''/'' \<notin> set bucket"

definition s3_put :: "s3_store \<Rightarrow> bool \<Rightarrow> string \<Rightarrow> string \<Rightarrow> storage \<Rightarrow> (string \<times> storage) option" where
  "s3_put s ok key data w =
     (let obj = s3_prefix s @ trim_prefix key ''/''
      in if s3_reachable ok s (s3_bucket s)
         then Some (''s3://'' @ s3_bucket s @ ''/'' @ obj, w\<lparr>st_objects := (st_objects w)((s3_bucket s, obj) \<mapsto> data)\<rparr>)
         else None)"

definition s3_resolve :: "string \<Rightarrow> (string \<times> string) option" where
  "s3_resolve ref = Option.bind (split_store_ref ref ''s3'') (\<lambda>_. parse_object_uri ref)"

definition s3_get :: "s3_store \<Rightarrow> string \<Rightarrow> storage \<Rightarrow> string option" where
  "s3_get s ref w =
     (case s3_resolve ref of
        None \<Rightarrow> None
      | Some (bucket, key) \<Rightarrow> if s3_reachable True s bucket then st_objects w (bucket, key) else None)"

definition s3_delete :: "s3_store \<Rightarrow> bool \<Rightarrow> string \<Rightarrow> storage \<Rightarrow> storage option" where
  "s3_delete s ok ref w =
     (case s3_resolve ref of
        None \<Rightarrow> None
      | Some (bucket, key) \<Rightarrow>
          if bucket \<noteq> s3_bucket s \<or> \<not> has_prefix key (s3_prefix s) then None
          else if s3_reachable ok s bucket then Some (w\<lparr>st_objects := (st_objects w)((bucket, key) := None)\<rparr>) else None)"

subsection \<open>The interface of a raw store\<close>

text \<open>
  \<open>location\<close> is where a reference points. What is put is found under the reference returned, and neither
  putting nor deleting touches what another reference points to.
\<close>

locale raw_store =
  fixes put :: "bool \<Rightarrow> string \<Rightarrow> string \<Rightarrow> 'w \<Rightarrow> (string \<times> 'w) option"
    and get :: "string \<Rightarrow> 'w \<Rightarrow> string option"
    and delete :: "bool \<Rightarrow> string \<Rightarrow> 'w \<Rightarrow> 'w option"
    and location :: "string \<Rightarrow> 'l option"
  assumes put_get: "put ok key data w = Some (ref, w') \<Longrightarrow> get ref w' = Some data"
    and put_frame: "put ok key data w = Some (ref, w') \<Longrightarrow> location ref' \<noteq> location ref \<Longrightarrow> get ref' w' = get ref' w"
    and delete_frame: "delete ok old w = Some w' \<Longrightarrow> location ref' \<noteq> location old \<Longrightarrow> get ref' w' = get ref' w"
begin

lemma replace_keeps_new:
  assumes "put ok key data w = Some (ref, w1)" "delete ok' old w1 = Some w2" "location old \<noteq> location ref"
  shows "get ref w2 = Some data"
  using assms put_get delete_frame [OF assms(2), of ref] by auto

lemma replace_keeps_others:
  assumes "put ok key data w = Some (ref, w1)" "delete ok' old w1 = Some w2"
    and "location ref' \<noteq> location ref" "location ref' \<noteq> location old"
  shows "get ref' w2 = get ref' w"
  using assms put_frame [OF assms(1,3)] delete_frame [OF assms(2,4)] by simp

end

subsection \<open>Where references point\<close>

lemma split_char_snoc:
  "d \<notin> set t \<Longrightarrow> \<exists>ws w. split_char d s = ws @ [w] \<and> split_char d (s @ t) = ws @ [w @ t]"
proof (induction s)
  case Nil
  then have "split_char d t = [t]" unfolding split_char_def by (intro split_by_word) auto
  then show ?case by (simp add: split_char_def)
next
  case (Cons c s)
  then obtain ws w where "split_by (\<lambda>c. c = d) s = ws @ [w]" "split_by (\<lambda>c. c = d) (s @ t) = ws @ [w @ t]"
    unfolding split_char_def by blast
  then show ?case unfolding split_char_def by (cases "c = d"; cases ws) simp_all
qed

definition clean_segment :: "string \<Rightarrow> bool" where
  "clean_segment s \<longleftrightarrow> s \<notin> {[], ''.'', ''..''} \<and> CHR ''/'' \<notin> set s \<and> CHR 0x5C \<notin> set s"

lemma clean_fold:
  "list_all clean_segment acc \<Longrightarrow> \<forall>w \<in> set ws. CHR ''/'' \<notin> set w \<and> CHR 0x5C \<notin> set w \<Longrightarrow>
     list_all clean_segment (foldl clean_step acc ws)"
proof (induction ws arbitrary: acc)
  case (Cons w ws)
  have "list_all clean_segment (butlast acc)" using Cons.prems(1) by (auto simp: list_all_iff dest: in_set_butlastD)
  moreover have "clean_segment w" if "w \<notin> {[], ''.'', ''..''}" using that Cons.prems(2) by (simp add: clean_segment_def)
  ultimately have "list_all clean_segment (clean_step acc w)" using Cons.prems(1) by (simp add: clean_step_def)
  then show ?case using Cons by simp
qed simp

lemma clean_fold_id: "list_all clean_segment ws \<Longrightarrow> foldl clean_step acc ws = acc @ ws"
  by (induction ws arbitrary: acc) (auto simp: clean_step_def clean_segment_def)

lemma no_backslash: "CHR 0x5C \<notin> set (backslashes s)"
  by (auto simp: backslashes_def replace_char_def split: if_splits)

lemma backslashes_id: "CHR 0x5C \<notin> set s \<Longrightarrow> backslashes s = s"
  by (induction s) (auto simp: backslashes_def replace_char_def)

lemma set_join_slash: "c \<in> set (join_with ''/'' ws) \<Longrightarrow> c = CHR ''/'' \<or> (\<exists>w \<in> set ws. c \<in> set w)"
  by (induction "''/''" ws rule: join_with.induct) auto

lemma safe_rel_segments:
  assumes "safe_rel key = Some rel"
  shows "\<exists>segs. segs \<noteq> [] \<and> list_all clean_segment segs \<and> rel = join_with ''/'' segs"
proof -
  let ?segs = "foldl clean_step [] (split_char (CHR ''/'') (backslashes key))"
  have "\<forall>w \<in> set (split_char (CHR ''/'') (backslashes key)). CHR ''/'' \<notin> set w \<and> CHR 0x5C \<notin> set w"
    using set_split_char [of _ "CHR ''/''" "backslashes key"] no_backslash [of key] by blast
  then have "list_all clean_segment ?segs" by (intro clean_fold) simp_all
  moreover have "rel = join_with ''/'' ?segs" "rel \<noteq> []" using assms by (auto simp: safe_rel_def Let_def split: if_splits)
  ultimately show ?thesis by (cases "?segs = []") auto
qed

lemma safe_rel_idem:
  assumes "safe_rel key = Some rel"
  shows "safe_rel rel = Some rel"
proof -
  obtain segs where segs: "segs \<noteq> []" "list_all clean_segment segs" "rel = join_with ''/'' segs"
    using safe_rel_segments [OF assms] by blast
  have "CHR 0x5C \<notin> set rel"
    using segs(2) set_join_slash [of "CHR 0x5C" segs] by (auto simp: segs(3) clean_segment_def list_all_iff)
  moreover have "split_char (CHR ''/'') rel = segs"
    using segs by (auto intro!: split_char_join simp: clean_segment_def list_all_iff)
  moreover have "rel \<noteq> []" using assms by (auto simp: safe_rel_def Let_def split: if_splits)
  ultimately show ?thesis
    using clean_fold_id [OF segs(2), of "[]"] segs(3) by (simp add: safe_rel_def backslashes_id Let_def)
qed

lemma split_store_ref_append: "rest \<noteq> [] \<Longrightarrow> split_store_ref (scheme @ ''://'' @ rest) scheme = Some rest"
  using has_prefix_append [of "scheme @ ''://''" rest] by (simp add: split_store_ref_def cut_prefix_def del: has_prefix_append)

lemma fs_path_put: "fs_put root ok key data w = Some (ref, w') \<Longrightarrow> fs_path root ref = map_option (file_at root) (safe_rel key)"
  using split_store_ref_append [of _ "''fs''"] safe_rel_idem [of key]
  by (auto simp: fs_put_def fs_path_def safe_rel_def Let_def split: option.splits if_splits)

lemma s3_resolve_put:
  assumes "s3_put s ok key data w = Some (ref, w')"
  shows "s3_resolve ref = Some (s3_bucket s, s3_prefix s @ trim_prefix key ''/'')"
proof -
  let ?rest = "s3_bucket s @ CHR ''/'' # s3_prefix s @ trim_prefix key ''/''"
  have "CHR ''/'' \<notin> set (s3_bucket s)" "ref = ''s3://'' @ ?rest"
    using assms by (auto simp: s3_put_def s3_reachable_def Let_def split: if_splits)
  then show ?thesis
    using split_store_ref_append [of ?rest "''s3''"] str_cut_single [of "CHR ''/''" "s3_bucket s"]
    by (simp add: s3_resolve_def parse_object_uri_def cut_prefix_def has_prefix_def)
qed

interpretation fs: raw_store "fs_put root" "fs_get root" "fs_delete root" "fs_path root" for root
proof unfold_locales
  show "fs_put root ok key data w = Some (ref, w') \<Longrightarrow> fs_get root ref w' = Some data" for ok key data w ref w'
    using fs_path_put [of root ok key data w ref w'] by (auto simp: fs_put_def fs_get_def split: option.splits if_splits)
  show "fs_put root ok key data w = Some (ref, w') \<Longrightarrow> fs_path root ref' \<noteq> fs_path root ref \<Longrightarrow> fs_get root ref' w' = fs_get root ref' w"
    for ok key data w ref w' ref'
    using fs_path_put [of root ok key data w ref w']
    by (cases "fs_path root ref'") (auto simp: fs_put_def fs_get_def split: option.splits if_splits)
  show "fs_delete root ok old w = Some w' \<Longrightarrow> fs_path root ref' \<noteq> fs_path root old \<Longrightarrow> fs_get root ref' w' = fs_get root ref' w"
    for ok old w w' ref'
    by (cases "fs_path root ref'") (auto simp: fs_delete_def fs_get_def split: option.splits if_splits)
qed

interpretation s3: raw_store "s3_put s" "s3_get s" "s3_delete s" s3_resolve for s
proof unfold_locales
  show "s3_put s ok key data w = Some (ref, w') \<Longrightarrow> s3_get s ref w' = Some data" for ok key data w ref w'
    using s3_resolve_put [of s ok key data w ref w']
    by (auto simp: s3_put_def s3_get_def s3_reachable_def Let_def split: if_splits)
  show "s3_put s ok key data w = Some (ref, w') \<Longrightarrow> s3_resolve ref' \<noteq> s3_resolve ref \<Longrightarrow> s3_get s ref' w' = s3_get s ref' w"
    for ok key data w ref w' ref'
    using s3_resolve_put [of s ok key data w ref w']
    by (cases "s3_resolve ref'") (auto simp: s3_put_def s3_get_def Let_def split: if_splits)
  show "s3_delete s ok old w = Some w' \<Longrightarrow> s3_resolve ref' \<noteq> s3_resolve old \<Longrightarrow> s3_get s ref' w' = s3_get s ref' w"
    for ok old w w' ref'
    by (cases "s3_resolve ref'") (auto simp: s3_delete_def s3_get_def split: option.splits if_splits)
qed

subsection \<open>The stores\<close>

text \<open>A file system store has its root, an absolute path.\<close>

datatype raw_kind = FsKind string | S3Kind s3_store

definition raw_backend :: "raw_kind \<Rightarrow> string" where
  "raw_backend k = (case k of FsKind _ \<Rightarrow> backend_fs | S3Kind _ \<Rightarrow> backend_s3)"

definition raw_put :: "raw_kind \<Rightarrow> bool \<Rightarrow> string \<Rightarrow> string \<Rightarrow> storage \<Rightarrow> (string \<times> storage) option" where
  "raw_put k = (case k of FsKind root \<Rightarrow> fs_put root | S3Kind s \<Rightarrow> s3_put s)"

definition raw_get :: "raw_kind \<Rightarrow> string \<Rightarrow> storage \<Rightarrow> string option" where
  "raw_get k = (case k of FsKind root \<Rightarrow> fs_get root | S3Kind s \<Rightarrow> s3_get s)"

definition raw_delete :: "raw_kind \<Rightarrow> bool \<Rightarrow> string \<Rightarrow> storage \<Rightarrow> storage option" where
  "raw_delete k = (case k of FsKind root \<Rightarrow> fs_delete root | S3Kind s \<Rightarrow> s3_delete s)"

datatype doc_store = SingleStore raw_kind | MultiStore raw_kind "raw_kind list"

fun primary_store :: "doc_store \<Rightarrow> raw_kind" where
  "primary_store (SingleStore k) = k"
| "primary_store (MultiStore k _) = k"

fun add_store :: "raw_kind list \<Rightarrow> raw_kind option list \<Rightarrow> raw_kind list" where
  "add_store ks [] = ks"
| "add_store ks (None # rest) = add_store ks rest"
| "add_store ks (Some k # rest) =
     add_store (if raw_backend k \<in> raw_backend ` set ks then ks else ks @ [k]) rest"

definition new_multi_store :: "raw_kind \<Rightarrow> raw_kind option list \<Rightarrow> doc_store" where
  "new_multi_store primary additional =
     (case add_store [primary] additional of [_] \<Rightarrow> SingleStore primary | ks \<Rightarrow> MultiStore primary ks)"

definition store_for :: "doc_store \<Rightarrow> string \<Rightarrow> raw_kind option" where
  "store_for st ref =
     (case st of
        SingleStore k \<Rightarrow> Some k
      | MultiStore _ ks \<Rightarrow>
          (case str_cut ref ''://'' of
             None \<Rightarrow> None
           | Some (scheme, _) \<Rightarrow> if scheme = [] then None else find (\<lambda>k. raw_backend k = scheme) ks))"

definition encoding_of :: "string \<Rightarrow> string" where
  "encoding_of ref = (if has_suffix ref gzip_suffix then encoding_gzip else encoding_identity)"

definition decode_blob :: "(string \<Rightarrow> string option) \<Rightarrow> string \<Rightarrow> string \<Rightarrow> string option" where
  "decode_blob decompress encoding bytes =
     (if encoding = encoding_identity then Some bytes
      else if encoding = encoding_gzip then decompress bytes else None)"

record put_result =
  pr_ref :: string
  pr_encoding :: string
  pr_stored_bytes :: nat

definition store_put ::
  "(string \<Rightarrow> string option) \<Rightarrow> bool \<Rightarrow> doc_store \<Rightarrow> string \<Rightarrow> string \<Rightarrow> storage \<Rightarrow> (put_result \<times> storage) option" where
  "store_put compress ok st key data w =
     (case compress data of
        None \<Rightarrow> None
      | Some gz \<Rightarrow>
          (case raw_put (primary_store st) ok (key @ gzip_suffix) gz w of
             None \<Rightarrow> None
           | Some (ref, w') \<Rightarrow> Some (\<lparr>pr_ref = ref, pr_encoding = encoding_gzip, pr_stored_bytes = length gz\<rparr>, w')))"

definition store_get_encoded :: "doc_store \<Rightarrow> string \<Rightarrow> storage \<Rightarrow> (string \<times> string) option" where
  "store_get_encoded st ref w =
     (case store_for st ref of
        None \<Rightarrow> None
      | Some k \<Rightarrow> (case raw_get k ref w of None \<Rightarrow> None | Some bytes \<Rightarrow> Some (bytes, encoding_of ref)))"

definition store_get :: "(string \<Rightarrow> string option) \<Rightarrow> doc_store \<Rightarrow> string \<Rightarrow> storage \<Rightarrow> string option" where
  "store_get decompress st ref w =
     (case store_get_encoded st ref w of
        None \<Rightarrow> None
      | Some (bytes, encoding) \<Rightarrow> decode_blob decompress encoding bytes)"

definition store_delete :: "bool \<Rightarrow> doc_store \<Rightarrow> string \<Rightarrow> storage \<Rightarrow> storage option" where
  "store_delete ok st ref w = (case store_for st ref of None \<Rightarrow> None | Some k \<Rightarrow> raw_delete k ok ref w)"

subsection \<open>Reading back\<close>

text \<open>The reader has the backend of the writer configured: the same root, or a client for its bucket.\<close>

fun reads_from :: "raw_kind \<Rightarrow> raw_kind \<Rightarrow> bool" where
  "reads_from (FsKind root') (FsKind root) = (root' = root)"
| "reads_from (S3Kind s') (S3Kind s) = (s3_bucket s \<in> set (s3_clients s'))"
| "reads_from _ _ = False"

definition can_read :: "doc_store \<Rightarrow> raw_kind \<Rightarrow> bool" where
  "can_read st k \<longleftrightarrow>
     (case st of
        SingleStore k' \<Rightarrow> reads_from k' k
      | MultiStore _ ks \<Rightarrow> (case find (\<lambda>k'. raw_backend k' = raw_backend k) ks of Some k' \<Rightarrow> reads_from k' k | None \<Rightarrow> False))"

lemma join_slash_snoc: "ws \<noteq> [] \<Longrightarrow> join_with sep (ws @ [w]) = join_with sep ws @ sep @ w"
proof (induction ws)
  case (Cons a ws)
  then show ?case by (cases "ws = []") (simp_all add: join_with_Cons)
qed simp

lemma safe_rel_suffix:
  assumes "safe_rel (key @ gzip_suffix) = Some rel"
  shows "has_suffix rel gzip_suffix"
proof -
  have gz: "backslashes (key @ gzip_suffix) = backslashes key @ gzip_suffix" "CHR ''/'' \<notin> set gzip_suffix"
    by (simp_all add: backslashes_def replace_char_def gzip_suffix_def)
  obtain ws w where w: "split_char (CHR ''/'') (backslashes key @ gzip_suffix) = ws @ [w @ gzip_suffix]"
    using split_char_snoc [OF gz(2), of "backslashes key"] by blast
  have "w @ gzip_suffix \<notin> {[], ''.'', ''..''}" by (cases w) (auto simp: gzip_suffix_def Cons_eq_append_conv append_eq_Cons_conv)
  then have "rel = join_with ''/'' (foldl clean_step [] ws @ [w @ gzip_suffix])"
    using assms by (auto simp: safe_rel_def gz w clean_step_def Let_def split: if_splits)
  then have "rel = (if foldl clean_step [] ws = [] then w else join_with ''/'' (foldl clean_step [] ws) @ ''/'' @ w) @ gzip_suffix"
    by (simp add: join_slash_snoc)
  then show ?thesis unfolding has_suffix_iff by blast
qed

lemma raw_put_suffix:
  assumes "raw_put k ok (key @ gzip_suffix) gz w = Some (ref, w')"
  shows "has_suffix ref gzip_suffix"
proof (cases k)
  case (FsKind root)
  then obtain rel where "safe_rel (key @ gzip_suffix) = Some rel" "ref = ''fs://'' @ rel"
    using assms by (auto simp: raw_put_def fs_put_def split: option.splits if_splits)
  then show ?thesis using safe_rel_suffix [of key rel] unfolding has_suffix_iff by (metis append_assoc)
next
  case (S3Kind s)
  then have ref: "ref = ''s3://'' @ s3_bucket s @ ''/'' @ s3_prefix s @ trim_prefix (key @ gzip_suffix) ''/''"
    using assms by (auto simp: raw_put_def s3_put_def Let_def split: if_splits)
  have "\<exists>t. trim_prefix (key @ gzip_suffix) ''/'' = t @ gzip_suffix"
    by (cases key) (auto simp: trim_prefix_def has_prefix_def gzip_suffix_def)
  then obtain t where "trim_prefix (key @ gzip_suffix) ''/'' = t @ gzip_suffix" by blast
  then have "ref = (''s3://'' @ s3_bucket s @ ''/'' @ s3_prefix s @ t) @ gzip_suffix" by (simp add: ref)
  then show ?thesis unfolding has_suffix_iff by blast
qed

lemma raw_put_scheme:
  assumes "raw_put k ok key gz w = Some (ref, w')"
  shows "\<exists>rest. str_cut ref ''://'' = Some (raw_backend k, rest)"
  using assms
  by (cases k)
     (auto simp: raw_put_def fs_put_def s3_put_def Let_def raw_backend_def backend_fs_def backend_s3_def str_cut_def
        has_prefix_def split: option.splits if_splits)

lemma raw_read_back:
  assumes "raw_put k ok key gz w = Some (ref, w')" "reads_from k' k"
  shows "raw_get k' ref w' = Some gz"
proof (cases k)
  case (FsKind root)
  then show ?thesis using assms fs.put_get by (cases k') (auto simp: raw_put_def raw_get_def)
next
  case (S3Kind s)
  then obtain s' where k': "k' = S3Kind s'" "s3_bucket s \<in> set (s3_clients s')" using assms(2) by (cases k') auto
  have put: "s3_put s ok key gz w = Some (ref, w')" using assms(1) S3Kind by (simp add: raw_put_def)
  then have "s3_reachable ok s (s3_bucket s)" "s3_get s ref w' = Some gz"
    using s3.put_get by (auto simp: s3_put_def Let_def split: if_splits)
  then show ?thesis
    using s3_resolve_put [OF put] k' by (auto simp: raw_get_def s3_get_def s3_reachable_def split: if_splits)
qed

lemma store_for_scheme:
  assumes "can_read st k" "str_cut ref ''://'' = Some (raw_backend k, rest)"
  shows "\<exists>k'. store_for st ref = Some k' \<and> reads_from k' k"
  using assms
  by (cases st; cases k)
     (auto simp: can_read_def store_for_def raw_backend_def backend_fs_def backend_s3_def split: option.splits)

lemma store_put_raw:
  assumes "store_put compress ok st key d w = Some (res, w')"
  shows "\<exists>gz. compress d = Some gz \<and> raw_put (primary_store st) ok (key @ gzip_suffix) gz w = Some (pr_ref res, w')"
  using assms by (auto simp: store_put_def split: option.splits)

definition points_to :: "raw_kind \<Rightarrow> string \<Rightarrow> string option + (string \<times> string) option" where
  "points_to k ref = (case k of FsKind root \<Rightarrow> Inl (fs_path root ref) | S3Kind _ \<Rightarrow> Inr (s3_resolve ref))"

lemma stored_read_back:
  assumes "\<forall>d z. compress d = Some z \<longrightarrow> decompress z = Some d"
    and "store_put compress ok writer key d w = Some (res, w')"
    and "can_read reader (primary_store writer)"
  shows "store_get decompress reader (pr_ref res) w' = Some d \<and> pr_encoding res = encoding_gzip \<and>
    (\<forall>old w''. raw_delete (primary_store writer) ok' old w' = Some w'' \<longrightarrow>
       points_to (primary_store writer) old \<noteq> points_to (primary_store writer) (pr_ref res) \<longrightarrow>
       store_get decompress reader (pr_ref res) w'' = Some d)"
proof -
  obtain gz where gz: "compress d = Some gz" and put: "raw_put (primary_store writer) ok (key @ gzip_suffix) gz w = Some (pr_ref res, w')"
    using store_put_raw [OF assms(2)] by blast
  obtain k' where k': "store_for reader (pr_ref res) = Some k'" "reads_from k' (primary_store writer)"
    using raw_put_scheme [OF put] store_for_scheme [OF assms(3)] by blast
  have enc: "encoding_of (pr_ref res) = encoding_gzip" using raw_put_suffix [OF put] by (simp add: encoding_of_def)
  have dec: "decode_blob decompress encoding_gzip gz = Some d"
    using assms(1) gz by (simp add: decode_blob_def encoding_gzip_def encoding_identity_def)
  have get: "store_get decompress reader (pr_ref res) w1 = Some d" if "raw_get k' (pr_ref res) w1 = Some gz" for w1
    using that k'(1) enc dec by (simp add: store_get_def store_get_encoded_def)
  have after: "raw_get k' (pr_ref res) w'' = Some gz"
    if del: "raw_delete (primary_store writer) ok' old w' = Some w''"
      and "points_to (primary_store writer) old \<noteq> points_to (primary_store writer) (pr_ref res)" for old w''
  proof (cases "primary_store writer")
    case (FsKind root)
    then have "fs_get root (pr_ref res) w'' = Some gz"
      using fs.replace_keeps_new [of root ok "key @ gzip_suffix" gz w "pr_ref res" w' ok' old w''] put that
      by (simp add: raw_put_def raw_delete_def points_to_def)
    then show ?thesis using k'(2) FsKind by (cases k') (simp_all add: raw_get_def)
  next
    case (S3Kind s)
    then have "s3_get s (pr_ref res) w'' = Some gz"
      using s3.replace_keeps_new [of s ok "key @ gzip_suffix" gz w "pr_ref res" w' ok' old w''] put that
      by (simp add: raw_put_def raw_delete_def points_to_def)
    then show ?thesis
      using k'(2) S3Kind s3_resolve_put [of s ok "key @ gzip_suffix" gz w "pr_ref res" w'] put
      by (cases k') (auto simp: raw_get_def raw_put_def s3_get_def s3_reachable_def split: if_splits)
  qed
  have "pr_encoding res = encoding_gzip" using assms(2) by (auto simp: store_put_def split: option.splits)
  then show ?thesis using get [OF raw_read_back [OF put k'(2)]] get after by blast
qed

subsection \<open>Properties\<close>

text \<open>
  C22: the stores stay in their place. A file is written below the store's root only, at a path without empty,
  current or parent steps, whatever the key, and nothing else changes; an object is deleted only from the
  store's own bucket below its own prefix.
\<close>

theorem stores_confined:
  "(case fs_put root ok key data w of
      None \<Rightarrow> True
    | Some (ref, w') \<Rightarrow>
        (\<exists>segs. segs \<noteq> [] \<and> list_all clean_segment segs \<and> ref = ''fs://'' @ join_with ''/'' segs \<and>
           w' = w\<lparr>st_files := (st_files w)(file_at root (join_with ''/'' segs) \<mapsto> data)\<rparr>)) \<and>
   (case s3_delete s ok ref' w of
      None \<Rightarrow> True
    | Some w' \<Rightarrow> (\<exists>key. has_prefix key (s3_prefix s) \<and> w' = w\<lparr>st_objects := (st_objects w)((s3_bucket s, key) := None)\<rparr>))"
proof (intro conjI)
  show "case fs_put root ok key data w of
      None \<Rightarrow> True
    | Some (ref, w') \<Rightarrow>
        (\<exists>segs. segs \<noteq> [] \<and> list_all clean_segment segs \<and> ref = ''fs://'' @ join_with ''/'' segs \<and>
           w' = w\<lparr>st_files := (st_files w)(file_at root (join_with ''/'' segs) \<mapsto> data)\<rparr>)"
    using safe_rel_segments [of key] by (auto simp: fs_put_def split: option.splits)
  show "case s3_delete s ok ref' w of
      None \<Rightarrow> True
    | Some w' \<Rightarrow> (\<exists>key. has_prefix key (s3_prefix s) \<and> w' = w\<lparr>st_objects := (st_objects w)((s3_bucket s, key) := None)\<rparr>)"
    by (auto simp: s3_delete_def split: option.splits)
qed

end
