(* ===== verification/Sbom_Job.thy ===== *)
theory Sbom_Job
  imports Sbom_Parse Osv Doc_Store Provenance License_Check Vex_Statements "HOL-Library.Sublist"
begin

text \<open>
  An SBOM job of the parsing worker, \<open>processSBOMJob\<close> and \<open>captureOriginal\<close> of
  \<open>backend/cmd/parsing-worker/main.go\<close>, with \<open>source_override.go\<close>, \<open>ownership.go\<close> and the inserts of
  \<open>backend/internal/clickhouse/insert.go\<close>. The tables are one log of the rows written, in order. An
  insert is stored, refused, or stored although an error is reported; that the worker dies between two
  inserts leaves the same log as a refusal. What the services answer to one attempt is its record
  \<open>attempt\<close>; persisting the resolver caches and logging are left out.
\<close>

subsection \<open>Rows\<close>

record stored_document =
  dr_stored_at :: int
  dr_sbom_id :: string
  dr_cluster :: string
  dr_namespace :: string
  dr_project :: string
  dr_source_file :: string
  dr_storage_backend :: string
  dr_storage_ref :: string
  dr_sha256_hash :: string
  dr_size_bytes :: nat
  dr_content_type :: string
  dr_content_encoding :: string
  dr_stored_size_bytes :: nat

record license_compliance =
  lc_checked_at :: int
  lc_sbom_id :: string
  lc_source_file :: string
  lc_license_id :: string
  lc_category :: category
  lc_package_count :: "32 word"
  lc_non_compliant :: "string list"
  lc_exempted :: "string list"
  lc_exemption_reason :: string
  lc_cluster :: string
  lc_namespace :: string
  lc_project :: string

datatype db_row =
  DocumentRow stored_document
| PackagesRow sbom_packages
| VulnerabilityRows "vulnerability list"
| ComplianceRows "license_compliance list"
| SbomRow sbom

record ingest_db =
  db_rows :: "db_row list"
  db_storage :: storage
  db_vex :: "vex_statement list"

datatype insert_outcome = Stored | StoredNoAck | Refused

datatype job_outcome = JobDone | JobSkipped | JobFailed | JobPanicked | JobDeferred int

datatype github_error = RateLimited | GitHubFailed

record 'w attempt =
  at_now :: int
  at_library :: sbom_library
  at_use_protobom :: bool
  at_document :: "string option"
  at_exists_ok :: bool
  at_store :: "doc_store option"
  at_compress :: "string \<Rightarrow> string option"
  at_sha256 :: "string \<Rightarrow> string"
  at_store_ok :: bool
  at_previous_ok :: bool
  at_delete_ok :: bool
  at_github :: "(github_error, 'w) github_lookup option"
  at_reset_at :: int
  at_resolvers :: "'w registry_resolver list"
  at_world :: 'w
  at_skip_osv :: bool
  at_batch :: "string list \<Rightarrow> nat \<Rightarrow> batch_response http_answer"
  at_entry :: "string \<Rightarrow> nat \<Rightarrow> vuln_entry http_answer"
  at_osv_cache :: "string \<rightharpoonup> vuln_entry"
  at_stop :: "nat option"
  at_number :: "string \<Rightarrow> rat option"
  at_policy :: policy
  at_exceptions :: "exception_index option"
  at_insert :: "db_row \<Rightarrow> insert_outcome"
  at_resolve_ok :: bool
  at_vex_outcome :: store_outcome

subsection \<open>Ownership and source\<close>

definition apply_sbom :: "ownership \<Rightarrow> sbom \<Rightarrow> sbom" where
  "apply_sbom ow m =
     m\<lparr>sb_cluster := ow_cluster ow, sb_namespace := ow_namespace ow, sb_project := ow_project ow,
       sb_tags := ow_tags ow, sb_parent := ow_parent ow\<rparr>"

definition apply_packages :: "ownership \<Rightarrow> sbom_packages \<Rightarrow> sbom_packages" where
  "apply_packages ow m = m\<lparr>sp_cluster := ow_cluster ow, sp_namespace := ow_namespace ow, sp_project := ow_project ow\<rparr>"

definition apply_vulnerability :: "ownership \<Rightarrow> vulnerability \<Rightarrow> vulnerability" where
  "apply_vulnerability ow m = m\<lparr>vu_cluster := ow_cluster ow, vu_namespace := ow_namespace ow, vu_project := ow_project ow\<rparr>"

definition apply_license_compliance :: "ownership \<Rightarrow> license_compliance \<Rightarrow> license_compliance" where
  "apply_license_compliance ow m =
     m\<lparr>lc_cluster := ow_cluster ow, lc_namespace := ow_namespace ow, lc_project := ow_project ow\<rparr>"

definition apply_stored_document :: "ownership \<Rightarrow> stored_document \<Rightarrow> stored_document" where
  "apply_stored_document ow m =
     m\<lparr>dr_cluster := ow_cluster ow, dr_namespace := ow_namespace ow, dr_project := ow_project ow\<rparr>"

definition apply_source_override :: "sbom \<Rightarrow> ingestion_job \<Rightarrow> sbom" where
  "apply_source_override sb job =
     (let p = jb_payload job;
          sb1 = (if pl_source_repo p \<noteq> [] then sb\<lparr>sb_source_repo := pl_source_repo p\<rparr> else sb)
      in if pl_source_ref p \<noteq> [] then sb1\<lparr>sb_source_ref := pl_source_ref p\<rparr> else sb1)"

subsection \<open>The database\<close>

definition sbom_exists :: "ingest_db \<Rightarrow> string \<Rightarrow> bool" where
  "sbom_exists db i \<longleftrightarrow> list_ex (\<lambda>r. case r of SbomRow s \<Rightarrow> sb_sbom_id s = i | _ \<Rightarrow> False) (db_rows db)"

definition append_row :: "db_row \<Rightarrow> ingest_db \<Rightarrow> ingest_db" where
  "append_row r db = db\<lparr>db_rows := db_rows db @ [r]\<rparr>"

text \<open>\<open>if err := insert(row); err != nil { return err }\<close> before the rest of the job.\<close>

definition write_row ::
  "'w attempt \<Rightarrow> db_row \<Rightarrow> (ingest_db \<Rightarrow> job_outcome \<times> ingest_db) \<Rightarrow> ingest_db \<Rightarrow> job_outcome \<times> ingest_db" where
  "write_row env row rest db =
     (case at_insert env row of
        Refused \<Rightarrow> (JobFailed, db)
      | StoredNoAck \<Rightarrow> (JobFailed, append_row row db)
      | Stored \<Rightarrow> rest (append_row row db))"

definition pad_to :: "nat \<Rightarrow> 'a \<Rightarrow> 'a list \<Rightarrow> 'a list" where
  "pad_to n x xs = take n xs @ replicate (n - length xs) x"

definition license_sources_for :: "sbom_packages \<Rightarrow> string list" where
  "license_sources_for p = pad_to (length (sp_licenses p)) [] (sp_license_sources p)"

definition depths_for :: "sbom_packages \<Rightarrow> 16 word list" where
  "depths_for p = pad_to (length (sp_names p)) unknown (sp_depths p)"

text \<open>The row of \<open>sbom_packages\<close>; the root and direct indices are not stored.\<close>

definition packages_row :: "sbom_packages \<Rightarrow> db_row" where
  "packages_row p =
     PackagesRow (p\<lparr>sp_license_sources := license_sources_for p, sp_depths := depths_for p,
                    sp_root_indices := [], sp_direct_indices := []\<rparr>)"

definition query_stored_document :: "db_row list \<Rightarrow> string \<Rightarrow> stored_document option" where
  "query_stored_document rows i =
     foldl (\<lambda>best r. case r of
              DocumentRow d \<Rightarrow>
                if dr_sbom_id d \<noteq> i then best
                else (case best of None \<Rightarrow> Some d | Some b \<Rightarrow> if dr_stored_at d < dr_stored_at b then Some b else Some d)
            | _ \<Rightarrow> best) None rows"

subsection \<open>The original document\<close>

text \<open>
  The document row once the bytes are stored; the superseded document is deleted last, and only from the
  same backend. A failing lookup of the previous row is as if there were none.
\<close>

definition document_row :: "'w attempt \<Rightarrow> doc_store \<Rightarrow> ingestion_job \<Rightarrow> string \<Rightarrow> sbom \<Rightarrow> put_result \<Rightarrow> stored_document" where
  "document_row env st job raw meta res =
     apply_stored_document (ownership_of job)
       \<lparr>dr_stored_at = at_now env, dr_sbom_id = sb_sbom_id meta, dr_cluster = [], dr_namespace = [], dr_project = [],
        dr_source_file = pl_source_file (jb_payload job), dr_storage_backend = raw_backend (primary_store st),
        dr_storage_ref = pr_ref res, dr_sha256_hash = at_sha256 env raw, dr_size_bytes = length raw,
        dr_content_type = ''application/json'', dr_content_encoding = pr_encoding res,
        dr_stored_size_bytes = pr_stored_bytes res\<rparr>"

definition remove_superseded :: "'w attempt \<Rightarrow> doc_store \<Rightarrow> stored_document option \<Rightarrow> put_result \<Rightarrow> ingest_db \<Rightarrow> ingest_db" where
  "remove_superseded env st previous res db =
     (case previous of
        None \<Rightarrow> db
      | Some prev \<Rightarrow>
          if dr_storage_ref prev \<noteq> pr_ref res \<and> dr_storage_backend prev = raw_backend (primary_store st)
          then (case store_delete (at_delete_ok env) st (dr_storage_ref prev) (db_storage db) of
                  None \<Rightarrow> db | Some w \<Rightarrow> db\<lparr>db_storage := w\<rparr>)
          else db)"

definition capture_original ::
  "'w attempt \<Rightarrow> doc_store \<Rightarrow> ingestion_job \<Rightarrow> string \<Rightarrow> sbom \<Rightarrow> (ingest_db \<Rightarrow> job_outcome \<times> ingest_db) \<Rightarrow> ingest_db
     \<Rightarrow> job_outcome \<times> ingest_db" where
  "capture_original env st job raw meta rest db =
     (let previous = (if at_previous_ok env then query_stored_document (db_rows db) (sb_sbom_id meta) else None)
      in case store_put (at_compress env) (at_store_ok env) st
                (document_key (sb_sbom_id meta) (pl_source_file (jb_payload job))) raw (db_storage db) of
           None \<Rightarrow> (JobFailed, db)
         | Some (res, w) \<Rightarrow>
             write_row env (DocumentRow (document_row env st job raw meta res))
               (\<lambda>db. rest (remove_superseded env st previous res db)) (db\<lparr>db_storage := w\<rparr>))"

subsection \<open>Vulnerabilities\<close>

definition osv_chunk_size :: nat where "osv_chunk_size = 1000"

definition osv_chunks :: "string list \<Rightarrow> string list list" where
  "osv_chunks purls = chunked osv_chunk_size purls"

text \<open>The ids found for each query; a non-empty result beyond the queries is a panic.\<close>

fun discover :: "string list \<Rightarrow> batch_response \<Rightarrow> (string \<times> string) list option" where
  "discover chunk [] = Some []"
| "discover (purl # chunk) (vulns # results) =
     map_option (\<lambda>ds. map (\<lambda>i. (i, purl)) vulns @ ds) (discover chunk results)"
| "discover [] (vulns # results) = (if vulns = [] then discover [] results else None)"

fun discover_all :: "(string list \<Rightarrow> osv_error + batch_response) \<Rightarrow> string list list \<Rightarrow> (string \<times> string) list option" where
  "discover_all query [] = Some []"
| "discover_all query (chunk # chunks) =
     (case query chunk of
        Inl _ \<Rightarrow> discover_all query chunks
      | Inr results \<Rightarrow>
          (case discover chunk results of
             None \<Rightarrow> None
           | Some ds \<Rightarrow> map_option (\<lambda>rest. ds @ rest) (discover_all query chunks)))"

definition unique_ids :: "(string \<times> string) list \<Rightarrow> string list" where
  "unique_ids discovered = foldl (\<lambda>ids (i, _). if i \<in> set ids then ids else ids @ [i]) [] discovered"

definition vulnerability_of ::
  "'w attempt \<Rightarrow> ingestion_job \<Rightarrow> sbom \<Rightarrow> sbom_packages \<Rightarrow> (string \<rightharpoonup> vuln_entry) \<Rightarrow> string \<times> string \<Rightarrow> vulnerability option" where
  "vulnerability_of env job sb p details d =
     (case details (fst d) of
        None \<Rightarrow> None
      | Some h \<Rightarrow>
          Some (apply_vulnerability (ownership_of job)
            (build_vulnerability (at_number env) (at_now env) h (sb_sbom_id sb) (pl_source_file (jb_payload job)) (snd d)
              (min_depth_for_purl (sp_purls p) (sp_depths p) (snd d)))))"

text \<open>A hydration cut short returns a nil map, in which nothing is found.\<close>

definition hydrated :: "'w attempt \<Rightarrow> string list \<Rightarrow> string \<rightharpoonup> vuln_entry" where
  "hydrated env ids =
     (case fst (hydrate_vulns (get_vulnerability (at_entry env)) (at_stop env) (at_osv_cache env) ids) of
        None \<Rightarrow> Map.empty | Some m \<Rightarrow> m)"

definition find_vulnerabilities :: "'w attempt \<Rightarrow> ingestion_job \<Rightarrow> sbom \<Rightarrow> sbom_packages \<Rightarrow> vulnerability list option" where
  "find_vulnerabilities env job sb p =
     (if at_skip_osv env then Some []
      else (case discover_all (query_batch (at_batch env)) (osv_chunks (filter (\<lambda>x. x \<noteq> []) (sp_purls p))) of
              None \<Rightarrow> None
            | Some discovered \<Rightarrow>
                if discovered = [] then Some []
                else Some (List.map_filter (vulnerability_of env job sb p (hydrated env (unique_ids discovered))) discovered)))"

subsection \<open>License compliance\<close>

definition exclude_indices :: "string list \<Rightarrow> string list \<Rightarrow> nat list \<Rightarrow> string list \<times> string list" where
  "exclude_indices names licenses skip =
     (if skip = [] then (names, licenses)
      else let keep = filter (\<lambda>i. i \<notin> set skip) [0..<length names]
           in (map (\<lambda>i. names ! i) keep, map (\<lambda>i. if i < length licenses then licenses ! i else []) keep))"

definition compliance_model :: "'w attempt \<Rightarrow> ingestion_job \<Rightarrow> sbom \<Rightarrow> check_result \<Rightarrow> license_compliance" where
  "compliance_model env job sb lr =
     apply_license_compliance (ownership_of job)
       \<lparr>lc_checked_at = at_now env, lc_sbom_id = sb_sbom_id sb, lc_source_file = pl_source_file (jb_payload job),
        lc_license_id = cr_license_id lr, lc_category = cr_category lr, lc_package_count = cr_package_count lr,
        lc_non_compliant = cr_non_compliant lr, lc_exempted = cr_exempted lr, lc_exemption_reason = cr_exemption_reason lr,
        lc_cluster = [], lc_namespace = [], lc_project = []\<rparr>"

definition compliance_rows :: "'w attempt \<Rightarrow> ingestion_job \<Rightarrow> sbom \<Rightarrow> sbom_packages \<Rightarrow> license_compliance list" where
  "compliance_rows env job sb p =
     (let (names, licenses) = exclude_indices (sp_names p) (sp_licenses p)
            (license_check_skips (map unat (sp_root_indices p)) (sp_purls p))
      in map (compliance_model env job sb)
           (check_with_exceptions (at_policy env) names licenses (at_exceptions env) [sb_document_name sb]))"

subsection \<open>The job\<close>

text \<open>
  \<open>processSBOMJob\<close> in the order of the code. A parser that panics without recovering ends the worker; like
  an error it leaves no row, and both are \<open>JobFailed\<close> here.
\<close>

definition write_unless_empty ::
  "'w attempt \<Rightarrow> ('a list \<Rightarrow> db_row) \<Rightarrow> 'a list \<Rightarrow> (ingest_db \<Rightarrow> job_outcome \<times> ingest_db) \<Rightarrow> ingest_db
     \<Rightarrow> job_outcome \<times> ingest_db" where
  "write_unless_empty env row items rest = (if items = [] then rest else write_row env (row items) rest)"

definition resolved_packages :: "'w attempt \<Rightarrow> ingestion_job \<Rightarrow> sbom_packages \<Rightarrow> github_error + sbom_packages" where
  "resolved_packages env job p =
     (case resolve_package_licenses (at_github env) (at_resolvers env) (sp_purls p) (sp_licenses p)
             (map unat (sp_root_indices p)) (at_world env) of
        Inl e \<Rightarrow> Inl e
      | Inr (wk, w) \<Rightarrow>
          Inr (apply_packages (ownership_of job)
                 (p\<lparr>sp_licenses := wk_licenses wk, sp_license_sources := wk_sources wk\<rparr>)))"

definition owned_sbom :: "ingestion_job \<Rightarrow> sbom \<Rightarrow> sbom" where
  "owned_sbom job sb = apply_source_override (apply_sbom (ownership_of job) sb) job"

text \<open>\<open>sboms FINAL\<close> has the newest row of each id.\<close>

definition sboms_of :: "db_row list \<Rightarrow> sbom list" where
  "sboms_of rows = List.map_filter (\<lambda>r. case r of SbomRow s \<Rightarrow> Some s | _ \<Rightarrow> None) rows"

fun final_sboms :: "sbom list \<Rightarrow> sbom list" where
  "final_sboms [] = []"
| "final_sboms (s # ss) =
     (if list_ex (\<lambda>t. sb_sbom_id t = sb_sbom_id s \<and> sb_ingested_at s \<le> sb_ingested_at t) ss then final_sboms ss
      else s # filter (\<lambda>t. sb_sbom_id t \<noteq> sb_sbom_id s) (final_sboms ss))"

definition identity_of :: "sbom \<Rightarrow> sbom_identity" where
  "identity_of s =
     \<lparr>si_sbom_id = sb_sbom_id s, si_source_repo = sb_source_repo s, si_document_namespace = sb_document_namespace s,
      si_document_name = sb_document_name s, si_ingested_at = sb_ingested_at s\<rparr>"

definition rescue_after :: "'w attempt \<Rightarrow> ingest_db \<Rightarrow> ingest_db" where
  "rescue_after env db =
     db\<lparr>db_vex := rescue_unscoped_vex
                    (resolve_sbom_by_product_ref (at_resolve_ok env) (map identity_of (final_sboms (sboms_of (db_rows db)))))
                    (\<lambda>ref. fst (normalize_repo (lib_url (at_library env)) ref))
                    (at_now env) (at_vex_outcome env) (db_vex db)\<rparr>"

definition ingest_rows ::
  "'w attempt \<Rightarrow> ingestion_job \<Rightarrow> sbom \<Rightarrow> sbom_packages \<Rightarrow> ingest_db \<Rightarrow> job_outcome \<times> ingest_db" where
  "ingest_rows env job sb p =
     write_row env (packages_row p)
       (case find_vulnerabilities env job sb p of
          None \<Rightarrow> Pair JobPanicked
        | Some vulns \<Rightarrow>
            write_unless_empty env VulnerabilityRows vulns
              (write_unless_empty env ComplianceRows (compliance_rows env job sb p)
                 (write_row env (SbomRow sb) (\<lambda>db. (JobDone, rescue_after env db)))))"

definition resolve_and_write ::
  "'w attempt \<Rightarrow> ingestion_job \<Rightarrow> sbom \<Rightarrow> sbom_packages \<Rightarrow> ingest_db \<Rightarrow> job_outcome \<times> ingest_db" where
  "resolve_and_write env job sb p =
     (case resolved_packages env job p of
        Inl RateLimited \<Rightarrow> Pair (JobDeferred (at_reset_at env))
      | Inl GitHubFailed \<Rightarrow> Pair JobFailed
      | Inr q \<Rightarrow> ingest_rows env job (owned_sbom job sb) q)"

definition parsed :: "'w attempt \<Rightarrow> ingestion_job \<Rightarrow> document_error + sbom \<times> sbom_packages" where
  "parsed env job =
     parse_document (at_library env) (at_use_protobom env) (at_now env) (at_document env)
       (pl_source_file (jb_payload job)) (pl_sha256_hash (jb_payload job))"

definition process_sbom_job :: "'w attempt \<Rightarrow> ingestion_job \<Rightarrow> ingest_db \<Rightarrow> job_outcome \<times> ingest_db" where
  "process_sbom_job env job db =
     (case parsed env job of
        Inl _ \<Rightarrow> (JobFailed, db)
      | Inr (sb, p) \<Rightarrow>
          if at_exists_ok env \<and> sbom_exists db (sb_sbom_id sb) then (JobSkipped, db)
          else
            (case at_store env of
               None \<Rightarrow> resolve_and_write env job sb p db
             | Some st \<Rightarrow> capture_original env st job (the (at_document env)) sb (resolve_and_write env job sb p) db))"

text \<open>What the main loop makes of the outcome; a job cut off by a shutdown is handed back at once.\<close>

definition finish_job ::
  "int \<Rightarrow> int \<Rightarrow> bool \<Rightarrow> string \<Rightarrow> job_outcome \<Rightarrow> ingestion_job \<Rightarrow> queue_row list \<Rightarrow> queue_row list" where
  "finish_job clock now shutdown message outcome job q =
     (case outcome of
        JobDone \<Rightarrow> complete_job clock now job q
      | JobSkipped \<Rightarrow> complete_job clock now job q
      | JobDeferred until \<Rightarrow> defer_job clock until message job q
      | JobFailed \<Rightarrow> if shutdown then defer_job clock now ''shutdown'' job q else fail_job clock now message job q
      | JobPanicked \<Rightarrow> q)"

subsection \<open>The rows of an attempt\<close>

text \<open>
  \<open>row_script\<close> is what an attempt inserts after the document row into an empty database when nothing is
  refused, \<open>complete_ingest\<close> the rows before the SBOM's own when the attempt gets that far.
\<close>

definition unless_empty :: "('a list \<Rightarrow> db_row) \<Rightarrow> 'a list \<Rightarrow> db_row list" where
  "unless_empty row items = (if items = [] then [] else [row items])"

definition finding_rows :: "'w attempt \<Rightarrow> ingestion_job \<Rightarrow> sbom \<Rightarrow> sbom_packages \<Rightarrow> vulnerability list \<Rightarrow> db_row list" where
  "finding_rows env job sb q vulns =
     packages_row q # unless_empty VulnerabilityRows vulns @ unless_empty ComplianceRows (compliance_rows env job sb q)"

definition planned_rows :: "'w attempt \<Rightarrow> ingestion_job \<Rightarrow> sbom \<Rightarrow> sbom_packages \<Rightarrow> db_row list" where
  "planned_rows env job sb q =
     (case find_vulnerabilities env job sb q of
        None \<Rightarrow> [packages_row q]
      | Some vulns \<Rightarrow> finding_rows env job sb q vulns @ [SbomRow sb])"

definition empty_db :: ingest_db where
  "empty_db = \<lparr>db_rows = [], db_storage = \<lparr>st_files = Map.empty, st_objects = Map.empty\<rparr>, db_vex = []\<rparr>"

definition unhindered :: "'w attempt \<Rightarrow> 'w attempt" where
  "unhindered env = env\<lparr>at_store := None, at_insert := \<lambda>_. Stored\<rparr>"

definition row_script :: "'w attempt \<Rightarrow> ingestion_job \<Rightarrow> db_row list" where
  "row_script env job = db_rows (snd (process_sbom_job (unhindered env) job empty_db))"

definition complete_ingest :: "'w attempt \<Rightarrow> ingestion_job \<Rightarrow> (db_row list \<times> sbom) option" where
  "complete_ingest env job =
     (case parsed env job of
        Inl _ \<Rightarrow> None
      | Inr (sb, p) \<Rightarrow>
          (case resolved_packages env job p of
             Inl _ \<Rightarrow> None
           | Inr q \<Rightarrow>
               map_option (\<lambda>vulns. (finding_rows env job (owned_sbom job sb) q vulns, owned_sbom job sb))
                 (find_vulnerabilities env job (owned_sbom job sb) q)))"

definition is_marker :: "db_row \<Rightarrow> bool" where
  "is_marker r = (case r of SbomRow _ \<Rightarrow> True | _ \<Rightarrow> False)"

lemma is_marker_simps [simp]:
  "is_marker (SbomRow s)" "\<not> is_marker (DocumentRow d)" "\<not> is_marker (PackagesRow p)"
  "\<not> is_marker (VulnerabilityRows vs)" "\<not> is_marker (ComplianceRows cs)" "\<not> is_marker (packages_row q)"
  by (simp_all add: is_marker_def packages_row_def)

lemma finding_rows_unmarked: "r \<in> set (finding_rows env job sb q vulns) \<Longrightarrow> \<not> is_marker r"
  by (auto simp: finding_rows_def unless_empty_def split: if_splits)

subsection \<open>An attempt writes an initial part of its rows\<close>

fun write_rows ::
  "'w attempt \<Rightarrow> db_row list \<Rightarrow> (ingest_db \<Rightarrow> job_outcome \<times> ingest_db) \<Rightarrow> ingest_db \<Rightarrow> job_outcome \<times> ingest_db" where
  "write_rows env [] rest = rest"
| "write_rows env (r # rs) rest = write_row env r (write_rows env rs rest)"

fun stored_part :: "'w attempt \<Rightarrow> db_row list \<Rightarrow> db_row list" where
  "stored_part env [] = []"
| "stored_part env (r # rs) =
     (case at_insert env r of Refused \<Rightarrow> [] | StoredNoAck \<Rightarrow> [r] | Stored \<Rightarrow> r # stored_part env rs)"

definition all_acknowledged :: "'w attempt \<Rightarrow> db_row list \<Rightarrow> bool" where
  "all_acknowledged env rows = list_all (\<lambda>r. at_insert env r = Stored) rows"

definition append_rows :: "db_row list \<Rightarrow> ingest_db \<Rightarrow> ingest_db" where
  "append_rows rows db = db\<lparr>db_rows := db_rows db @ rows\<rparr>"

lemma append_rows_simps [simp]:
  "append_rows [] db = db" "append_rows rs (append_row r db) = append_rows (r # rs) db"
  "db_rows (append_rows rs db) = db_rows db @ rs" "append_row r db = append_rows [r] db"
  by (simp_all add: append_rows_def append_row_def)

lemma write_rows_spec:
  "write_rows env rows rest db =
     (if all_acknowledged env rows then rest (append_rows rows db) else (JobFailed, append_rows (stored_part env rows) db))"
proof (induction rows arbitrary: db)
  case (Cons r rs)
  have "write_rows env rs rest (append_row r db) =
     (if all_acknowledged env rs then rest (append_rows (r # rs) db)
      else (JobFailed, append_rows (r # stored_part env rs) db))"
    using Cons [of "append_row r db"] by (simp only: append_rows_simps(2))
  then show ?case
    by (simp add: write_row_def all_acknowledged_def del: append_rows_simps(4) split: insert_outcome.split)
       (simp add: append_rows_def append_row_def)
qed (simp add: all_acknowledged_def)

lemma stored_part_prefix: "\<exists>rest. rows = stored_part env rows @ rest"
  by (induction rows) (auto split: insert_outcome.split)

lemma write_rows_append: "write_rows env (xs @ ys) rest = write_rows env xs (write_rows env ys rest)"
  by (induction xs) simp_all

lemma write_unless_empty_rows:
  "write_unless_empty env row items rest = write_rows env (unless_empty row items) rest"
  by (simp add: write_unless_empty_def unless_empty_def)

lemma ingest_rows_script:
  "ingest_rows env job sb q =
     write_rows env (planned_rows env job sb q)
       (if find_vulnerabilities env job sb q = None then Pair JobPanicked else (\<lambda>db. (JobDone, rescue_after env db)))"
  by (cases "find_vulnerabilities env job sb q")
     (simp_all add: ingest_rows_def planned_rows_def finding_rows_def write_unless_empty_rows write_rows_append)

lemma rescue_after_rows [simp]: "db_rows (rescue_after env db) = db_rows db"
  by (simp add: rescue_after_def)

subsection \<open>The script of an attempt\<close>

lemma unhindered_simps [simp]:
  "parsed (unhindered env) job = parsed env job"
  "resolved_packages (unhindered env) job p = resolved_packages env job p"
  "find_vulnerabilities (unhindered env) job sb q = find_vulnerabilities env job sb q"
  "compliance_rows (unhindered env) job sb q = compliance_rows env job sb q"
proof -
  show "parsed (unhindered env) job = parsed env job" by (simp add: parsed_def unhindered_def)
  show "resolved_packages (unhindered env) job p = resolved_packages env job p"
    by (simp add: resolved_packages_def unhindered_def)
  have fields: "at_skip_osv (unhindered env) = at_skip_osv env" "at_batch (unhindered env) = at_batch env"
      "at_policy (unhindered env) = at_policy env" "at_exceptions (unhindered env) = at_exceptions env"
    by (simp_all add: unhindered_def)
  have v: "vulnerability_of (unhindered env) = vulnerability_of env"
    by (intro ext) (simp add: vulnerability_of_def unhindered_def split: option.split)
  have h: "hydrated (unhindered env) = hydrated env"
    by (intro ext) (simp add: hydrated_def unhindered_def)
  show "find_vulnerabilities (unhindered env) job sb q = find_vulnerabilities env job sb q"
    by (simp only: find_vulnerabilities_def fields v h)
  have c: "compliance_model (unhindered env) job sb = compliance_model env job sb"
    by (intro ext) (simp add: compliance_model_def unhindered_def)
  show "compliance_rows (unhindered env) job sb q = compliance_rows env job sb q"
    by (simp only: compliance_rows_def fields c)
qed

lemma planned_unhindered [simp]: "planned_rows (unhindered env) job sb q = planned_rows env job sb q"
  by (simp add: planned_rows_def finding_rows_def split: option.split)

lemma row_script_eq:
  "row_script env job =
     (case parsed env job of
        Inl _ \<Rightarrow> []
      | Inr (sb, p) \<Rightarrow>
          (case resolved_packages env job p of Inl _ \<Rightarrow> [] | Inr q \<Rightarrow> planned_rows env job (owned_sbom job sb) q))"
proof (cases "parsed env job")
  case (Inl e)
  then show ?thesis by (simp add: row_script_def process_sbom_job_def empty_db_def)
next
  case (Inr r)
  obtain sb p where r: "r = (sb, p)" by (cases r)
  have "at_store (unhindered env) = None" "\<not> sbom_exists empty_db i" "db_rows empty_db = []" for i
    by (simp_all add: unhindered_def sbom_exists_def empty_db_def)
  then have run: "row_script env job = db_rows (snd (resolve_and_write (unhindered env) job sb p empty_db))"
    by (simp add: row_script_def process_sbom_job_def Inr r)
  show ?thesis
  proof (cases "resolved_packages env job p")
    case (Inl e)
    then show ?thesis
      using run Inr r by (simp add: resolve_and_write_def empty_db_def split: github_error.split)
  next
    case ok: (Inr q)
    have "all_acknowledged (unhindered env) rows" for rows by (simp add: all_acknowledged_def unhindered_def list_all_iff)
    then show ?thesis
      using run Inr r by (simp add: resolve_and_write_def ok ingest_rows_script write_rows_spec empty_db_def)
  qed
qed

lemma script_marker:
  assumes "row_script env job = pre @ SbomRow s # post"
  shows "post = [] \<and> complete_ingest env job = Some (pre, s)"
proof -
  obtain sb p where parsed: "parsed env job = Inr (sb, p)"
    using assms by (auto simp: row_script_eq split: sum.splits)
  obtain q where q: "resolved_packages env job p = Inr q"
    using assms parsed by (auto simp: row_script_eq split: sum.splits)
  let ?sb = "owned_sbom job sb"
  have script: "planned_rows env job ?sb q = pre @ SbomRow s # post"
    using assms by (simp add: row_script_eq parsed q)
  have marked: "SbomRow s \<in> set (planned_rows env job ?sb q)" by (simp add: script)
  then obtain vulns where vulns: "find_vulnerabilities env job ?sb q = Some vulns"
    by (cases "find_vulnerabilities env job ?sb q") (auto simp: planned_rows_def packages_row_def)
  have rows: "finding_rows env job ?sb q vulns @ [SbomRow ?sb] = pre @ SbomRow s # post"
    using script by (simp add: planned_rows_def vulns)
  have "post = []"
  proof (rule ccontr)
    assume "post \<noteq> []"
    then have "SbomRow s \<in> set (finding_rows env job ?sb q vulns)"
      using rows by (cases post rule: rev_cases) auto
    then show False using finding_rows_unmarked by fastforce
  qed
  with rows have "finding_rows env job ?sb q vulns = pre" "SbomRow ?sb = SbomRow s"
    using append1_eq_conv by metis+
  moreover have "complete_ingest env job = Some (finding_rows env job ?sb q vulns, ?sb)"
    by (simp add: complete_ingest_def parsed q vulns)
  ultimately show ?thesis using \<open>post = []\<close> by simp
qed

text \<open>\<open>wrote\<close>: the rows an attempt added, and what its outcome tells about them.\<close>

definition wrote :: "'w attempt \<Rightarrow> ingestion_job \<Rightarrow> ingest_db \<Rightarrow> db_row list \<Rightarrow> db_row list \<Rightarrow> job_outcome \<times> ingest_db \<Rightarrow> bool" where
  "wrote env job db doc done res \<longleftrightarrow>
     db_rows (snd res) = db_rows db @ doc @ done \<and> (\<exists>rest. row_script env job = done @ rest) \<and>
     (\<forall>r \<in> set doc. \<exists>d. r = DocumentRow d) \<and>
     (fst res = JobDone \<longrightarrow> (\<exists>rows s. complete_ingest env job = Some (rows, s) \<and> done = rows @ [SbomRow s])) \<and>
     (fst res = JobSkipped \<longrightarrow> snd res = db)"

lemma wrote_nothing:
  "fst res \<noteq> JobDone \<Longrightarrow> fst res \<noteq> JobSkipped \<Longrightarrow> db_rows (snd res) = db_rows db \<Longrightarrow> wrote env job db [] [] res"
  by (simp add: wrote_def)

lemma resolve_and_write_wrote:
  assumes "parsed env job = Inr (sb, p)"
  shows "\<exists>done. wrote env job db [] done (resolve_and_write env job sb p db)"
proof (cases "resolved_packages env job p")
  case (Inl e)
  then have "wrote env job db [] [] (resolve_and_write env job sb p db)"
    by (intro wrote_nothing) (simp_all add: resolve_and_write_def split: github_error.split)
  then show ?thesis ..
next
  case (Inr q)
  let ?rows = "planned_rows env job (owned_sbom job sb) q"
  let ?rest = "if find_vulnerabilities env job (owned_sbom job sb) q = None then Pair JobPanicked
    else (\<lambda>db. (JobDone, rescue_after env db))"
  have script: "row_script env job = ?rows" by (simp add: row_script_eq assms Inr)
  have res: "resolve_and_write env job sb p db =
    (if all_acknowledged env ?rows then ?rest (append_rows ?rows db)
     else (JobFailed, append_rows (stored_part env ?rows) db))"
    unfolding resolve_and_write_def by (simp only: Inr sum.case ingest_rows_script write_rows_spec)
  show ?thesis
  proof (cases "all_acknowledged env ?rows")
    case True
    have "find_vulnerabilities env job (owned_sbom job sb) q \<noteq> None \<longrightarrow>
      (\<exists>rows s. complete_ingest env job = Some (rows, s) \<and> ?rows = rows @ [SbomRow s])"
      by (auto simp: complete_ingest_def assms Inr planned_rows_def)
    then have "wrote env job db [] ?rows (resolve_and_write env job sb p db)"
      unfolding res wrote_def using True script by auto
    then show ?thesis ..
  next
    case False
    obtain rest where "?rows = stored_part env ?rows @ rest" using stored_part_prefix by blast
    then have "wrote env job db [] (stored_part env ?rows) (resolve_and_write env job sb p db)"
      unfolding res wrote_def script using False by auto
    then show ?thesis ..
  qed
qed

lemma wrote_after_document:
  assumes "wrote env job db' [] done res" "db_rows db' = db_rows db @ [DocumentRow d]" "fst res \<noteq> JobSkipped"
  shows "wrote env job db [DocumentRow d] done res"
  using assms by (simp add: wrote_def)

lemma resolve_and_write_not_skipped: "fst (resolve_and_write env job sb p db) \<noteq> JobSkipped"
proof (cases "resolved_packages env job p")
  case (Inl e)
  then show ?thesis by (simp add: resolve_and_write_def split: github_error.split)
next
  case (Inr q)
  then show ?thesis by (simp add: resolve_and_write_def ingest_rows_script write_rows_spec)
qed

lemma remove_superseded_rows [simp]: "db_rows (remove_superseded env st previous res db) = db_rows db"
  by (simp add: remove_superseded_def split: option.split)

lemma capture_wrote:
  assumes "parsed env job = Inr (sb, p)"
  shows "\<exists>doc done. wrote env job db doc done (capture_original env st job raw sb (resolve_and_write env job sb p) db)"
proof (cases "store_put (at_compress env) (at_store_ok env) st (document_key (sb_sbom_id sb) (pl_source_file (jb_payload job))) raw
    (db_storage db)")
  case None
  then have "wrote env job db [] [] (capture_original env st job raw sb (resolve_and_write env job sb p) db)"
    by (intro wrote_nothing) (simp_all add: capture_original_def Let_def)
  then show ?thesis by blast
next
  case (Some r)
  obtain res w where r: "r = (res, w)" by (cases r)
  let ?row = "document_row env st job raw sb res"
  let ?prev = "if at_previous_ok env then query_stored_document (db_rows db) (sb_sbom_id sb) else None"
  let ?db1 = "append_row (DocumentRow ?row) (db\<lparr>db_storage := w\<rparr>)"
  let ?go = "capture_original env st job raw sb (resolve_and_write env job sb p) db"
  have go: "?go = (case at_insert env (DocumentRow ?row) of
      Refused \<Rightarrow> (JobFailed, db\<lparr>db_storage := w\<rparr>) | StoredNoAck \<Rightarrow> (JobFailed, ?db1)
    | Stored \<Rightarrow> resolve_and_write env job sb p (remove_superseded env st ?prev res ?db1))"
    by (simp only: capture_original_def Let_def Some r option.case prod.case write_row_def)
  show ?thesis
  proof (cases "at_insert env (DocumentRow ?row)")
    case Stored
    let ?db2 = "remove_superseded env st ?prev res ?db1"
    obtain ws where "wrote env job ?db2 [] ws (resolve_and_write env job sb p ?db2)"
      using resolve_and_write_wrote [OF assms] by blast
    then have "wrote env job db [DocumentRow ?row] ws (resolve_and_write env job sb p ?db2)"
      by (rule wrote_after_document) (simp_all add: resolve_and_write_not_skipped)
    then show ?thesis unfolding go Stored insert_outcome.case by blast
  next
    case StoredNoAck
    then have "wrote env job db [DocumentRow ?row] [] ?go" unfolding go by (simp add: wrote_def)
    then show ?thesis by blast
  next
    case Refused
    then have "wrote env job db [] [] ?go" unfolding go by (simp add: wrote_def)
    then show ?thesis by blast
  qed
qed

lemma process_wrote: "\<exists>doc done. wrote env job db doc done (process_sbom_job env job db)"
proof (cases "parsed env job")
  case (Inl e)
  then have "wrote env job db [] [] (process_sbom_job env job db)" by (simp add: process_sbom_job_def wrote_def)
  then show ?thesis by blast
next
  case (Inr r)
  obtain sb p where r: "r = (sb, p)" by (cases r)
  show ?thesis
  proof (cases "at_exists_ok env \<and> sbom_exists db (sb_sbom_id sb)")
    case True
    then have "wrote env job db [] [] (process_sbom_job env job db)"
      by (simp add: process_sbom_job_def Inr r wrote_def)
    then show ?thesis by blast
  next
    case False
    then have "process_sbom_job env job db =
      (case at_store env of None \<Rightarrow> resolve_and_write env job sb p db
       | Some st \<Rightarrow> capture_original env st job (the (at_document env)) sb (resolve_and_write env job sb p) db)"
      by (simp only: process_sbom_job_def Inr r sum.case prod.case if_False)
    then show ?thesis
      using resolve_and_write_wrote Inr r capture_wrote by (cases "at_store env") (fastforce+)
  qed
qed

subsection \<open>Concurrent workers\<close>

text \<open>
  Any number of workers insert into the one log: a worker takes an attempt, inserts its rows one by one
  and may stop anywhere. Document rows are inserted at any time.
\<close>

inductive ingesting ::
  "('w attempt \<times> ingestion_job) set \<Rightarrow> db_row list \<Rightarrow> (nat \<Rightarrow> db_row list) \<Rightarrow> bool" for attempts where
  empty_log: "ingesting attempts [] (\<lambda>_. [])"
| take_attempt:
    "ingesting attempts rows_in pend \<Longrightarrow> pend i = [] \<Longrightarrow> (env, job) \<in> attempts \<Longrightarrow>
     ingesting attempts rows_in (pend(i := row_script env job))"
| insert_document: "ingesting attempts rows_in pend \<Longrightarrow> ingesting attempts (rows_in @ [DocumentRow d]) pend"
| insert_next: "ingesting attempts rows_in pend \<Longrightarrow> pend i = r # rs \<Longrightarrow> ingesting attempts (rows_in @ [r]) (pend(i := rs))"
| stop_attempt: "ingesting attempts rows_in pend \<Longrightarrow> ingesting attempts rows_in (pend(i := []))"

lemma ingesting_prefix:
  "ingesting attempts rows_in pend \<Longrightarrow> pend i = xs @ ys \<Longrightarrow> ingesting attempts (rows_in @ xs) (pend(i := ys))"
proof (induction xs arbitrary: rows_in pend)
  case Nil
  then have "pend(i := ys) = pend" by auto
  with Nil show ?case by simp
next
  case (Cons x xs)
  have "ingesting attempts (rows_in @ [x]) (pend(i := xs @ ys))"
    using Cons.prems by (intro insert_next) simp_all
  from Cons.IH [OF this fun_upd_same] show ?case
    by (simp only: fun_upd_upd append.assoc append_Cons append_Nil)
qed

lemma ingesting_documents:
  "ingesting attempts rows_in pend \<Longrightarrow> \<forall>r \<in> set rows. \<exists>d. r = DocumentRow d \<Longrightarrow> ingesting attempts (rows_in @ rows) pend"
proof (induction rows arbitrary: rows_in)
  case (Cons r rows)
  then obtain d where "r = DocumentRow d" by auto
  with Cons.prems have "ingesting attempts (rows_in @ [r]) pend" by (simp add: insert_document)
  from Cons.IH [OF this] Cons.prems(2) show ?case by simp
qed simp

text \<open>Every execution of the job is such a run of its worker.\<close>

lemma attempt_is_run:
  assumes "ingesting attempts (db_rows db) pend" "pend i = []" "(env, job) \<in> attempts"
  shows "ingesting attempts (db_rows (snd (process_sbom_job env job db))) pend"
proof -
  obtain doc ws where w: "wrote env job db doc ws (process_sbom_job env job db)" using process_wrote by blast
  then obtain rest where script: "row_script env job = ws @ rest" by (auto simp: wrote_def)
  have "ingesting attempts (db_rows db @ doc) pend"
    using ingesting_documents [OF assms(1)] w by (simp add: wrote_def)
  then have "ingesting attempts (db_rows db @ doc) (pend(i := ws @ rest))"
    using take_attempt [of attempts _ pend i env job] assms script by simp
  then have "ingesting attempts (db_rows db @ doc @ ws) (pend(i := ws @ rest, i := rest))"
    using ingesting_prefix [of attempts "db_rows db @ doc" "pend(i := ws @ rest)" i ws rest] by simp
  from stop_attempt [OF this, of i] have "ingesting attempts (db_rows db @ doc @ ws) (pend(i := []))" by simp
  moreover have "pend(i := []) = pend" using assms(2) by auto
  moreover have "db_rows (snd (process_sbom_job env job db)) = db_rows db @ doc @ ws"
    using w by (simp add: wrote_def)
  ultimately show ?thesis by simp
qed

definition marker_ok :: "('w attempt \<times> ingestion_job) set \<Rightarrow> db_row list \<Rightarrow> bool" where
  "marker_ok attempts rows_in \<longleftrightarrow>
     (\<forall>pre s post. rows_in = pre @ SbomRow s # post \<longrightarrow>
        (\<exists>(env, job) \<in> attempts. \<exists>rows. complete_ingest env job = Some (rows, s) \<and> subseq rows pre))"

definition pending_ok :: "('w attempt \<times> ingestion_job) set \<Rightarrow> db_row list \<Rightarrow> (nat \<Rightarrow> db_row list) \<Rightarrow> bool" where
  "pending_ok attempts rows_in pend \<longleftrightarrow>
     (\<forall>i. pend i \<noteq> [] \<longrightarrow> (\<exists>(env, job) \<in> attempts. \<exists>ws. row_script env job = ws @ pend i \<and> subseq ws rows_in))"

lemma pending_okD:
  "pending_ok attempts rows_in pend \<Longrightarrow> pend i \<noteq> [] \<Longrightarrow>
     \<exists>env job ws. (env, job) \<in> attempts \<and> row_script env job = ws @ pend i \<and> subseq ws rows_in"
  unfolding pending_ok_def by blast

lemma marker_ok_snoc:
  assumes "marker_ok attempts rows_in"
    and "\<And>s. r = SbomRow s \<Longrightarrow> \<exists>(env, job) \<in> attempts. \<exists>rows. complete_ingest env job = Some (rows, s) \<and> subseq rows rows_in"
  shows "marker_ok attempts (rows_in @ [r])"
  unfolding marker_ok_def
proof (intro allI impI)
  fix pre s post
  assume split: "rows_in @ [r] = pre @ SbomRow s # post"
  show "\<exists>(env, job) \<in> attempts. \<exists>rows. complete_ingest env job = Some (rows, s) \<and> subseq rows pre"
  proof (cases post rule: rev_cases)
    case Nil
    then show ?thesis using split assms(2) by simp
  next
    case (snoc ys y)
    then have "rows_in = pre @ SbomRow s # ys" using split by simp
    then show ?thesis using assms(1) unfolding marker_ok_def by blast
  qed
qed

lemma subseq_snoc: "subseq xs ys \<Longrightarrow> subseq xs (ys @ [y])"
  by (metis append_Nil2 list_emb_append_mono list_emb_Nil)

lemma pending_ok_snoc: "pending_ok attempts rows_in pend \<Longrightarrow> pending_ok attempts (rows_in @ [r]) pend"
  unfolding pending_ok_def using subseq_snoc by (fast intro: subseq_snoc)

lemma ingesting_invariant:
  "ingesting attempts rows_in pend \<Longrightarrow> marker_ok attempts rows_in \<and> pending_ok attempts rows_in pend"
proof (induction rule: ingesting.induct)
  case empty_log
  then show ?case by (simp add: marker_ok_def pending_ok_def)
next
  case (take_attempt rows_in pend i env job)
  have "row_script env job = [] @ row_script env job \<and> subseq [] rows_in" by simp
  then show ?case using take_attempt unfolding pending_ok_def by fastforce
next
  case (insert_document rows_in pend d)
  then show ?case using marker_ok_snoc pending_ok_snoc by blast
next
  case (insert_next rows_in pend i r rs)
  then obtain env job ws where e: "(env, job) \<in> attempts" "row_script env job = ws @ r # rs" "subseq ws rows_in"
    using pending_okD [of attempts rows_in pend i] by auto
  have "marker_ok attempts (rows_in @ [r])"
    using insert_next.IH script_marker [of env job ws _ rs] e by (intro marker_ok_snoc) auto
  moreover have "row_script env job = (ws @ [r]) @ rs \<and> subseq (ws @ [r]) (rows_in @ [r])"
    using e by (simp add: list_emb_append_mono)
  then have "pending_ok attempts (rows_in @ [r]) (pend(i := rs))"
    using pending_ok_snoc insert_next.IH e(1) unfolding pending_ok_def by fastforce
  ultimately show ?case ..
next
  case (stop_attempt rows_in pend i)
  then show ?case by (simp add: pending_ok_def)
qed

subsection \<open>The SBOM row is the commit marker\<close>

lemma complete_is_parsed: "complete_ingest env job = Some (rows, s) \<Longrightarrow> \<exists>sb p. parsed env job = Inr (sb, p) \<and> s = owned_sbom job sb"
  by (auto simp: complete_ingest_def split: sum.splits)

lemma owned_sbom_id [simp]: "sb_sbom_id (owned_sbom job sb) = sb_sbom_id sb"
  by (simp add: owned_sbom_def apply_source_override_def apply_sbom_def Let_def)

text \<open>
  C16: an attempt adds at most a document row and then an initial part of its rows, the SBOM's own row
  last. When it reports success all of them are stored, and every later attempt of a document with the
  same id whose existence query works is skipped and changes nothing.
\<close>

theorem attempt_outcome:
  fixes env :: "'w attempt"
  assumes "process_sbom_job env job db = (outcome, db')"
  shows "\<exists>doc stored missing. db_rows db' = db_rows db @ doc @ stored \<and> row_script env job = stored @ missing \<and>
      (\<forall>r \<in> set doc. \<exists>d. r = DocumentRow d) \<and> (outcome = JobSkipped \<longrightarrow> db' = db) \<and>
      (outcome = JobDone \<longrightarrow> (\<exists>rows s. complete_ingest env job = Some (rows, s) \<and> stored = rows @ [SbomRow s] \<and>
         (\<forall>(env' :: 'w attempt) job' sb p. parsed env' job' = Inr (sb, p) \<and> at_exists_ok env' \<and> sb_sbom_id sb = sb_sbom_id s \<longrightarrow>
            process_sbom_job env' job' db' = (JobSkipped, db'))))"
proof -
  obtain doc ws where w: "wrote env job db doc ws (outcome, db')" using process_wrote assms by metis
  then obtain rest where script: "row_script env job = ws @ rest" by (auto simp: wrote_def)
  have "process_sbom_job env' job' db' = (JobSkipped, db')"
    if "ws = rows @ [SbomRow s]" "parsed env' job' = Inr (sb, p)" "at_exists_ok env'" "sb_sbom_id sb = sb_sbom_id s"
    for rows s job' sb p and env' :: "'w attempt"
  proof -
    have "sbom_exists db' (sb_sbom_id sb)" using w that by (auto simp: wrote_def sbom_exists_def)
    with that show ?thesis by (simp add: process_sbom_job_def)
  qed
  moreover have "outcome = JobDone \<longrightarrow> (\<exists>rows s. complete_ingest env job = Some (rows, s) \<and> ws = rows @ [SbomRow s])"
    using w by (simp add: wrote_def)
  ultimately have done_case: "outcome = JobDone \<longrightarrow> (\<exists>rows s. complete_ingest env job = Some (rows, s) \<and> ws = rows @ [SbomRow s] \<and>
         (\<forall>(env' :: 'w attempt) job' sb p. parsed env' job' = Inr (sb, p) \<and> at_exists_ok env' \<and> sb_sbom_id sb = sb_sbom_id s \<longrightarrow>
            process_sbom_job env' job' db' = (JobSkipped, db')))"
    by blast
  have "db_rows db' = db_rows db @ doc @ ws" "\<forall>r \<in> set doc. \<exists>d. r = DocumentRow d" "outcome = JobSkipped \<longrightarrow> db' = db"
    using w by (simp_all add: wrote_def)
  with script done_case show ?thesis by blast
qed

text \<open>
  C15: however many workers insert concurrently and wherever they stop, a visible SBOM is complete: its own
  row comes after all the rows of a whole attempt, packages, vulnerabilities and license findings.
\<close>

theorem visible_sbom_complete:
  assumes "ingesting attempts rows_in pend" "rows_in = before @ SbomRow s # after"
  shows "\<exists>(env, job) \<in> attempts. \<exists>rows. complete_ingest env job = Some (rows, s) \<and> subseq rows before"
  using ingesting_invariant [OF assms(1)] assms(2) unfolding marker_ok_def by blast

text \<open>A document with one dependency of unknown license, ingested without and with a registry that knows it.\<close>

definition attempt_document :: spdx_document where
  "attempt_document = empty_spdx\<lparr>sd_version := ''SPDX-2.3'', sd_name := ''app'', sd_describes := [''A''],
     sd_packages := [sample_package ''A'' ''app'',
       (sample_package ''B'' ''lib'')\<lparr>pk_license_concluded := ''NOASSERTION'',
          pk_external_refs := [\<lparr>xr_category = ''PACKAGE-MANAGER'', xr_type = ''purl'', xr_locator = ''pkg:npm/a''\<rparr>]\<rparr>],
     sd_relationships := [\<lparr>rl_element = ''A'', rl_type = ''DEPENDS_ON'', rl_related = ''B''\<rparr>]\<rparr>"

definition sample_attempt :: "unit attempt" where
  "sample_attempt =
     \<lparr>at_now = 0, at_library = sample_library\<lparr>lib_spdx := \<lambda>_ _. Decoded attempt_document\<rparr>, at_use_protobom = False,
      at_document = Some ''{}'', at_exists_ok = True, at_store = None, at_compress = Some, at_sha256 = (\<lambda>d. d),
      at_store_ok = True, at_previous_ok = True, at_delete_ok = True, at_github = None, at_reset_at = 0, at_resolvers = [],
      at_world = (), at_skip_osv = True, at_batch = (\<lambda>_ _. ContextDone), at_entry = (\<lambda>_ _. ContextDone),
      at_osv_cache = Map.empty, at_stop = None, at_number = (\<lambda>_. None), at_policy = initial_policy,
      at_exceptions = None, at_insert = (\<lambda>_. Stored), at_resolve_ok = True, at_vex_outcome = StoreOk\<rparr>"

definition interrupted_attempt :: "unit attempt" where
  "interrupted_attempt = sample_attempt\<lparr>at_insert := \<lambda>r. if is_marker r then Refused else Stored\<rparr>"

definition retried_attempt :: "unit attempt" where
  "retried_attempt = sample_attempt\<lparr>at_resolvers := [sample_resolver]\<rparr>"

definition compliance_of :: "db_row list \<Rightarrow> license_compliance list" where
  "compliance_of rows = concat (map (\<lambda>r. case r of ComplianceRows cs \<Rightarrow> cs | _ \<Rightarrow> []) rows)"

definition attempt_sbom :: sbom where
  "attempt_sbom =
     \<lparr>sb_ingested_at = 0, sb_sbom_id = [], sb_source_file = ''v.json'', sb_spdx_version = ''SPDX-2.3'', sb_document_name = ''app'',
      sb_document_namespace = [], sb_sha256_hash = [], sb_creation_date = 0, sb_creator_tools = [], sb_cluster = [],
      sb_namespace = [], sb_project = [], sb_source_repo = [], sb_source_ref = [], sb_document_version = [], sb_tags = [],
      sb_parent = [], sb_root_purl = [], sb_supplier = []\<rparr>"

definition attempt_packages :: sbom_packages where
  "attempt_packages =
     \<lparr>sp_ingested_at = 0, sp_sbom_id = [], sp_source_file = ''v.json'', sp_spdx_ids = [''A'', ''B''], sp_names = [''app'', ''lib''],
      sp_versions = [[], []], sp_purls = [[], ''pkg:npm/a''], sp_licenses = [''MIT'', ''NOASSERTION''], sp_license_sources = [],
      sp_rel_sources = [0], sp_rel_targets = [1], sp_rel_types = [''DEPENDS_ON''], sp_depths = [0, 1], sp_cluster = [],
      sp_namespace = [], sp_project = [], sp_root_indices = [0], sp_direct_indices = []\<rparr>"

lemma attempt_parsed: "parsed sample_attempt sample_vex_job = Inr (attempt_sbom, attempt_packages)"
  by code_simp

definition attempt_resolved :: "string \<Rightarrow> string \<Rightarrow> sbom_packages" where
  "attempt_resolved lic src = apply_packages (ownership_of sample_vex_job)
     (attempt_packages\<lparr>sp_licenses := [''MIT'', lic], sp_license_sources := [''declared'', src]\<rparr>)"

lemma attempt_unresolved:
  "resolved_packages interrupted_attempt sample_vex_job attempt_packages = Inr (attempt_resolved ''NOASSERTION'' reason_unresolved)"
  by code_simp

lemma retry_resolved:
  "resolved_packages retried_attempt sample_vex_job attempt_packages = Inr (attempt_resolved ''MIT'' ''npm+latest'')"
  by code_simp

lemma attempts_parsed:
  "parsed retried_attempt sample_vex_job = Inr (attempt_sbom, attempt_packages)"
  "parsed interrupted_attempt sample_vex_job = Inr (attempt_sbom, attempt_packages)"
  using attempt_parsed by (simp_all add: parsed_def retried_attempt_def interrupted_attempt_def)

definition license_findings :: "license_compliance list \<Rightarrow> (string \<times> string list) list" where
  "license_findings cs = map (\<lambda>c. (lc_license_id c, lc_non_compliant c)) cs"

lemma attempt_compliance:
  "license_findings (compliance_rows interrupted_attempt sample_vex_job (owned_sbom sample_vex_job attempt_sbom)
      (attempt_resolved ''NOASSERTION'' reason_unresolved)) = [(''NOASSERTION'', [''lib''])]"
  "license_findings (compliance_rows retried_attempt sample_vex_job (owned_sbom sample_vex_job attempt_sbom)
      (attempt_resolved ''MIT'' ''npm+latest'')) = [(''MIT'', [])]"
  by code_simp+

lemma skipped_osv: "at_skip_osv env \<Longrightarrow> find_vulnerabilities env job sb q = Some []"
  by (simp add: find_vulnerabilities_def)

lemma license_findings_Nil [simp]: "license_findings [] = []"
  by (simp add: license_findings_def)

lemma script_without_osv:
  assumes "parsed env job = Inr (sb, p)" "resolved_packages env job p = Inr q" "at_skip_osv env"
    and "license_findings (compliance_rows env job (owned_sbom job sb) q) \<noteq> []"
  shows "row_script env job =
    [packages_row q, ComplianceRows (compliance_rows env job (owned_sbom job sb) q), SbomRow (owned_sbom job sb)]"
  using assms(4)
  by (auto simp: row_script_eq assms(1,2) planned_rows_def skipped_osv [OF assms(3)] finding_rows_def unless_empty_def)

lemma process_by_script:
  assumes "parsed env job = Inr (sb, p)" "resolved_packages env job p = Inr q" "at_skip_osv env" "at_store env = None"
    and "\<not> sbom_exists db (sb_sbom_id sb)"
  shows "process_sbom_job env job db =
    (if all_acknowledged env (row_script env job) then (JobDone, rescue_after env (append_rows (row_script env job) db))
     else (JobFailed, append_rows (stored_part env (row_script env job)) db))"
proof -
  have "process_sbom_job env job db = ingest_rows env job (owned_sbom job sb) q db"
    by (simp add: process_sbom_job_def assms resolve_and_write_def)
  moreover have "row_script env job = planned_rows env job (owned_sbom job sb) q"
    by (simp add: row_script_eq assms(1,2))
  ultimately show ?thesis
    by (simp add: ingest_rows_script skipped_osv [OF assms(3)] write_rows_spec)
qed

lemma compliance_of_simps [simp]:
  "compliance_of (xs @ ys) = compliance_of xs @ compliance_of ys" "compliance_of [] = []"
  "compliance_of (ComplianceRows cs # rows) = cs @ compliance_of rows"
  "compliance_of (SbomRow s # rows) = compliance_of rows" "compliance_of (packages_row q # rows) = compliance_of rows"
  by (simp_all add: compliance_of_def packages_row_def)

lemma license_findings_append [simp]: "license_findings (xs @ ys) = license_findings xs @ license_findings ys"
  by (simp add: license_findings_def)

text \<open>
  The retry of an interrupted attempt leaves the first attempt's compliance row of a license the retry no
  longer finds: the table's key has the license, so nothing replaces the row.
\<close>

lemma stale_compliance_survives:
  defines "first \<equiv> process_sbom_job interrupted_attempt sample_vex_job empty_db"
  defines "second \<equiv> process_sbom_job retried_attempt sample_vex_job (snd first)"
  shows "fst first = JobFailed" "fst second = JobDone"
    "license_findings (compliance_of (db_rows (snd second))) = [(''NOASSERTION'', [''lib'']), (''MIT'', [])]"
proof -
  have skip: "at_skip_osv interrupted_attempt" "at_skip_osv retried_attempt" "at_store interrupted_attempt = None"
      "at_store retried_attempt = None"
    by (simp_all add: interrupted_attempt_def retried_attempt_def sample_attempt_def)
  have insert: "at_insert interrupted_attempt = (\<lambda>r. if is_marker r then Refused else Stored)"
      "at_insert retried_attempt = (\<lambda>_. Stored)"
    by (simp_all add: interrupted_attempt_def retried_attempt_def sample_attempt_def)
  let ?c1 = "compliance_rows interrupted_attempt sample_vex_job (owned_sbom sample_vex_job attempt_sbom)
      (attempt_resolved ''NOASSERTION'' reason_unresolved)"
  let ?c2 = "compliance_rows retried_attempt sample_vex_job (owned_sbom sample_vex_job attempt_sbom)
      (attempt_resolved ''MIT'' ''npm+latest'')"
  note script1 = script_without_osv [OF attempts_parsed(2) attempt_unresolved skip(1)]
  note script2 = script_without_osv [OF attempts_parsed(1) retry_resolved skip(2)]
  have "\<not> sbom_exists empty_db (sb_sbom_id attempt_sbom)" by (simp add: sbom_exists_def empty_db_def)
  note one = process_by_script [OF attempts_parsed(2) attempt_unresolved skip(1,3) this]
  have first: "first = (JobFailed, append_rows [packages_row (attempt_resolved ''NOASSERTION'' reason_unresolved),
      ComplianceRows ?c1] empty_db)"
    unfolding first_def one by (simp add: script1 attempt_compliance all_acknowledged_def insert)
  then have "\<not> sbom_exists (snd first) (sb_sbom_id attempt_sbom)"
    by (simp add: sbom_exists_def empty_db_def packages_row_def)
  note two = process_by_script [OF attempts_parsed(1) retry_resolved skip(2,4) this]
  have "fst second = JobDone \<and> db_rows (snd second) = db_rows (snd first) @
      [packages_row (attempt_resolved ''MIT'' ''npm+latest''), ComplianceRows ?c2, SbomRow (owned_sbom sample_vex_job attempt_sbom)]"
    unfolding second_def two by (simp add: script2 attempt_compliance all_acknowledged_def insert)
  with first show "fst first = JobFailed" "fst second = JobDone"
    "license_findings (compliance_of (db_rows (snd second))) = [(''NOASSERTION'', [''lib'']), (''MIT'', [])]"
    by (simp_all add: empty_db_def attempt_compliance)
qed

lemma retry_script:
  "\<exists>cs. row_script retried_attempt sample_vex_job =
     [packages_row (attempt_resolved ''MIT'' ''npm+latest''), ComplianceRows cs, SbomRow (owned_sbom sample_vex_job attempt_sbom)]"
proof -
  have "at_skip_osv retried_attempt" by (simp add: retried_attempt_def sample_attempt_def)
  from script_without_osv [OF attempts_parsed(1) retry_resolved this] show ?thesis
    by (simp add: attempt_compliance)
qed

lemma attempt_outcome_witness:
  "\<exists>db'. process_sbom_job retried_attempt sample_vex_job empty_db = (JobDone, db') \<and>
     process_sbom_job retried_attempt sample_vex_job db' = (JobSkipped, db')"
proof -
  have env: "at_skip_osv retried_attempt" "at_store retried_attempt = None" "at_exists_ok retried_attempt"
      "at_insert retried_attempt = (\<lambda>_. Stored)"
    by (simp_all add: retried_attempt_def sample_attempt_def)
  have "\<not> sbom_exists empty_db (sb_sbom_id attempt_sbom)" by (simp add: sbom_exists_def empty_db_def)
  from process_by_script [OF attempts_parsed(1) retry_resolved env(1,2) this]
  obtain db' where run: "process_sbom_job retried_attempt sample_vex_job empty_db = (JobDone, db')"
    by (auto simp: all_acknowledged_def env list_all_iff)
  from attempt_outcome [OF this] obtain rows s where s: "complete_ingest retried_attempt sample_vex_job = Some (rows, s)"
    and skip: "\<And>(env' :: unit attempt) job' sb p. parsed env' job' = Inr (sb, p) \<Longrightarrow> at_exists_ok env' \<Longrightarrow> sb_sbom_id sb = sb_sbom_id s \<Longrightarrow>
            process_sbom_job env' job' db' = (JobSkipped, db')"
    by blast
  have "sb_sbom_id attempt_sbom = sb_sbom_id s" using complete_is_parsed [OF s] attempts_parsed(1) by auto
  from skip [OF attempts_parsed(1) env(3) this] run show ?thesis by blast
qed

lemma visible_sbom_complete_witness:
  "\<exists>rows_in pend rows s. ingesting {(retried_attempt, sample_vex_job)} rows_in pend \<and> SbomRow s \<in> set rows_in \<and>
     complete_ingest retried_attempt sample_vex_job = Some (rows, s) \<and> subseq rows rows_in"
proof -
  let ?attempts = "{(retried_attempt, sample_vex_job)}"
  obtain cs where script: "row_script retried_attempt sample_vex_job = [packages_row (attempt_resolved ''MIT'' ''npm+latest''),
      ComplianceRows cs] @ [SbomRow (owned_sbom sample_vex_job attempt_sbom)]"
    using retry_script by auto
  let ?s = "owned_sbom sample_vex_job attempt_sbom"
  let ?pre = "[packages_row (attempt_resolved ''MIT'' ''npm+latest''), ComplianceRows cs]"
  have "ingesting ?attempts [] ((\<lambda>_. [])(0 := (?pre @ [SbomRow ?s]) @ []))"
    unfolding append_Nil2 script [symmetric] by (rule take_attempt [OF empty_log]) simp_all
  from ingesting_prefix [OF this, of 0 "?pre @ [SbomRow ?s]" "[]"]
  have run: "ingesting ?attempts (?pre @ [SbomRow ?s]) (\<lambda>_. [])" by (simp add: fun_upd_def cong: if_cong)
  from visible_sbom_complete [OF run, of ?pre ?s "[]"]
  obtain rows where "complete_ingest retried_attempt sample_vex_job = Some (rows, ?s)" "subseq rows ?pre" by auto
  moreover have "subseq ?pre (?pre @ [SbomRow ?s])" by (rule subseq_snoc) simp
  ultimately show ?thesis using run subseq_order.order_trans by fastforce
qed

end
