(* ===== verification/Cve_Refresh.thy ===== *)
theory Cve_Refresh
  imports Sbom_Job
begin

text \<open>
  The CVE refresher: \<open>run\<close> and \<open>buildRows\<close> of \<open>backend/cmd/cve-refresher/main.go\<close> with the queries of
  \<open>backend/internal/clickhouse/queries_refresh.go\<close>, over the row log of the SBOM jobs and the log of
  refresh runs. Which query, batch or insert fails is part of the environment of a run. The order of
  \<open>SELECT DISTINCT\<close> and of a Go map is that of the rows here.
\<close>

subsection \<open>Queries\<close>

record refresh_log =
  rl_refresh_id :: nat
  rl_started_at :: int
  rl_finished_at :: int
  rl_purls_checked :: nat
  rl_new_vulns_found :: nat
  rl_status :: string

record sbom_ref =
  rf_sbom_id :: string
  rf_source_file :: string
  rf_depth :: "16 word"
  rf_cluster :: string
  rf_namespace :: string
  rf_project :: string

definition packages_of_log :: "db_row list \<Rightarrow> sbom_packages list" where
  "packages_of_log rows = List.map_filter (\<lambda>r. case r of PackagesRow p \<Rightarrow> Some p | _ \<Rightarrow> None) rows"

text \<open>\<open>sbom_packages FINAL\<close>: the newest row of each SBOM.\<close>

fun final_packages :: "sbom_packages list \<Rightarrow> sbom_packages list" where
  "final_packages [] = []"
| "final_packages (p # ps) =
     (if list_ex (\<lambda>q. sp_sbom_id q = sp_sbom_id p \<and> sp_ingested_at p \<le> sp_ingested_at q) ps then final_packages ps
      else p # filter (\<lambda>q. sp_sbom_id q \<noteq> sp_sbom_id p) (final_packages ps))"

definition current_packages :: "db_row list \<Rightarrow> sbom_packages list" where
  "current_packages rows = final_packages (packages_of_log rows)"

definition vulnerabilities_of :: "db_row list \<Rightarrow> vulnerability list" where
  "vulnerabilities_of rows = concat (map (\<lambda>r. case r of VulnerabilityRows vs \<Rightarrow> vs | _ \<Rightarrow> []) rows)"

definition query_distinct_purls :: "db_row list \<Rightarrow> string list" where
  "query_distinct_purls rows = remdups (filter (\<lambda>x. x \<noteq> []) (concat (map sp_purls (current_packages rows))))"

definition vuln_key :: "string \<times> string \<Rightarrow> string" where
  "vuln_key d = fst d @ [CHR 0x00] @ snd d"

text \<open>The pairs of all rows are those of the rows \<open>FINAL\<close> keeps, for both columns are in the key.\<close>

definition query_existing_vuln_keys :: "db_row list \<Rightarrow> string set" where
  "query_existing_vuln_keys rows = set (map (\<lambda>v. vuln_key (vu_vuln_id v, vu_purl v)) (vulnerabilities_of rows))"

definition ref_of :: "string \<Rightarrow> sbom_packages \<Rightarrow> sbom_ref" where
  "ref_of purl p =
     \<lparr>rf_sbom_id = sp_sbom_id p, rf_source_file = sp_source_file p,
      rf_depth = min_depth_for_purl (sp_purls p) (pad_to (length (sp_purls p)) unknown (sp_depths p)) purl,
      rf_cluster = sp_cluster p, rf_namespace = sp_namespace p, rf_project = sp_project p\<rparr>"

definition query_sboms_by_purls :: "db_row list \<Rightarrow> string list \<Rightarrow> string \<rightharpoonup> sbom_ref list" where
  "query_sboms_by_purls rows purls purl =
     (let refs = map (ref_of purl) (filter (\<lambda>p. purl \<in> set (sp_purls p)) (current_packages rows))
      in if purl \<in> set purls \<and> refs \<noteq> [] then Some refs else None)"

subsection \<open>The scan\<close>

record refresh_env =
  re_id :: nat
  re_now :: "nat \<Rightarrow> int"
  re_purls_ok :: bool
  re_keys_ok :: bool
  re_cancelled :: "nat \<Rightarrow> bool"
  re_batch :: "string list \<Rightarrow> nat \<Rightarrow> batch_response http_answer"
  re_entry :: "string \<Rightarrow> nat \<Rightarrow> vuln_entry http_answer"
  re_osv_cache :: "string \<rightharpoonup> vuln_entry"
  re_stop :: "nat option"
  re_number :: "string \<Rightarrow> rat option"
  re_lookup_ok :: "nat \<Rightarrow> bool"
  re_insert :: "vulnerability list \<Rightarrow> insert_outcome"
  re_log_ok :: bool

text \<open>The pairs found in a batch that are not yet known, and the pairs known from then on.\<close>

fun note_new :: "(string \<times> string) list \<Rightarrow> string set \<Rightarrow> (string \<times> string) list \<times> string set" where
  "note_new [] seen = ([], seen)"
| "note_new (d # ds) seen =
     (if vuln_key d \<in> seen then note_new ds seen
      else (case note_new ds (insert (vuln_key d) seen) of (new, seen') \<Rightarrow> (d # new, seen')))"

datatype scan_result = ScanCancelled | ScanPanic | ScanDone nat "(string \<times> string) list"

fun scan_chunks ::
  "refresh_env \<Rightarrow> nat \<Rightarrow> string list list \<Rightarrow> nat \<Rightarrow> (string \<times> string) list \<Rightarrow> string set \<Rightarrow> scan_result" where
  "scan_chunks env k [] checked new seen = ScanDone checked new"
| "scan_chunks env k (chunk # chunks) checked new seen =
     (if re_cancelled env k then ScanCancelled
      else (case query_batch (re_batch env) chunk of
              Inl _ \<Rightarrow> scan_chunks env (Suc k) chunks (checked + length chunk) new seen
            | Inr results \<Rightarrow>
                (case discover chunk results of
                   None \<Rightarrow> ScanPanic
                 | Some ds \<Rightarrow>
                     (case note_new ds seen of
                        (fresh, seen') \<Rightarrow> scan_chunks env (Suc k) chunks (checked + length chunk) (new @ fresh) seen'))))"

subsection \<open>Rows\<close>

definition refresh_row :: "(string \<Rightarrow> rat option) \<Rightarrow> int \<Rightarrow> vuln_entry \<Rightarrow> string \<Rightarrow> sbom_ref \<Rightarrow> vulnerability" where
  "refresh_row number now h purl ref =
     (build_vulnerability number now h (rf_sbom_id ref) (rf_source_file ref) purl (rf_depth ref))
       \<lparr>vu_cluster := rf_cluster ref, vu_namespace := rf_namespace ref, vu_project := rf_project ref\<rparr>"

fun build_rows ::
  "(string \<Rightarrow> rat option) \<Rightarrow> int \<Rightarrow> (string \<rightharpoonup> vuln_entry) \<Rightarrow> (string \<Rightarrow> sbom_ref list) \<Rightarrow> (string \<times> string) list
     \<Rightarrow> vulnerability list \<times> string list" where
  "build_rows number now details sboms_for [] = ([], [])"
| "build_rows number now details sboms_for ((v, purl) # new) =
     (case build_rows number now details sboms_for new of
        (rows, deferred) \<Rightarrow>
          (case details v of
             None \<Rightarrow> (rows, v # deferred)
           | Some h \<Rightarrow> (map (refresh_row number now h purl) (sboms_for purl) @ rows, deferred)))"

definition purl_chunk :: nat where "purl_chunk = 2000"
definition insert_batch :: nat where "insert_batch = 10000"

text \<open>The lookups of all chunks; \<open>None\<close> when one fails.\<close>

definition lookup_sboms :: "refresh_env \<Rightarrow> db_row list \<Rightarrow> string list \<Rightarrow> (string \<rightharpoonup> sbom_ref list) option" where
  "lookup_sboms env rows purls =
     (if list_all (re_lookup_ok env) [0..<length (chunked purl_chunk purls)]
      then Some (foldl (\<lambda>m chunk. m ++ query_sboms_by_purls rows chunk) Map.empty (chunked purl_chunk purls))
      else None)"

fun insert_all :: "refresh_env \<Rightarrow> vulnerability list list \<Rightarrow> db_row list \<Rightarrow> bool \<times> db_row list" where
  "insert_all env [] rows = (True, rows)"
| "insert_all env (b # bs) rows =
     (case re_insert env b of
        Refused \<Rightarrow> (False, rows)
      | StoredNoAck \<Rightarrow> (False, rows @ [VulnerabilityRows b])
      | Stored \<Rightarrow> insert_all env bs (rows @ [VulnerabilityRows b]))"

subsection \<open>A run\<close>

datatype refresh_outcome = RefreshCompleted | RefreshFailed | RefreshCancelled | RefreshPanicked

definition log_entry :: "refresh_env \<Rightarrow> nat \<Rightarrow> nat \<Rightarrow> nat \<Rightarrow> string \<Rightarrow> refresh_log" where
  "log_entry env tick checked n_new status =
     \<lparr>rl_refresh_id = re_id env, rl_started_at = re_now env 0, rl_finished_at = re_now env tick,
      rl_purls_checked = checked, rl_new_vulns_found = n_new, rl_status = status\<rparr>"

text \<open>A refused log entry loses the entry; only the last one makes the run fail.\<close>

definition write_log :: "refresh_env \<Rightarrow> refresh_log \<Rightarrow> refresh_log list \<Rightarrow> refresh_log list" where
  "write_log env e logs = (if re_log_ok env then logs @ [e] else logs)"

definition write_fail_log :: "refresh_env \<Rightarrow> db_row list \<Rightarrow> refresh_log list \<Rightarrow> refresh_outcome \<times> db_row list \<times> refresh_log list" where
  "write_fail_log env rows logs = (RefreshFailed, rows, write_log env (log_entry env 2 0 0 ''failed'') logs)"

definition complete_run ::
  "refresh_env \<Rightarrow> nat \<Rightarrow> nat \<Rightarrow> db_row list \<Rightarrow> refresh_log list \<Rightarrow> refresh_outcome \<times> db_row list \<times> refresh_log list" where
  "complete_run env checked n_new rows logs =
     (if re_log_ok env then RefreshCompleted else RefreshFailed, rows,
      write_log env (log_entry env 2 checked n_new ''completed'') logs)"

definition details_of :: "refresh_env \<Rightarrow> string list \<Rightarrow> string \<rightharpoonup> vuln_entry" where
  "details_of env ids =
     (case fst (hydrate_vulns (get_vulnerability (re_entry env)) (re_stop env) (re_osv_cache env) ids) of
        None \<Rightarrow> Map.empty | Some m \<Rightarrow> m)"

definition store_new ::
  "refresh_env \<Rightarrow> nat \<Rightarrow> (string \<times> string) list \<Rightarrow> db_row list \<Rightarrow> refresh_log list
     \<Rightarrow> refresh_outcome \<times> db_row list \<times> refresh_log list" where
  "store_new env checked new rows logs =
     (case lookup_sboms env rows (remdups (map snd new)) of
        None \<Rightarrow> write_fail_log env rows logs
      | Some refs \<Rightarrow>
          (case build_rows (re_number env) (re_now env 1) (details_of env (unique_ids new))
                  (\<lambda>purl. case refs purl of None \<Rightarrow> [] | Some r \<Rightarrow> r) new of
             (vulns, deferred) \<Rightarrow>
               (case insert_all env (chunked insert_batch vulns) rows of
                  (False, rows') \<Rightarrow> write_fail_log env rows' logs
                | (True, rows') \<Rightarrow> complete_run env checked (length new - length deferred) rows' logs)))"

definition run_refresh ::
  "refresh_env \<Rightarrow> db_row list \<Rightarrow> refresh_log list \<Rightarrow> refresh_outcome \<times> db_row list \<times> refresh_log list" where
  "run_refresh env rows logs0 =
     (let logs = write_log env (log_entry env 0 0 0 ''running'') logs0; purls = query_distinct_purls rows
      in if \<not> re_purls_ok env then write_fail_log env rows logs
         else if purls = [] then complete_run env 0 0 rows logs
         else if \<not> re_keys_ok env then write_fail_log env rows logs
         else (case scan_chunks env 0 (osv_chunks purls) 0 [] (query_existing_vuln_keys rows) of
                 ScanCancelled \<Rightarrow> (RefreshCancelled, rows, logs)
               | ScanPanic \<Rightarrow> (RefreshPanicked, rows, logs)
               | ScanDone checked new \<Rightarrow>
                   if new = [] then complete_run env checked 0 rows logs
                   else store_new env checked new rows logs))"

text \<open>The end of the last completed run; no answer is the zero time.\<close>

definition query_last_refresh_time :: "refresh_log list \<Rightarrow> int option" where
  "query_last_refresh_time logs =
     (case map rl_finished_at (filter (\<lambda>l. rl_status l = ''completed'') logs) of
        [] \<Rightarrow> None | t # ts \<Rightarrow> Some (foldl max t ts))"

subsection \<open>The scan finds each unknown pair once\<close>

definition without_nul :: "(string \<times> string) list \<Rightarrow> bool" where
  "without_nul ds \<longleftrightarrow> list_all (\<lambda>(v, _). CHR 0x00 \<notin> set v) ds"

lemma cut_unique:
  "c \<notin> set xs \<Longrightarrow> c \<notin> set xs' \<Longrightarrow> xs @ c # ys = xs' @ c # ys' \<Longrightarrow> xs = xs' \<and> ys = ys'"
proof (induction xs arbitrary: xs')
  case Nil
  then show ?case by (cases xs') auto
next
  case (Cons x xs)
  then show ?case by (cases xs') auto
qed

lemma vuln_key_inj: "inj_on vuln_key {d. CHR 0x00 \<notin> set (fst d)}"
proof (rule inj_onI)
  fix d e :: "string \<times> string"
  assume "d \<in> {d. CHR 0x00 \<notin> set (fst d)}" "e \<in> {d. CHR 0x00 \<notin> set (fst d)}" "vuln_key d = vuln_key e"
  then have "fst d = fst e \<and> snd d = snd e"
    using cut_unique [of "CHR 0x00" "fst d" "fst e" "snd d" "snd e"] unfolding vuln_key_def mem_Collect_eq append_Cons append_Nil
    by blast
  then show "d = e" by (simp add: prod_eq_iff)
qed

lemma note_new_spec:
  assumes "note_new ds seen = (new, seen')" "set ds \<subseteq> D" "inj_on vuln_key D"
  shows "set new = {d \<in> set ds. vuln_key d \<notin> seen} \<and> distinct new \<and> seen' = seen \<union> vuln_key ` set ds"
  using assms
proof (induction ds seen arbitrary: new seen' rule: note_new.induct)
  case (2 d ds seen)
  show ?case
  proof (cases "vuln_key d \<in> seen")
    case True
    then have "note_new ds seen = (new, seen')" using 2(3) by simp
    then have "set new = {e \<in> set ds. vuln_key e \<notin> seen}" "distinct new" "seen' = seen \<union> vuln_key ` set ds"
      using 2(1) [OF True _ _ 2(5)] 2(4) by auto
    moreover have "{e \<in> set (d # ds). vuln_key e \<notin> seen} = {e \<in> set ds. vuln_key e \<notin> seen}"
      "seen \<union> vuln_key ` set (d # ds) = seen \<union> vuln_key ` set ds"
      using True by auto
    ultimately show ?thesis by simp
  next
    case False
    obtain new1 seen1 where r: "note_new ds (insert (vuln_key d) seen) = (new1, seen1)" by fastforce
    then have IH: "set new1 = {e \<in> set ds. vuln_key e \<notin> insert (vuln_key d) seen}" "distinct new1"
        "seen1 = insert (vuln_key d) seen \<union> vuln_key ` set ds"
      using 2(2) [OF False r] 2(4,5) by auto
    have dup: "vuln_key e = vuln_key d \<Longrightarrow> e = d" if "e \<in> set ds" for e
      using inj_onD [OF 2(5), of e d] 2(4) that by auto
    have "{e \<in> set (d # ds). vuln_key e \<notin> seen} = insert d {e \<in> set ds. vuln_key e \<notin> insert (vuln_key d) seen}"
      (is "?l = ?r")
    proof (rule set_eqI)
      fix e show "e \<in> ?l \<longleftrightarrow> e \<in> ?r" using False dup [of e] by (cases "e = d") auto
    qed
    moreover have "new = d # new1" "seen' = seen1" using False 2(3) r by simp_all
    ultimately show ?thesis using IH by simp
  qed
qed simp

lemma scan_chunks_spec:
  assumes "scan_chunks env k chs checked new seen = ScanDone n out"
  shows "\<exists>ds. discover_all (query_batch (re_batch env)) chs = Some ds \<and> n = checked + length (concat chs) \<and>
    (without_nul ds \<longrightarrow> (\<exists>added. out = new @ added \<and> distinct added \<and> set added = {d \<in> set ds. vuln_key d \<notin> seen}))"
  using assms
proof (induction chs arbitrary: k checked new seen)
  case (Cons chunk chs)
  have live: "\<not> re_cancelled env k" using Cons.prems by (auto split: if_splits)
  show ?case
  proof (cases "query_batch (re_batch env) chunk")
    case (Inl e)
    then have "scan_chunks env (Suc k) chs (checked + length chunk) new seen = ScanDone n out"
      using Cons.prems live by simp
    from Cons.IH [OF this] Inl show ?thesis by (simp add: add.assoc)
  next
    case (Inr results)
    then obtain ds where ds: "discover chunk results = Some ds"
      using Cons.prems live by (cases "discover chunk results") auto
    obtain fresh seen1 where n: "note_new ds seen = (fresh, seen1)" by fastforce
    have "scan_chunks env (Suc k) chs (checked + length chunk) (new @ fresh) seen1 = ScanDone n out"
      using Cons.prems live Inr ds n by simp
    from Cons.IH [OF this] obtain rest where rest: "discover_all (query_batch (re_batch env)) chs = Some rest"
      "n = checked + length chunk + length (concat chs)"
      "without_nul rest \<longrightarrow> (\<exists>added. out = (new @ fresh) @ added \<and> distinct added \<and> set added = {d \<in> set rest. vuln_key d \<notin> seen1})"
      by blast
    have "\<exists>added. out = new @ added \<and> distinct added \<and> set added = {d \<in> set (ds @ rest). vuln_key d \<notin> seen}" if nul: "without_nul (ds @ rest)"
    proof -
      let ?D = "{d :: string \<times> string. CHR 0x00 \<notin> set (fst d)}"
      have sub: "set ds \<subseteq> ?D" "set rest \<subseteq> ?D" "without_nul rest"
        using nul by (auto simp: without_nul_def list_all_iff)
      obtain added where added: "out = (new @ fresh) @ added" "distinct added" "set added = {d \<in> set rest. vuln_key d \<notin> seen1}"
        using rest(3) sub(3) by blast
      have f: "set fresh = {d \<in> set ds. vuln_key d \<notin> seen}" "distinct fresh" "seen1 = seen \<union> vuln_key ` set ds"
        using note_new_spec [OF n sub(1) vuln_key_inj] by simp_all
      have "e \<in> set ds" if "e \<in> set rest" "vuln_key e = vuln_key d" "d \<in> set ds" for e d
        using inj_onD [OF vuln_key_inj that(2)] sub(1,2) that(1,3) by auto
      then have "set (fresh @ added) = {d \<in> set (ds @ rest). vuln_key d \<notin> seen}"
        unfolding set_append added(3) f(1,3) by auto
      moreover have "distinct (fresh @ added)" using f added(2,3) by auto
      ultimately show ?thesis using added(1) by (intro exI [of _ "fresh @ added"]) simp
    qed
    then show ?thesis using Inr ds rest(1,2) by auto
  qed
qed (simp add: without_nul_def)

subsection \<open>A completed run adds exactly the missing findings\<close>

lemma build_rows_list:
  "fst (build_rows number now details sboms_for new) =
     concat (map (\<lambda>(v, purl). case details v of None \<Rightarrow> [] | Some h \<Rightarrow> map (refresh_row number now h purl) (sboms_for purl)) new)"
proof (induction new)
  case (Cons d new)
  obtain v purl where d: "d = (v, purl)" by fastforce
  obtain rows deferred where r: "build_rows number now details sboms_for new = (rows, deferred)" by fastforce
  then show ?case using Cons by (simp add: d split: option.split)
qed simp

text \<open>A SBOM has one current row.\<close>

lemma final_packages_distinct: "distinct (map sp_sbom_id (final_packages ps))"
  by (induction ps) (auto simp: distinct_map_filter)

lemma current_packages_distinct: "distinct (map sp_sbom_id (current_packages rows))"
  by (simp add: current_packages_def final_packages_distinct)

definition refs_for :: "db_row list \<Rightarrow> string \<Rightarrow> sbom_ref list" where
  "refs_for rows purl = map (ref_of purl) (filter (\<lambda>p. purl \<in> set (sp_purls p)) (current_packages rows))"

lemma lookup_fold:
  "foldl (\<lambda>m c. m ++ query_sboms_by_purls rows c) m cs purl =
     (if purl \<in> set (concat cs) \<and> refs_for rows purl \<noteq> [] then Some (refs_for rows purl) else m purl)"
  by (induction cs arbitrary: m) (auto simp: query_sboms_by_purls_def refs_for_def map_add_def)

lemma lookup_sboms_spec:
  assumes "lookup_sboms env rows purls = Some refs" "purl \<in> set purls"
  shows "(case refs purl of None \<Rightarrow> [] | Some r \<Rightarrow> r) = refs_for rows purl"
proof -
  have "refs = foldl (\<lambda>m c. m ++ query_sboms_by_purls rows c) Map.empty (chunked purl_chunk purls)"
    using assms(1) by (simp add: lookup_sboms_def split: if_splits)
  moreover have "set (concat (chunked purl_chunk purls)) = set purls" by (simp add: chunked_concat purl_chunk_def)
  ultimately show ?thesis using assms(2) lookup_fold [of rows Map.empty "chunked purl_chunk purls" purl] by auto
qed

lemma insert_all_stored: "insert_all env bs rows = (True, rows') \<Longrightarrow> rows' = rows @ map VulnerabilityRows bs"
proof (induction bs arbitrary: rows)
  case (Cons b bs)
  then have "insert_all env bs (rows @ [VulnerabilityRows b]) = (True, rows')"
    by (cases "re_insert env b") auto
  from Cons.IH [OF this] show ?case by simp
qed simp

lemma vulnerabilities_of_rows [simp]:
  "vulnerabilities_of (xs @ ys) = vulnerabilities_of xs @ vulnerabilities_of ys"
  "vulnerabilities_of (map VulnerabilityRows bs) = concat bs"
  by (simp_all add: vulnerabilities_of_def comp_def)

text \<open>What the OSV client knows about an id, from its cache or the service.\<close>

definition entry_for :: "refresh_env \<Rightarrow> string \<Rightarrow> vuln_entry option" where
  "entry_for env v =
     (case re_osv_cache env v of Some e \<Rightarrow> Some e | None \<Rightarrow> fetched (get_vulnerability (re_entry env)) v)"

lemma details_of_entry:
  "re_stop env = None \<Longrightarrow> details_of env ids v = (if v \<in> set ids then entry_for env v else None)"
  by (simp add: details_of_def hydrate_result entry_for_def)

lemma unique_ids_set: "set (unique_ids ds) = fst ` set ds"
proof -
  have "set (foldl (\<lambda>ids (i, _). if i \<in> set ids then ids else ids @ [i]) acc ds) = set acc \<union> fst ` set ds" for acc
  proof (induction ds arbitrary: acc)
    case (Cons d ds)
    obtain i p where d: "d = (i, p)" by fastforce
    show ?case
      using Cons.IH [of "if i \<in> set acc then acc else acc @ [i]"] by (simp add: d insert_absorb)
  qed simp
  then show ?thesis by (simp add: unique_ids_def)
qed

text \<open>
  The findings that are missing: a pair that OSV reports and no row has, with what OSV says of the
  vulnerability, and the current row of a SBOM that has the package. Each gives one row.
\<close>

definition missing_findings ::
  "refresh_env \<Rightarrow> db_row list \<Rightarrow> (string \<times> string) list \<Rightarrow> (string \<times> vuln_entry \<times> string \<times> sbom_packages) set" where
  "missing_findings env rows ds =
     {(v, h, purl, p). (v, purl) \<in> set ds \<and> vuln_key (v, purl) \<notin> query_existing_vuln_keys rows \<and>
        entry_for env v = Some h \<and> p \<in> set (current_packages rows) \<and> purl \<in> set (sp_purls p)}"

definition finding_row :: "refresh_env \<Rightarrow> string \<times> vuln_entry \<times> string \<times> sbom_packages \<Rightarrow> vulnerability" where
  "finding_row env f = (case f of (v, h, purl, p) \<Rightarrow> refresh_row (re_number env) (re_now env 1) h purl (ref_of purl p))"

definition finding_id :: "string \<times> vuln_entry \<times> string \<times> sbom_packages \<Rightarrow> string \<times> string \<times> string" where
  "finding_id f = (case f of (v, h, purl, p) \<Rightarrow> (v, purl, sp_sbom_id p))"

definition findings_of :: "refresh_env \<Rightarrow> db_row list \<Rightarrow> string \<times> string \<Rightarrow> (string \<times> vuln_entry \<times> string \<times> sbom_packages) list" where
  "findings_of env rows d =
     (case d of (v, purl) \<Rightarrow>
        (case entry_for env v of
           None \<Rightarrow> []
         | Some h \<Rightarrow> map (\<lambda>p. (v, h, purl, p)) (filter (\<lambda>p. purl \<in> set (sp_purls p)) (current_packages rows))))"

lemma findings_of_set:
  "f \<in> set (findings_of env rows d) \<longleftrightarrow>
     (case f of (v, h, purl, p) \<Rightarrow> d = (v, purl) \<and> entry_for env v = Some h \<and>
        p \<in> set (current_packages rows) \<and> purl \<in> set (sp_purls p))"
  by (cases d; cases f) (auto simp: findings_of_def split: option.split)

lemma findings_of_distinct: "distinct (map finding_id (findings_of env rows d))"
proof -
  obtain v purl where d: "d = (v, purl)" by fastforce
  have one: "map finding_id (map (\<lambda>p. (v, h, purl, p)) ps) = map (\<lambda>i. (v, purl, i)) (map sp_sbom_id ps)" for h ps
    by (simp add: finding_id_def)
  have "distinct (map sp_sbom_id (filter P (current_packages rows)))" for P
    using current_packages_distinct by (rule distinct_map_filter)
  then have "distinct (map (\<lambda>i. (v, purl, i)) (map sp_sbom_id (filter P (current_packages rows))))" for P
    by (subst distinct_map) (simp add: inj_on_def)
  then show ?thesis by (simp only: findings_of_def d prod.case one split: option.split) simp
qed

lemma findings_distinct: "distinct new \<Longrightarrow> distinct (map finding_id (concat (map (findings_of env rows) new)))"
proof (induction new)
  case (Cons d new)
  have "finding_id f \<noteq> finding_id g" if "f \<in> set (findings_of env rows d)" "e \<in> set new" "g \<in> set (findings_of env rows e)" for f g e
  proof -
    have "d \<noteq> e" using Cons.prems that(2) by auto
    then show ?thesis using that(1,3) by (cases f; cases g) (auto simp: findings_of_set finding_id_def)
  qed
  then have "set (map finding_id (findings_of env rows d)) \<inter> set (map finding_id (concat (map (findings_of env rows) new))) = {}"
    by fastforce
  then show ?case using Cons findings_of_distinct by simp
qed simp

lemma store_new_added:
  assumes "store_new env checked new rows logs = (RefreshCompleted, rows', logs')" "re_stop env = None"
  shows "vulnerabilities_of rows' = vulnerabilities_of rows @ map (finding_row env) (concat (map (findings_of env rows) new))"
proof -
  obtain refs where refs: "lookup_sboms env rows (remdups (map snd new)) = Some refs"
    using assms(1) by (auto simp: store_new_def write_fail_log_def split: option.splits)
  let ?f = "\<lambda>purl. case refs purl of None \<Rightarrow> [] | Some r \<Rightarrow> r"
  obtain vulns deferred where b: "build_rows (re_number env) (re_now env 1) (details_of env (unique_ids new)) ?f new = (vulns, deferred)"
    by fastforce
  have "insert_all env (chunked insert_batch vulns) rows = (True, rows')"
  proof -
    obtain ok rows1 where i: "insert_all env (chunked insert_batch vulns) rows = (ok, rows1)" by fastforce
    have "store_new env checked new rows logs =
      (if ok then complete_run env checked (length new - length deferred) rows1 logs else write_fail_log env rows1 logs)"
      by (simp only: store_new_def refs option.case b prod.case i) (simp split: bool.split)
    then show ?thesis using assms(1) i by (auto simp: write_fail_log_def complete_run_def split: if_splits)
  qed
  from insert_all_stored [OF this] have "vulnerabilities_of rows' = vulnerabilities_of rows @ vulns"
    by (simp add: chunked_concat insert_batch_def)
  moreover have "vulns = concat (map (\<lambda>d. map (finding_row env) (findings_of env rows d)) new)"
  proof -
    have "(case d of (v, purl) \<Rightarrow> (case details_of env (unique_ids new) v of None \<Rightarrow> []
           | Some h \<Rightarrow> map (refresh_row (re_number env) (re_now env 1) h purl) (?f purl))) =
        map (finding_row env) (findings_of env rows d)" if "d \<in> set new" for d
    proof -
      obtain v purl where d: "d = (v, purl)" by fastforce
      have "v \<in> set (unique_ids new)" using that d by (force simp: unique_ids_set)
      then have "details_of env (unique_ids new) v = entry_for env v" by (simp add: details_of_entry [OF assms(2)])
      moreover have "purl \<in> set (remdups (map snd new))" using that d by force
      then have "?f purl = refs_for rows purl" by (rule lookup_sboms_spec [OF refs])
      ultimately show ?thesis by (simp add: d findings_of_def finding_row_def refs_for_def split: option.split)
    qed
    then show ?thesis
      using build_rows_list [of "re_number env" "re_now env 1" "details_of env (unique_ids new)" ?f new] b by (simp cong: map_cong)
  qed
  ultimately show ?thesis by (simp add: map_concat comp_def)
qed

lemma completed_run_added:
  assumes "run_refresh env rows logs = (RefreshCompleted, rows', logs')" "re_stop env = None"
    and "discover_all (query_batch (re_batch env)) (osv_chunks (query_distinct_purls rows)) = Some ds" "without_nul ds"
  shows "\<exists>findings. vulnerabilities_of rows' = vulnerabilities_of rows @ map (finding_row env) findings \<and>
     set findings = missing_findings env rows ds \<and> distinct (map finding_id findings)"
proof (cases "query_distinct_purls rows = []")
  case True
  then have "rows' = rows" using assms(1) by (auto simp: run_refresh_def Let_def write_fail_log_def complete_run_def split: if_splits)
  moreover have "ds = []" using assms(3) True by (simp add: osv_chunks_def chunked_def osv_chunk_size_def)
  ultimately show ?thesis by (intro exI [of _ "[]"]) (simp add: missing_findings_def)
next
  case False
  obtain n new where scan: "scan_chunks env 0 (osv_chunks (query_distinct_purls rows)) 0 [] (query_existing_vuln_keys rows) = ScanDone n new"
    using assms(1) False by (auto simp: run_refresh_def Let_def write_fail_log_def split: if_splits scan_result.splits)
  have new: "set new = {d \<in> set ds. vuln_key d \<notin> query_existing_vuln_keys rows}" "distinct new"
    using scan_chunks_spec [OF scan] assms(3,4) by auto
  have same: "set (concat (map (findings_of env rows) new)) = missing_findings env rows ds"
    by (auto simp: missing_findings_def findings_of_set new(1))
  have "vulnerabilities_of rows' = vulnerabilities_of rows @ map (finding_row env) (concat (map (findings_of env rows) new))"
  proof (cases "new = []")
    case True
    then have "rows' = rows"
      using assms(1) False scan by (auto simp: run_refresh_def Let_def write_fail_log_def complete_run_def split: if_splits)
    then show ?thesis using True by simp
  next
    case more: False
    then obtain logs1 where "store_new env n new rows logs1 = (RefreshCompleted, rows', logs')"
      using assms(1) False scan by (auto simp: run_refresh_def Let_def write_fail_log_def split: if_splits)
    from store_new_added [OF this assms(2)] show ?thesis .
  qed
  then show ?thesis using same findings_distinct [OF new(2)] by blast
qed

text \<open>
  C20: a completed run adds the missing findings, each once. The rows it inserts are those of a list
  without repetition of the missing findings: the pairs of vulnerability and package that OSV reports
  and for which no row is stored, whatever the SBOM of that row, each with every SBOM whose current row
  has the package, with the depth and the ownership of that SBOM. A vulnerability whose details OSV does
  not give gets no row, and the packages of a request that fails are as if OSV had reported nothing on
  them. The conditions: nothing cancels the run while it fetches the details, and no id OSV reports
  contains the byte 0, which separates the two parts of a key.
\<close>

theorem refresh_adds_missing:
  assumes "run_refresh env rows logs = (RefreshCompleted, rows', logs')" "re_stop env = None"
    and "discover_all (query_batch (re_batch env)) (osv_chunks (query_distinct_purls rows)) = Some ds" "without_nul ds"
  shows "\<exists>findings. vulnerabilities_of rows' = vulnerabilities_of rows @ map (finding_row env) findings \<and>
     set findings = missing_findings env rows ds \<and> distinct (map finding_id findings)"
  using assms by (rule completed_run_added)

text \<open>
  A pair stored for one SBOM is taken as known for all: a finding an SBOM job left out for a later run is
  not added to that SBOM when another SBOM has the same package and vulnerability.
\<close>

lemma refresh_row_fields [simp]: "vu_vuln_id (refresh_row number now h purl ref) = ve_id h" "vu_purl (refresh_row number now h purl ref) = purl"
  by (simp_all add: refresh_row_def build_vulnerability_def)

lemma skipped_finding_not_added:
  assumes "run_refresh env rows logs = (RefreshCompleted, rows', logs')" "re_stop env = None"
    and "discover_all (query_batch (re_batch env)) (osv_chunks (query_distinct_purls rows)) = Some ds" "without_nul ds"
    and "\<And>v h. entry_for env v = Some h \<Longrightarrow> ve_id h = v"
    and "other \<in> set (vulnerabilities_of rows)"
  shows "\<exists>added. vulnerabilities_of rows' = vulnerabilities_of rows @ added \<and>
     (\<forall>r \<in> set added. (vu_vuln_id r, vu_purl r) \<noteq> (vu_vuln_id other, vu_purl other))"
proof -
  obtain findings where f: "vulnerabilities_of rows' = vulnerabilities_of rows @ map (finding_row env) findings"
      "set findings = missing_findings env rows ds"
    using completed_run_added [OF assms(1-4)] by blast
  have "vuln_key (vu_vuln_id other, vu_purl other) \<in> query_existing_vuln_keys rows"
    using assms(6) by (auto simp: query_existing_vuln_keys_def)
  then have "(vu_vuln_id (finding_row env g), vu_purl (finding_row env g)) \<noteq> (vu_vuln_id other, vu_purl other)"
    if "g \<in> missing_findings env rows ds" for g
    using that assms(5) by (cases g) (auto simp: missing_findings_def finding_row_def)
  then show ?thesis using f by (intro exI [of _ "map (finding_row env) findings"]) auto
qed

definition refresh_entry :: vuln_entry where
  "refresh_entry =
     \<lparr>ve_id = ''V'', ve_summary = [], ve_aliases = [], ve_severity = [], ve_affected = [], ve_database_severity = None, ve_json = []\<rparr>"

definition sample_refresh :: refresh_env where
  "sample_refresh =
     \<lparr>re_id = 0, re_now = int, re_purls_ok = True, re_keys_ok = True, re_cancelled = (\<lambda>_. False),
      re_batch = (\<lambda>purls _. Answer (map (\<lambda>_. [''V'']) purls)), re_entry = (\<lambda>_ _. Answer refresh_entry),
      re_osv_cache = Map.empty, re_stop = None, re_number = (\<lambda>_. None), re_lookup_ok = (\<lambda>_. True),
      re_insert = (\<lambda>_. Stored), re_log_ok = True\<rparr>"

definition refresh_rows :: "db_row list" where
  "refresh_rows = [PackagesRow (attempt_packages\<lparr>sp_sbom_id := ''1''\<rparr>), PackagesRow (attempt_packages\<lparr>sp_sbom_id := ''2''\<rparr>)]"

lemma insert_all_accepted: "(\<And>b. re_insert env b = Stored) \<Longrightarrow> \<exists>rows'. insert_all env bs rows = (True, rows')"
  by (induction bs arbitrary: rows) simp_all

lemma store_new_completes:
  assumes "\<And>k. re_lookup_ok env k" "\<And>b. re_insert env b = Stored" "re_log_ok env"
  shows "fst (store_new env checked new rows logs) = RefreshCompleted"
proof -
  let ?purls = "remdups (map snd new)"
  obtain refs where refs: "lookup_sboms env rows ?purls = Some refs"
    using assms(1) by (simp add: lookup_sboms_def list_all_iff)
  obtain vulns deferred where b: "build_rows (re_number env) (re_now env 1) (details_of env (unique_ids new))
      (\<lambda>purl. case refs purl of None \<Rightarrow> [] | Some r \<Rightarrow> r) new = (vulns, deferred)"
    by fastforce
  obtain rows' where "insert_all env (chunked insert_batch vulns) rows = (True, rows')"
    using insert_all_accepted [OF assms(2)] by blast
  then show ?thesis
    by (simp only: store_new_def refs option.case b prod.case bool.case) (simp add: complete_run_def assms(3))
qed

lemma refresh_adds_missing_witness:
  "\<exists>rows' logs'. run_refresh sample_refresh refresh_rows [] = (RefreshCompleted, rows', logs') \<and>
     length (vulnerabilities_of rows') = length (vulnerabilities_of refresh_rows) + 2"
proof -
  have stop: "re_stop sample_refresh = None" by (simp add: sample_refresh_def)
  have purls: "query_distinct_purls refresh_rows = [''pkg:npm/a'']" by code_simp
  have found: "discover_all (query_batch (re_batch sample_refresh)) (osv_chunks (query_distinct_purls refresh_rows)) =
      Some [(''V'', ''pkg:npm/a'')]"
    by code_simp
  have nul: "without_nul [(''V'', ''pkg:npm/a'')]" by (simp add: without_nul_def)
  have none: "vulnerabilities_of refresh_rows = []" by (simp add: vulnerabilities_of_def refresh_rows_def)
  have "scan_chunks sample_refresh 0 (osv_chunks (query_distinct_purls refresh_rows)) 0 [] {} = ScanDone 1 [(''V'', ''pkg:npm/a'')]"
    by code_simp
  moreover have "query_existing_vuln_keys refresh_rows = {}" by (simp add: query_existing_vuln_keys_def none)
  ultimately have "fst (run_refresh sample_refresh refresh_rows []) = RefreshCompleted"
    by (simp add: run_refresh_def purls) (simp add: sample_refresh_def store_new_completes)
  then obtain rows' logs' where run: "run_refresh sample_refresh refresh_rows [] = (RefreshCompleted, rows', logs')"
    by (cases "run_refresh sample_refresh refresh_rows []") auto
  from refresh_adds_missing [OF run stop found nul]
  obtain findings where f: "vulnerabilities_of rows' = vulnerabilities_of refresh_rows @ map (finding_row sample_refresh) findings"
    "set findings = missing_findings sample_refresh refresh_rows [(''V'', ''pkg:npm/a'')]" "distinct (map finding_id findings)"
    by blast
  have entry: "entry_for sample_refresh ''V'' = Some refresh_entry" by code_simp
  have current: "current_packages refresh_rows = [attempt_packages\<lparr>sp_sbom_id := ''1''\<rparr>, attempt_packages\<lparr>sp_sbom_id := ''2''\<rparr>]"
    by (simp add: current_packages_def packages_of_log_def refresh_rows_def List.map_filter_def)
  have "set findings = (\<lambda>i. (''V'', refresh_entry, ''pkg:npm/a'', attempt_packages\<lparr>sp_sbom_id := i\<rparr>)) ` {''1'', ''2''}"
    unfolding f(2) by (auto simp: missing_findings_def query_existing_vuln_keys_def none entry current attempt_packages_def)
  then have "finding_id ` set findings = {(''V'', ''pkg:npm/a'', ''1''), (''V'', ''pkg:npm/a'', ''2'')}"
    by (simp add: finding_id_def)
  then have "length findings = 2" using distinct_card [OF f(3)] by simp
  then show ?thesis using run f(1) by auto
qed

end
