(* ===== verification/Config.thy ===== *)
theory Config
  imports Ingest_Path Tags
begin

text \<open>
  The configuration, \<open>backend/internal/config/config.go\<close>, and the selection of the document store in
  \<open>backend/internal/docstore/factory.go\<close>. The environment is a function from variable to value; decoding
  the JSON of \<open>S3_BUCKETS\<close> is a parameter. Durations are nanoseconds.
\<close>

subsection \<open>The record\<close>

record s3_bucket =
  bk_name :: string
  bk_endpoint :: string
  bk_region :: string
  bk_access_key :: string
  bk_secret_key :: string
  bk_prefix :: string
  bk_use_path_style :: bool
  bk_use_ssl :: "bool option"
  bk_cluster :: string
  bk_namespace :: string
  bk_project :: string
  bk_parent :: string
  bk_path_layout :: string
  bk_tags :: "string list"
  bk_skip_scan :: bool

record config =
  cf_clickhouse_host :: string
  cf_clickhouse_port :: int
  cf_clickhouse_database :: string
  cf_clickhouse_user :: string
  cf_clickhouse_password :: string
  cf_max_execution_time :: int
  cf_max_memory_usage :: int
  cf_max_threads :: int
  cf_sbom_dir :: string
  cf_s3_buckets :: "s3_bucket list"
  cf_api_port :: int
  cf_cors_allowed_origins :: string
  cf_rate_limit_max :: int
  cf_worker_id :: string
  cf_worker_batch_size :: int
  cf_skip_osv :: bool
  cf_skip_github_resolve :: bool
  cf_skip_npm_resolve :: bool
  cf_skip_nuget_resolve :: bool
  cf_skip_depsdev_resolve :: bool
  cf_skip_packagist_resolve :: bool
  cf_skip_pypi_resolve :: bool
  cf_sbom_limit :: int
  cf_ignore_prefix :: string
  cf_exceptions_file :: string
  cf_exceptions_source :: string
  cf_exceptions_source_token :: string
  cf_exceptions_refresh_interval :: int
  cf_project_groups_file :: string
  cf_license_policy_file :: string
  cf_license_expression_mode :: string
  cf_github_token :: string
  cf_cluster_name :: string
  cf_namespace :: string
  cf_project :: string
  cf_parent :: string
  cf_tags :: "string list"
  cf_ingest_path_layout :: string
  cf_auth_enabled :: bool
  cf_service_token :: string
  cf_api_keys :: "string list"
  cf_badges_public :: bool
  cf_brand_name :: string
  cf_max_upload_size_mb :: int
  cf_original_store_backend :: string
  cf_original_store_s3_bucket :: string
  cf_original_store_s3_prefix :: string
  cf_original_store_fs_path :: string
  cf_mcp_transport :: string
  cf_mcp_http_addr :: string
  cf_mcp_http_token :: string
  cf_mcp_allowed_origins :: "string list"
  cf_mcp_api_base_url :: string
  cf_mcp_api_key :: string
  cf_mcp_service_token :: string
  cf_mcp_request_timeout :: int

definition mcp_transport_stdio :: string where "mcp_transport_stdio = ''stdio''"
definition mcp_transport_http :: string where "mcp_transport_http = ''http''"
definition original_store_auto :: string where "original_store_auto = ''auto''"
definition original_store_s3 :: string where "original_store_s3 = ''s3''"
definition original_store_fs :: string where "original_store_fs = ''fs''"
definition original_store_none :: string where "original_store_none = ''none''"

lemmas backend_names = original_store_auto_def original_store_s3_def original_store_fs_def original_store_none_def

subsection \<open>Reading variables\<close>

type_synonym environ = "string \<Rightarrow> string option"

definition get_env :: "environ \<Rightarrow> string \<Rightarrow> string \<Rightarrow> string" where
  "get_env env key fallback =
     (case env key of Some val \<Rightarrow> if val \<noteq> [] then val else fallback | None \<Rightarrow> fallback)"

definition digits_value :: "string \<Rightarrow> int" where
  "digits_value s = foldl (\<lambda>n c. 10 * n + (int (of_char c) - 48)) 0 s"

text \<open>\<open>strconv.ParseInt(s, 10, 64)\<close> and \<open>strconv.Atoi\<close>.\<close>

definition parse_int64 :: "string \<Rightarrow> int option" where
  "parse_int64 s =
     (let neg = has_prefix s ''-'';
          ds = (if neg \<or> has_prefix s ''+'' then drop 1 s else s);
          n = digits_value ds;
          v = (if neg then - n else n)
      in if ds = [] \<or> \<not> list_all is_digit ds \<or> v < - (2 ^ 63) \<or> v \<ge> 2 ^ 63 then None else Some v)"

definition get_env_int :: "environ \<Rightarrow> string \<Rightarrow> int \<Rightarrow> int" where
  "get_env_int env key fallback =
     (case env key of
        None \<Rightarrow> fallback
      | Some val \<Rightarrow> (case parse_int64 val of None \<Rightarrow> fallback | Some i \<Rightarrow> i))"

definition get_env_bool :: "environ \<Rightarrow> string \<Rightarrow> bool \<Rightarrow> bool" where
  "get_env_bool env key fallback =
     (case env key of
        None \<Rightarrow> fallback
      | Some val \<Rightarrow> if val = [] then fallback else val = ''1'' \<or> val = ''true'' \<or> val = ''yes'')"

definition parse_csv :: "string \<Rightarrow> string list" where
  "parse_csv raw =
     (if raw = [] then []
      else filter (\<lambda>k. k \<noteq> []) (map trim_space (split_char (CHR '','') raw)))"

definition parse_api_keys :: "string \<Rightarrow> string list" where
  "parse_api_keys raw = parse_csv raw"

datatype config_error =
    InvalidLimit string
  | InvalidTransport
  | InvalidBackend
  | InvalidInterval
  | InvalidMode
  | InvalidLayout
  | NoHostname
  | InvalidBuckets
  | InvalidBucketLayout string

text \<open>The steps of \<open>Load\<close>, each of which may return its error.\<close>

fun and_then :: "'e + 'a \<Rightarrow> ('a \<Rightarrow> 'e + 'b) \<Rightarrow> 'e + 'b" where
  "and_then (Inl e) f = Inl e"
| "and_then (Inr a) f = f a"

lemma if_Inl_Inr: "(if P then Inl e else r) = Inr b \<longleftrightarrow> \<not> P \<and> r = Inr b"
  by simp

lemma and_then_Inr: "and_then r f = Inr b \<longleftrightarrow> (\<exists>a. r = Inr a \<and> f a = Inr b)"
  by (cases r) auto

definition get_env_non_negative :: "environ \<Rightarrow> string \<Rightarrow> int \<Rightarrow> config_error + int" where
  "get_env_non_negative env key maximum =
     (let raw = trim_space (case env key of Some v \<Rightarrow> v | None \<Rightarrow> [])
      in if raw = [] then Inr 0
         else case parse_int64 raw of
                None \<Rightarrow> Inl (InvalidLimit key)
              | Some v \<Rightarrow> if v < 0 \<or> v > maximum then Inl (InvalidLimit key) else Inr v)"

definition load_clickhouse_limits :: "environ \<Rightarrow> config \<Rightarrow> config_error + config" where
  "load_clickhouse_limits env cfg =
     and_then (get_env_non_negative env ''CLICKHOUSE_MAX_EXECUTION_TIME'' (2 ^ 31 - 1)) (\<lambda>exec_time.
     and_then (get_env_non_negative env ''CLICKHOUSE_MAX_MEMORY_USAGE'' (2 ^ 63 - 1)) (\<lambda>memory.
     and_then (get_env_non_negative env ''CLICKHOUSE_MAX_THREADS'' (2 ^ 31 - 1)) (\<lambda>threads.
       Inr (cfg\<lparr>cf_max_execution_time := exec_time, cf_max_memory_usage := memory, cf_max_threads := threads\<rparr>))))"

subsection \<open>Durations\<close>

text \<open>
  \<open>time.ParseDuration\<close>. The fraction of a term is computed with floating-point numbers there and
  exactly here, with all its digits.
\<close>

definition duration_unit :: "string \<Rightarrow> int option" where
  "duration_unit u =
     (if u = ''ns'' then Some 1
      else if u \<in> {''us'', map char_of [0xC2, 0xB5, 0x73 :: nat], map char_of [0xCE, 0xBC, 0x73 :: nat]} then Some 1000
      else if u = ''ms'' then Some 1000000
      else if u = ''s'' then Some 1000000000
      else if u = ''m'' then Some 60000000000
      else if u = ''h'' then Some 3600000000000
      else None)"

definition unit_end :: "char \<Rightarrow> bool" where
  "unit_end c \<longleftrightarrow> c = CHR ''.'' \<or> is_digit c"

definition duration_term :: "string \<Rightarrow> (int \<times> string) option" where
  "duration_term s =
     (let pre = takeWhile is_digit s;
          s1 = dropWhile is_digit s;
          point = has_prefix s1 ''.'';
          s2 = (if point then drop 1 s1 else s1);
          post = (if point then takeWhile is_digit s2 else []);
          s3 = drop (length post) s2;
          u = takeWhile (\<lambda>c. \<not> unit_end c) s3;
          rest = dropWhile (\<lambda>c. \<not> unit_end c) s3
      in if pre = [] \<and> post = [] \<or> u = [] \<or> digits_value pre > 2 ^ 63 then None
         else case duration_unit u of
                None \<Rightarrow> None
              | Some unit_size \<Rightarrow>
                  (let v = digits_value pre * unit_size + (digits_value post * unit_size) div 10 ^ length post
                   in if v > 2 ^ 63 then None else Some (v, rest)))"

lemma duration_term_shorter:
  assumes "duration_term s = Some (v, rest)"
  shows "length rest < length s"
proof -
  define s1 where "s1 = dropWhile is_digit s"
  define s2 where "s2 = (if has_prefix s1 ''.'' then drop 1 s1 else s1)"
  define post where "post = (if has_prefix s1 ''.'' then takeWhile is_digit s2 else [])"
  define s3 where "s3 = drop (length post) s2"
  have rest: "rest = dropWhile (\<lambda>c. \<not> unit_end c) s3" and u: "takeWhile (\<lambda>c. \<not> unit_end c) s3 \<noteq> []"
    using assms unfolding duration_term_def Let_def s1_def [symmetric] s2_def [symmetric]
      post_def [symmetric] s3_def [symmetric] by (auto split: if_splits option.splits)
  have "length s3 \<le> length s"
    using length_dropWhile_le [of is_digit s] by (auto simp: s3_def s2_def s1_def)
  moreover have "length (takeWhile (\<lambda>c. \<not> unit_end c) s3) + length rest = length s3"
    unfolding rest by (metis length_append takeWhile_dropWhile_id)
  moreover have "length (takeWhile (\<lambda>c. \<not> unit_end c) s3) > 0" using u by simp
  ultimately show ?thesis by linarith
qed

function duration_terms :: "int \<Rightarrow> string \<Rightarrow> int option" where
  "duration_terms d s =
     (if s = [] then Some d
      else case duration_term s of
             None \<Rightarrow> None
           | Some (v, rest) \<Rightarrow> if d + v > 2 ^ 63 then None else duration_terms (d + v) rest)"
  by pat_completeness auto
termination duration_terms
  by (relation "measure (\<lambda>(_, s). length s)") (auto dest: duration_term_shorter)

declare duration_terms.simps [simp del]

definition parse_duration :: "string \<Rightarrow> int option" where
  "parse_duration s0 =
     (let neg = has_prefix s0 ''-'';
          s = (if neg \<or> has_prefix s0 ''+'' then drop 1 s0 else s0)
      in if s = ''0'' then Some 0
         else if s = [] then None
         else case duration_terms 0 s of
                None \<Rightarrow> None
              | Some d \<Rightarrow> if neg then Some (- d) else if d > 2 ^ 63 - 1 then None else Some d)"

subsection \<open>Load\<close>

definition defaults :: "environ \<Rightarrow> config" where
  "defaults env = \<lparr>
     cf_clickhouse_host = get_env env ''CLICKHOUSE_HOST'' ''localhost'',
     cf_clickhouse_port = get_env_int env ''CLICKHOUSE_PORT'' 9000,
     cf_clickhouse_database = get_env env ''CLICKHOUSE_DATABASE'' ''bomhort'',
     cf_clickhouse_user = get_env env ''CLICKHOUSE_USER'' ''default'',
     cf_clickhouse_password = get_env env ''CLICKHOUSE_PASSWORD'' [],
     cf_max_execution_time = 0,
     cf_max_memory_usage = 0,
     cf_max_threads = 0,
     cf_sbom_dir = get_env env ''SBOM_DIR'' ''./sboms'',
     cf_s3_buckets = [],
     cf_api_port = get_env_int env ''API_PORT'' 8080,
     cf_cors_allowed_origins = get_env env ''CORS_ALLOWED_ORIGINS'' ''*'',
     cf_rate_limit_max = get_env_int env ''RATE_LIMIT_MAX'' 100,
     cf_worker_id = get_env env ''WORKER_ID'' [],
     cf_worker_batch_size = get_env_int env ''WORKER_BATCH_SIZE'' 10,
     cf_skip_osv = get_env_bool env ''SKIP_OSV'' False,
     cf_skip_github_resolve = get_env_bool env ''SKIP_GITHUB_RESOLVE'' False,
     cf_skip_npm_resolve = get_env_bool env ''SKIP_NPM_RESOLVE'' False,
     cf_skip_nuget_resolve = get_env_bool env ''SKIP_NUGET_RESOLVE'' False,
     cf_skip_depsdev_resolve = get_env_bool env ''SKIP_DEPSDEV_RESOLVE'' False,
     cf_skip_packagist_resolve = get_env_bool env ''SKIP_PACKAGIST_RESOLVE'' False,
     cf_skip_pypi_resolve = get_env_bool env ''SKIP_PYPI_RESOLVE'' False,
     cf_sbom_limit = get_env_int env ''SBOM_LIMIT'' 0,
     cf_ignore_prefix = get_env env ''SBOM_IGNORE_PREFIX'' ''_'',
     cf_exceptions_file = get_env env ''EXCEPTIONS_FILE'' ''/data/config/license-exceptions.json'',
     cf_exceptions_source = [],
     cf_exceptions_source_token = [],
     cf_exceptions_refresh_interval = 0,
     cf_project_groups_file = get_env env ''PROJECT_GROUPS_FILE'' ''/data/config/project-groups.json'',
     cf_license_policy_file = get_env env ''LICENSE_POLICY_FILE'' ''/data/config/license-policy.json'',
     cf_license_expression_mode = to_lower (trim_space (get_env env ''LICENSE_EXPRESSION_MODE'' [])),
     cf_github_token = get_env env ''GITHUB_TOKEN'' [],
     cf_cluster_name = get_env env ''CLUSTER_NAME'' [],
     cf_namespace = get_env env ''NAMESPACE'' [],
     cf_project = get_env env ''PROJECT'' [],
     cf_parent = trim_space (get_env env ''PARENT'' []),
     cf_tags = parse_tags (get_env env ''TAGS'' []),
     cf_ingest_path_layout = get_env env ''INGEST_PATH_LAYOUT'' [],
     cf_auth_enabled = get_env_bool env ''AUTH_ENABLED'' False,
     cf_service_token = get_env env ''SERVICE_TOKEN'' [],
     cf_api_keys = parse_api_keys (get_env env ''API_KEYS'' []),
     cf_badges_public = get_env_bool env ''BADGES_PUBLIC'' False,
     cf_brand_name = get_env env ''BRAND_NAME'' ''BOMHort'',
     cf_max_upload_size_mb = get_env_int env ''MAX_UPLOAD_SIZE_MB'' 50,
     cf_original_store_backend = to_lower (get_env env ''ORIGINAL_STORE_BACKEND'' original_store_auto),
     cf_original_store_s3_bucket = get_env env ''ORIGINAL_STORE_S3_BUCKET'' [],
     cf_original_store_s3_prefix = get_env env ''ORIGINAL_STORE_S3_PREFIX'' ''_bomhort/originals/'',
     cf_original_store_fs_path = get_env env ''ORIGINAL_STORE_FS_PATH'' [],
     cf_mcp_transport = to_lower (trim_space (get_env env ''MCP_TRANSPORT'' mcp_transport_stdio)),
     cf_mcp_http_addr = get_env env ''MCP_HTTP_ADDR'' ''127.0.0.1:8081'',
     cf_mcp_http_token = get_env env ''MCP_HTTP_TOKEN'' [],
     cf_mcp_allowed_origins = parse_csv (get_env env ''MCP_ALLOWED_ORIGINS'' []),
     cf_mcp_api_base_url = get_env env ''MCP_API_BASE_URL'' ''http://localhost:8080'',
     cf_mcp_api_key = get_env env ''MCP_API_KEY'' [],
     cf_mcp_service_token = get_env env ''MCP_SERVICE_TOKEN'' [],
     cf_mcp_request_timeout = get_env_int env ''MCP_REQUEST_TIMEOUT_SECONDS'' 30\<rparr>"

definition fill_mcp_credentials :: "config \<Rightarrow> config" where
  "fill_mcp_credentials cfg0 =
     (let cfg = (if cf_mcp_service_token cfg0 = [] then cfg0\<lparr>cf_mcp_service_token := cf_service_token cfg0\<rparr> else cfg0)
      in if cf_mcp_api_key cfg = [] \<and> cf_api_keys cfg \<noteq> [] then cfg\<lparr>cf_mcp_api_key := hd (cf_api_keys cfg)\<rparr> else cfg)"

definition load_exceptions_source :: "environ \<Rightarrow> config \<Rightarrow> config_error + config" where
  "load_exceptions_source env cfg =
     (case parse_duration (get_env env ''EXCEPTIONS_REFRESH_INTERVAL'' ''60s'') of
        None \<Rightarrow> Inl InvalidInterval
      | Some interval \<Rightarrow>
          if interval < 0 then Inl InvalidInterval
          else Inr (cfg\<lparr>cf_exceptions_source := trim_space (get_env env ''EXCEPTIONS_SOURCE'' []),
                        cf_exceptions_source_token := get_env env ''EXCEPTIONS_SOURCE_TOKEN'' [],
                        cf_exceptions_refresh_interval := interval\<rparr>))"

definition check_layout :: "string \<Rightarrow> bool" where
  "check_layout spec = (case parse_layout spec of Inl _ \<Rightarrow> False | Inr _ \<Rightarrow> True)"

definition load_worker_id :: "string option \<Rightarrow> config \<Rightarrow> config_error + config" where
  "load_worker_id hostname cfg =
     (if cf_worker_id cfg \<noteq> [] then Inr cfg
      else case hostname of None \<Rightarrow> Inl NoHostname | Some h \<Rightarrow> Inr (cfg\<lparr>cf_worker_id := h\<rparr>))"

definition single_bucket :: "environ \<Rightarrow> s3_bucket list" where
  "single_bucket env =
     (let name = get_env env ''S3_BUCKET'' []
      in if name = [] then []
         else [\<lparr>bk_name = name, bk_endpoint = get_env env ''S3_ENDPOINT'' [], bk_region = get_env env ''S3_REGION'' ''us-east-1'',
                bk_access_key = get_env env ''S3_ACCESS_KEY'' [], bk_secret_key = get_env env ''S3_SECRET_KEY'' [],
                bk_prefix = get_env env ''S3_PREFIX'' [], bk_use_path_style = get_env_bool env ''S3_USE_PATH_STYLE'' False,
                bk_use_ssl = Some (get_env_bool env ''S3_USE_SSL'' True), bk_cluster = [], bk_namespace = [],
                bk_project = [], bk_parent = [], bk_path_layout = [], bk_tags = [], bk_skip_scan = False\<rparr>])"

definition json_buckets :: "(string \<Rightarrow> s3_bucket list option) \<Rightarrow> environ \<Rightarrow> config_error + s3_bucket list" where
  "json_buckets decode env =
     (let text = get_env env ''S3_BUCKETS'' []
      in if text = [] then Inr []
         else case decode text of None \<Rightarrow> Inl InvalidBuckets | Some bs \<Rightarrow> Inr bs)"

text \<open>The loop that applies the shared settings, on one bucket.\<close>

definition shared_settings :: "environ \<Rightarrow> s3_bucket \<Rightarrow> s3_bucket" where
  "shared_settings env b = b\<lparr>
     bk_access_key := fill_empty (bk_access_key b) (get_env env ''S3_ACCESS_KEY'' []),
     bk_secret_key := fill_empty (bk_secret_key b) (get_env env ''S3_SECRET_KEY'' []),
     bk_endpoint := fill_empty (bk_endpoint b) (get_env env ''S3_ENDPOINT'' []),
     bk_region := fill_empty (bk_region b) (get_env env ''S3_REGION'' ''us-east-1''),
     bk_use_path_style := (bk_use_path_style b \<or> get_env_bool env ''S3_USE_PATH_STYLE'' False),
     bk_use_ssl := (if bk_use_ssl b = None then Some (get_env_bool env ''S3_USE_SSL'' True) else bk_use_ssl b)\<rparr>"

definition bucket_key :: "s3_bucket \<Rightarrow> string" where
  "bucket_key b = bk_name b @ ''|'' @ bk_prefix b"

text \<open>\<open>seen\<close> holds the index of each key in the result.\<close>

fun dedup_loop :: "(string \<rightharpoonup> nat) \<Rightarrow> s3_bucket list \<Rightarrow> s3_bucket list \<Rightarrow> s3_bucket list" where
  "dedup_loop seen result [] = result"
| "dedup_loop seen result (b # bs) =
     (case seen (bucket_key b) of
        Some idx \<Rightarrow> dedup_loop seen (result[idx := b]) bs
      | None \<Rightarrow> dedup_loop (seen(bucket_key b \<mapsto> length result)) (result @ [b]) bs)"

definition deduplicate_buckets :: "s3_bucket list \<Rightarrow> s3_bucket list" where
  "deduplicate_buckets buckets = dedup_loop Map.empty [] buckets"

definition load_buckets :: "(string \<Rightarrow> s3_bucket list option) \<Rightarrow> environ \<Rightarrow> config \<Rightarrow> config_error + config" where
  "load_buckets decode env cfg =
     and_then (json_buckets decode env) (\<lambda>bs.
       let buckets = deduplicate_buckets (map (shared_settings env) (bs @ single_bucket env))
       in case find (\<lambda>b. \<not> check_layout (bk_path_layout b)) buckets of
            Some b \<Rightarrow> Inl (InvalidBucketLayout (bk_name b))
          | None \<Rightarrow> Inr (cfg\<lparr>cf_s3_buckets := buckets\<rparr>))"

definition load_config ::
  "(string \<Rightarrow> s3_bucket list option) \<Rightarrow> string option \<Rightarrow> environ \<Rightarrow> config_error + config" where
  "load_config decode hostname env =
     and_then (load_clickhouse_limits env (defaults env)) (\<lambda>cfg1.
     if cf_mcp_transport cfg1 \<notin> {mcp_transport_stdio, mcp_transport_http} then Inl InvalidTransport
     else let cfg2 = fill_mcp_credentials cfg1
     in if cf_original_store_backend cfg2
           \<notin> {original_store_auto, original_store_s3, original_store_fs, original_store_none} then Inl InvalidBackend
     else and_then (load_exceptions_source env cfg2) (\<lambda>cfg3.
     if cf_license_expression_mode cfg3 \<notin> {[], ''strict'', ''permissive-wins'', ''off''} then Inl InvalidMode
     else if \<not> check_layout (cf_ingest_path_layout cfg3) then Inl InvalidLayout
     else and_then (load_worker_id hostname cfg3) (load_buckets decode env)))"

subsection \<open>What the components ask\<close>

definition no_layout :: layout where
  "no_layout = \<lparr>ly_segments = [], ly_file_project = False\<rparr>"

definition ingest_layout :: "config \<Rightarrow> layout" where
  "ingest_layout cfg = (case parse_layout (cf_ingest_path_layout cfg) of Inl _ \<Rightarrow> no_layout | Inr l \<Rightarrow> l)"

definition bucket_tags :: "config \<Rightarrow> s3_bucket \<Rightarrow> string list" where
  "bucket_tags cfg b = merge_tags [cf_tags cfg, bk_tags b]"

definition bucket_ingest_layout :: "config \<Rightarrow> s3_bucket \<Rightarrow> layout" where
  "bucket_ingest_layout cfg b =
     (if trim_space (bk_path_layout b) = [] then ingest_layout cfg
      else case parse_layout (bk_path_layout b) of Inl _ \<Rightarrow> no_layout | Inr l \<Rightarrow> l)"

definition has_s3_sources :: "config \<Rightarrow> bool" where
  "has_s3_sources cfg \<longleftrightarrow> cf_s3_buckets cfg \<noteq> []"

definition resolved_backend :: "config \<Rightarrow> string" where
  "resolved_backend cfg =
     (if cf_original_store_backend cfg \<noteq> original_store_auto then cf_original_store_backend cfg
      else if has_s3_sources cfg then original_store_s3
      else if cf_original_store_fs_path cfg \<noteq> [] then original_store_fs
      else original_store_none)"

definition original_store_bucket :: "config \<Rightarrow> string" where
  "original_store_bucket cfg =
     (if cf_original_store_s3_bucket cfg \<noteq> [] then cf_original_store_s3_bucket cfg
      else case find (\<lambda>b. \<not> bk_skip_scan b) (cf_s3_buckets cfg) of
             Some b \<Rightarrow> bk_name b
           | None \<Rightarrow> (case cf_s3_buckets cfg of b # _ \<Rightarrow> bk_name b | [] \<Rightarrow> []))"

subsection \<open>Lemmas\<close>

text \<open>
  \<open>dedup_loop\<close> keeps \<open>seen\<close> the index of the result by key; of the buckets of one key the last is left,
  in the place of the first.
\<close>

definition indexes :: "(string \<rightharpoonup> nat) \<Rightarrow> s3_bucket list \<Rightarrow> bool" where
  "indexes seen result \<longleftrightarrow>
     (\<forall>k i. seen k = Some i \<longleftrightarrow> i < length result \<and> bucket_key (result ! i) = k)"

lemma indexes_distinct:
  assumes "indexes seen result"
  shows "distinct (map bucket_key result)"
proof -
  have "i = j" if "i < length result" "j < length result" "bucket_key (result ! i) = bucket_key (result ! j)" for i j
    using assms that unfolding indexes_def by (metis option.inject)
  then show ?thesis by (auto simp: distinct_conv_nth)
qed

lemma indexes_override:
  assumes "indexes seen result" "seen (bucket_key b) = Some idx"
  shows "idx < length result" "bucket_key (result ! idx) = bucket_key b" "indexes seen (result[idx := b])"
proof -
  show idx: "idx < length result" "bucket_key (result ! idx) = bucket_key b"
    using assms unfolding indexes_def by blast+
  have "bucket_key (result[idx := b] ! i) = bucket_key (result ! i)" for i
    using idx by (cases "i = idx") auto
  then show "indexes seen (result[idx := b])"
    using assms(1) unfolding indexes_def by simp
qed

lemma indexes_append:
  assumes "indexes seen result" "seen (bucket_key b) = None"
  shows "indexes (seen(bucket_key b \<mapsto> length result)) (result @ [b])"
  unfolding indexes_def
proof (intro allI)
  fix k i
  have "seen k = Some i \<longleftrightarrow> i < length result \<and> bucket_key (result ! i) = k" for k i
    using assms(1) unfolding indexes_def by blast
  then show "(seen(bucket_key b \<mapsto> length result)) k = Some i \<longleftrightarrow>
      i < length (result @ [b]) \<and> bucket_key ((result @ [b]) ! i) = k"
    using assms(2) by (auto simp: nth_append less_Suc_eq) (metis option.distinct(1))
qed

lemma dedup_loop_result:
  assumes "indexes seen result"
  shows "distinct (map bucket_key (dedup_loop seen result bs)) \<and>
    (\<forall>b. b \<in> set (dedup_loop seen result bs) \<longleftrightarrow>
       (case find (\<lambda>c. bucket_key c = bucket_key b) (rev bs) of Some c \<Rightarrow> c = b | None \<Rightarrow> b \<in> set result))"
  using assms
proof (induction seen result bs rule: dedup_loop.induct)
  case (1 seen result)
  then show ?case using indexes_distinct by auto
next
  case (2 seen result b bs)
  have find_snoc: "find P (xs @ [x]) = (case find P xs of Some y \<Rightarrow> Some y | None \<Rightarrow> if P x then Some x else None)"
    for P and xs :: "s3_bucket list" and x by (induction xs) auto
  let ?find = "\<lambda>c. find (\<lambda>d. bucket_key d = bucket_key c) (rev bs)"
  show ?case
  proof (cases "seen (bucket_key b)")
    case None
    let ?D = "dedup_loop (seen(bucket_key b \<mapsto> length result)) (result @ [b]) bs"
    have IH: "distinct (map bucket_key ?D)"
      "\<And>c. c \<in> set ?D \<longleftrightarrow> (case ?find c of Some d \<Rightarrow> d = c | None \<Rightarrow> c \<in> set (result @ [b]))"
      using 2(1) [OF None indexes_append [OF 2(3) None]] by blast+
    have new: "bucket_key c \<noteq> bucket_key b" if "c \<in> set result" for c
      using that 2(3) None unfolding indexes_def in_set_conv_nth by (metis option.distinct(1))
    have eq: "dedup_loop seen result (b # bs) = ?D" by (simp add: None)
    have "c \<in> set ?D \<longleftrightarrow> (case find (\<lambda>d. bucket_key d = bucket_key c) (rev (b # bs)) of
        Some d \<Rightarrow> d = c | None \<Rightarrow> c \<in> set result)" for c
      unfolding IH(2) rev.simps find_snoc by (cases "?find c") (auto dest: new)
    then show ?thesis using IH(1) unfolding eq by blast
  next
    case (Some idx)
    note over = indexes_override [OF 2(3) Some]
    let ?D = "dedup_loop seen (result[idx := b]) bs"
    have IH: "distinct (map bucket_key ?D)"
      "\<And>c. c \<in> set ?D \<longleftrightarrow> (case ?find c of Some d \<Rightarrow> d = c | None \<Rightarrow> c \<in> set (result[idx := b]))"
      using 2(2) [OF Some over(3)] by blast+
    note dist = indexes_distinct [OF 2(3)]
    have same: "i = idx" if "i < length result" "bucket_key (result ! i) = bucket_key b" for i
      using 2(3) Some that unfolding indexes_def by (metis option.inject)
    have upd: "c \<in> set (result[idx := b]) \<longleftrightarrow> c = b \<or> c \<in> set result \<and> bucket_key c \<noteq> bucket_key b" for c
    proof
      assume "c \<in> set (result[idx := b])"
      then obtain i where i: "i < length result" "result[idx := b] ! i = c" by (auto simp: in_set_conv_nth)
      then show "c = b \<or> c \<in> set result \<and> bucket_key c \<noteq> bucket_key b"
        using same [OF i(1)] by (cases "i = idx") auto
    next
      assume "c = b \<or> c \<in> set result \<and> bucket_key c \<noteq> bucket_key b"
      then consider "c = b" | i where "i < length result" "result ! i = c" "bucket_key c \<noteq> bucket_key b"
        by (auto simp: in_set_conv_nth)
      then show "c \<in> set (result[idx := b])"
      proof cases
        case 1
        then show ?thesis using over(1) by (simp add: set_update_memI)
      next
        case (2 i)
        then have "i \<noteq> idx" using over(2) by auto
        then have "result[idx := b] ! i = c" using 2 by simp
        then show ?thesis using 2(1) by (metis length_list_update nth_mem)
      qed
    qed
    have eq: "dedup_loop seen result (b # bs) = ?D" by (simp add: Some)
    have "c \<in> set ?D \<longleftrightarrow> (case find (\<lambda>d. bucket_key d = bucket_key c) (rev (b # bs)) of
        Some d \<Rightarrow> d = c | None \<Rightarrow> c \<in> set result)" for c
      unfolding IH(2) rev.simps find_snoc upd by (cases "?find c") auto
    then show ?thesis using IH(1) unfolding eq by blast
  qed
qed

lemma deduplicate_buckets_last:
  "distinct (map bucket_key (deduplicate_buckets bs))"
  "b \<in> set (deduplicate_buckets bs) \<longleftrightarrow> find (\<lambda>c. bucket_key c = bucket_key b) (rev bs) = Some b"
  using dedup_loop_result [of Map.empty "[]" bs]
  by (auto simp: deduplicate_buckets_def indexes_def split: option.splits)

lemma find_Some_in: "find P xs = Some x \<Longrightarrow> x \<in> set xs \<and> P x"
  by (auto simp: find_Some_iff)

lemma shared_settings_set:
  "bk_region (shared_settings env b) \<noteq> []" "bk_use_ssl (shared_settings env b) \<noteq> None"
  "bk_path_layout (shared_settings env b) = bk_path_layout b"
  by (auto simp: shared_settings_def fill_empty_def get_env_def split: option.splits)

subsection \<open>What Load guarantees\<close>

lemma non_negative_result:
  "get_env_non_negative env key maximum = Inr v \<Longrightarrow> 0 \<le> maximum \<Longrightarrow> 0 \<le> v \<and> v \<le> maximum"
  by (auto simp: get_env_non_negative_def Let_def split: if_splits option.splits)

lemma load_limits_result:
  assumes "load_clickhouse_limits env cfg0 = Inr cfg"
  shows "\<exists>e m t. cfg = cfg0\<lparr>cf_max_execution_time := e, cf_max_memory_usage := m, cf_max_threads := t\<rparr> \<and>
    0 \<le> e \<and> e < 2 ^ 31 \<and> 0 \<le> m \<and> m < 2 ^ 63 \<and> 0 \<le> t \<and> t < 2 ^ 31"
proof -
  obtain e m t where vals: "get_env_non_negative env ''CLICKHOUSE_MAX_EXECUTION_TIME'' (2 ^ 31 - 1) = Inr e"
      "get_env_non_negative env ''CLICKHOUSE_MAX_MEMORY_USAGE'' (2 ^ 63 - 1) = Inr m"
      "get_env_non_negative env ''CLICKHOUSE_MAX_THREADS'' (2 ^ 31 - 1) = Inr t"
    and cfg: "Inr (cfg0\<lparr>cf_max_execution_time := e, cf_max_memory_usage := m, cf_max_threads := t\<rparr>) = (Inr cfg :: config_error + config)"
    using assms unfolding load_clickhouse_limits_def and_then_Inr by blast
  then show ?thesis
    using non_negative_result [OF vals(1)] non_negative_result [OF vals(2)] non_negative_result [OF vals(3)]
    by (intro exI [of _ e] exI [of _ m] exI [of _ t]) simp
qed

text \<open>\<open>with_mcp\<close> names what \<open>fill_mcp_credentials\<close> may change, and so on along \<open>load_config\<close>.\<close>

lemma fill_mcp_frame: "\<exists>t k. fill_mcp_credentials cfg = cfg\<lparr>cf_mcp_service_token := t, cf_mcp_api_key := k\<rparr>"
proof -
  let ?t = "if cf_mcp_service_token cfg = [] then cf_service_token cfg else cf_mcp_service_token cfg"
  let ?k = "if cf_mcp_api_key cfg = [] \<and> cf_api_keys cfg \<noteq> [] then hd (cf_api_keys cfg) else cf_mcp_api_key cfg"
  have "fill_mcp_credentials cfg = cfg\<lparr>cf_mcp_service_token := ?t, cf_mcp_api_key := ?k\<rparr>"
    by (simp add: fill_mcp_credentials_def Let_def)
  then show ?thesis by blast
qed

lemma load_exceptions_result:
  assumes "load_exceptions_source env cfg0 = Inr cfg"
  shows "\<exists>s t i. cfg = cfg0\<lparr>cf_exceptions_source := s, cf_exceptions_source_token := t,
    cf_exceptions_refresh_interval := i\<rparr> \<and> 0 \<le> i"
proof -
  obtain i where "parse_duration (get_env env ''EXCEPTIONS_REFRESH_INTERVAL'' ''60s'') = Some i" "0 \<le> i"
      "cfg = cfg0\<lparr>cf_exceptions_source := trim_space (get_env env ''EXCEPTIONS_SOURCE'' []),
         cf_exceptions_source_token := get_env env ''EXCEPTIONS_SOURCE_TOKEN'' [], cf_exceptions_refresh_interval := i\<rparr>"
    using assms unfolding load_exceptions_source_def by (auto split: option.splits if_splits)
  then show ?thesis by blast
qed

lemma load_worker_result: "load_worker_id hostname cfg0 = Inr cfg \<Longrightarrow> \<exists>w. cfg = cfg0\<lparr>cf_worker_id := w\<rparr>"
proof -
  assume w: "load_worker_id hostname cfg0 = Inr cfg"
  show ?thesis
  proof (cases "cf_worker_id cfg0 = []")
    case True
    with w show ?thesis unfolding load_worker_id_def by (auto split: option.splits)
  next
    case False
    with w have "cfg = cfg0\<lparr>cf_worker_id := cf_worker_id cfg0\<rparr>" unfolding load_worker_id_def by simp
    then show ?thesis by blast
  qed
qed

definition bucket_valid :: "s3_bucket \<Rightarrow> bool" where
  "bucket_valid b \<longleftrightarrow> check_layout (bk_path_layout b) \<and> bk_region b \<noteq> [] \<and> bk_use_ssl b \<noteq> None"

lemma load_buckets_result:
  assumes "load_buckets decode env cfg0 = Inr cfg"
  shows "\<exists>bs. cfg = cfg0\<lparr>cf_s3_buckets := bs\<rparr> \<and> distinct (map bucket_key bs) \<and> (\<forall>b \<in> set bs. bucket_valid b)"
proof -
  obtain js where js: "json_buckets decode env = Inr js"
    and rest: "(let buckets = deduplicate_buckets (map (shared_settings env) (js @ single_bucket env))
       in case find (\<lambda>b. \<not> check_layout (bk_path_layout b)) buckets of
            Some b \<Rightarrow> Inl (InvalidBucketLayout (bk_name b))
          | None \<Rightarrow> Inr (cfg0\<lparr>cf_s3_buckets := buckets\<rparr>)) = Inr cfg"
    using assms unfolding load_buckets_def and_then_Inr by blast
  define all where "all = map (shared_settings env) (js @ single_bucket env)"
  let ?bs = "deduplicate_buckets all"
  have cfg: "cfg = cfg0\<lparr>cf_s3_buckets := ?bs\<rparr>" and none: "find (\<lambda>b. \<not> check_layout (bk_path_layout b)) ?bs = None"
    using rest unfolding Let_def all_def [symmetric] by (auto split: option.splits)
  have "bucket_valid b" if b: "b \<in> set ?bs" for b
  proof -
    have "b \<in> set all"
      using find_Some_in [of _ "rev all" b] deduplicate_buckets_last(2) [of b all] b by auto
    then obtain b0 where "b = shared_settings env b0" by (auto simp: all_def)
    moreover have "check_layout (bk_path_layout b)" using none b by (auto simp: find_None_iff)
    ultimately show ?thesis using shared_settings_set by (simp add: bucket_valid_def)
  qed
  then show ?thesis using cfg deduplicate_buckets_last(1) [of all] by blast
qed

definition config_valid :: "config \<Rightarrow> bool" where
  "config_valid cfg \<longleftrightarrow>
     (0 \<le> cf_max_execution_time cfg \<and> cf_max_execution_time cfg < 2 ^ 31) \<and>
     (0 \<le> cf_max_memory_usage cfg \<and> cf_max_memory_usage cfg < 2 ^ 63) \<and>
     (0 \<le> cf_max_threads cfg \<and> cf_max_threads cfg < 2 ^ 31) \<and>
     cf_mcp_transport cfg \<in> {''stdio'', ''http''} \<and>
     cf_original_store_backend cfg \<in> {''auto'', ''s3'', ''fs'', ''none''} \<and>
     0 \<le> cf_exceptions_refresh_interval cfg \<and>
     cf_license_expression_mode cfg \<in> {[], ''strict'', ''permissive-wins'', ''off''} \<and>
     check_layout (cf_ingest_path_layout cfg) \<and>
     distinct (map bucket_key (cf_s3_buckets cfg)) \<and>
     (\<forall>b \<in> set (cf_s3_buckets cfg). bucket_valid b)"

lemma load_config_valid:
  assumes "load_config decode hostname env = Inr cfg"
  shows "config_valid cfg"
proof -
  obtain c1 c2 c3 c4 where c1: "load_clickhouse_limits env (defaults env) = Inr c1"
    and t: "cf_mcp_transport c1 \<in> {mcp_transport_stdio, mcp_transport_http}"
    and c2: "c2 = fill_mcp_credentials c1"
    and b: "cf_original_store_backend c2 \<in> {original_store_auto, original_store_s3, original_store_fs, original_store_none}"
    and c3: "load_exceptions_source env c2 = Inr c3"
    and m: "cf_license_expression_mode c3 \<in> {[], ''strict'', ''permissive-wins'', ''off''}"
    and l: "check_layout (cf_ingest_path_layout c3)"
    and c4: "load_worker_id hostname c3 = Inr c4"
    and c5: "load_buckets decode env c4 = Inr cfg"
    using assms unfolding load_config_def and_then_Inr Let_def if_Inl_Inr by blast
  obtain e mm th where f1: "c1 = (defaults env)\<lparr>cf_max_execution_time := e, cf_max_memory_usage := mm, cf_max_threads := th\<rparr>"
      "0 \<le> e" "e < 2 ^ 31" "0 \<le> mm" "mm < 2 ^ 63" "0 \<le> th" "th < 2 ^ 31"
    using load_limits_result [OF c1] by blast
  obtain tok k where f2: "c2 = c1\<lparr>cf_mcp_service_token := tok, cf_mcp_api_key := k\<rparr>"
    using fill_mcp_frame [of c1] c2 by blast
  obtain es et i where f3: "c3 = c2\<lparr>cf_exceptions_source := es, cf_exceptions_source_token := et,
      cf_exceptions_refresh_interval := i\<rparr>" "0 \<le> i"
    using load_exceptions_result [OF c3] by blast
  obtain w where f4: "c4 = c3\<lparr>cf_worker_id := w\<rparr>"
    using load_worker_result [OF c4] by blast
  obtain bs where f5: "cfg = c4\<lparr>cf_s3_buckets := bs\<rparr>" "distinct (map bucket_key bs)" "\<forall>b \<in> set bs. bucket_valid b"
    using load_buckets_result [OF c5] by blast
  have "cf_mcp_transport cfg = cf_mcp_transport c1" "cf_original_store_backend cfg = cf_original_store_backend c2"
      "cf_license_expression_mode cfg = cf_license_expression_mode c3"
      "cf_ingest_path_layout cfg = cf_ingest_path_layout c3" "cf_exceptions_refresh_interval cfg = i"
      "cf_max_execution_time cfg = e" "cf_max_memory_usage cfg = mm" "cf_max_threads cfg = th" "cf_s3_buckets cfg = bs"
    by (simp_all add: f1(1) f2 f3(1) f4 f5(1))
  then show ?thesis
    using t b m l f1(2-) f3(2) f5(2,3)
    by (simp add: config_valid_def backend_names mcp_transport_stdio_def mcp_transport_http_def)
qed

text \<open>C24:
  Whatever the environment, a configuration that \<open>Load\<close> returns is valid: every limit is in range, the
  transport, store backend and license mode are among the documented values, no two buckets have the
  same name and prefix, each bucket has a region and a choice of SSL. The layouts the components ask for
  later are the configured ones, so the silent fallback of \<open>IngestLayout\<close> and \<open>BucketIngestLayout\<close> to
  a disabled layout is never taken, and the document store backend is resolved.
\<close>

theorem loaded_config_valid:
  assumes "load_config decode hostname env = Inr cfg"
  shows "config_valid cfg \<and>
    parse_layout (cf_ingest_path_layout cfg) = Inr (ingest_layout cfg) \<and>
    (\<forall>b \<in> set (cf_s3_buckets cfg).
       parse_layout (if trim_space (bk_path_layout b) = [] then cf_ingest_path_layout cfg else bk_path_layout b) =
         Inr (bucket_ingest_layout cfg b)) \<and>
    resolved_backend cfg \<in> {''s3'', ''fs'', ''none''}"
proof -
  have ok: "config_valid cfg" using load_config_valid [OF assms] .
  then have inst: "parse_layout (cf_ingest_path_layout cfg) = Inr (ingest_layout cfg)"
    by (auto simp: config_valid_def check_layout_def ingest_layout_def split: sum.splits)
  moreover have "parse_layout (bk_path_layout b) = Inr (bucket_ingest_layout cfg b)"
    if "b \<in> set (cf_s3_buckets cfg)" "trim_space (bk_path_layout b) \<noteq> []" for b
    using ok that by (auto simp: config_valid_def bucket_valid_def check_layout_def bucket_ingest_layout_def split: sum.splits)
  moreover have "bucket_ingest_layout cfg b = ingest_layout cfg" if "trim_space (bk_path_layout b) = []" for b
    using that by (simp add: bucket_ingest_layout_def)
  moreover have "resolved_backend cfg \<in> {''s3'', ''fs'', ''none''}"
    using ok by (auto simp: resolved_backend_def config_valid_def backend_names)
  ultimately show ?thesis using ok by auto
qed

definition sample_environ :: environ where
  "sample_environ key =
     (if key = ''S3_BUCKET'' then Some ''sboms'' else if key = ''INGEST_PATH_LAYOUT'' then Some ''cluster/project''
      else if key = ''WORKER_ID'' then Some ''w1'' else if key = ''CLICKHOUSE_MAX_THREADS'' then Some '' 4 ''
      else if key = ''EXCEPTIONS_REFRESH_INTERVAL'' then Some ''1m30.5s'' else None)"

definition sample_config :: config where
  "sample_config = projr (load_config (\<lambda>_. None) None sample_environ)"

theorem loaded_config_valid_witness:
  "config_valid sample_config \<and> cf_max_threads sample_config = 4 \<and>
   cf_exceptions_refresh_interval sample_config = 90500000000 \<and> resolved_backend sample_config = ''s3''"
proof -
  have "case load_config (\<lambda>_. None) None sample_environ of
      Inl _ \<Rightarrow> False | Inr c \<Rightarrow> cf_max_threads c = 4 \<and> cf_exceptions_refresh_interval c = 90500000000 \<and> resolved_backend c = ''s3''"
    by code_simp
  then have "load_config (\<lambda>_. None) None sample_environ = Inr sample_config \<and> cf_max_threads sample_config = 4 \<and>
      cf_exceptions_refresh_interval sample_config = 90500000000 \<and> resolved_backend sample_config = ''s3''"
    by (auto simp: sample_config_def split: sum.splits)
  with loaded_config_valid [of "\<lambda>_. None" None sample_environ sample_config] show ?thesis by simp
qed

text \<open>
  Buckets are told apart by name and prefix, although the comment of \<open>deduplicateBuckets\<close> says by name;
  an operator who wants two prefixes of one bucket gets both.
\<close>

lemma prefixes_kept_apart:
  "deduplicate_buckets [b\<lparr>bk_name := ''a'', bk_prefix := ''x/''\<rparr>, b\<lparr>bk_name := ''a'', bk_prefix := ''y/''\<rparr>] =
     [b\<lparr>bk_name := ''a'', bk_prefix := ''x/''\<rparr>, b\<lparr>bk_name := ''a'', bk_prefix := ''y/''\<rparr>]"
  by (simp add: deduplicate_buckets_def bucket_key_def)

end
