(* ===== verification/Store_Factory.thy ===== *)
theory Store_Factory
  imports Config Doc_Store
begin

text \<open>
  The document store a process gets, \<open>FromConfig\<close> in \<open>backend/internal/docstore/factory.go\<close>. \<open>s3c\<close> holds
  the bucket names of the S3 client if there is one, \<open>dir\<close> gives the directory a configured path stands
  for, as an absolute path, if it can be created. Any error is \<open>None\<close>; the result \<open>Some None\<close> is the nil store.
\<close>

definition bucket_configured :: "config \<Rightarrow> string \<Rightarrow> bool" where
  "bucket_configured cfg name \<longleftrightarrow> list_ex (\<lambda>b. bk_name b = name) (cf_s3_buckets cfg)"

definition store_for_backend :: "config \<Rightarrow> string list option \<Rightarrow> (string \<Rightarrow> string option) \<Rightarrow> string \<Rightarrow> raw_kind option" where
  "store_for_backend cfg s3c dir backend =
     (if backend = original_store_s3 then
        (case s3c of
           None \<Rightarrow> None
         | Some clients \<Rightarrow>
             let bucket = original_store_bucket cfg
             in if bucket = [] \<or> \<not> bucket_configured cfg bucket then None
                else map_option S3Kind (new_s3_store clients bucket (cf_original_store_s3_prefix cfg)))
      else if backend = original_store_fs then
        (if cf_original_store_fs_path cfg = [] then None else map_option FsKind (dir (cf_original_store_fs_path cfg)))
      else None)"

definition from_config :: "config \<Rightarrow> string list option \<Rightarrow> (string \<Rightarrow> string option) \<Rightarrow> doc_store option option" where
  "from_config cfg s3c dir =
     (let backend = resolved_backend cfg
      in if backend = original_store_none then Some None
         else case store_for_backend cfg s3c dir backend of
                None \<Rightarrow> None
              | Some primary \<Rightarrow>
                  let fallback =
                    (if backend = original_store_s3 then
                       (if cf_original_store_fs_path cfg \<noteq> [] then store_for_backend cfg s3c dir original_store_fs else None)
                     else if backend = original_store_fs then
                       (if s3c \<noteq> None \<and> original_store_bucket cfg \<noteq> []
                        then store_for_backend cfg s3c dir original_store_s3 else None)
                     else None)
                  in Some (Some (new_multi_store primary [fallback])))"

lemma store_for_backend_kind:
  "store_for_backend cfg s3c dir backend = Some k \<Longrightarrow> raw_backend k = backend"
  by (auto simp: store_for_backend_def raw_backend_def backend_names backend_fs_def backend_s3_def Let_def
      split: if_splits option.splits)

text \<open>Documents are written to the resolved backend.\<close>

lemma from_config_primary:
  assumes "from_config cfg s3c dir = Some (Some st)"
  shows "raw_backend (primary_store st) = resolved_backend cfg"
    and "store_for_backend cfg s3c dir (resolved_backend cfg) = Some (primary_store st)"
  using assms store_for_backend_kind [of cfg s3c dir "resolved_backend cfg"]
  by (auto simp: from_config_def new_multi_store_def Let_def split: if_splits option.splits list.splits)

text \<open>
  A document is readable whenever the store of its backend can be built from the configuration, whether
  or not this process writes to that backend.
\<close>

lemma reads_from_backend: "reads_from k' k \<Longrightarrow> raw_backend k' = raw_backend k"
  by (cases k'; cases k) (simp_all add: raw_backend_def)

lemma can_read_new_multi_store:
  "can_read (new_multi_store p [fb]) k \<longleftrightarrow>
     (if raw_backend p = raw_backend k then reads_from p k
      else case fb of Some f \<Rightarrow> reads_from f k | None \<Rightarrow> False)"
  using reads_from_backend [of p k]
  by (auto simp: new_multi_store_def can_read_def dest: reads_from_backend split: option.splits)

lemma from_config_reads:
  assumes "from_config cfg s3c dir = Some (Some st)" "store_for_backend cfg s3c dir (raw_backend k) = Some k'"
    and "reads_from k' k"
  shows "can_read st k"
proof -
  define fallback where "fallback =
    (if resolved_backend cfg = original_store_s3 then
       (if cf_original_store_fs_path cfg \<noteq> [] then store_for_backend cfg s3c dir original_store_fs else None)
     else if resolved_backend cfg = original_store_fs then
       (if s3c \<noteq> None \<and> original_store_bucket cfg \<noteq> []
        then store_for_backend cfg s3c dir original_store_s3 else None)
     else None)"
  obtain p where p: "store_for_backend cfg s3c dir (resolved_backend cfg) = Some p"
      and st: "st = new_multi_store p [fallback]"
    using assms(1) unfolding from_config_def Let_def fallback_def [symmetric] by (auto split: if_splits option.splits)
  have pb: "raw_backend p = resolved_backend cfg" using store_for_backend_kind [OF p] .
  have used: "cf_original_store_fs_path cfg \<noteq> []" if "store_for_backend cfg s3c dir original_store_fs = Some x" for x
    using that by (simp add: store_for_backend_def backend_names split: if_splits)
  have used3: "s3c \<noteq> None \<and> original_store_bucket cfg \<noteq> []"
    if "store_for_backend cfg s3c dir original_store_s3 = Some x" for x
    using that by (auto simp: store_for_backend_def Let_def split: option.splits if_splits)
  show ?thesis
  proof (cases "resolved_backend cfg = raw_backend k")
    case True
    then have "p = k'" using p assms(2) by simp
    then show ?thesis using pb True assms(3) by (simp add: st can_read_new_multi_store)
  next
    case False
    have two: "raw_backend x \<in> {original_store_s3, original_store_fs}" for x
      by (cases x) (simp_all add: raw_backend_def backend_names backend_fs_def backend_s3_def)
    have "fallback = Some k'"
      using False two [of k] two [of p] pb assms(2) used used3
      by (auto simp: fallback_def backend_names)
    then show ?thesis using False pb assms(3) by (simp add: st can_read_new_multi_store)
  qed
qed

subsection \<open>Properties\<close>

text \<open>
  C21: what a worker stores, any other process can read back: when both build their stores from their own
  configuration, and the reader's configuration provides the backend the worker writes to (with a client
  for the worker's bucket if it is the bucket store, in the same directory if it is the file store), the reference returned by Put gives back the
  original bytes, whichever backend the reader itself writes to, and still does after the worker has
  deleted another document.
\<close>

theorem original_retrievable:
  assumes "\<forall>d z. compress d = Some z \<longrightarrow> decompress z = Some d"
    and "from_config worker_cfg s3c dir = Some (Some worker)"
    and "from_config reader_cfg s3c' dir' = Some (Some reader)"
    and "store_for_backend reader_cfg s3c' dir' (resolved_backend worker_cfg) \<noteq> None"
    and "resolved_backend worker_cfg = ''fs'' \<longrightarrow>
      dir' (cf_original_store_fs_path reader_cfg) = dir (cf_original_store_fs_path worker_cfg)"
    and "resolved_backend worker_cfg = ''s3'' \<longrightarrow> (\<exists>clients. s3c' = Some clients \<and> original_store_bucket worker_cfg \<in> set clients)"
    and "store_put compress ok worker key d w = Some (res, w')"
  shows "store_get decompress reader (pr_ref res) w' = Some d \<and> pr_encoding res = encoding_gzip \<and>
    (\<forall>old w''. raw_delete (primary_store worker) ok' old w' = Some w'' \<longrightarrow>
       points_to (primary_store worker) old \<noteq> points_to (primary_store worker) (pr_ref res) \<longrightarrow>
       store_get decompress reader (pr_ref res) w'' = Some d)"
proof -
  obtain k' where k': "store_for_backend reader_cfg s3c' dir' (raw_backend (primary_store worker)) = Some k'"
    using assms(4) from_config_primary(1) [OF assms(2)] by auto
  note mine = from_config_primary(2) [OF assms(2)]
  have "reads_from k' (primary_store worker)"
  proof (cases "primary_store worker")
    case (FsKind root)
    then have res: "resolved_backend worker_cfg = original_store_fs"
      using from_config_primary(1) [OF assms(2)] by (simp add: raw_backend_def backend_fs_def backend_names)
    have "dir (cf_original_store_fs_path worker_cfg) = Some root"
      using mine FsKind unfolding res by (auto simp: store_for_backend_def backend_names split: if_splits)
    moreover obtain root' where "dir' (cf_original_store_fs_path reader_cfg) = Some root'" "k' = FsKind root'"
      using k' FsKind by (auto simp: store_for_backend_def raw_backend_def backend_fs_def backend_names split: if_splits)
    ultimately show ?thesis using FsKind assms(5) res by (simp add: backend_names)
  next
    case (S3Kind s)
    then have res: "resolved_backend worker_cfg = original_store_s3"
      using from_config_primary(1) [OF assms(2)] by (simp add: raw_backend_def backend_s3_def backend_names)
    have "s3_bucket s = original_store_bucket worker_cfg"
      using mine S3Kind unfolding res
      by (auto simp: store_for_backend_def new_s3_store_def Let_def split: option.splits if_splits)
    moreover obtain clients s' where "s3c' = Some clients" "k' = S3Kind s'" "s3_clients s' = clients"
      using k' S3Kind by (auto simp: store_for_backend_def raw_backend_def backend_s3_def backend_names new_s3_store_def Let_def
          split: option.splits if_splits)
    ultimately show ?thesis using S3Kind assms(6) res by (auto simp: backend_names)
  qed
  then show ?thesis
    using stored_read_back [OF assms(1) assms(7) from_config_reads [OF assms(3) k']] by blast
qed

definition worker_config :: config where
  "worker_config = sample_config\<lparr>cf_s3_buckets := [], cf_original_store_fs_path := ''/data/originals''\<rparr>"

definition gateway_config :: config where
  "gateway_config = sample_config\<lparr>cf_original_store_fs_path := ''/data/originals''\<rparr>"

theorem original_retrievable_witness:
  "\<exists>reader res w'. from_config gateway_config (Some [''sboms'']) Some = Some (Some reader) \<and>
     raw_backend (primary_store reader) = ''s3'' \<and>
     store_put (\<lambda>d. Some (rev d)) True (SingleStore (FsKind ''/data/originals'')) ''id/../id/a.json'' ''{}''
       \<lparr>st_files = Map.empty, st_objects = Map.empty\<rparr> = Some (res, w') \<and> pr_ref res = ''fs://id/a.json.gz'' \<and>
     store_get (\<lambda>z. Some (rev z)) reader (pr_ref res) w' = Some ''{}''"
proof -
  let ?w = "\<lparr>st_files = Map.empty, st_objects = Map.empty\<rparr> :: storage"
  let ?s3 = "S3Kind \<lparr>s3_bucket = ''sboms'', s3_prefix = ''_bomhort/originals/'', s3_clients = [''sboms'']\<rparr>"
  let ?reader = "MultiStore ?s3 [?s3, FsKind ''/data/originals'']"
  have gz: "\<forall>d z. Some (rev d) = Some z \<longrightarrow> Some (rev z) = Some (d :: string)" by auto
  have worker: "from_config worker_config None Some = Some (Some (SingleStore (FsKind ''/data/originals'')))" by code_simp
  have reader: "from_config gateway_config (Some [''sboms'']) Some = Some (Some ?reader)" by code_simp
  have both: "store_for_backend gateway_config (Some [''sboms'']) Some (resolved_backend worker_config) \<noteq> None"
      "resolved_backend worker_config \<noteq> ''s3''"
      "cf_original_store_fs_path gateway_config = cf_original_store_fs_path worker_config" by code_simp+
  have rel: "safe_rel (''id/../id/a.json'' @ gzip_suffix) = Some ''id/a.json.gz''" by code_simp
  then obtain res w' where put: "store_put (\<lambda>d. Some (rev d)) True (SingleStore (FsKind ''/data/originals'')) ''id/../id/a.json'' ''{}'' ?w = Some (res, w')"
      "pr_ref res = ''fs://id/a.json.gz''"
    by (simp add: store_put_def raw_put_def fs_put_def)
  have "store_get (\<lambda>z. Some (rev z)) ?reader (pr_ref res) w' = Some ''{}''"
    using original_retrievable [OF gz worker reader both(1) _ _ put(1), of True] both(2,3) by simp
  moreover have "raw_backend (primary_store ?reader) = ''s3''" by (simp add: raw_backend_def backend_s3_def)
  ultimately show ?thesis using reader put by blast
qed

end
