(* ===== verification/Ingestion_Watcher.thy ===== *)
theory Ingestion_Watcher
  imports Config Job_Queue Sbom_Name
begin

text \<open>
  The ingestion watcher: \<open>backend/cmd/ingestion-watcher/main.go\<close> over the directory scanner of
  \<open>backend/internal/repo/scanner.go\<close> and the listing of \<open>backend/internal/s3/client.go\<close>. A directory tree
  is given in the order \<open>filepath.Walk\<close> visits it (the entries of a directory by name), what cannot be
  read is marked; an entry that is not a directory to \<open>Lstat\<close> is a file, symbolic links among them. What
  the S3 service lists, which enqueue fails and what \<open>uuid.New\<close> and \<open>time.Now\<close> return are the
  environment of a run. Logging is left out.
\<close>

subsection \<open>The directory scanner\<close>

definition file_sbom :: string where "file_sbom = ''sbom''"
definition file_vex :: string where "file_vex = ''vex''"

definition classify_file_type :: "string \<Rightarrow> string option" where
  "classify_file_type name0 =
     (let name = to_lower name0
      in if has_suffix name ''.openvex.json'' \<or> has_suffix name ''.vex.json'' then Some file_vex
         else if has_suffix name ''.spdx.json'' \<or> has_suffix name ''.cdx.json'' \<or> has_suffix name ''.json''
         then Some file_sbom else None)"

record file_info =
  fi_rel_path :: string
  fi_sha256_hash :: string
  fi_file_type :: string

datatype fs_entry =
    FsFile string "string option"
  | FsDir string "fs_entry list option"
  | FsLost string

definition skip_dir :: "string \<Rightarrow> bool" where
  "skip_dir name \<longleftrightarrow> name = ''lost+found'' \<or> name = ''.git'' \<or> has_prefix name ''.'' \<and> name \<noteq> ''.''"

definition config_files :: "string list" where
  "config_files = [''license-policy.json'', ''license-exceptions.json'', ''project-groups.json'']"

definition join_rel :: "string \<Rightarrow> string \<Rightarrow> string" where
  "join_rel dir name = (if dir = [] then name else dir @ ''/'' @ name)"

text \<open>A file that cannot be hashed ends the whole scan.\<close>

definition scan_file :: "(string \<Rightarrow> string) \<Rightarrow> string \<Rightarrow> string \<Rightarrow> string \<Rightarrow> string option \<Rightarrow> file_info list option" where
  "scan_file sha ignore_prefix rel name content =
     (if ignore_prefix \<noteq> [] \<and> has_prefix name ignore_prefix then Some []
      else if to_lower name \<in> set config_files then Some []
      else case classify_file_type (to_lower name) of
             None \<Rightarrow> Some []
           | Some file_type \<Rightarrow>
               map_option (\<lambda>data. [\<lparr>fi_rel_path = rel, fi_sha256_hash = sha data, fi_file_type = file_type\<rparr>]) content)"

fun walk_entry :: "(string \<Rightarrow> string) \<Rightarrow> string \<Rightarrow> string \<Rightarrow> fs_entry \<Rightarrow> file_info list option"
and walk_entries :: "(string \<Rightarrow> string) \<Rightarrow> string \<Rightarrow> string \<Rightarrow> fs_entry list \<Rightarrow> file_info list option" where
  "walk_entry sha ignore_prefix dir (FsLost name) = Some []"
| "walk_entry sha ignore_prefix dir (FsFile name content) =
     scan_file sha ignore_prefix (join_rel dir name) name content"
| "walk_entry sha ignore_prefix dir (FsDir name None) = Some []"
| "walk_entry sha ignore_prefix dir (FsDir name (Some entries)) =
     (if skip_dir name then Some [] else walk_entries sha ignore_prefix (join_rel dir name) entries)"
| "walk_entries sha ignore_prefix dir [] = Some []"
| "walk_entries sha ignore_prefix dir (e # es) =
     (case walk_entry sha ignore_prefix dir e of
        None \<Rightarrow> None
      | Some files \<Rightarrow> map_option (\<lambda>more. files @ more) (walk_entries sha ignore_prefix dir es))"

text \<open>The root is an entry like the others, but an error on it ends the scan. Its relative path is \<open>.\<close>.\<close>

fun scan :: "(string \<Rightarrow> string) \<Rightarrow> string \<Rightarrow> fs_entry \<Rightarrow> file_info list option" where
  "scan sha ignore_prefix (FsLost name) = None"
| "scan sha ignore_prefix (FsDir name None) = None"
| "scan sha ignore_prefix (FsDir name (Some entries)) =
     (if skip_dir name then Some [] else walk_entries sha ignore_prefix [] entries)"
| "scan sha ignore_prefix (FsFile name content) = scan_file sha ignore_prefix ''.'' name content"

subsection \<open>The S3 client\<close>

record object_info =
  ob_bucket :: string
  ob_key :: string
  ob_etag :: string
  ob_file_type :: string

definition object_uri :: "object_info \<Rightarrow> string" where
  "object_uri ob = ''s3://'' @ ob_bucket ob @ ''/'' @ ob_key ob"

definition sanitize_etag :: "string \<Rightarrow> string" where
  "sanitize_etag etag = trim_by (\<lambda>c. c = CHR 0x22) etag"

definition reserved_prefix :: string where "reserved_prefix = ''_bomhort/''"

definition is_reserved_key :: "string \<Rightarrow> bool" where
  "is_reserved_key key \<longleftrightarrow> contains_str (''/'' @ key) (''/'' @ reserved_prefix)"

definition classify_key :: "string \<Rightarrow> string" where
  "classify_key key =
     (let l = to_lower key
      in if has_suffix l ''.openvex.json'' \<or> has_suffix l ''.vex.json'' then file_vex
         else if contains_str (path_base l) ''_release_'' then []
         else if has_suffix l ''.spdx.json'' \<or> has_suffix l ''_spdx.json'' \<or> has_suffix l ''.cdx.json'' \<or>
                 has_suffix l ''_cdx.json'' \<or> has_suffix l ''.spdx3.json'' \<or> has_suffix l ''_spdx3.json''
         then file_sbom else [])"

text \<open>What a MinIO client is built with; no credentials means unsigned requests.\<close>

record minio_options =
  mo_endpoint :: string
  mo_region :: string
  mo_credentials :: "(string \<times> string) option"
  mo_secure :: bool
  mo_path_lookup :: bool

definition minio_options_of :: "s3_bucket \<Rightarrow> minio_options" where
  "minio_options_of cfg =
     (let region = (if bk_region cfg = [] then ''us-east-1'' else bk_region cfg);
          e0 = trim_space (bk_endpoint cfg);
          e1 = (if e0 = [] then ''s3.'' @ region @ ''.amazonaws.com'' else e0);
          secure = (if has_prefix e1 ''https://'' then True
                    else if has_prefix e1 ''http://'' then False
                    else (case bk_use_ssl cfg of Some ssl \<Rightarrow> ssl | None \<Rightarrow> True));
          e2 = (if has_prefix e1 ''https://'' then trim_prefix e1 ''https://''
                else if has_prefix e1 ''http://'' then trim_prefix e1 ''http://'' else e1)
      in \<lparr>mo_endpoint = trim_right_by (\<lambda>c. c = CHR ''/'') e2, mo_region = bk_region cfg,
          mo_credentials = (if bk_access_key cfg \<noteq> [] then Some (bk_access_key cfg, bk_secret_key cfg) else None),
          mo_secure = secure, mo_path_lookup = bk_use_path_style cfg\<rparr>)"

text \<open>\<open>NewClient\<close>: one client per bucket name, the last configuration of a name wins.\<close>

fun new_clients :: "(minio_options \<Rightarrow> bool) \<Rightarrow> s3_bucket list \<Rightarrow> (string \<rightharpoonup> minio_options) \<Rightarrow> (string \<rightharpoonup> minio_options) option" where
  "new_clients accepts [] clients = Some clients"
| "new_clients accepts (cfg # cfgs) clients =
     (if accepts (minio_options_of cfg)
      then new_clients accepts cfgs (clients(bk_name cfg \<mapsto> minio_options_of cfg)) else None)"

text \<open>
  A listing: whether the probe succeeds, then keys with their ETags, or an error, in the order of the
  stream.
\<close>

datatype s3_listing = NotAccessible | Listing "(string \<times> string) option list"

definition list_entry :: "string \<Rightarrow> (string \<times> string) option \<Rightarrow> object_info option list" where
  "list_entry bucket entry =
     (case entry of
        None \<Rightarrow> [None]
      | Some (key, etag) \<Rightarrow>
          if is_reserved_key key \<or> classify_key key = [] then []
          else [Some \<lparr>ob_bucket = bucket, ob_key = key, ob_etag = sanitize_etag etag, ob_file_type = classify_key key\<rparr>])"

definition list_bucket ::
  "(minio_options \<Rightarrow> string \<Rightarrow> string \<Rightarrow> s3_listing) \<Rightarrow> (string \<rightharpoonup> minio_options) \<Rightarrow> s3_bucket \<Rightarrow> object_info option list" where
  "list_bucket service clients cfg =
     (if bk_skip_scan cfg then []
      else case clients (bk_name cfg) of
             None \<Rightarrow> [None]
           | Some mc \<Rightarrow>
               (case service mc (bk_name cfg) (bk_prefix cfg) of
                  NotAccessible \<Rightarrow> [None]
                | Listing objs \<Rightarrow> concat (map (list_entry (bk_name cfg)) objs)))"

definition list_objects ::
  "(minio_options \<Rightarrow> string \<Rightarrow> string \<Rightarrow> s3_listing) \<Rightarrow> (string \<rightharpoonup> minio_options) \<Rightarrow> s3_bucket list \<Rightarrow> object_info option list" where
  "list_objects service clients cfgs = concat (map (list_bucket service clients) cfgs)"


subsection \<open>Ownership\<close>

record source_ownership =
  ow_cluster :: string
  ow_namespace :: string
  ow_project :: string
  ow_prefix :: string
  ow_layout :: layout
  ow_tags :: "string list"
  ow_parent :: string

definition strip_prefix :: "string \<Rightarrow> string \<Rightarrow> string" where
  "strip_prefix key pfx0 =
     (let pfx = trim_suffix pfx0 ''/''
      in if pfx = [] then key else trim_prefix (trim_prefix key pfx) ''/'')"

definition merge_derived_tags :: "string list \<Rightarrow> attributes \<Rightarrow> string list" where
  "merge_derived_tags configured derived =
     (if at_tags derived \<noteq> [] then merge_tags [configured, at_tags derived] else configured)"

definition resolve_ownership :: "source_ownership \<Rightarrow> string \<Rightarrow> attributes" where
  "resolve_ownership own key =
     (let configured = \<lparr>at_cluster = ow_cluster own, at_namespace = ow_namespace own, at_project = ow_project own,
                        at_parent = ow_parent own, at_tags = ow_tags own\<rparr>
      in if \<not> layout_enabled (ow_layout own) then configured
         else let derived = derive (ow_layout own) (strip_prefix key (ow_prefix own))
              in (apply_derived derived configured)\<lparr>at_tags := merge_derived_tags (ow_tags own) derived\<rparr>)"

fun first_non_empty :: "string list \<Rightarrow> string" where
  "first_non_empty [] = []"
| "first_non_empty (v # vs) = (if v \<noteq> [] then v else first_non_empty vs)"

definition bucket_ownership :: "config \<Rightarrow> s3_bucket \<Rightarrow> source_ownership" where
  "bucket_ownership cfg b =
     \<lparr>ow_cluster = first_non_empty [bk_cluster b, cf_cluster_name cfg],
      ow_namespace = first_non_empty [bk_namespace b, cf_namespace cfg],
      ow_project = first_non_empty [bk_project b, cf_project cfg],
      ow_prefix = bk_prefix b,
      ow_layout = bucket_ingest_layout cfg b,
      ow_tags = bucket_tags cfg b,
      ow_parent = first_non_empty [trim_space (bk_parent b), cf_parent cfg]\<rparr>"

definition no_ownership :: source_ownership where
  "no_ownership = \<lparr>ow_cluster = [], ow_namespace = [], ow_project = [], ow_prefix = [],
     ow_layout = no_layout, ow_tags = [], ow_parent = []\<rparr>"

text \<open>The map of the loop over the buckets: by name, the last one wins.\<close>

definition bucket_owner :: "config \<Rightarrow> string \<Rightarrow> source_ownership" where
  "bucket_owner cfg = foldl (\<lambda>owner b. owner(bk_name b := bucket_ownership cfg b)) (\<lambda>_. no_ownership) (cf_s3_buckets cfg)"

definition local_ownership :: "config \<Rightarrow> string \<Rightarrow> attributes" where
  "local_ownership cfg rel =
     (let derived = derive (ingest_layout cfg) rel
      in apply_derived derived
           \<lparr>at_cluster = cf_cluster_name cfg, at_namespace = cf_namespace cfg, at_project = cf_project cfg,
            at_parent = cf_parent cfg, at_tags = merge_derived_tags (cf_tags cfg) derived\<rparr>)"

subsection \<open>Enqueueing what is new\<close>

definition job_type_of :: "string \<Rightarrow> string" where
  "job_type_of file_type = (if file_type = file_vex then ''vex'' else job_type_sbom)"

definition watcher_payload :: "string \<Rightarrow> string \<Rightarrow> string \<Rightarrow> attributes \<Rightarrow> payload" where
  "watcher_payload source_file hash file_type a =
     \<lparr>pl_source_file = source_file, pl_sha256_hash = hash, pl_job_type = job_type_of file_type,
      pl_cluster = at_cluster a, pl_namespace = at_namespace a, pl_project = at_project a,
      pl_source_repo = [], pl_source_ref = [], pl_target_sbom_id = [], pl_tags = at_tags a, pl_parent = at_parent a\<rparr>"

text \<open>A file or object the scan met: its type and what its job would carry.\<close>

type_synonym discovery = "string \<times> payload"

definition local_discovery :: "config \<Rightarrow> file_info \<Rightarrow> discovery" where
  "local_discovery cfg f =
     (fi_file_type f, watcher_payload (fi_rel_path f) (fi_sha256_hash f) (fi_file_type f) (local_ownership cfg (fi_rel_path f)))"

definition s3_discovery :: "config \<Rightarrow> object_info \<Rightarrow> discovery" where
  "s3_discovery cfg ob =
     (ob_file_type ob, watcher_payload (object_uri ob) (ob_etag ob) (ob_file_type ob)
        (resolve_ownership (bucket_owner cfg (ob_bucket ob)) (ob_key ob)))"

definition enqueue_batch_size :: nat where "enqueue_batch_size = 500"

datatype enqueue_outcome = EnqueueStored | EnqueueNoAck | EnqueueRefused

record watch_env =
  we_known_ok :: bool
  we_dir_exists :: bool
  we_tree :: fs_entry
  we_sha256 :: "string \<Rightarrow> string"
  we_accepts :: "minio_options \<Rightarrow> bool"
  we_service :: "minio_options \<Rightarrow> string \<Rightarrow> string \<Rightarrow> s3_listing"
  we_enqueue :: "nat \<Rightarrow> enqueue_outcome"
  we_new_id :: "nat \<Rightarrow> nat"
  we_clock :: "nat \<Rightarrow> int"

record watch_state =
  wa_known :: "string set"
  wa_sbom_count :: int
  wa_batch :: "ingestion_job list"
  wa_rows :: "queue_row list"
  wa_enqueued :: nat
  wa_attempts :: nat
  wa_made :: nat

definition watcher_job :: "watch_env \<Rightarrow> nat \<Rightarrow> payload \<Rightarrow> ingestion_job" where
  "watcher_job env k p =
     \<lparr>jb_created_at = we_clock env k, jb_job_id = we_new_id env k, jb_payload = p, jb_status = Some StatusPending,
      jb_claimed_by = [], jb_claimed_at = None, jb_retry_after = zero_time, jb_version = 0\<rparr>"

text \<open>A batch is dropped when its enqueue reports an error, stored or not.\<close>

definition flush :: "watch_env \<Rightarrow> watch_state \<Rightarrow> watch_state" where
  "flush env st0 =
     (let st = st0\<lparr>wa_batch := [], wa_attempts := Suc (wa_attempts st0)\<rparr>;
          rows = enqueue_jobs (wa_batch st0) (wa_rows st0)
      in case we_enqueue env (wa_attempts st0) of
           EnqueueStored \<Rightarrow> st\<lparr>wa_rows := rows, wa_enqueued := wa_enqueued st0 + length (wa_batch st0)\<rparr>
         | EnqueueNoAck \<Rightarrow> st\<lparr>wa_rows := rows\<rparr>
         | EnqueueRefused \<Rightarrow> st)"

text \<open>The body of both loops.\<close>

definition add_job :: "watch_env \<Rightarrow> payload \<Rightarrow> watch_state \<Rightarrow> watch_state" where
  "add_job env p st =
     (let st' = st\<lparr>wa_known := insert (pl_sha256_hash p) (wa_known st),
                   wa_batch := wa_batch st @ [watcher_job env (wa_made st) p], wa_made := Suc (wa_made st)\<rparr>
      in if length (wa_batch st') \<ge> enqueue_batch_size then flush env st' else st')"

definition consider_file :: "int \<Rightarrow> watch_env \<Rightarrow> watch_state \<Rightarrow> discovery \<Rightarrow> watch_state" where
  "consider_file limit env st0 d =
     (case d of (file_type, p) \<Rightarrow>
        if file_type \<noteq> file_vex \<and> limit > 0 \<and> wa_sbom_count st0 \<ge> limit then st0
        else
          let st = (if file_type \<noteq> file_vex then st0\<lparr>wa_sbom_count := wa_sbom_count st0 + 1\<rparr> else st0)
          in if pl_sha256_hash p \<in> wa_known st then st else add_job env p st)"

definition consider_all :: "int \<Rightarrow> watch_env \<Rightarrow> discovery list \<Rightarrow> watch_state \<Rightarrow> watch_state" where
  "consider_all limit env ds st0 =
     (let st = foldl (consider_file limit env) (st0\<lparr>wa_batch := []\<rparr>) ds
      in if wa_batch st \<noteq> [] then flush env st else st)"

definition ingest_local_files :: "config \<Rightarrow> watch_env \<Rightarrow> watch_state \<Rightarrow> watch_state" where
  "ingest_local_files cfg env st =
     (case scan (we_sha256 env) (cf_ignore_prefix cfg) (we_tree env) of
        None \<Rightarrow> st
      | Some files \<Rightarrow> consider_all (cf_sbom_limit cfg) env (map (local_discovery cfg) files) st)"

definition ingest_s3_buckets :: "config \<Rightarrow> watch_env \<Rightarrow> watch_state \<Rightarrow> watch_state" where
  "ingest_s3_buckets cfg env st =
     (case new_clients (we_accepts env) (cf_s3_buckets cfg) Map.empty of
        None \<Rightarrow> st
      | Some clients \<Rightarrow>
          let objects = List.map_filter id (list_objects (we_service env) clients (cf_s3_buckets cfg))
          in consider_all (cf_sbom_limit cfg) env (map (s3_discovery cfg) objects) st)"

text \<open>\<open>main\<close>, from the query of the known hashes to the end; \<open>None\<close> is a fatal error.\<close>

definition watcher_run :: "config \<Rightarrow> watch_env \<Rightarrow> queue_row list \<Rightarrow> watch_state option" where
  "watcher_run cfg env rows =
     (if \<not> we_known_ok env then None
      else
        let st0 = \<lparr>wa_known = known_hashes rows, wa_sbom_count = 0, wa_batch = [], wa_rows = rows,
                   wa_enqueued = 0, wa_attempts = 0, wa_made = 0\<rparr>;
            st1 = (if cf_sbom_dir cfg \<noteq> [] \<and> we_dir_exists env then ingest_local_files cfg env st0 else st0)
        in Some (if has_s3_sources cfg then ingest_s3_buckets cfg env st1 else st1))"


subsection \<open>What a run should enqueue\<close>

text \<open>Everything the run meets, local files first.\<close>

definition discovered :: "config \<Rightarrow> watch_env \<Rightarrow> discovery list" where
  "discovered cfg env =
     (if cf_sbom_dir cfg \<noteq> [] \<and> we_dir_exists env then
        (case scan (we_sha256 env) (cf_ignore_prefix cfg) (we_tree env) of
           None \<Rightarrow> [] | Some files \<Rightarrow> map (local_discovery cfg) files)
      else []) @
     (if has_s3_sources cfg then
        (case new_clients (we_accepts env) (cf_s3_buckets cfg) Map.empty of
           None \<Rightarrow> []
         | Some clients \<Rightarrow>
             map (s3_discovery cfg) (List.map_filter id (list_objects (we_service env) clients (cf_s3_buckets cfg))))
      else [])"

text \<open>The files within the limit, of which \<open>n\<close> SBOMs came before; then the first of each new content.\<close>

fun allowed :: "int \<Rightarrow> int \<Rightarrow> discovery list \<Rightarrow> payload list" where
  "allowed limit n [] = []"
| "allowed limit n ((file_type, p) # ds) =
     (if file_type = file_vex then p # allowed limit n ds
      else if limit > 0 \<and> n \<ge> limit then allowed limit n ds
      else p # allowed limit (n + 1) ds)"

fun first_of_content :: "string set \<Rightarrow> payload list \<Rightarrow> payload list" where
  "first_of_content seen [] = []"
| "first_of_content seen (p # ps) =
     (if pl_sha256_hash p \<in> seen then first_of_content seen ps
      else p # first_of_content (insert (pl_sha256_hash p) seen) ps)"

definition wanted :: "config \<Rightarrow> watch_env \<Rightarrow> payload list" where
  "wanted cfg env = allowed (cf_sbom_limit cfg) 0 (discovered cfg env)"

fun counted :: "int \<Rightarrow> int \<Rightarrow> discovery list \<Rightarrow> int" where
  "counted limit n [] = n"
| "counted limit n ((file_type, p) # ds) =
     counted limit (if file_type = file_vex \<or> limit > 0 \<and> n \<ge> limit then n else n + 1) ds"

definition jobs_from :: "watch_env \<Rightarrow> nat \<Rightarrow> payload list \<Rightarrow> ingestion_job list" where
  "jobs_from env k ps = map (\<lambda>(i, p). watcher_job env i p) (zip [k..<k + length ps] ps)"

lemma jobs_from_simps [simp]:
  "jobs_from env k [] = []"
  "jobs_from env k (p # ps) = watcher_job env k p # jobs_from env (Suc k) ps"
  by (simp_all add: jobs_from_def upt_rec)

lemma length_jobs_from [simp]: "length (jobs_from env k ps) = length ps"
  by (simp add: jobs_from_def)

lemma jobs_from_append: "jobs_from env k (ps @ qs) = jobs_from env k ps @ jobs_from env (k + length ps) qs"
  by (induction ps arbitrary: k) auto

lemma watcher_job_sel [simp]:
  "jb_payload (watcher_job env k p) = p" "jb_job_id (watcher_job env k p) = we_new_id env k"
  by (simp_all add: watcher_job_def)

lemma jobs_from_payloads [simp]: "map jb_payload (jobs_from env k ps) = ps"
  by (induction ps arbitrary: k) auto

lemma jobs_from_ids: "map jb_job_id (jobs_from env k ps) = map (we_new_id env) [k..<k + length ps]"
  by (induction ps arbitrary: k) (auto simp: upt_rec)

lemma allowed_append: "allowed limit n (ds @ es) = allowed limit n ds @ allowed limit (counted limit n ds) es"
  by (induction limit n ds rule: allowed.induct) auto

lemma first_of_content_append:
  "first_of_content seen (ps @ qs) = first_of_content seen ps @ first_of_content (seen \<union> pl_sha256_hash ` set ps) qs"
  by (induction seen ps rule: first_of_content.induct) (auto simp: insert_absorb)

lemma first_of_content_known: "pl_sha256_hash ` set ps \<subseteq> seen \<Longrightarrow> first_of_content seen ps = []"
  by (induction seen ps rule: first_of_content.induct) auto

lemma first_of_content_spec:
  "distinct (map pl_sha256_hash (first_of_content seen ps)) \<and>
   pl_sha256_hash ` set (first_of_content seen ps) = pl_sha256_hash ` set ps - seen \<and>
   subseq (first_of_content seen ps) ps"
  by (induction seen ps rule: first_of_content.induct) (auto simp: image_iff)

subsection \<open>The loop\<close>

text \<open>
  Between two files the rows written since \<open>rows0\<close> and the batch together are the jobs made so far, but for
  the batches whose enqueue failed.
\<close>

definition batched :: "watch_env \<Rightarrow> queue_row list \<Rightarrow> ingestion_job list \<Rightarrow> watch_state \<Rightarrow> bool" where
  "batched env rows0 made st \<longleftrightarrow>
     (\<exists>stored. wa_rows st = rows0 @ map enqueue_row stored \<and> subseq (stored @ wa_batch st) made \<and>
        ((\<forall>k. we_enqueue env k \<noteq> EnqueueRefused) \<longrightarrow> stored @ wa_batch st = made))"

lemma flush_keeps:
  "wa_known (flush env st) = wa_known st" "wa_sbom_count (flush env st) = wa_sbom_count st"
  "wa_made (flush env st) = wa_made st" "wa_batch (flush env st) = []"
  by (simp_all add: flush_def Let_def split: enqueue_outcome.split)

lemma flush_batched:
  assumes "batched env rows0 made st"
  shows "batched env rows0 made (flush env st)"
proof -
  obtain stored where st: "wa_rows st = rows0 @ map enqueue_row stored" "subseq (stored @ wa_batch st) made"
      "(\<forall>k. we_enqueue env k \<noteq> EnqueueRefused) \<longrightarrow> stored @ wa_batch st = made"
    using assms unfolding batched_def by blast
  show ?thesis
  proof (cases "we_enqueue env (wa_attempts st) = EnqueueRefused")
    case True
    have "subseq stored made"
      using subseq_order.order_trans [OF subseq_rev_drop_many [OF subseq_order.order_refl] st(2)] .
    then show ?thesis
      using True st(1) unfolding batched_def by (intro exI [of _ stored]) (auto simp: flush_def Let_def)
  next
    case False
    then have "wa_rows (flush env st) = rows0 @ map enqueue_row (stored @ wa_batch st)"
      using st(1) by (cases "we_enqueue env (wa_attempts st)") (auto simp: flush_def Let_def enqueue_jobs_def)
    then show ?thesis
      using st(2,3) unfolding batched_def by (intro exI [of _ "stored @ wa_batch st"]) (simp add: flush_keeps)
  qed
qed

lemma add_job_step:
  assumes "batched env rows0 made st"
  shows "wa_known (add_job env p st) = insert (pl_sha256_hash p) (wa_known st)"
    "wa_sbom_count (add_job env p st) = wa_sbom_count st" "wa_made (add_job env p st) = Suc (wa_made st)"
    "batched env rows0 (made @ [watcher_job env (wa_made st) p]) (add_job env p st)"
proof -
  let ?j = "watcher_job env (wa_made st) p"
  let ?st = "st\<lparr>wa_known := insert (pl_sha256_hash p) (wa_known st), wa_batch := wa_batch st @ [?j], wa_made := Suc (wa_made st)\<rparr>"
  have eq: "add_job env p st = (if length (wa_batch ?st) \<ge> enqueue_batch_size then flush env ?st else ?st)"
    by (simp add: add_job_def Let_def)
  show "wa_known (add_job env p st) = insert (pl_sha256_hash p) (wa_known st)"
    "wa_sbom_count (add_job env p st) = wa_sbom_count st" "wa_made (add_job env p st) = Suc (wa_made st)"
    unfolding eq by (simp_all add: flush_keeps)
  obtain stored where "wa_rows st = rows0 @ map enqueue_row stored" "subseq (stored @ wa_batch st) made"
      "(\<forall>k. we_enqueue env k \<noteq> EnqueueRefused) \<longrightarrow> stored @ wa_batch st = made"
    using assms unfolding batched_def by blast
  moreover have "subseq ((stored @ wa_batch st) @ [?j]) (made @ [?j])" if "subseq (stored @ wa_batch st) made"
    using that by (simp only: subseq_append)
  ultimately have "batched env rows0 (made @ [?j]) ?st"
    unfolding batched_def by (intro exI [of _ stored]) auto
  then show "batched env rows0 (made @ [?j]) (add_job env p st)"
    unfolding eq using flush_batched by auto
qed

lemma consider_file_step:
  assumes "batched env rows0 made st"
    and "ps = allowed limit (wa_sbom_count st) [d]" "st' = consider_file limit env st d"
  shows "wa_known st' = wa_known st \<union> pl_sha256_hash ` set ps"
    "wa_sbom_count st' = counted limit (wa_sbom_count st) [d]"
    "wa_made st' = wa_made st + length (first_of_content (wa_known st) ps)"
    "batched env rows0 (made @ jobs_from env (wa_made st) (first_of_content (wa_known st) ps)) st'"
proof -
  have count: "batched env rows0 made (st\<lparr>wa_sbom_count := n\<rparr>)" for n
    using assms(1) unfolding batched_def by simp
  note steps = add_job_step [OF assms(1)] add_job_step [OF count] count assms(1)
  show "wa_known st' = wa_known st \<union> pl_sha256_hash ` set ps"
    "wa_sbom_count st' = counted limit (wa_sbom_count st) [d]"
    "wa_made st' = wa_made st + length (first_of_content (wa_known st) ps)"
    "batched env rows0 (made @ jobs_from env (wa_made st) (first_of_content (wa_known st) ps)) st'"
    using steps unfolding assms(2,3) by (cases d; auto simp: consider_file_def Let_def insert_absorb)+
qed

lemma consider_loop:
  assumes "batched env rows0 made st" "ps = allowed limit (wa_sbom_count st) ds"
    and "st' = foldl (consider_file limit env) st ds"
  shows "wa_known st' = wa_known st \<union> pl_sha256_hash ` set ps \<and>
    wa_sbom_count st' = counted limit (wa_sbom_count st) ds \<and>
    wa_made st' = wa_made st + length (first_of_content (wa_known st) ps) \<and>
    batched env rows0 (made @ jobs_from env (wa_made st) (first_of_content (wa_known st) ps)) st'"
  using assms
proof (induction ds arbitrary: st made ps)
  case (Cons d ds)
  define st1 where "st1 = consider_file limit env st d"
  define ps1 where "ps1 = allowed limit (wa_sbom_count st) [d]"
  note one = consider_file_step [OF Cons.prems(1) ps1_def st1_def]
  have "counted limit n (d # ds) = counted limit (counted limit n [d]) ds" for n by (cases d) simp
  moreover have "ps = ps1 @ allowed limit (counted limit (wa_sbom_count st) [d]) ds"
    using Cons.prems(2) allowed_append [of limit "wa_sbom_count st" "[d]" ds] by (simp add: ps1_def)
  moreover have "st' = foldl (consider_file limit env) st1 ds" using Cons.prems(3) by (simp add: st1_def)
  moreover note Cons.IH [OF one(4) refl this]
  ultimately show ?case
    using Cons.prems(3) one(1-3)
    by (simp add: st1_def [symmetric] first_of_content_append jobs_from_append Un_assoc image_Un)
qed simp

lemma consider_all_step:
  assumes "batched env rows0 made st" "wa_batch st = []" "ps = allowed limit (wa_sbom_count st) ds"
    and "st' = consider_all limit env ds st"
  shows "wa_known st' = wa_known st \<union> pl_sha256_hash ` set ps \<and>
    wa_sbom_count st' = counted limit (wa_sbom_count st) ds \<and>
    wa_made st' = wa_made st + length (first_of_content (wa_known st) ps) \<and>
    batched env rows0 (made @ jobs_from env (wa_made st) (first_of_content (wa_known st) ps)) st' \<and> wa_batch st' = []"
proof -
  have same: "st\<lparr>wa_batch := []\<rparr> = st" using assms(2) by simp
  define st1 where "st1 = foldl (consider_file limit env) st ds"
  have st': "st' = (if wa_batch st1 \<noteq> [] then flush env st1 else st1)"
    using assms(4) by (simp add: consider_all_def same st1_def Let_def)
  show ?thesis
    using consider_loop [OF assms(1,3) st1_def] flush_batched [of env rows0 _ st1]
    by (simp add: st' flush_keeps)
qed

lemma watcher_run_rows:
  assumes "watcher_run cfg env rows = Some st"
    and "new = first_of_content (known_hashes rows) (wanted cfg env)"
  shows "\<exists>stored. wa_rows st = rows @ map enqueue_row stored \<and> subseq stored (jobs_from env 0 new) \<and>
    ((\<forall>k. we_enqueue env k \<noteq> EnqueueRefused) \<longrightarrow> stored = jobs_from env 0 new)"
proof -
  define st0 where "st0 = \<lparr>wa_known = known_hashes rows, wa_sbom_count = 0, wa_batch = [], wa_rows = rows,
                   wa_enqueued = 0, wa_attempts = 0, wa_made = 0\<rparr>"
  define local_ds where "local_ds = (if cf_sbom_dir cfg \<noteq> [] \<and> we_dir_exists env then
      (case scan (we_sha256 env) (cf_ignore_prefix cfg) (we_tree env) of
         None \<Rightarrow> [] | Some files \<Rightarrow> map (local_discovery cfg) files) else [])"
  define s3_ds where "s3_ds = (if has_s3_sources cfg then
      (case new_clients (we_accepts env) (cf_s3_buckets cfg) Map.empty of
         None \<Rightarrow> []
       | Some clients \<Rightarrow>
           map (s3_discovery cfg) (List.map_filter id (list_objects (we_service env) clients (cf_s3_buckets cfg)))) else [])"
  define st1 where "st1 = consider_all (cf_sbom_limit cfg) env local_ds st0"
  have idle: "consider_all limit env [] s = s" if "wa_batch s = []" for limit s
    using that by (simp add: consider_all_def)
  have b0: "batched env rows [] st0" "wa_batch st0 = []" by (simp_all add: batched_def st0_def)
  have st1: "(if cf_sbom_dir cfg \<noteq> [] \<and> we_dir_exists env then ingest_local_files cfg env st0 else st0) = st1"
    by (simp add: st1_def local_ds_def ingest_local_files_def idle [OF b0(2)] split: option.split)
  note one = consider_all_step [OF b0 refl st1_def]
  have st: "st = consider_all (cf_sbom_limit cfg) env s3_ds st1"
    using assms(1) one unfolding watcher_run_def st0_def [symmetric] Let_def st1
    by (auto simp: s3_ds_def ingest_s3_buckets_def idle Let_def split: if_splits option.splits)
  note two = consider_all_step [OF conjunct1 [OF conjunct2 [OF conjunct2 [OF conjunct2 [OF one]]]] _ refl st]
  have "wanted cfg env = allowed (cf_sbom_limit cfg) 0 local_ds @
      allowed (cf_sbom_limit cfg) (counted (cf_sbom_limit cfg) 0 local_ds) s3_ds"
    by (simp add: wanted_def discovered_def local_ds_def s3_ds_def allowed_append)
  then have "batched env rows (jobs_from env 0 new) st" "wa_batch st = []"
    using one two by (simp_all add: st0_def assms(2) first_of_content_append jobs_from_append)
  then show ?thesis unfolding batched_def by auto
qed

lemma known_hashes_iff:
  "h \<in> known_hashes rows \<longleftrightarrow>
     (\<exists>jid r. latest rows jid = Some r \<and> qr_status r \<noteq> StatusFailed \<and> pl_sha256_hash (qr_payload r) = h)"
proof -
  have "jid \<in> set (job_ids rows)" if "latest rows jid = Some r" for jid r
    using latest_in [OF that] by (auto simp: job_ids_def)
  then show ?thesis
    by (auto simp: known_hashes_def map_filter_def) (force+)
qed

lemma known_hashes_enqueue:
  assumes "rows_ok rows" "distinct (map jb_job_id jobs)" "\<forall>job \<in> set jobs. latest rows (jb_job_id job) = None"
  shows "known_hashes (enqueue_jobs jobs rows) = known_hashes rows \<union> (pl_sha256_hash \<circ> jb_payload) ` set jobs"
proof -
  define new where "new = map enqueue_row jobs"
  have ids: "qr_job_id (enqueue_row job) = jb_job_id job" for job by (simp add: enqueue_row_def Let_def)
  have row: "qr_status (enqueue_row job) = StatusPending"
      "pl_sha256_hash (qr_payload (enqueue_row job)) = pl_sha256_hash (jb_payload job)" for job
    by (simp_all add: enqueue_row_def Let_def)
  have dist: "distinct (map qr_job_id new)" using assms(2) by (simp add: new_def ids comp_def)
  have succ: "succeeds rows r" if "r \<in> set new" for r
    using that assms(3) by (auto simp: succeeds_def ids new_def)
  have eq: "enqueue_jobs jobs rows = rows @ new" by (simp add: enqueue_jobs_def new_def)
  note after = append_rows(2) [OF assms(1) dist succ]
  have found: "find (\<lambda>r. qr_job_id r = qr_job_id r') new = Some r'" if "r' \<in> set new" for r'
    using that dist by (induction new) (auto simp: image_iff)
  have new_latest: "latest (rows @ new) (qr_job_id r) = Some r" if "r \<in> set new" for r
    using after [of "qr_job_id r"] found [OF that] by simp
  have old: "latest (rows @ new) jid = latest rows jid" if "jid \<notin> qr_job_id ` set new" for jid
    using after [of jid] that by (auto simp: find_None_iff split: option.split dest: find_Some_in)
  have none: "latest rows jid = None" if "jid \<in> qr_job_id ` set new" for jid
    using that assms(3) by (auto simp: new_def ids)
  show ?thesis
  proof (intro set_eqI iffI)
    fix h
    assume "h \<in> known_hashes (enqueue_jobs jobs rows)"
    then obtain jid r where r: "latest (rows @ new) jid = Some r" "qr_status r \<noteq> StatusFailed" "pl_sha256_hash (qr_payload r) = h"
      unfolding known_hashes_iff eq by blast
    show "h \<in> known_hashes rows \<union> (pl_sha256_hash \<circ> jb_payload) ` set jobs"
    proof (cases "jid \<in> qr_job_id ` set new")
      case True
      then obtain r' where r': "r' \<in> set new" "jid = qr_job_id r'" by blast
      then have "r = r'" using new_latest [OF r'(1)] r(1) by simp
      then show ?thesis using r' r(3) by (auto simp: new_def row)
    next
      case False
      then have "h \<in> known_hashes rows" using r old [OF False] unfolding known_hashes_iff by auto
      then show ?thesis by simp
    qed
  next
    fix h
    assume "h \<in> known_hashes rows \<union> (pl_sha256_hash \<circ> jb_payload) ` set jobs"
    then show "h \<in> known_hashes (enqueue_jobs jobs rows)"
    proof
      assume "h \<in> known_hashes rows"
      then obtain jid r where "latest rows jid = Some r" "qr_status r \<noteq> StatusFailed" "pl_sha256_hash (qr_payload r) = h"
        unfolding known_hashes_iff by blast
      moreover have "jid \<notin> qr_job_id ` set new" using calculation(1) none by auto
      ultimately have "latest (rows @ new) jid = Some r" "qr_status r \<noteq> StatusFailed" "pl_sha256_hash (qr_payload r) = h"
        using old by auto
      then show ?thesis unfolding known_hashes_iff eq by blast
    next
      assume "h \<in> (pl_sha256_hash \<circ> jb_payload) ` set jobs"
      then obtain job where job: "job \<in> set jobs" "h = pl_sha256_hash (jb_payload job)" by auto
      then have "enqueue_row job \<in> set new" by (simp add: new_def)
      then show ?thesis
        using new_latest job(2) row unfolding known_hashes_iff eq by force
    qed
  qed
qed

lemma subseq_subset: "subseq xs ys \<Longrightarrow> set xs \<subseteq> set ys"
  by (induction rule: list_emb.induct) auto

lemma watcher_run_fatal: "watcher_run cfg env rows = None \<longleftrightarrow> \<not> we_known_ok env"
  by (simp add: watcher_run_def Let_def)

lemma subseq_keeps_distinct: "subseq xs ys \<Longrightarrow> distinct ys \<Longrightarrow> distinct xs"
  by (induction rule: list_emb.induct) (auto dest: list_emb_set)

subsection \<open>Properties\<close>

text \<open>
  C13: one job per content. Whatever the sources hold and whichever enqueues fail or lose their
  acknowledgement, a run only appends pending rows, at most one for each content, none for a content that
  already has a job that has not failed, each from the first file of the run with that content, type and
  ownership included; no job that was there before changes, and the table stays well formed.
\<close>

theorem watcher_one_job_per_content:
  assumes "watcher_run cfg env rows = Some st"
    and "rows_ok rows" "inj (we_new_id env)" "\<forall>k. latest rows (we_new_id env k) = None"
  shows "\<exists>stored. wa_rows st = rows @ map enqueue_row stored \<and>
    subseq (map jb_payload stored) (first_of_content (known_hashes rows) (wanted cfg env)) \<and>
    distinct (map (pl_sha256_hash \<circ> jb_payload) stored) \<and>
    (pl_sha256_hash \<circ> jb_payload) ` set stored \<inter> known_hashes rows = {} \<and>
    rows_ok (wa_rows st) \<and> (\<forall>jid r. latest rows jid = Some r \<longrightarrow> latest (wa_rows st) jid = Some r)"
proof -
  let ?new = "first_of_content (known_hashes rows) (wanted cfg env)"
  obtain stored where stored: "wa_rows st = rows @ map enqueue_row stored" "subseq stored (jobs_from env 0 ?new)"
    using watcher_run_rows [OF assms(1) refl] by blast
  have sub: "subseq (map jb_payload stored) ?new"
    using subseq_map [OF stored(2), of jb_payload] by simp
  have ids: "distinct (map jb_job_id stored)" "\<forall>job \<in> set stored. latest rows (jb_job_id job) = None"
  proof -
    have "distinct (map jb_job_id (jobs_from env 0 ?new))"
      unfolding jobs_from_ids by (simp add: distinct_map inj_on_subset [OF assms(3)])
    then show "distinct (map jb_job_id stored)"
      using subseq_keeps_distinct [OF subseq_map [OF stored(2), of jb_job_id]] by blast
    have "jb_job_id ` set stored \<subseteq> range (we_new_id env)"
      using subseq_subset [OF subseq_map [OF stored(2), of jb_job_id]] unfolding jobs_from_ids by auto
    then show "\<forall>job \<in> set stored. latest rows (jb_job_id job) = None"
      using assms(4) by fastforce
  qed
  have dist: "distinct (map pl_sha256_hash (map jb_payload stored))"
    using subseq_keeps_distinct [OF subseq_map [OF sub, of pl_sha256_hash]] first_of_content_spec by blast
  have "pl_sha256_hash ` set (map jb_payload stored) \<subseteq> pl_sha256_hash ` set ?new"
    using subseq_subset [OF sub] by blast
  then have fresh: "(pl_sha256_hash \<circ> jb_payload) ` set stored \<inter> known_hashes rows = {}"
    using first_of_content_spec [of "known_hashes rows" "wanted cfg env"] by auto
  have rows: "wa_rows st = enqueue_jobs stored rows" by (simp add: stored(1) enqueue_jobs_def)
  show ?thesis
    using stored(1) sub dist fresh enqueue_ok [OF assms(2) ids] unfolding rows by auto
qed

text \<open>
  C14: nothing is missed for good. After a run in which no enqueue is refused every file within the limit
  has a job that has not failed, even if earlier runs were cut short or its only job failed; and a
  further run over the same files appends nothing.
\<close>

theorem watcher_converges:
  assumes "watcher_run cfg env rows = Some st" "\<forall>k. we_enqueue env k \<noteq> EnqueueRefused"
    and "rows_ok rows" "inj (we_new_id env)" "\<forall>k. latest rows (we_new_id env k) = None"
  shows "pl_sha256_hash ` set (wanted cfg env) \<subseteq> known_hashes (wa_rows st) \<and>
    (\<forall>env'. we_known_ok env' \<and> discovered cfg env' = discovered cfg env \<longrightarrow>
       (\<exists>st'. watcher_run cfg env' (wa_rows st) = Some st' \<and> wa_rows st' = wa_rows st))"
proof -
  let ?new = "first_of_content (known_hashes rows) (wanted cfg env)"
  let ?jobs = "jobs_from env 0 ?new"
  have rows: "wa_rows st = enqueue_jobs ?jobs rows"
    using watcher_run_rows [OF assms(1) refl] assms(2) by (auto simp: enqueue_jobs_def)
  have ids: "distinct (map jb_job_id ?jobs)"
    unfolding jobs_from_ids by (simp add: distinct_map inj_on_subset [OF assms(4)])
  have "set (map jb_job_id ?jobs) \<subseteq> range (we_new_id env)"
    unfolding jobs_from_ids by auto
  then have none: "\<forall>job \<in> set ?jobs. latest rows (jb_job_id job) = None"
    using assms(5) by fastforce
  have "(pl_sha256_hash \<circ> jb_payload) ` set ?jobs = pl_sha256_hash ` set (map jb_payload ?jobs)"
    by (simp only: set_map image_comp)
  also have "\<dots> = pl_sha256_hash ` set (wanted cfg env) - known_hashes rows"
    using first_of_content_spec [of "known_hashes rows" "wanted cfg env"] by simp
  finally have all: "pl_sha256_hash ` set (wanted cfg env) \<subseteq> known_hashes (wa_rows st)"
    unfolding rows known_hashes_enqueue [OF assms(3) ids none] by blast
  have "\<exists>st'. watcher_run cfg env' (wa_rows st) = Some st' \<and> wa_rows st' = wa_rows st"
    if env': "we_known_ok env'" "discovered cfg env' = discovered cfg env" for env'
  proof -
    obtain st' where st': "watcher_run cfg env' (wa_rows st) = Some st'"
      using env'(1) watcher_run_fatal [of cfg env' "wa_rows st"] by (cases "watcher_run cfg env' (wa_rows st)") auto
    have "first_of_content (known_hashes (wa_rows st)) (wanted cfg env') = []"
      using all env'(2) by (intro first_of_content_known) (simp add: wanted_def)
    with watcher_run_rows [OF st' refl] st' show ?thesis by auto
  qed
  with all show ?thesis by blast
qed

subsection \<open>Sample run\<close>

text \<open>Three files, two of the same content, one of them of a failed job; nothing in S3.\<close>

definition sample_watch :: watch_env where
  "sample_watch = \<lparr>we_known_ok = True, we_dir_exists = True,
     we_tree = FsDir ''sboms'' (Some [FsDir ''.git'' (Some [FsFile ''x.json'' (Some ''g'')]),
       FsDir ''prod'' (Some [FsFile ''a.spdx.json'' (Some ''h1''), FsFile ''b.vex.json'' (Some ''h2'')]),
       FsFile ''c.json'' (Some ''h1''), FsLost ''d.json'']),
     we_sha256 = id, we_accepts = (\<lambda>_. True), we_service = (\<lambda>_ _ _. NotAccessible),
     we_enqueue = (\<lambda>_. EnqueueStored), we_new_id = (\<lambda>k. k + 1), we_clock = (\<lambda>_. 100)\<rparr>"

definition failed_rows :: "queue_row list" where
  "failed_rows = [\<lparr>qr_created_at = 5, qr_job_id = 0, qr_payload = watcher_payload ''a.json'' ''h1'' file_sbom
      \<lparr>at_cluster = [], at_namespace = [], at_project = [], at_parent = [], at_tags = []\<rparr>, qr_status = StatusFailed,
     qr_claimed_by = ''w'', qr_claimed_at = Some 4, qr_finished_at = Some 5, qr_error_message = ''no'', qr_retry_after = 0\<rparr>]"

lemma sample_wanted:
  "map (\<lambda>p. (pl_sha256_hash p, pl_source_file p, pl_cluster p)) (wanted (sample_config\<lparr>cf_s3_buckets := []\<rparr>) sample_watch) =
     [(''h1'', ''prod/a.spdx.json'', ''prod''), (''h2'', ''prod/b.vex.json'', ''prod''), (''h1'', ''c.json'', [])]"
  by code_simp

lemma failed_rows_known: "known_hashes failed_rows = {}" "rows_ok failed_rows" "latest failed_rows (Suc k) = None"
  by (simp_all add: known_hashes_def job_ids_def latest_def rows_of_def failed_rows_def rows_ok_def List.map_filter_simps)

lemma sample_known_ok [simp]: "we_known_ok sample_watch"
  by (simp add: sample_watch_def)

lemma sample_enqueue: "\<forall>k. we_enqueue sample_watch k \<noteq> EnqueueRefused"
  by (simp add: sample_watch_def)

lemma sample_ids: "inj (we_new_id sample_watch)" "\<forall>k. latest failed_rows (we_new_id sample_watch k) = None"
  using failed_rows_known(3) by (simp_all add: sample_watch_def inj_def)

theorem watcher_one_job_per_content_witness:
  "\<exists>st stored. watcher_run (sample_config\<lparr>cf_s3_buckets := []\<rparr>) sample_watch failed_rows = Some st \<and>
     wa_rows st = failed_rows @ map enqueue_row stored \<and> distinct (map (pl_sha256_hash \<circ> jb_payload) stored)"
proof -
  obtain st where st: "watcher_run (sample_config\<lparr>cf_s3_buckets := []\<rparr>) sample_watch failed_rows = Some st"
    using watcher_run_fatal [of "sample_config\<lparr>cf_s3_buckets := []\<rparr>" sample_watch failed_rows]
    by (cases "watcher_run (sample_config\<lparr>cf_s3_buckets := []\<rparr>) sample_watch failed_rows") auto
  with watcher_one_job_per_content [OF st failed_rows_known(2) sample_ids] show ?thesis by blast
qed

theorem watcher_converges_witness:
  "\<exists>st. watcher_run (sample_config\<lparr>cf_s3_buckets := []\<rparr>) sample_watch failed_rows = Some st \<and>
     {''h1'', ''h2''} \<subseteq> known_hashes (wa_rows st)"
proof -
  obtain st where st: "watcher_run (sample_config\<lparr>cf_s3_buckets := []\<rparr>) sample_watch failed_rows = Some st"
    using watcher_run_fatal [of "sample_config\<lparr>cf_s3_buckets := []\<rparr>" sample_watch failed_rows]
    by (cases "watcher_run (sample_config\<lparr>cf_s3_buckets := []\<rparr>) sample_watch failed_rows") auto
  have "pl_sha256_hash ` set (wanted (sample_config\<lparr>cf_s3_buckets := []\<rparr>) sample_watch) =
      fst ` set (map (\<lambda>p. (pl_sha256_hash p, pl_source_file p, pl_cluster p)) (wanted (sample_config\<lparr>cf_s3_buckets := []\<rparr>) sample_watch))"
    by (simp only: set_map image_image fst_conv)
  also have "\<dots> = {''h1'', ''h2''}" unfolding sample_wanted by auto
  finally have "pl_sha256_hash ` set (wanted (sample_config\<lparr>cf_s3_buckets := []\<rparr>) sample_watch) = {''h1'', ''h2''}" .
  with watcher_converges [OF st sample_enqueue failed_rows_known(2) sample_ids] st show ?thesis by auto
qed

subsection \<open>Observations\<close>

text \<open>
  Two prefixes of one bucket are two sources (\<open>prefixes_kept_apart\<close>), but the owner map is by bucket name
  alone: objects of the first prefix get the project, prefix and layout configured for the second.
\<close>

lemma prefixes_share_owner:
  "resolve_ownership
     (bucket_owner (cfg\<lparr>cf_s3_buckets :=
         [b\<lparr>bk_name := ''b'', bk_prefix := ''x/'', bk_project := ''px''\<rparr>,
          b\<lparr>bk_name := ''b'', bk_prefix := ''y/'', bk_project := ''py''\<rparr>],
        cf_ingest_path_layout := []\<rparr>) ''b'') ''x/a.spdx.json'' =
   resolve_ownership
     (bucket_ownership (cfg\<lparr>cf_ingest_path_layout := []\<rparr>)
       (b\<lparr>bk_name := ''b'', bk_prefix := ''y/'', bk_project := ''py''\<rparr>)) ''x/a.spdx.json''"
  by (simp add: bucket_owner_def bucket_ownership_def bucket_ingest_layout_def ingest_layout_def bucket_tags_def)

text \<open>
  A prefix without a slash also selects keys of other directories (S3 prefixes are text), and such a key
  is cut in the middle of a name although the comment says it is not mangled.
\<close>

lemma prefix_cuts_name: "strip_prefix ''k3s-io/prod/a.json'' ''k3s'' = ''-io/prod/a.json''"
  by code_simp

text \<open>A root directory whose own name starts with a dot (\<open>..\<close> among them) is skipped as hidden.\<close>

lemma dotted_root_skipped: "scan sha ignore_prefix (FsDir ''..'' (Some entries)) = Some []"
  by (simp add: skip_dir_def has_prefix_def)

text \<open>
  The limit counts files whose content is already known, so it does not bound the SBOMs enqueued by a
  run, as the comment of \<open>SBOMLimit\<close> says, but the position up to which files are looked at.
\<close>

lemma limit_counts_known:
  assumes "pl_sha256_hash p \<in> K"
  shows "first_of_content K (allowed 1 0 [(file_sbom, p), (file_sbom, q)]) = []"
  using assms by (simp add: file_sbom_def file_vex_def)

end
