(* ===== verification/Github_Resolver.thy ===== *)
theory Github_Resolver
  imports Config Provenance Sbom_Job
begin

text \<open>
  The GitHub license resolver, \<open>backend/internal/github/purl.go\<close> and \<open>resolver.go\<close>, and the lookup the
  parsing worker makes of it (\<open>cmd/parsing-worker/main.go\<close>). The HTTP exchange and JSON decoding, base64,
  \<open>time.Parse\<close> and the classifier of license texts are the fields of \<open>github_api\<close>, with the time of the
  call. The token bucket only delays; that its context is cancelled is part of the exchange. Times are
  milliseconds, 0 the zero time. Logging is left out.
\<close>

subsection \<open>Repositories of package URLs\<close>

text \<open>The map \<open>wellKnownGoModules\<close>: module prefix, owner, repository.\<close>

definition well_known_go_modules :: "(string \<times> string \<times> string) list" where
  "well_known_go_modules =
     [(''stdlib'', ''golang'', ''go''),
      (''golang.org/x/crypto'', ''golang'', ''crypto''),
      (''golang.org/x/net'', ''golang'', ''net''),
      (''golang.org/x/sys'', ''golang'', ''sys''),
      (''golang.org/x/text'', ''golang'', ''text''),
      (''golang.org/x/sync'', ''golang'', ''sync''),
      (''golang.org/x/tools'', ''golang'', ''tools''),
      (''golang.org/x/mod'', ''golang'', ''mod''),
      (''golang.org/x/oauth2'', ''golang'', ''oauth2''),
      (''golang.org/x/term'', ''golang'', ''term''),
      (''golang.org/x/time'', ''golang'', ''time''),
      (''golang.org/x/exp'', ''golang'', ''exp''),
      (''golang.org/x/image'', ''golang'', ''image''),
      (''golang.org/x/xerrors'', ''golang'', ''xerrors''),
      (''golang.org/x/vuln'', ''golang'', ''vuln''),
      (''gopkg.in/yaml.v2'', ''go-yaml'', ''yaml''),
      (''gopkg.in/yaml.v3'', ''go-yaml'', ''yaml''),
      (''go.yaml.in/yaml'', ''go-yaml'', ''yaml''),
      (''gopkg.in/inf.v0'', ''go-inf'', ''inf''),
      (''gopkg.in/check.v1'', ''go-check'', ''check''),
      (''gopkg.in/natefinch/lumberjack.v2'', ''natefinch'', ''lumberjack''),
      (''gopkg.in/tomb.v1'', ''go-tomb'', ''tomb''),
      (''gopkg.in/square/go-jose.v2'', ''square'', ''go-jose''),
      (''google.golang.org/grpc'', ''grpc'', ''grpc-go''),
      (''google.golang.org/protobuf'', ''protocolbuffers'', ''protobuf-go''),
      (''google.golang.org/genproto'', ''googleapis'', ''go-genproto''),
      (''google.golang.org/api'', ''googleapis'', ''google-api-go-client''),
      (''go.uber.org/zap'', ''uber-go'', ''zap''),
      (''go.uber.org/atomic'', ''uber-go'', ''atomic''),
      (''go.uber.org/multierr'', ''uber-go'', ''multierr''),
      (''go.uber.org/goleak'', ''uber-go'', ''goleak''),
      (''go.etcd.io/etcd'', ''etcd-io'', ''etcd''),
      (''go.etcd.io/bbolt'', ''etcd-io'', ''bbolt''),
      (''go.opentelemetry.io/otel'', ''open-telemetry'', ''opentelemetry-go''),
      (''k8s.io/api'', ''kubernetes'', ''api''),
      (''k8s.io/apimachinery'', ''kubernetes'', ''apimachinery''),
      (''k8s.io/client-go'', ''kubernetes'', ''client-go''),
      (''k8s.io/klog'', ''kubernetes'', ''klog''),
      (''k8s.io/utils'', ''kubernetes'', ''utils''),
      (''sigs.k8s.io/yaml'', ''kubernetes-sigs'', ''yaml''),
      (''sigs.k8s.io/controller-runtime'', ''kubernetes-sigs'', ''controller-runtime''),
      (''sigs.k8s.io/structured-merge-diff'', ''kubernetes-sigs'', ''structured-merge-diff''),
      (''oras.land/oras-go'', ''oras-project'', ''oras-go''),
      (''dario.cat/mergo'', ''darccio'', ''mergo'')]"

definition under_module :: "string \<Rightarrow> string \<Rightarrow> bool" where
  "under_module path pfx \<longleftrightarrow> path = pfx \<or> has_prefix path (pfx @ ''/'')"

text \<open>The loop over the map, in the order \<open>table\<close> has its entries.\<close>

definition lookup_module :: "(string \<times> string \<times> string) list \<Rightarrow> string \<Rightarrow> (string \<times> string) option" where
  "lookup_module table path = map_option snd (find (\<lambda>(pfx, _). under_module path pfx) table)"

definition split_owner_repo :: "string \<Rightarrow> (string \<times> string) option" where
  "split_owner_repo s =
     (case split_char (CHR ''/'') s of
        owner # repo # _ \<Rightarrow> if owner = [] \<or> repo = [] then None else Some (owner, repo)
      | _ \<Rightarrow> None)"

definition strip_go_version_suffix :: "string \<Rightarrow> string" where
  "strip_go_version_suffix path =
     (let parts = split_char (CHR ''/'') path; l = last parts
      in if length parts \<ge> 2 \<and> length l \<ge> 2 \<and> l ! 0 = CHR ''v'' \<and> is_digit (l ! 1)
         then join_with ''/'' (butlast parts) else path)"

definition versioned_name :: "string \<Rightarrow> string option" where
  "versioned_name seg =
     (case str_last_index seg ''.v'' of
        None \<Rightarrow> None
      | Some i \<Rightarrow> if i = 0 \<or> i + 2 \<ge> length seg \<or> \<not> list_all is_digit (drop (i + 2) seg) then None else Some (take i seg))"

definition gopkg_in_repo :: "string \<Rightarrow> (string \<times> string) option" where
  "gopkg_in_repo module_path =
     (case cut_prefix module_path ''gopkg.in/'' of
        None \<Rightarrow> None
      | Some rest \<Rightarrow>
          let parts = split_char (CHR ''/'') rest
          in (case versioned_name (parts ! 0) of
                Some name \<Rightarrow> Some (''go-'' @ name, name)
              | None \<Rightarrow>
                  if length parts \<ge> 2 \<and> parts ! 0 \<noteq> [] then
                    (case versioned_name (parts ! 1) of Some name \<Rightarrow> Some (parts ! 0, name) | None \<Rightarrow> None)
                  else None))"

definition cut_at :: "string \<Rightarrow> string \<Rightarrow> string" where
  "cut_at purl mark = (case str_index purl mark of Some i \<Rightarrow> if i > 0 then take i purl else purl | None \<Rightarrow> purl)"

definition extract_repo_in :: "(string \<times> string \<times> string) list \<Rightarrow> string \<Rightarrow> (string \<times> string) option" where
  "extract_repo_in table purl0 =
     (if purl0 = [] then None
      else
        let purl = cut_at (cut_at (cut_at purl0 ''@'') ''?'') ''#''
        in if has_prefix purl ''pkg:golang/github.com/'' then split_owner_repo (trim_prefix purl ''pkg:golang/github.com/'')
           else if has_prefix purl ''pkg:github/'' then split_owner_repo (trim_prefix purl ''pkg:github/'')
           else if has_prefix purl ''pkg:golang/'' then
             (let module_path = trim_prefix purl ''pkg:golang/''; stripped = strip_go_version_suffix module_path
              in (case lookup_module table module_path of
                    Some r \<Rightarrow> Some r
                  | None \<Rightarrow>
                      (case (if stripped \<noteq> module_path then lookup_module table stripped else None) of
                         Some r \<Rightarrow> Some r
                       | None \<Rightarrow> gopkg_in_repo module_path)))
           else None)"

definition extract_github_repo :: "string \<Rightarrow> (string \<times> string) option" where
  "extract_github_repo purl = extract_repo_in well_known_go_modules purl"

definition repo_key :: "string \<Rightarrow> string \<Rightarrow> string" where
  "repo_key owner repo = to_lower (owner @ ''/'' @ repo)"

subsection \<open>Answers of GitHub\<close>

record license_response =
  lr_license :: "(string \<times> string) option"
  lr_content :: string
  lr_encoding :: string

record repo_response =
  rr_archived :: bool
  rr_fork :: bool
  rr_pushed_at :: string
  rr_stargazers :: int
  rr_license :: "string option"

text \<open>The headers are empty when they are missing; the body is \<open>None\<close> when it does not decode.\<close>

record 'a gh_reply =
  gy_status :: nat
  gy_remaining :: string
  gy_retry_after :: string
  gy_reset :: string
  gy_body :: "'a option"

datatype 'a gh_exchange = GhFailed | GhReply "'a gh_reply"

record github_api =
  ga_now :: int
  ga_wait_ok :: bool
  ga_second_wait_ok :: bool
  ga_license :: "string \<Rightarrow> string \<Rightarrow> license_response gh_exchange"
  ga_repo :: "string \<Rightarrow> string \<Rightarrow> repo_response gh_exchange"
  ga_base64 :: "string \<Rightarrow> string option"
  ga_detect :: "string \<Rightarrow> string"
  ga_parse_time :: "string \<Rightarrow> int option"

record repo_metadata =
  rm_repo :: string
  rm_archived :: bool
  rm_fork :: bool
  rm_pushed_at :: int
  rm_stargazers :: int
  rm_spdx_id :: string

definition unknown_repo :: "string \<Rightarrow> repo_metadata" where
  "unknown_repo key = \<lparr>rm_repo = key, rm_archived = False, rm_fork = False, rm_pushed_at = 0, rm_stargazers = 0, rm_spdx_id = []\<rparr>"

record github_state =
  gs_licenses :: "string \<rightharpoonup> string"
  gs_metadata :: "string \<rightharpoonup> repo_metadata"
  gs_limited_until :: int

definition known_license_overrides :: "(string \<times> string) list" where
  "known_license_overrides =
     [(''opencontainers/go-digest'', ''Apache-2.0''), (''shopspring/decimal'', ''MIT''),
      (''go-yaml/yaml'', ''Apache-2.0''), (''go-tomb/tomb'', ''BSD-3-Clause''),
      (''go-inf/inf'', ''BSD-3-Clause''), (''go-check/check'', ''BSD-2-Clause'')]"

definition with_override :: "string \<Rightarrow> string \<Rightarrow> string" where
  "with_override key spdx =
     (if spdx = [] then (case map_of known_license_overrides key of Some l \<Rightarrow> l | None \<Rightarrow> []) else spdx)"

subsection \<open>Rate limits\<close>

definition rate_limit_fallback :: int where "rate_limit_fallback = 3600000"

definition is_rate_limit_response :: "'a gh_reply \<Rightarrow> bool" where
  "is_rate_limit_response r \<longleftrightarrow>
     gy_status r = 429 \<or> gy_status r = 403 \<and> (gy_remaining r = ''0'' \<or> gy_retry_after r \<noteq> [])"

text \<open>\<open>time.Duration(secs) * time.Second\<close> in nanoseconds, 64 bits wide, as milliseconds.\<close>

definition seconds_duration :: "int \<Rightarrow> int" where
  "seconds_duration secs = sint (word_of_int (secs * 1000000000) :: 64 word) div 1000000"

definition limit_end :: "int \<Rightarrow> 'a gh_reply \<Rightarrow> int" where
  "limit_end now r =
     (if gy_reset r \<noteq> [] then
        (case parse_int64 (gy_reset r) of
           None \<Rightarrow> now + rate_limit_fallback
         | Some reset_unix \<Rightarrow> if reset_unix * 1000 > now then reset_unix * 1000 + 1000 else now + rate_limit_fallback)
      else if gy_retry_after r \<noteq> [] then
        (case parse_int64 (gy_retry_after r) of
           None \<Rightarrow> now + rate_limit_fallback
         | Some secs \<Rightarrow> if secs > 0 then now + seconds_duration secs else now + rate_limit_fallback)
      else now + rate_limit_fallback)"

definition note_rate_limit :: "int \<Rightarrow> 'a gh_reply \<Rightarrow> github_state \<Rightarrow> github_state" where
  "note_rate_limit now r st =
     (let until = limit_end now r
      in if until > gs_limited_until st then st\<lparr>gs_limited_until := until\<rparr> else st)"

definition rate_limit_reset_at :: "int \<Rightarrow> github_state \<Rightarrow> int" where
  "rate_limit_reset_at now st = (if now < gs_limited_until st then gs_limited_until st else 0)"

definition is_rate_limited :: "int \<Rightarrow> github_state \<Rightarrow> bool" where
  "is_rate_limited now st \<longleftrightarrow> rate_limit_reset_at now st \<noteq> 0"

subsection \<open>Requests\<close>

definition detect_from_content :: "github_api \<Rightarrow> string \<Rightarrow> string \<Rightarrow> string" where
  "detect_from_content api body_text encoding =
     (if body_text = [] then []
      else if encoding = ''base64'' \<or> encoding = [] then
        (case ga_base64 api (filter (\<lambda>c. c \<noteq> CHR 0x0A \<and> c \<noteq> CHR 0x0D) body_text) of
           None \<Rightarrow> [] | Some text \<Rightarrow> ga_detect api text)
      else ga_detect api body_text)"

definition usable_license :: "string \<Rightarrow> bool" where
  "usable_license spdx \<longleftrightarrow> spdx \<noteq> [] \<and> spdx \<noteq> ''NOASSERTION''"

definition license_of_response :: "github_api \<Rightarrow> license_response \<Rightarrow> string" where
  "license_of_response api lr =
     (case lr_license lr of
        Some (spdx, name) \<Rightarrow>
          if usable_license spdx then spdx else detect_from_content api (lr_content lr) (lr_encoding lr)
      | None \<Rightarrow> detect_from_content api (lr_content lr) (lr_encoding lr))"

definition fetch_license :: "github_api \<Rightarrow> string \<Rightarrow> string \<Rightarrow> github_state \<Rightarrow> (github_error + string) \<times> github_state" where
  "fetch_license api owner repo st =
     (case ga_license api owner repo of
        GhFailed \<Rightarrow> (Inr [], st)
      | GhReply r \<Rightarrow>
          if is_rate_limit_response r then (Inl RateLimited, note_rate_limit (ga_now api) r st)
          else if gy_status r \<noteq> 200 then (Inr [], st)
          else (case gy_body r of None \<Rightarrow> (Inr [], st) | Some lr \<Rightarrow> (Inr (license_of_response api lr), st)))"

definition repo_license_of :: "repo_response \<Rightarrow> string" where
  "repo_license_of rr = (case rr_license rr of Some spdx \<Rightarrow> if usable_license spdx then spdx else [] | None \<Rightarrow> [])"

definition metadata_of :: "github_api \<Rightarrow> string \<Rightarrow> repo_response \<Rightarrow> string \<Rightarrow> repo_metadata" where
  "metadata_of api key rr spdx =
     \<lparr>rm_repo = key, rm_archived = rr_archived rr, rm_fork = rr_fork rr,
      rm_pushed_at = (if rr_pushed_at rr \<noteq> [] then (case ga_parse_time api (rr_pushed_at rr) of Some t \<Rightarrow> t | None \<Rightarrow> 0) else 0),
      rm_stargazers = rr_stargazers rr, rm_spdx_id = with_override key spdx\<rparr>"

definition fetch_repo_metadata ::
  "github_api \<Rightarrow> string \<Rightarrow> string \<Rightarrow> github_state \<Rightarrow> (github_error + repo_metadata option) \<times> github_state" where
  "fetch_repo_metadata api owner repo st =
     (case ga_repo api owner repo of
        GhFailed \<Rightarrow> (Inr None, st)
      | GhReply r \<Rightarrow>
          if is_rate_limit_response r then (Inl RateLimited, note_rate_limit (ga_now api) r st)
          else if gy_status r \<noteq> 200 then (Inr None, st)
          else
            (case gy_body r of
               None \<Rightarrow> (Inr None, st)
             | Some rr \<Rightarrow>
                 let key = repo_key owner repo; spdx = repo_license_of rr
                 in if spdx = [] \<and> ga_second_wait_ok api then
                      (case fetch_license api owner repo st of
                         (Inl e, st') \<Rightarrow> (Inl e, st')
                       | (Inr spdx', st') \<Rightarrow> (Inr (Some (metadata_of api key rr spdx')), st'))
                    else (Inr (Some (metadata_of api key rr spdx)), st)))"

subsection \<open>The resolver\<close>

definition resolve_err :: "github_api \<Rightarrow> string \<Rightarrow> github_state \<Rightarrow> (github_error + string) \<times> github_state" where
  "resolve_err api purl st =
     (case extract_github_repo purl of
        None \<Rightarrow> (Inr [], st)
      | Some (owner, repo) \<Rightarrow>
          let key = repo_key owner repo
          in (case gs_licenses st key of
                Some cached \<Rightarrow> (Inr cached, st)
              | None \<Rightarrow>
                  if is_rate_limited (ga_now api) st then (Inl RateLimited, st)
                  else if \<not> ga_wait_ok api then (Inr [], st)
                  else (case fetch_license api owner repo st of
                          (Inl e, st') \<Rightarrow> (Inl e, st')
                        | (Inr spdx0, st') \<Rightarrow>
                            let spdx = with_override key spdx0
                            in (Inr spdx, st'\<lparr>gs_licenses := (gs_licenses st')(key \<mapsto> spdx)\<rparr>))))"

definition resolve_swallow :: "github_api \<Rightarrow> string \<Rightarrow> github_state \<Rightarrow> string \<times> github_state" where
  "resolve_swallow api purl st =
     (case resolve_err api purl st of (Inl _, st') \<Rightarrow> ([], st') | (Inr spdx, st') \<Rightarrow> (spdx, st'))"

definition resolve_with_metadata_err ::
  "github_api \<Rightarrow> string \<Rightarrow> github_state \<Rightarrow> (github_error + repo_metadata option) \<times> github_state" where
  "resolve_with_metadata_err api purl st =
     (case extract_github_repo purl of
        None \<Rightarrow> (Inr None, st)
      | Some (owner, repo) \<Rightarrow>
          let key = repo_key owner repo
          in (case gs_metadata st key of
                Some cached \<Rightarrow> (Inr (Some cached), st)
              | None \<Rightarrow>
                  if is_rate_limited (ga_now api) st then (Inl RateLimited, st)
                  else if \<not> ga_wait_ok api then (Inr None, st)
                  else (case fetch_repo_metadata api owner repo st of
                          (Inl e, st') \<Rightarrow> (Inl e, st')
                        | (Inr (Some meta), st') \<Rightarrow>
                            (Inr (Some meta), st'\<lparr>gs_metadata := (gs_metadata st')(key \<mapsto> meta),
                                                  gs_licenses := (gs_licenses st')(key \<mapsto> rm_spdx_id meta)\<rparr>)
                        | (Inr None, st') \<Rightarrow>
                            (Inr None, st'\<lparr>gs_metadata := (gs_metadata st')(key \<mapsto> unknown_repo key)\<rparr>))))"

definition preload_licenses :: "(string \<times> string) list \<Rightarrow> github_state \<Rightarrow> github_state" where
  "preload_licenses rows st = st\<lparr>gs_licenses := fold (\<lambda>(k, v) c. c(to_lower k \<mapsto> v)) rows (gs_licenses st)\<rparr>"

definition preload_metadata_one :: "repo_metadata \<Rightarrow> github_state \<Rightarrow> github_state" where
  "preload_metadata_one m st0 =
     (let key = to_lower (rm_repo m); st = st0\<lparr>gs_metadata := (gs_metadata st0)(key \<mapsto> m)\<rparr>
      in if rm_spdx_id m \<noteq> [] then st\<lparr>gs_licenses := (gs_licenses st)(key \<mapsto> rm_spdx_id m)\<rparr> else st)"

definition preload_metadata :: "repo_metadata list \<Rightarrow> github_state \<Rightarrow> github_state" where
  "preload_metadata ms st = fold preload_metadata_one ms st"

text \<open>The lookup \<open>processSBOMJob\<close> passes to the license resolution.\<close>

definition worker_lookup :: "github_api \<Rightarrow> (github_error, github_state) github_lookup" where
  "worker_lookup api purl st =
     (case resolve_with_metadata_err api purl st of
        (Inl e, st') \<Rightarrow> (Inl e, st')
      | (Inr None, st') \<Rightarrow> (Inr [], st')
      | (Inr (Some meta), st') \<Rightarrow> (Inr (rm_spdx_id meta), st'))"


subsection \<open>Lemmas\<close>

text \<open>The same test, walking both lists at once.\<close>

fun module_prefix :: "string \<Rightarrow> string \<Rightarrow> bool" where
  "module_prefix [] [] = True"
| "module_prefix [] (c # _) = (c = CHR ''/'')"
| "module_prefix (_ # _) [] = False"
| "module_prefix (p # ps) (c # cs) = (if p = c then module_prefix ps cs else False)"

lemma under_module_walk: "under_module path pfx \<longleftrightarrow> module_prefix pfx path"
  by (induction pfx path rule: module_prefix.induct) (auto simp: under_module_def has_prefix_def)

lemma modules_apart_walk:
  "list_all (\<lambda>(p, r). list_all (\<lambda>(q, r'). if module_prefix q p then (p, r) = (q, r') else True)
     well_known_go_modules) well_known_go_modules"
  by code_simp

lemma modules_apart:
  "list_all (\<lambda>(p, r). list_all (\<lambda>(q, r'). (p, r) = (q, r') \<or> \<not> under_module p q) well_known_go_modules) well_known_go_modules"
  using modules_apart_walk unfolding under_module_walk by (fastforce simp: list_all_iff)

lemma under_two_modules:
  assumes "under_module path p" "under_module path q"
  shows "under_module p q \<or> under_module q p"
proof -
  obtain a b where path: "path = p @ a" "path = q @ b" and a: "a = [] \<or> (\<exists>a'. a = ''/'' @ a')" and b: "b = [] \<or> (\<exists>b'. b = ''/'' @ b')"
  proof -
    have "\<exists>a. path = x @ a \<and> (a = [] \<or> (\<exists>a'. a = ''/'' @ a'))" if "under_module path x" for x
      using that by (auto simp: under_module_def has_prefix_iff)
    then show thesis using that assms by blast
  qed
  from path obtain c where "p = q @ c \<and> c @ a = b \<or> q = p @ c \<and> c @ b = a"
    by (metis append_eq_append_conv2)
  then show ?thesis
    using a b by (cases c) (auto simp: under_module_def has_prefix_iff)
qed

lemma module_unique:
  assumes "(p, r) \<in> set well_known_go_modules" "(q, r') \<in> set well_known_go_modules"
    and "under_module path p" "under_module path q"
  shows "(p, r) = (q, r')"
proof -
  have apart: "(x, y) = (x', y') \<or> \<not> under_module x x'"
    if "(x, y) \<in> set well_known_go_modules" "(x', y') \<in> set well_known_go_modules" for x y x' y'
    using modules_apart that by (fastforce simp: list_all_iff)
  from under_two_modules [OF assms(3,4)] show ?thesis
    using apart [OF assms(1,2)] apart [OF assms(2,1)] by auto
qed

lemma lookup_any_order:
  assumes "set table = set well_known_go_modules"
  shows "lookup_module table path = lookup_module well_known_go_modules path"
proof -
  let ?P = "\<lambda>e :: string \<times> string \<times> string. under_module path (fst e)"
  have find: "lookup_module t path = map_option snd (find ?P t)" for t
    by (simp add: lookup_module_def case_prod_unfold)
  have "find ?P table = find ?P well_known_go_modules"
  proof (cases "find ?P well_known_go_modules")
    case None
    then have "\<not> (\<exists>e. e \<in> set table \<and> ?P e)" unfolding find_None_iff assms .
    then have "find ?P table = None" by (simp only: find_None_iff not_False_eq_True)
    then show ?thesis using None by simp
  next
    case (Some e)
    then have e: "e \<in> set well_known_go_modules" "?P e" using find_Some_in by force+
    obtain e' where e': "find ?P table = Some e'"
    proof (cases "find ?P table")
      case None
      then have "\<not> (\<exists>e. e \<in> set table \<and> ?P e)" by (simp only: find_None_iff not_False_eq_True)
      then show thesis using e assms by blast
    qed blast
    then have "e' \<in> set well_known_go_modules" "?P e'" using find_Some_in assms by force+
    then have "e' = e"
      using module_unique [of "fst e'" "snd e'" "fst e" "snd e" path] e by simp
    then show ?thesis using Some e' by simp
  qed
  then show ?thesis by (simp add: find)
qed

lemma note_rate_limit_later: "gs_limited_until st \<le> gs_limited_until (note_rate_limit now r st)"
  "limit_end now r \<le> gs_limited_until (note_rate_limit now r st)"
  "gs_licenses (note_rate_limit now r st) = gs_licenses st" "gs_metadata (note_rate_limit now r st) = gs_metadata st"
  by (simp_all add: note_rate_limit_def Let_def)

text \<open>A delay in seconds that the 64 bits of a duration hold.\<close>

definition delay_fits :: "'a gh_exchange \<Rightarrow> bool" where
  "delay_fits x =
     (case x of
        GhFailed \<Rightarrow> True
      | GhReply r \<Rightarrow> (case parse_int64 (gy_retry_after r) of Some secs \<Rightarrow> secs < 9223372036 | None \<Rightarrow> True))"

lemma seconds_duration_exact: "0 \<le> secs \<Longrightarrow> secs < 9223372036 \<Longrightarrow> seconds_duration secs = secs * 1000"
proof -
  assume "0 \<le> secs" "secs < 9223372036"
  moreover have "sint (word_of_int v :: 64 word) = v" if "0 \<le> v" "v < 2 ^ 63" for v
    using that by (simp add: sint_sbintrunc' signed_take_bit_int_eq_self)
  ultimately have "sint (word_of_int (secs * 1000000000) :: 64 word) = secs * 1000000000"
    by (simp del: of_int_mult)
  then show ?thesis by (simp add: seconds_duration_def)
qed

lemma limit_end_future:
  assumes "delay_fits (GhReply r)"
  shows "now < limit_end now r"
  using assms seconds_duration_exact
  by (auto simp: limit_end_def delay_fits_def rate_limit_fallback_def split: option.split)

lemma fetch_license_limited:
  assumes "fetch_license api owner repo st = (Inl e, st')"
  shows "\<exists>r. ga_license api owner repo = GhReply r \<and> is_rate_limit_response r \<and> st' = note_rate_limit (ga_now api) r st"
  using assms by (auto simp: fetch_license_def split: gh_exchange.splits if_splits option.splits)

lemma fetch_license_kept:
  assumes "fetch_license api owner repo st = (Inr spdx, st')"
  shows "st' = st"
  using assms by (auto simp: fetch_license_def split: gh_exchange.splits if_splits option.splits)


text \<open>Every answer is cached, refused, or not worth remembering; the limit only moves forward.\<close>

lemma fetch_metadata_limited:
  assumes "fetch_repo_metadata api owner repo st = (Inl e, st')"
  shows "e = RateLimited \<and>
    ((\<exists>r. ga_repo api owner repo = GhReply r \<and> is_rate_limit_response r \<and> st' = note_rate_limit (ga_now api) r st) \<or>
     (\<exists>r. ga_license api owner repo = GhReply r \<and> is_rate_limit_response r \<and> st' = note_rate_limit (ga_now api) r st))"
proof -
  have lic: "e = RateLimited" if "fetch_license api owner repo st = (Inl e, st1)" for e st1
    using that by (auto simp: fetch_license_def split: gh_exchange.splits if_splits option.splits)
  obtain r where r: "ga_repo api owner repo = GhReply r"
    using assms by (cases "ga_repo api owner repo") (auto simp: fetch_repo_metadata_def)
  show ?thesis
  proof (cases "is_rate_limit_response r")
    case True
    then show ?thesis using assms r by (simp add: fetch_repo_metadata_def)
  next
    case False
    then have "fetch_license api owner repo st = (Inl e, st')"
      using assms r by (auto simp: fetch_repo_metadata_def Let_def split: if_splits option.splits prod.splits sum.splits)
    then show ?thesis using lic fetch_license_limited by blast
  qed
qed

lemma fetch_metadata_kept:
  assumes "fetch_repo_metadata api owner repo st = (Inr m, st')"
  shows "st' = st"
  using assms fetch_license_kept [of api owner repo st]
  by (auto simp: fetch_repo_metadata_def Let_def split: gh_exchange.splits if_splits option.splits prod.splits sum.splits)

text \<open>
  A refused lookup was refused already, or GitHub has just answered with its limit; nothing is cached.
\<close>

definition replies_fit :: "github_api \<Rightarrow> bool" where
  "replies_fit api \<longleftrightarrow> (\<forall>owner repo. delay_fits (ga_license api owner repo) \<and> delay_fits (ga_repo api owner repo))"

lemma refused_lookup:
  assumes "resolve_with_metadata_err api purl st = (Inl e, st')" "replies_fit api" "0 \<le> ga_now api"
  shows "e = RateLimited" "gs_licenses st' = gs_licenses st" "gs_metadata st' = gs_metadata st"
    "gs_limited_until st \<le> gs_limited_until st'" "ga_now api < gs_limited_until st'"
proof -
  obtain owner repo where repo: "extract_github_repo purl = Some (owner, repo)" "gs_metadata st (repo_key owner repo) = None"
    using assms(1) by (auto simp: resolve_with_metadata_err_def Let_def split: option.splits)
  have "e = RateLimited \<and> gs_licenses st' = gs_licenses st \<and> gs_metadata st' = gs_metadata st \<and>
      gs_limited_until st \<le> gs_limited_until st' \<and> ga_now api < gs_limited_until st'"
  proof (cases "is_rate_limited (ga_now api) st")
    case True
    then have "e = RateLimited" "st' = st"
      using assms(1) repo by (auto simp: resolve_with_metadata_err_def Let_def)
    moreover have "ga_now api < gs_limited_until st"
      using True by (simp add: is_rate_limited_def rate_limit_reset_at_def split: if_splits)
    ultimately show ?thesis by simp
  next
    case False
    then have fetch: "fetch_repo_metadata api owner repo st = (Inl e, st')"
      using assms(1) repo
      by (auto simp: resolve_with_metadata_err_def Let_def split: if_splits prod.splits sum.splits option.splits)
    note limited = fetch_metadata_limited [OF fetch]
    have future: "ga_now api < limit_end (ga_now api) r" if "ga_repo api owner repo = GhReply r" for r
      using assms(2) that limit_end_future [of r] unfolding replies_fit_def by metis
    have future': "ga_now api < limit_end (ga_now api) r" if "ga_license api owner repo = GhReply r" for r
      using assms(2) that limit_end_future [of r] unfolding replies_fit_def by metis
    from limited show ?thesis
      using future future' note_rate_limit_later(1,3,4) less_le_trans [OF _ note_rate_limit_later(2)] by metis
  qed
  then show "e = RateLimited" "gs_licenses st' = gs_licenses st" "gs_metadata st' = gs_metadata st"
    "gs_limited_until st \<le> gs_limited_until st'" "ga_now api < gs_limited_until st'" by blast+
qed

text \<open>While the limit holds, the answer is a function of the cache: no request is made.\<close>

lemma limited_lookup:
  assumes "0 \<le> ga_now api" "ga_now api < gs_limited_until st"
  shows "worker_lookup api purl st =
    (case extract_github_repo purl of
       None \<Rightarrow> Inr []
     | Some (owner, repo) \<Rightarrow>
         (case gs_metadata st (repo_key owner repo) of Some m \<Rightarrow> Inr (rm_spdx_id m) | None \<Rightarrow> Inl RateLimited), st)"
proof -
  have "is_rate_limited (ga_now api) st"
    using assms by (simp add: is_rate_limited_def rate_limit_reset_at_def)
  then show ?thesis
    by (auto simp: worker_lookup_def resolve_with_metadata_err_def Let_def split: option.split)
qed

subsection \<open>Properties\<close>

text \<open>
  the repository of a package URL does not depend on the order in which Go iterates over the table of
  well-known modules, so every process derives the same cache key: no two entries of the table match one
  module path.
\<close>

theorem repo_order_irrelevant:
  assumes "set table = set well_known_go_modules"
  shows "extract_repo_in table purl = extract_github_repo purl"
  unfolding extract_github_repo_def extract_repo_in_def lookup_any_order [OF assms] ..

theorem repo_order_irrelevant_witness:
  "extract_repo_in (rev well_known_go_modules) ''pkg:golang/oras.land/oras-go/v2@v2.3.0?type=module'' =
     Some (''oras-project'', ''oras-go'') \<and>
   extract_repo_in (rev well_known_go_modules) ''pkg:golang/gopkg.in/go-playground/validator.v9'' =
     Some (''go-playground'', ''validator'')"
proof -
  have "extract_github_repo ''pkg:golang/oras.land/oras-go/v2@v2.3.0?type=module'' = Some (''oras-project'', ''oras-go'')"
    "extract_github_repo ''pkg:golang/gopkg.in/go-playground/validator.v9'' = Some (''go-playground'', ''validator'')"
    by code_simp+
  then show ?thesis by (simp add: repo_order_irrelevant)
qed

text \<open>
  C23: a rate limit of GitHub is not an answer. A lookup it refuses caches nothing and leaves the end of
  the limit in the future, which is when the job is put back to; until then every lookup, whatever GitHub
  would say, is answered from the cache or refused as well, without a request and without changing
  anything.
\<close>

theorem rate_limit_defers:
  assumes "worker_lookup api purl st = (Inl e, st')" "replies_fit api" "0 \<le> ga_now api"
  shows "e = RateLimited \<and> gs_licenses st' = gs_licenses st \<and> gs_metadata st' = gs_metadata st \<and>
    ga_now api < rate_limit_reset_at (ga_now api) st' \<and>
    (\<forall>api' purl'. 0 \<le> ga_now api' \<and> ga_now api' < rate_limit_reset_at (ga_now api) st' \<longrightarrow>
       worker_lookup api' purl' st' =
         (case extract_github_repo purl' of
            None \<Rightarrow> Inr []
          | Some (owner, repo) \<Rightarrow>
              (case gs_metadata st (repo_key owner repo) of Some m \<Rightarrow> Inr (rm_spdx_id m) | None \<Rightarrow> Inl RateLimited), st'))"
proof -
  have "resolve_with_metadata_err api purl st = (Inl e, st')"
    using assms(1) by (auto simp: worker_lookup_def split: prod.splits sum.splits option.splits)
  note refused = refused_lookup [OF this assms(2,3)]
  have "rate_limit_reset_at (ga_now api) st' = gs_limited_until st'"
    using refused(5) by (simp add: rate_limit_reset_at_def)
  then show ?thesis
    using refused limited_lookup [of _ st', unfolded refused(3)] by simp
qed

definition sample_api :: github_api where
  "sample_api = \<lparr>ga_now = 1000, ga_wait_ok = True, ga_second_wait_ok = True,
     ga_license = (\<lambda>_ _. GhReply \<lparr>gy_status = 200, gy_remaining = ''10'', gy_retry_after = [], gy_reset = [],
       gy_body = Some \<lparr>lr_license = Some (''MIT'', ''MIT License''), lr_content = [], lr_encoding = []\<rparr>\<rparr>),
     ga_repo = (\<lambda>_ _. GhReply \<lparr>gy_status = 403, gy_remaining = ''0'', gy_retry_after = [], gy_reset = ''60'', gy_body = None\<rparr>),
     ga_base64 = (\<lambda>_. None), ga_detect = (\<lambda>_. []), ga_parse_time = (\<lambda>_. None)\<rparr>"

definition empty_github :: github_state where
  "empty_github = \<lparr>gs_licenses = Map.empty, gs_metadata = Map.empty, gs_limited_until = 0\<rparr>"

theorem rate_limit_defers_witness:
  "\<exists>st'. worker_lookup sample_api ''pkg:github/a/b'' empty_github = (Inl RateLimited, st') \<and>
     rate_limit_reset_at 1000 st' = 61000 \<and> worker_lookup (sample_api\<lparr>ga_now := 60999\<rparr>) ''pkg:github/a/c'' st' = (Inl RateLimited, st')"
proof -
  have repos: "extract_github_repo ''pkg:github/a/b'' = Some (''a'', ''b'')" "extract_github_repo ''pkg:github/a/c'' = Some (''a'', ''c'')"
    "parse_int64 ''60'' = Some 60" "parse_int64 [] = None" by code_simp+
  define st' where "st' = empty_github\<lparr>gs_limited_until := 61000\<rparr>"
  have st': "worker_lookup sample_api ''pkg:github/a/b'' empty_github = (Inl RateLimited, st')"
    by (simp add: worker_lookup_def resolve_with_metadata_err_def fetch_repo_metadata_def repos sample_api_def empty_github_def
        is_rate_limited_def rate_limit_reset_at_def is_rate_limit_response_def note_rate_limit_def limit_end_def st'_def)
  have fit: "replies_fit sample_api" by (simp add: replies_fit_def delay_fits_def sample_api_def repos)
  have now: "ga_now sample_api = 1000" by (simp add: sample_api_def)
  have reset: "rate_limit_reset_at 1000 st' = 61000" by (simp add: rate_limit_reset_at_def st'_def)
  have "worker_lookup (sample_api\<lparr>ga_now := 60999\<rparr>) ''pkg:github/a/c'' st' = (Inl RateLimited, st')"
    using rate_limit_defers [OF st' fit] now reset
    by (simp add: repos empty_github_def)
  then show ?thesis using st' reset by blast
qed

subsection \<open>Observations\<close>

text \<open>
  An answer GitHub could not give is not a negative result, says the comment of \<open>ErrRateLimited\<close>; but when
  the exchange fails or the body does not decode, the repository is cached as unknown, and a later
  lookup returns no license although GitHub has one.
\<close>

lemma failed_exchange_cached:
  assumes "extract_github_repo purl = Some (owner, repo)" "gs_metadata st (repo_key owner repo) = None"
    and "\<not> is_rate_limited (ga_now api) st" "ga_wait_ok api" "ga_repo api owner repo = GhFailed"
  shows "\<exists>st'. worker_lookup api purl st = (Inr [], st') \<and> worker_lookup api' purl st' = (Inr [], st')"
  using assms by (simp add: worker_lookup_def resolve_with_metadata_err_def fetch_repo_metadata_def unknown_repo_def Let_def)

text \<open>
  The verified overrides apply to what GitHub classifies as other, but not when its repository endpoint
  has no answer: \<open>resolve_err\<close> still finds the override, the lookup of the worker does not.
\<close>

lemma override_not_reached:
  "\<exists>st'. worker_lookup (sample_api\<lparr>ga_repo := \<lambda>_ _. GhFailed\<rparr>) ''pkg:github/go-yaml/yaml'' empty_github = (Inr [], st') \<and>
     fst (resolve_err (sample_api\<lparr>ga_license := \<lambda>_ _. GhFailed\<rparr>) ''pkg:github/go-yaml/yaml'' empty_github) = Inr ''Apache-2.0''"
proof -
  have "extract_github_repo ''pkg:github/go-yaml/yaml'' = Some (''go-yaml'', ''yaml'')"
    "with_override (repo_key ''go-yaml'' ''yaml'') [] = ''Apache-2.0''" by code_simp+
  then show ?thesis
    by (simp add: worker_lookup_def resolve_with_metadata_err_def fetch_repo_metadata_def resolve_err_def fetch_license_def
        sample_api_def empty_github_def is_rate_limited_def rate_limit_reset_at_def unknown_repo_def Let_def)
qed

end
