(* ===== verification/Depsdev_Resolver.thy ===== *)
theory Depsdev_Resolver
  imports License_Normalize Npm_Resolver
begin

text \<open>
  The deps.dev license resolver, \<open>backend/internal/depsdev/resolver.go\<close>: package versions of a purl,
  the expression made of the licenses deps.dev lists, the lookup of one package version, and the
  batch lookup of many. The service is a record of functions from what is asked for to what the
  client and the decoder return; \<open>dd_wait_version\<close> and \<open>dd_wait_package\<close> are the answers of the
  rate limiter before a request.
\<close>

subsection \<open>Package versions of a purl\<close>

record package_version =
  pv_system :: string
  pv_name :: string
  pv_version :: string

definition any_version :: string where "any_version = ''*''"

definition depsdev_cache_key :: "package_version \<Rightarrow> string" where
  "depsdev_cache_key pv = pv_system pv @ '':'' @ pv_name pv @ ''@'' @ pv_version pv"

definition decode_path :: "string \<Rightarrow> string option" where
  "decode_path s = map_option trim_space (path_unescape s)"

definition valid_version :: "string \<Rightarrow> bool" where
  "valid_version version0 \<longleftrightarrow>
     (let version = trim_space version0
      in if version = [] \<or> equal_fold version ''unknown'' \<or> contains_str version ''${'' then False
         else \<not> contains_any version [CHR '' '', CHR 0x09, CHR 0x0D, CHR 0x0A, CHR '',''])"

definition valid_npm_name :: "string \<Rightarrow> bool" where
  "valid_npm_name name \<longleftrightarrow>
     (if name = [] \<or> contains_str name ''..'' then False
      else if has_prefix name ''@'' then length (filter (\<lambda>c. c = CHR ''/'') name) = 1
      else \<not> contains_str name ''/'')"

fun dash_separators :: "bool \<Rightarrow> string \<Rightarrow> string" where
  "dash_separators last_dash [] = []"
| "dash_separators last_dash (r # rs) =
     (if r = CHR ''-'' \<or> r = CHR ''_'' \<or> r = CHR ''.''
      then (if last_dash then dash_separators True rs else CHR ''-'' # dash_separators True rs)
      else r # dash_separators False rs)"

definition normalize_pypi_name :: "string \<Rightarrow> string" where
  "normalize_pypi_name name = dash_separators False (to_lower name)"

text \<open>System and name deps.dev knows a package of a purl type by.\<close>

definition depsdev_name :: "string \<Rightarrow> string \<Rightarrow> (string \<times> string) option" where
  "depsdev_name typ name =
     (if typ = ''maven'' then
        (case split_char (CHR ''/'') name of
           [g, a] \<Rightarrow> if g = [] \<or> a = [] then None else Some (''MAVEN'', g @ '':'' @ a)
         | _ \<Rightarrow> None)
      else if typ = ''pypi'' then
        if contains_str name ''/'' then None else Some (''PYPI'', normalize_pypi_name name)
      else if typ = ''npm'' then
        if \<not> valid_npm_name name then None else Some (''NPM'', name)
      else if typ = ''golang'' then
        if contains_any name [CHR '' '', CHR 0x5C] \<or> name = [] then None else Some (''GO'', name)
      else if typ = ''cargo'' then
        if contains_str name ''/'' \<or> name = [] then None else Some (''CARGO'', name)
      else if typ = ''nuget'' then
        if contains_str name ''/'' \<or> name = [] then None else Some (''NUGET'', to_lower name)
      else None)"

definition extract_package :: "string \<Rightarrow> package_version option" where
  "extract_package purl =
     (if \<not> has_prefix purl ''pkg:'' then None
      else
        let rest = before_any (drop 4 purl) ''?#''
        in (case str_index rest ''/'' of
              None \<Rightarrow> None
            | Some slash \<Rightarrow>
                if slash = 0 \<or> slash = length rest - 1 then None
                else
                  let typ = to_lower (take slash rest);
                      package_and_version = drop (Suc slash) rest;
                      (raw_name, raw_version) =
                        (case str_last_index package_and_version ''@'' of
                           Some at \<Rightarrow> if at > 0 then (take at package_and_version, drop (Suc at) package_and_version)
                                     else (package_and_version, [])
                         | None \<Rightarrow> (package_and_version, []))
                  in (case decode_path raw_name of
                        None \<Rightarrow> None
                      | Some name \<Rightarrow>
                          if contains_str name ''${'' then None
                          else
                            (case decode_path raw_version of
                               None \<Rightarrow> None
                             | Some version0 \<Rightarrow>
                                 let version = (if \<not> valid_version version0 then [] else version0)
                                 in (case depsdev_name typ name of
                                       None \<Rightarrow> None
                                     | Some (system, name') \<Rightarrow>
                                         if contains_str name' ''..'' then None
                                         else Some \<lparr>pv_system = system, pv_name = trim_space name',
                                                    pv_version = trim_space version\<rparr>)))))"

definition extract_package_version :: "string \<Rightarrow> package_version option" where
  "extract_package_version purl =
     (case extract_package purl of None \<Rightarrow> None | Some pv \<Rightarrow> if pv_version pv = [] then None else Some pv)"

subsection \<open>Expressions\<close>

record license_detail =
  ld_license :: string
  ld_spdx :: string

record version_response =
  vr_licenses :: "string list"
  vr_details :: "license_detail list"

definition clean_license :: "string \<Rightarrow> string" where
  "clean_license lic0 =
     (let lic = trim_space lic0
      in if lic = [] then []
         else let upper = to_upper lic
              in if upper = ''NON-STANDARD'' \<or> upper = ''NOASSERTION'' \<or> upper = ''NONE'' then [] else lic)"

definition field_break :: "char \<Rightarrow> bool" where
  "field_break r \<longleftrightarrow> go_space r \<or> r = CHR ''('' \<or> r = CHR '')''"

definition contains_operator :: "string \<Rightarrow> bool" where
  "contains_operator lic \<longleftrightarrow>
     list_ex (\<lambda>field. let u = to_upper field in u = ''AND'' \<or> u = ''OR'' \<or> u = ''WITH'') (fields_by field_break lic)"

definition parenthesize_if_compound :: "string \<Rightarrow> string" where
  "parenthesize_if_compound lic =
     (if \<not> contains_operator lic \<or> has_prefix lic ''('' \<and> has_suffix lic '')'' then lic
      else ''('' @ lic @ '')'')"

definition join_licenses :: "string list \<Rightarrow> string" where
  "join_licenses parts =
     join_with '' AND '' (if length parts > 1 then map parenthesize_if_compound parts else parts)"

definition recover_license :: "string \<Rightarrow> string" where
  "recover_license raw = recover (clean_license raw)"

definition detail_license :: "license_detail \<Rightarrow> string" where
  "detail_license d = (let lic = clean_license (ld_spdx d) in if lic = [] then recover_license (ld_license d) else lic)"

definition add_license :: "license_detail \<Rightarrow> string list \<Rightarrow> string list" where
  "add_license d parts =
     (let lic = detail_license d in if lic = [] \<or> lic \<in> set parts then parts else parts @ [lic])"

definition detail_parts :: "license_detail list \<Rightarrow> string list" where
  "detail_parts details = fold add_license details []"

definition normalize_license_details :: "license_detail list \<Rightarrow> string" where
  "normalize_license_details details = join_licenses (detail_parts details)"

definition normalize_licenses :: "string list \<Rightarrow> string" where
  "normalize_licenses licenses =
     (let parts = map clean_license licenses in if [] \<in> set parts then [] else join_licenses parts)"

definition version_expression :: "version_response \<Rightarrow> string" where
  "version_expression v =
     (if length (vr_details v) > 0 then normalize_license_details (vr_details v) else normalize_licenses (vr_licenses v))"

definition version_cache_value :: "version_response \<Rightarrow> string" where
  "version_cache_value v =
     (let lic = version_expression v
      in if lic \<noteq> [] then lic else negative_cache_value reason_no_license_upstream)"

subsection \<open>The service\<close>

text \<open>
  An exchange of the batch endpoint: the limiter refused to wait, or what the client returned. A
  page gives the versions asked for and what deps.dev knows of them (\<open>None\<close>: JSON null), and the
  token of the next page. \<open>dd_batch\<close> lists what the endpoint answers to the successive requests
  for a slice; behind the last there is no response. \<open>dd_order\<close> is the order a loop over a map
  runs in, for each of the three loops of \<open>ResolveBatch\<close>.
\<close>

record batch_page =
  bg_responses :: "(package_version \<times> version_response option) list"
  bg_next_token :: string

datatype batch_exchange = BatchRefused | BatchAnswer "batch_page http_response"

record depsdev_api =
  dd_wait_version :: "package_version \<Rightarrow> bool"
  dd_wait_package :: "string \<Rightarrow> string \<Rightarrow> bool"
  dd_version :: "package_version \<Rightarrow> version_response http_response"
  dd_package :: "string \<Rightarrow> string \<Rightarrow> (string \<times> bool) list http_response"
  dd_batch :: "package_version list \<Rightarrow> batch_exchange list"
  dd_order :: "nat \<Rightarrow> (string \<times> package_version) list \<Rightarrow> (string \<times> package_version) list"

definition fetch_version :: "depsdev_api \<Rightarrow> package_version \<Rightarrow> string" where
  "fetch_version api pv =
     (case dd_version api pv of
        NoResponse \<Rightarrow> []
      | HttpResponse status body \<Rightarrow>
          if status = 404 then negative_cache_value reason_not_published
          else if status \<noteq> 200 then []
          else (case body of None \<Rightarrow> [] | Some vr \<Rightarrow> version_cache_value vr))"

definition default_version :: "depsdev_api \<Rightarrow> string \<Rightarrow> string \<Rightarrow> string \<times> string" where
  "default_version api system name =
     (if \<not> dd_wait_package api system name then ([], [])
      else (case dd_package api system name of
              NoResponse \<Rightarrow> ([], [])
            | HttpResponse status body \<Rightarrow>
                if status = 404 then ([], reason_not_published)
                else if status \<noteq> 200 then ([], [])
                else (case body of
                        None \<Rightarrow> ([], [])
                      | Some versions \<Rightarrow>
                          (case find snd versions of Some (v, _) \<Rightarrow> (v, []) | None \<Rightarrow> ([], [])))))"

subsection \<open>One package version\<close>

definition resolve_one_value :: "depsdev_api \<Rightarrow> package_version \<Rightarrow> resolver_cache \<Rightarrow> string \<times> resolver_cache" where
  "resolve_one_value api pv c =
     (case load_value c (depsdev_cache_key pv) of
        (cached, found) \<Rightarrow>
          if found then (cached, c)
          else if \<not> dd_wait_version api pv then ([], c)
          else let value = fetch_version api pv in (value, store_value (depsdev_cache_key pv) value c))"

definition depsdev_resolve :: "depsdev_api \<Rightarrow> string \<Rightarrow> resolver_cache \<Rightarrow> string \<times> resolver_cache" where
  "depsdev_resolve api purl c =
     (case extract_package purl of
        None \<Rightarrow> ([], c)
      | Some pv \<Rightarrow>
          if pv_version pv \<noteq> [] then
            (case resolve_one_value api pv c of (value, c') \<Rightarrow> (fst (split_cache_value value), c'))
          else
            let key = depsdev_cache_key (pv\<lparr>pv_version := any_version\<rparr>)
            in (case cache_load c key of
                  (lic, _, found) \<Rightarrow>
                    if found then (lic, c)
                    else
                      (case default_version api (pv_system pv) (pv_name pv) of
                         (v, reason) \<Rightarrow>
                           (case (if v \<noteq> [] then resolve_one_value api (pv\<lparr>pv_version := v\<rparr>) c
                                  else (negative_cache_value reason, c)) of
                              (value, c') \<Rightarrow> (fst (split_cache_value value), store_value key value c')))))"

definition depsdev_explain :: "resolver_cache \<Rightarrow> string \<Rightarrow> bool \<times> string \<times> bool" where
  "depsdev_explain c purl =
     (case extract_package purl of
        None \<Rightarrow> (False, [], False)
      | Some pv \<Rightarrow>
          let latest = pv_version pv = []
          in (True, cache_reason c (depsdev_cache_key (if latest then pv\<lparr>pv_version := any_version\<rparr> else pv)), latest))"

subsection \<open>Many package versions\<close>

definition take_response ::
  "package_version \<times> version_response option \<Rightarrow> (string \<rightharpoonup> string) \<Rightarrow> (string \<rightharpoonup> string)" where
  "take_response item resolved =
     (case item of (pv, version) \<Rightarrow>
        resolved(depsdev_cache_key pv \<mapsto>
          (case version of None \<Rightarrow> negative_cache_value reason_not_published | Some vr \<Rightarrow> version_cache_value vr)))"

fun read_pages :: "batch_exchange list \<Rightarrow> (string \<rightharpoonup> string) \<Rightarrow> (string \<rightharpoonup> string) option" where
  "read_pages [] resolved = None"
| "read_pages (BatchRefused # _) resolved = Some resolved"
| "read_pages (BatchAnswer resp # later) resolved =
     (case resp of
        NoResponse \<Rightarrow> None
      | HttpResponse status body \<Rightarrow>
          if status \<noteq> 200 then None
          else (case body of
                  None \<Rightarrow> None
                | Some page \<Rightarrow>
                    let resolved' = fold take_response (bg_responses page) resolved
                    in if bg_next_token page = [] then Some resolved' else read_pages later resolved'))"

definition fetch_license_batch :: "depsdev_api \<Rightarrow> package_version list \<Rightarrow> (string \<rightharpoonup> string) option" where
  "fetch_license_batch api versions =
     read_pages (dd_batch api versions) (fold (\<lambda>pv m. m(depsdev_cache_key pv \<mapsto> [])) versions Map.empty)"

definition max_batch_size :: nat where "max_batch_size = 5000"

record batch_scan =
  bs_out :: "string \<rightharpoonup> string"
  bs_pending :: "(string \<times> package_version) list"
  bs_purls :: "string \<Rightarrow> string list"

definition scan_purl :: "resolver_cache \<Rightarrow> string \<Rightarrow> batch_scan \<Rightarrow> batch_scan" where
  "scan_purl c purl s =
     (case extract_package purl of
        None \<Rightarrow> s
      | Some pv0 \<Rightarrow>
          let pv = (if pv_version pv0 = [] then pv0\<lparr>pv_version := any_version\<rparr> else pv0);
              key = depsdev_cache_key pv
          in (case cache_load c key of
                (lic, _, found) \<Rightarrow>
                  if found then s\<lparr>bs_out := (bs_out s)(purl \<mapsto> lic)\<rparr>
                  else s\<lparr>bs_pending := (if key \<in> fst ` set (bs_pending s) then bs_pending s else bs_pending s @ [(key, pv)]),
                         bs_purls := (bs_purls s)(key := bs_purls s key @ [purl])\<rparr>))"

record batch_plan =
  bp_resolved :: "string \<rightharpoonup> string"
  bp_default_of :: "string \<rightharpoonup> string"
  bp_items :: "package_version list"

definition queued :: "batch_plan \<Rightarrow> string \<Rightarrow> bool" where
  "queued p key \<longleftrightarrow> key \<in> depsdev_cache_key ` set (bp_items p)"

definition plan_default :: "depsdev_api \<Rightarrow> resolver_cache \<Rightarrow> string \<times> package_version \<Rightarrow> batch_plan \<Rightarrow> batch_plan" where
  "plan_default api c entry p =
     (case entry of (key, pv) \<Rightarrow>
        (case default_version api (pv_system pv) (pv_name pv) of
           (version, reason) \<Rightarrow>
             if version = [] then p\<lparr>bp_resolved := (bp_resolved p)(key \<mapsto> negative_cache_value reason)\<rparr>
             else
               let concrete = pv\<lparr>pv_version := version\<rparr>; ck = depsdev_cache_key concrete;
                   p' = p\<lparr>bp_default_of := (bp_default_of p)(key \<mapsto> ck)\<rparr>
               in (case load_value c ck of
                     (cached, found) \<Rightarrow>
                       if found then p'\<lparr>bp_resolved := (bp_resolved p')(ck \<mapsto> cached)\<rparr>
                       else if queued p' ck then p'
                       else p'\<lparr>bp_items := bp_items p' @ [concrete]\<rparr>)))"

definition plan_batch :: "depsdev_api \<Rightarrow> resolver_cache \<Rightarrow> (string \<times> package_version) list \<Rightarrow> batch_plan" where
  "plan_batch api c pending =
     (let items = map snd (filter (\<lambda>(key, pv). pv_version pv \<noteq> any_version) (dd_order api 0 pending));
          wildcards = filter (\<lambda>(key, pv). pv_version pv = any_version) (dd_order api 1 pending)
      in fold (plan_default api c) wildcards
           \<lparr>bp_resolved = Map.empty, bp_default_of = Map.empty, bp_items = items\<rparr>)"

definition fetch_one :: "depsdev_api \<Rightarrow> package_version \<Rightarrow> (string \<rightharpoonup> string) \<Rightarrow> (string \<rightharpoonup> string)" where
  "fetch_one api pv resolved =
     resolved(depsdev_cache_key pv \<mapsto> (if dd_wait_version api pv then fetch_version api pv else []))"

definition fetch_slice :: "depsdev_api \<Rightarrow> package_version list \<Rightarrow> (string \<rightharpoonup> string) \<Rightarrow> (string \<rightharpoonup> string)" where
  "fetch_slice api part resolved =
     (case fetch_license_batch api part of
        Some batch \<Rightarrow> resolved ++ batch
      | None \<Rightarrow> fold (fetch_one api) part resolved)"

definition resolved_value :: "(string \<rightharpoonup> string) \<Rightarrow> string \<Rightarrow> string" where
  "resolved_value resolved key = (case resolved key of Some v \<Rightarrow> v | None \<Rightarrow> [])"

definition pending_value :: "batch_plan \<Rightarrow> (string \<rightharpoonup> string) \<Rightarrow> string \<Rightarrow> string" where
  "pending_value p resolved key =
     (case bp_default_of p key of Some ck \<Rightarrow> resolved_value resolved ck | None \<Rightarrow> resolved_value resolved key)"

definition answer_pending ::
  "batch_scan \<Rightarrow> batch_plan \<Rightarrow> (string \<rightharpoonup> string) \<Rightarrow> string \<times> package_version \<Rightarrow> (string \<rightharpoonup> string) \<Rightarrow> (string \<rightharpoonup> string)" where
  "answer_pending s p resolved entry out =
     (let key = fst entry; lic = fst (split_cache_value (pending_value p resolved key))
      in fold (\<lambda>purl out. out(purl \<mapsto> lic)) (bs_purls s key) out)"

definition resolve_batch ::
  "depsdev_api \<Rightarrow> string list \<Rightarrow> resolver_cache \<Rightarrow> (string \<rightharpoonup> string) \<times> resolver_cache" where
  "resolve_batch api purls c =
     (let s = fold (scan_purl c) purls \<lparr>bs_out = Map.empty, bs_pending = [], bs_purls = (\<lambda>_. [])\<rparr>
      in if bs_pending s = [] then (bs_out s, c)
         else
           let p = plan_batch api c (bs_pending s);
               resolved = fold (fetch_slice api) (chunked max_batch_size (bp_items p)) (bp_resolved p);
               extra = filter (\<lambda>pv. depsdev_cache_key pv \<notin> fst ` set (bs_pending s)) (bp_items p);
               c1 = fold (\<lambda>pv. store_value (depsdev_cache_key pv) (resolved_value resolved (depsdev_cache_key pv))) extra c;
               order = dd_order api 2 (bs_pending s)
           in (fold (answer_pending s p resolved) order (bs_out s),
               fold (\<lambda>entry. store_value (fst entry) (pending_value p resolved (fst entry))) order c1))"


subsection \<open>A conjunction of the listed licenses\<close>

lemma tokenize_space: "tokenize_loop w (s @ CHR '' '' # t) = tokenize_loop w s @ tokenize_loop [] t"
  by (induction s arbitrary: w) auto

lemma tokenize_and: "tokenize (s @ '' AND '' @ t) = tokenize s @ TokAnd # tokenize t"
proof -
  have "tokenize (s @ CHR '' '' # (''AND'' @ CHR '' '' # t)) = tokenize_loop [] s @ tokenize_loop [] ''AND'' @ tokenize_loop [] t"
    unfolding tokenize_def tokenize_space [of "[]" s] tokenize_space [of "[]" "''AND''"] ..
  moreover have "tokenize_loop [] ''AND'' = [TokAnd]" by code_simp
  ultimately show ?thesis by (simp add: tokenize_def)
qed

lemma tokenize_parens: "tokenize (''('' @ s @ '')'') = TokLParen # tokenize s @ [TokRParen]"
proof -
  have "tokenize_loop w (s @ '')'') = tokenize_loop w s @ [TokRParen]" for w
    by (induction s arbitrary: w) (auto simp: flush_word_def)
  then show ?thesis by (simp add: tokenize_def flush_word_def)
qed

lemma sep_tokens_Cons: "sep_tokens t (ts # us # tss) = ts @ t # sep_tokens t (us # tss)"
proof -
  have "foldl (\<lambda>acc us. acc @ t # us) (a @ b) tss = a @ foldl (\<lambda>acc us. acc @ t # us) b tss" for a b
    by (induction tss arbitrary: b) auto
  from this [of "ts @ [t]" us] show ?thesis by simp
qed

lemma tokenize_join: "ps \<noteq> [] \<Longrightarrow> tokenize (join_with '' AND '' ps) = sep_tokens TokAnd (map tokenize ps)"
proof (induction "'' AND ''" ps rule: join_with.induct)
  case (3 x y zs)
  then show ?case using tokenize_and [of x "join_with '' AND '' (y # zs)"] by (simp add: sep_tokens_Cons del: sep_tokens.simps(2))
qed auto

text \<open>A keyword the tokenizer finds in a text without commas is a field of it.\<close>

definition keyword :: "string \<Rightarrow> bool" where
  "keyword w \<longleftrightarrow> to_upper w = ''AND'' \<or> to_upper w = ''OR'' \<or> to_upper w = ''WITH''"

lemma keyword_plain:
  assumes "keyword w" "c \<in> set w"
  shows "\<not> field_break c"
proof
  assume "field_break c"
  then have "upper_char c \<notin> set ''ANDORWITH''"
    by (auto simp: field_break_def go_space_def upper_char_def char_between_def)
  moreover have "upper_char c \<in> set (to_upper w)" using assms(2) by (simp add: to_upper_def)
  ultimately show False using assms(1) by (auto simp: keyword_def)
qed

lemma split_by_at: "P d \<Longrightarrow> split_by P (u @ d # v) = split_by P u @ split_by P v"
proof (induction u)
  case (Cons a u)
  then show ?case by (cases "split_by P u") auto
qed simp

lemma flush_keyword: "t \<in> set (flush_word w) \<Longrightarrow> t \<in> {TokAnd, TokOr, TokWith} \<Longrightarrow> keyword w"
  by (auto simp: flush_word_def keyword_def split: if_splits)

lemma keyword_split: "keyword w \<Longrightarrow> split_by field_break w = [w]"
  using keyword_plain by (intro split_by_word) blast

lemma tokenize_keyword:
  "CHR '','' \<notin> set s \<Longrightarrow> t \<in> set (tokenize_loop w s) \<Longrightarrow> t \<in> {TokAnd, TokOr, TokWith} \<Longrightarrow>
     \<exists>f \<in> set (split_by field_break (w @ s)). keyword f"
proof (induction s arbitrary: w)
  case Nil
  then have "keyword w" by (auto dest: flush_keyword)
  then show ?case by (simp add: keyword_split)
next
  case (Cons r rs)
  show ?case
  proof (cases "field_break r \<and> r \<noteq> CHR 0x0B \<and> r \<noteq> CHR 0x0C")
    case True
    then have "t \<in> set (flush_word w) \<or> t \<in> set (tokenize_loop [] rs)"
      using Cons.prems by (auto simp: field_break_def go_space_def split: if_splits)
    moreover have "split_by field_break (w @ r # rs) = split_by field_break w @ split_by field_break rs"
      using True by (simp add: split_by_at)
    ultimately show ?thesis
      using Cons.IH [of "[]"] Cons.prems flush_keyword [of t w] keyword_split [of w] by auto
  next
    case False
    then have "t \<in> set (tokenize_loop (w @ [r]) rs)"
      using Cons.prems by (auto simp: field_break_def go_space_def split: if_splits)
    then show ?thesis using Cons.IH [of "w @ [r]"] Cons.prems by simp
  qed
qed

lemma no_operator_tokens:
  assumes "CHR '','' \<notin> set s" "\<not> contains_operator s"
  shows "TokAnd \<notin> set (tokenize s)" "TokOr \<notin> set (tokenize s)"
proof -
  have "\<not> keyword f" if "f \<in> set (split_by field_break s)" for f
    using that assms(2) by (auto simp: contains_operator_def list_ex_iff fields_by_def keyword_def Let_def to_upper_def)
  then show "TokAnd \<notin> set (tokenize s)" "TokOr \<notin> set (tokenize s)"
    using tokenize_keyword [OF assms(1), of _ "[]"] unfolding tokenize_def by auto
qed

inductive_cases or_exprE: "or_expr ts n"
inductive_cases or_listE: "or_list ts ns"
inductive_cases and_exprE: "and_expr ts n"
inductive_cases and_listE: "and_list ts ns"

lemma no_operator_phrase:
  assumes "or_expr ts n" "TokAnd \<notin> set ts" "TokOr \<notin> set ts"
  shows "with_expr ts n"
proof -
  from assms(1) obtain ns where ns: "or_list ts ns" "n = collapse OrNode ns" by (rule or_exprE)
  from ns(1) assms(3) have "and_expr ts n" by (auto elim: or_listE simp: ns(2) collapse_def)
  then obtain ms where ms: "and_list ts ms" "n = collapse AndNode ms" by (rule and_exprE)
  from ms(1) assms(2) show ?thesis by (auto elim: and_listE simp: ms(2) collapse_def)
qed

lemma part_phrase:
  assumes "parse_expression p = Inr n" "CHR '','' \<notin> set p"
    and "\<not> (contains_operator p \<and> has_prefix p ''('' \<and> has_suffix p '')'')"
  shows "with_expr (tokenize (parenthesize_if_compound p)) n"
proof -
  have g: "or_expr (tokenize p) n" using assms(1) by (simp add: parse_expression_iff_grammar)
  show ?thesis
  proof (cases "contains_operator p")
    case True
    then have "parenthesize_if_compound p = ''('' @ p @ '')''"
      using assms(3) by (simp add: parenthesize_if_compound_def)
    then show ?thesis using tokenize_parens [of p] g by (simp add: with_plain primary_paren)
  next
    case False
    then have "parenthesize_if_compound p = p" by (simp add: parenthesize_if_compound_def)
    then show ?thesis using no_operator_phrase [OF g no_operator_tokens [OF assms(2) False]] by simp
  qed
qed

lemma join_licenses_parse:
  assumes "ps \<noteq> []"
    and "\<And>p. p \<in> set ps \<Longrightarrow> parse_expression p = Inr (tree p) \<and> CHR '','' \<notin> set p \<and>
      \<not> (contains_operator p \<and> has_prefix p ''('' \<and> has_suffix p '')'')"
  shows "parse_expression (join_licenses ps) = Inr (collapse AndNode (map tree ps))"
proof (cases "length ps > 1")
  case True
  have "list_all2 with_expr (map (\<lambda>p. tokenize (parenthesize_if_compound p)) ps) (map tree ps)"
    using assms(2) part_phrase by (simp add: list_all2_map1 list_all2_map2 list_all2_same)
  then have "and_list (sep_tokens TokAnd (map tokenize (map parenthesize_if_compound ps))) (map tree ps)"
    using assms(1) by (intro and_list_sep) (simp_all add: comp_def)
  then have "and_list (tokenize (join_licenses ps)) (map tree ps)"
    using True assms(1) by (simp add: join_licenses_def tokenize_join)
  then show ?thesis
    by (intro parse_expression_iff_grammar [THEN iffD2] and_to_or and_exprI)
next
  case False
  then obtain p where "ps = [p]" using assms(1) by (cases ps; cases "tl ps") auto
  then show ?thesis using assms(2) by (simp add: join_licenses_def collapse_def)
qed

text \<open>The category of a conjunction of trees, in every mode.\<close>

lemma evaluate_conjunction:
  assumes "evaluate (collapse AndNode ns) mode lookup = Some c"
  shows "(\<exists>n \<in> set ns. evaluate n mode lookup = Some c) \<and>
     (\<forall>n \<in> set ns. \<exists>d. evaluate n mode lookup = Some d \<and>
        (if mode = ModePermissiveWins then severity c \<le> severity d else severity d \<le> severity c))"
proof (cases "length ns = 1")
  case True
  then obtain n where "ns = [n]" by (cases ns) auto
  then show ?thesis using assms by (simp add: collapse_def)
next
  case False
  then have e: "evaluate (AndNode ns) mode lookup = Some c" using assms by (simp only: collapse_def if_False)
  show ?thesis
  proof (cases "mode = ModePermissiveWins")
    case True
    with e have "evaluate (OrNode ns) mode lookup = Some c" by (simp only: evaluate_and_wins)
    then show ?thesis unfolding evaluate_or_Some using True by simp
  next
    case False
    then show ?thesis using e unfolding evaluate_and_Some [OF False] by simp
  qed
qed

text \<open>
  What the comment does not say: alternatives that begin and end with a parenthesis are taken for
  parenthesised, so the conjunction binds to the last of them only.
\<close>

lemma details_unparenthesised_choice:
  "normalize_license_details [\<lparr>ld_license = [], ld_spdx = ''(MIT) OR (ISC)''\<rparr>, \<lparr>ld_license = [], ld_spdx = ''GPL-3.0-only''\<rparr>] =
     ''(MIT) OR (ISC) AND GPL-3.0-only''"
  "parse_expression ''(MIT) OR (ISC) AND GPL-3.0-only'' =
     Inr (OrNode [Leaf ''MIT'', AndNode [Leaf ''ISC'', Leaf ''GPL-3.0-only'']])"
  by code_simp+

subsection \<open>The value of a key\<close>

text \<open>
  What deps.dev says of a package version, and of a package without one, as the cache encodes it:
  a function of the key, for versions without an at sign other than the one that stands for any.
\<close>

definition version_value :: "depsdev_api \<Rightarrow> package_version \<Rightarrow> string" where
  "version_value api pv = (if dd_wait_version api pv then fetch_version api pv else [])"

definition latest_value :: "depsdev_api \<Rightarrow> package_version \<Rightarrow> string" where
  "latest_value api pv =
     (case default_version api (pv_system pv) (pv_name pv) of
        (v, reason) \<Rightarrow> if v \<noteq> [] then version_value api (pv\<lparr>pv_version := v\<rparr>) else negative_cache_value reason)"

definition depsdev_unkey :: "string \<Rightarrow> package_version" where
  "depsdev_unkey k =
     (case str_cut k '':'' of
        None \<Rightarrow> \<lparr>pv_system = [], pv_name = [], pv_version = []\<rparr>
      | Some (system, rest) \<Rightarrow>
          (case str_last_index rest ''@'' of
             None \<Rightarrow> \<lparr>pv_system = system, pv_name = rest, pv_version = []\<rparr>
           | Some i \<Rightarrow> \<lparr>pv_system = system, pv_name = take i rest, pv_version = drop (Suc i) rest\<rparr>))"

definition depsdev_value :: "depsdev_api \<Rightarrow> string \<Rightarrow> string" where
  "depsdev_value api k =
     (let pv = depsdev_unkey k in if pv_version pv = any_version then latest_value api pv else version_value api pv)"

definition regular_version :: "string \<Rightarrow> bool" where
  "regular_version v \<longleftrightarrow> CHR ''@'' \<notin> set v \<and> v \<noteq> any_version"

definition regular_purl :: "string \<Rightarrow> bool" where
  "regular_purl purl \<longleftrightarrow> (case extract_package purl of None \<Rightarrow> True | Some pv \<Rightarrow> regular_version (pv_version pv))"

definition keyed :: "package_version \<Rightarrow> bool" where
  "keyed pv \<longleftrightarrow> CHR '':'' \<notin> set (pv_system pv) \<and> CHR ''@'' \<notin> set (pv_version pv)"

definition concrete_item :: "package_version \<Rightarrow> bool" where
  "concrete_item pv \<longleftrightarrow> keyed pv \<and> pv_version pv \<noteq> any_version"

text \<open>The package version a purl is looked up under, in the batch and in the cache.\<close>

definition lookup_version :: "package_version \<Rightarrow> package_version" where
  "lookup_version pv = (if pv_version pv = [] then pv\<lparr>pv_version := any_version\<rparr> else pv)"

lemma unkey_key: "keyed pv \<Longrightarrow> depsdev_unkey (depsdev_cache_key pv) = pv"
proof -
  assume k: "keyed pv"
  have "str_cut (pv_system pv @ CHR '':'' # (pv_name pv @ CHR ''@'' # pv_version pv)) '':'' =
      Some (pv_system pv, pv_name pv @ CHR ''@'' # pv_version pv)"
    using k by (intro str_cut_single) (simp add: keyed_def)
  moreover have "str_last_index (pv_name pv @ CHR ''@'' # pv_version pv) ''@'' = Some (length (pv_name pv))"
    using k by (intro str_last_index_split) (simp add: keyed_def)
  ultimately show ?thesis by (simp add: depsdev_unkey_def depsdev_cache_key_def)
qed

lemma value_concrete: "concrete_item pv \<Longrightarrow> depsdev_value api (depsdev_cache_key pv) = version_value api pv"
  by (simp add: depsdev_value_def unkey_key concrete_item_def)

lemma value_any:
  "keyed pv \<Longrightarrow> pv_version pv = any_version \<Longrightarrow> depsdev_value api (depsdev_cache_key pv) = latest_value api pv"
  by (simp add: depsdev_value_def unkey_key)

lemma depsdev_name_system: "depsdev_name typ name = Some (system, name') \<Longrightarrow> CHR '':'' \<notin> set system"
  by (auto simp: depsdev_name_def split: if_splits list.splits)

lemma extract_system: "extract_package purl = Some pv \<Longrightarrow> CHR '':'' \<notin> set (pv_system pv)"
  by (auto simp: extract_package_def Let_def dest: depsdev_name_system split: if_splits option.splits prod.splits)

lemma wanted_keyed:
  assumes "extract_package purl = Some pv" "regular_purl purl"
  shows "keyed (lookup_version pv)"
  using extract_system [OF assms(1)] assms
  by (auto simp: keyed_def lookup_version_def regular_purl_def regular_version_def any_version_def)

lemma wanted_any:
  assumes "extract_package purl = Some pv" "regular_purl purl"
  shows "pv_version (lookup_version pv) = any_version \<longleftrightarrow> pv_version pv = []"
  using assms by (auto simp: lookup_version_def regular_purl_def regular_version_def any_version_def)

lemma cache_load_split:
  "cache_load c k = (case load_value c k of (v, ok) \<Rightarrow>
     if ok then (fst (split_cache_value v), snd (split_cache_value v), True) else ([], [], False))"
  by (simp add: cache_load_def split: prod.split)

lemma resolve_one_ask:
  assumes "concrete_item pv"
  shows "resolve_one_value api pv c = memo.ask_value (depsdev_value api) (depsdev_cache_key pv) c"
  using value_concrete [OF assms, of api]
  by (simp add: resolve_one_value_def memo.ask_value_def version_value_def memo.store_empty Let_def split: prod.split)

definition default_regular :: "depsdev_api \<Rightarrow> bool" where
  "default_regular api \<longleftrightarrow> (\<forall>system name. regular_version (fst (default_version api system name)))"

lemma default_concrete:
  assumes "default_regular api" "keyed pv" "default_version api (pv_system pv) (pv_name pv) = (v, reason)" "v \<noteq> []"
  shows "concrete_item (pv\<lparr>pv_version := v\<rparr>)"
    and "latest_value api pv = depsdev_value api (depsdev_cache_key (pv\<lparr>pv_version := v\<rparr>))"
proof -
  have "regular_version v" using assms(1,3) by (metis default_regular_def fst_conv)
  then show item: "concrete_item (pv\<lparr>pv_version := v\<rparr>)"
    using assms(2) by (simp add: concrete_item_def keyed_def regular_version_def)
  show "latest_value api pv = depsdev_value api (depsdev_cache_key (pv\<lparr>pv_version := v\<rparr>))"
    using assms(3,4) by (simp add: latest_value_def value_concrete [OF item])
qed

text \<open>Resolving one purl from a cache that holds values of the service.\<close>

lemma resolve_value:
  assumes "default_regular api" "extract_package purl = Some pv" "regular_purl purl" "memo.holds (depsdev_value api) c"
  shows "fst (depsdev_resolve api purl c) = fst (split_cache_value (depsdev_value api (depsdev_cache_key (lookup_version pv)))) \<and>
     memo.holds (depsdev_value api) (snd (depsdev_resolve api purl c))"
proof (cases "pv_version pv = []")
  case False
  then have w: "lookup_version pv = pv" by (simp add: lookup_version_def)
  have "concrete_item pv"
    using wanted_keyed [OF assms(2,3)] wanted_any [OF assms(2,3)] False by (simp add: w concrete_item_def)
  then show ?thesis
    using memo.ask_holds [OF assms(4), of "depsdev_cache_key pv"] False assms(2)
    by (auto simp: depsdev_resolve_def resolve_one_ask w split: prod.split)
next
  case True
  define wp where "wp = pv\<lparr>pv_version := any_version\<rparr>"
  define k where "k = depsdev_cache_key wp"
  have w: "lookup_version pv = wp" using True by (simp add: lookup_version_def wp_def)
  have keyed: "keyed wp" "pv_version wp = any_version"
    using wanted_keyed [OF assms(2,3)] wanted_any [OF assms(2,3)] True by (simp_all add: w)
  have val: "depsdev_value api k = latest_value api wp"
    unfolding k_def using keyed by (rule value_any)
  obtain v reason where d: "default_version api (pv_system pv) (pv_name pv) = (v, reason)" by fastforce
  obtain x ok where l: "load_value c k = (x, ok)" by fastforce
  show ?thesis
  proof (cases ok)
    case True
    then have "x = depsdev_value api k" using l assms(4) by (simp add: memo.holds_def)
    then show ?thesis
      using True \<open>pv_version pv = []\<close> assms(2,4) l
      by (simp add: depsdev_resolve_def cache_load_split w wp_def [symmetric] k_def [symmetric])
  next
    case False
    let ?r = "if v \<noteq> [] then resolve_one_value api (pv\<lparr>pv_version := v\<rparr>) c else (negative_cache_value reason, c)"
    have r: "fst ?r = depsdev_value api k \<and> memo.holds (depsdev_value api) (snd ?r)"
    proof (cases "v = []")
      case True
      then show ?thesis using val d assms(4) by (simp add: latest_value_def wp_def)
    next
      case False
      have d': "default_version api (pv_system wp) (pv_name wp) = (v, reason)" using d by (simp add: wp_def)
      note dc = default_concrete [OF assms(1) keyed(1) d' False]
      have "wp\<lparr>pv_version := v\<rparr> = pv\<lparr>pv_version := v\<rparr>" by (simp add: wp_def)
      then show ?thesis
        using False dc memo.ask_holds [OF assms(4)] val by (simp add: resolve_one_ask)
    qed
    have "depsdev_resolve api purl c = (fst (split_cache_value (fst ?r)), store_value k (fst ?r) (snd ?r))"
      using False \<open>pv_version pv = []\<close> assms(2) l d
      by (simp add: depsdev_resolve_def cache_load_split wp_def [symmetric] k_def [symmetric] split: prod.split)
    then show ?thesis
      using r memo.holds_store [of "depsdev_value api" "snd ?r" "fst ?r" k] by (simp add: w k_def)
  qed
qed


subsection \<open>The batch\<close>

text \<open>
  What is relied on of the service: the batch endpoint and the endpoint of one version agree. A page
  only speaks of versions asked for; JSON null stands for a version the other endpoint answers with
  404, and a version given is the one the other endpoint gives. The last page, without a token,
  leaves no version out, over all pages. Where the limiter refuses a page, because the context is done,
  it refuses the versions that are left. Requests that fail may fail in any way.
\<close>

definition honest_item :: "depsdev_api \<Rightarrow> package_version list \<Rightarrow> package_version \<times> version_response option \<Rightarrow> bool" where
  "honest_item api asked item \<longleftrightarrow>
     (case item of (pv, version) \<Rightarrow> pv \<in> set asked \<and> dd_wait_version api pv \<and>
        (case dd_version api pv of
           NoResponse \<Rightarrow> False
         | HttpResponse status body \<Rightarrow>
             (case version of None \<Rightarrow> status = 404 | Some vr \<Rightarrow> status = 200 \<and> body = Some vr)))"

definition left_out :: "package_version list \<Rightarrow> (package_version \<times> version_response option) list \<Rightarrow> package_version list" where
  "left_out left items = filter (\<lambda>pv. pv \<notin> fst ` set items) left"

fun honest_pages :: "depsdev_api \<Rightarrow> package_version list \<Rightarrow> package_version list \<Rightarrow> batch_exchange list \<Rightarrow> bool" where
  "honest_pages api asked left [] \<longleftrightarrow> True"
| "honest_pages api asked left (BatchRefused # later) \<longleftrightarrow> (\<forall>pv \<in> set left. \<not> dd_wait_version api pv)"
| "honest_pages api asked left (BatchAnswer resp # later) \<longleftrightarrow>
     (case resp of
        NoResponse \<Rightarrow> True
      | HttpResponse status body \<Rightarrow>
          (case body of
             None \<Rightarrow> True
           | Some page \<Rightarrow>
               status = 200 \<longrightarrow> (\<forall>item \<in> set (bg_responses page). honest_item api asked item) \<and>
                 (if bg_next_token page = [] then left_out left (bg_responses page) = []
                  else honest_pages api asked (left_out left (bg_responses page)) later)))"

definition regular_service :: "depsdev_api \<Rightarrow> bool" where
  "regular_service api \<longleftrightarrow> default_regular api \<and>
     (\<forall>i xs. mset (dd_order api i xs) = mset xs) \<and> (\<forall>part. honest_pages api part part (dd_batch api part))"

text \<open>Maps of answers of the service, and the keys they have an answer for.\<close>

definition answers :: "depsdev_api \<Rightarrow> (string \<rightharpoonup> string) \<Rightarrow> bool" where
  "answers api m \<longleftrightarrow> (\<forall>k v. m k = Some v \<longrightarrow> v = depsdev_value api k)"

lemma answers_upd: "answers api m \<Longrightarrow> v = depsdev_value api k \<Longrightarrow> answers api (m(k \<mapsto> v))"
  by (simp add: answers_def)

lemma answers_resolved: "answers api m \<Longrightarrow> k \<in> dom m \<Longrightarrow> resolved_value m k = depsdev_value api k"
  by (auto simp: answers_def resolved_value_def)

lemma take_responses_dom: "dom m \<subseteq> dom (fold take_response items m)"
proof (induction items arbitrary: m)
  case (Cons item items)
  have "dom m \<subseteq> dom (take_response item m)" by (cases item) (auto simp: take_response_def)
  then show ?case using Cons.IH [of "take_response item m"] by simp
qed simp

lemma read_pages_dom: "read_pages exs m = Some b \<Longrightarrow> dom m \<subseteq> dom b"
proof (induction exs m rule: read_pages.induct)
  case (3 resp later m)
  then show ?case
    using take_responses_dom [of m]
    by (fastforce simp: Let_def split: http_response.splits if_splits option.splits)
qed auto

lemma batch_dom:
  assumes "fetch_license_batch api part = Some b"
  shows "depsdev_cache_key ` set part \<subseteq> dom b"
proof -
  have "dom (fold (\<lambda>pv m. m(depsdev_cache_key pv \<mapsto> [])) part m) = depsdev_cache_key ` set part \<union> dom m" for m :: "string \<rightharpoonup> string"
  proof (induction part arbitrary: m)
    case (Cons pv part)
    then show ?case using Cons.IH [of "m(depsdev_cache_key pv \<mapsto> [])"] by (simp del: fun_upd_apply)
  qed simp
  then show ?thesis using read_pages_dom assms unfolding fetch_license_batch_def by blast
qed

lemma honest_item_value:
  assumes "honest_item api asked (pv, version)" "concrete_item pv"
  shows "(case version of None \<Rightarrow> negative_cache_value reason_not_published | Some vr \<Rightarrow> version_cache_value vr) =
    depsdev_value api (depsdev_cache_key pv)"
  using assms
  by (auto simp: honest_item_def value_concrete version_value_def fetch_version_def split: http_response.splits option.splits)

lemma take_responses_value:
  assumes "\<forall>item \<in> set items. honest_item api asked item" "\<forall>pv \<in> set asked. concrete_item pv"
  shows "fold take_response items m k =
    (if k \<in> depsdev_cache_key ` fst ` set items then Some (depsdev_value api k) else m k)"
  using assms(1)
proof (induction items arbitrary: m)
  case (Cons item items)
  obtain pv version where item: "item = (pv, version)" by (cases item)
  then have "concrete_item pv" using Cons.prems assms(2) by (auto simp: honest_item_def)
  then have "take_response item m = m(depsdev_cache_key pv \<mapsto> depsdev_value api (depsdev_cache_key pv))"
    using honest_item_value [of api asked pv version] Cons.prems by (simp add: take_response_def item)
  then show ?case using Cons by (auto simp: item)
qed simp

text \<open>While the pages are read, a version has its value, or none yet if it is among those left.\<close>

definition read_so_far :: "depsdev_api \<Rightarrow> package_version list \<Rightarrow> (string \<rightharpoonup> string) \<Rightarrow> bool" where
  "read_so_far api left m \<longleftrightarrow>
     (\<forall>k v. m k = Some v \<longrightarrow> v = depsdev_value api k \<or> v = [] \<and> k \<in> depsdev_cache_key ` set left)"

lemma read_pages_answers:
  assumes "read_pages exs m = Some b" "honest_pages api asked left exs" "read_so_far api left m"
    and "set left \<subseteq> set asked" "\<forall>pv \<in> set asked. concrete_item pv"
  shows "answers api b"
  using assms(1-4)
proof (induction exs m arbitrary: left rule: read_pages.induct)
  case (2 later m)
  have "depsdev_value api k = []" if "k \<in> depsdev_cache_key ` set left" for k
    using that 2(2,4) assms(5) by (auto simp: value_concrete version_value_def)
  moreover have "v = depsdev_value api k \<or> v = [] \<and> k \<in> depsdev_cache_key ` set left" if "b k = Some v" for k v
    using 2(1,3) that by (auto simp: read_so_far_def)
  ultimately have "v = depsdev_value api k" if "b k = Some v" for k v
    using that by metis
  then show ?case by (auto simp: answers_def)
next
  case (3 resp later m)
  from 3(2) obtain page where page: "resp = HttpResponse 200 (Some page)"
    by (auto split: http_response.splits if_splits option.splits)
  let ?m = "fold take_response (bg_responses page) m" and ?left = "left_out left (bg_responses page)"
  have items: "\<forall>item \<in> set (bg_responses page). honest_item api asked item" using 3(3) page by simp
  have so_far: "read_so_far api ?left ?m"
    using 3(4) by (auto simp: read_so_far_def take_responses_value [OF items assms(5)] left_out_def split: if_splits) force
  show ?case
  proof (cases "bg_next_token page = []")
    case True
    then show ?thesis using 3(2,3) page so_far by (simp add: answers_def read_so_far_def Let_def)
  next
    case False
    then have "read_pages later ?m = Some b" "honest_pages api asked ?left later" using 3(2,3) page by (simp_all add: Let_def)
    moreover have "set ?left \<subseteq> set asked" using 3(5) by (auto simp: left_out_def)
    ultimately show ?thesis using 3(1) [of 200 "Some page" page] page False so_far by blast
  qed
qed simp

lemma batch_answers_service:
  assumes "regular_service api" "\<forall>pv \<in> set part. concrete_item pv" "fetch_license_batch api part = Some b"
  shows "answers api b"
proof -
  have "(fold (\<lambda>pv m. m(depsdev_cache_key pv \<mapsto> [])) part m k = Some v) \<Longrightarrow>
      v = [] \<and> k \<in> depsdev_cache_key ` set part \<or> m k = Some v" for m :: "string \<rightharpoonup> string" and k v
  proof (induction part arbitrary: m)
    case (Cons pv part)
    from Cons.IH [of "m(depsdev_cache_key pv \<mapsto> [])"] Cons.prems show ?case by (auto split: if_splits)
  qed simp
  from this [of Map.empty] have "read_so_far api part (fold (\<lambda>pv m. m(depsdev_cache_key pv \<mapsto> [])) part Map.empty)"
    by (auto simp: read_so_far_def)
  moreover have "honest_pages api part part (dd_batch api part)" using assms(1) by (simp add: regular_service_def)
  ultimately show ?thesis
    using read_pages_answers [OF _ _ _ _ assms(2)] assms(3) unfolding fetch_license_batch_def by blast
qed

lemma fetch_ones:
  assumes "answers api m" "\<And>pv. pv \<in> set part \<Longrightarrow> concrete_item pv"
  shows "answers api (fold (fetch_one api) part m) \<and> dom (fold (fetch_one api) part m) = dom m \<union> depsdev_cache_key ` set part"
  using assms
proof (induction part arbitrary: m)
  case (Cons pv part)
  have "answers api (fetch_one api pv m)"
    unfolding fetch_one_def using Cons.prems
    by (intro answers_upd) (simp_all add: value_concrete version_value_def)
  moreover have "dom (fetch_one api pv m) = insert (depsdev_cache_key pv) (dom m)" by (simp add: fetch_one_def)
  ultimately show ?case using Cons.IH [of "fetch_one api pv m"] Cons.prems(2) by simp
qed simp

lemma fetch_slice_answers:
  assumes "regular_service api" "answers api m" "\<And>pv. pv \<in> set part \<Longrightarrow> concrete_item pv"
  shows "answers api (fetch_slice api part m)" "dom m \<union> depsdev_cache_key ` set part \<subseteq> dom (fetch_slice api part m)"
proof -
  have "answers api (fetch_slice api part m) \<and> dom m \<union> depsdev_cache_key ` set part \<subseteq> dom (fetch_slice api part m)"
  proof (cases "fetch_license_batch api part")
    case None
    then show ?thesis using fetch_ones [OF assms(2,3)] by (simp add: fetch_slice_def)
  next
    case (Some b)
    moreover have "\<forall>pv \<in> set part. concrete_item pv" using assms(3) by blast
    ultimately have "answers api b" using batch_answers_service [OF assms(1)] by blast
    then have "answers api (m ++ b)" using assms(2) by (auto simp: answers_def map_add_Some_iff)
    then show ?thesis using Some batch_dom [OF Some] by (auto simp: fetch_slice_def)
  qed
  then show "answers api (fetch_slice api part m)" "dom m \<union> depsdev_cache_key ` set part \<subseteq> dom (fetch_slice api part m)"
    by auto
qed

lemma fetch_slices:
  assumes "regular_service api" "answers api m" "\<And>pv. pv \<in> \<Union> (set ` set parts) \<Longrightarrow> concrete_item pv"
  shows "answers api (fold (fetch_slice api) parts m) \<and>
     dom m \<union> depsdev_cache_key ` \<Union> (set ` set parts) \<subseteq> dom (fold (fetch_slice api) parts m)"
  using assms(2,3)
proof (induction parts arbitrary: m)
  case (Cons part parts)
  have c: "concrete_item pv" if "pv \<in> set part" for pv using Cons.prems that by auto
  note s1 = fetch_slice_answers(1) [OF assms(1) Cons.prems(1) c] and s2 = fetch_slice_answers(2) [OF assms(1) Cons.prems(1) c]
  have "answers api (fold (fetch_slice api) parts (fetch_slice api part m)) \<and>
      dom (fetch_slice api part m) \<union> depsdev_cache_key ` \<Union> (set ` set parts) \<subseteq>
        dom (fold (fetch_slice api) parts (fetch_slice api part m))"
    using Cons.prems by (intro Cons.IH s1) auto
  then show ?case using s2 [of part] by (simp add: image_Un) blast
qed simp

subsubsection \<open>The scan\<close>

definition entry_of :: "string \<Rightarrow> (string \<times> package_version) option" where
  "entry_of purl = map_option (\<lambda>pv. (depsdev_cache_key (lookup_version pv), lookup_version pv)) (extract_package purl)"

lemma scan_purl_cases:
  "scan_purl c purl s =
     (case entry_of purl of
        None \<Rightarrow> s
      | Some (key, pv) \<Rightarrow>
          (case c key of
             Some v \<Rightarrow> s\<lparr>bs_out := (bs_out s)(purl \<mapsto> fst (split_cache_value v))\<rparr>
           | None \<Rightarrow> s\<lparr>bs_pending := (if key \<in> fst ` set (bs_pending s) then bs_pending s else bs_pending s @ [(key, pv)]),
                      bs_purls := (bs_purls s)(key := bs_purls s key @ [purl])\<rparr>))"
  by (simp add: scan_purl_def entry_of_def lookup_version_def Let_def cache_load_split load_value_def split: option.split)

definition batch_scanned :: "resolver_cache \<Rightarrow> string list \<Rightarrow> batch_scan" where
  "batch_scanned c purls = fold (scan_purl c) purls \<lparr>bs_out = Map.empty, bs_pending = [], bs_purls = (\<lambda>_. [])\<rparr>"

text \<open>What the scan leaves: the cached answers, the keys to look up, and the purls that wait for a key.\<close>

definition cached_answer :: "resolver_cache \<Rightarrow> string list \<Rightarrow> string \<Rightarrow> string option" where
  "cached_answer c purls purl =
     (case entry_of purl of
        None \<Rightarrow> None
      | Some (key, pv) \<Rightarrow> if purl \<in> set purls then map_option (\<lambda>v. fst (split_cache_value v)) (c key) else None)"

definition waits_for :: "resolver_cache \<Rightarrow> string \<Rightarrow> string \<times> package_version \<Rightarrow> bool" where
  "waits_for c purl e \<longleftrightarrow> entry_of purl = Some e \<and> c (fst e) = None"

lemma scan_snoc: "batch_scanned c (purls @ [purl]) = scan_purl c purl (batch_scanned c purls)"
  by (simp add: batch_scanned_def)

lemma scan_out: "bs_out (batch_scanned c purls) purl = cached_answer c purls purl"
proof (induction purls rule: rev_induct)
  case Nil
  then show ?case by (simp add: batch_scanned_def cached_answer_def split: option.split)
next
  case (snoc q purls)
  then show ?case
    by (auto simp: scan_snoc scan_purl_cases cached_answer_def split: option.splits if_splits)
qed

lemma scan_purls: "purl \<in> set (bs_purls (batch_scanned c purls) key) \<longleftrightarrow> purl \<in> set purls \<and> (\<exists>pv. waits_for c purl (key, pv))"
proof (induction purls rule: rev_induct)
  case Nil
  then show ?case by (simp add: batch_scanned_def)
next
  case (snoc q purls)
  show ?case
  proof (cases "\<exists>pv. waits_for c q (key, pv)")
    case True
    then have "bs_purls (batch_scanned c (purls @ [q])) key = bs_purls (batch_scanned c purls) key @ [q]"
      by (auto simp: scan_snoc scan_purl_cases waits_for_def)
    then show ?thesis using snoc True by auto
  next
    case False
    then have "bs_purls (batch_scanned c (purls @ [q])) key = bs_purls (batch_scanned c purls) key"
      by (auto simp: scan_snoc scan_purl_cases waits_for_def split: option.split)
    then show ?thesis using snoc False by auto
  qed
qed

lemma pending_snoc:
  "set (bs_pending (batch_scanned c (purls @ [q]))) =
     (if \<exists>e. waits_for c q e \<and> fst e \<notin> fst ` set (bs_pending (batch_scanned c purls))
      then insert (the (entry_of q)) (set (bs_pending (batch_scanned c purls))) else set (bs_pending (batch_scanned c purls)))"
proof (cases "entry_of q")
  case (Some e)
  then show ?thesis
    by (cases e; cases "c (fst e)") (auto simp: scan_snoc scan_purl_cases waits_for_def)
qed (simp add: scan_snoc scan_purl_cases waits_for_def)

lemma scan_pending: "e \<in> set (bs_pending (batch_scanned c purls)) \<Longrightarrow> \<exists>purl \<in> set purls. waits_for c purl e"
proof (induction purls rule: rev_induct)
  case Nil
  then show ?case by (simp add: batch_scanned_def)
next
  case (snoc q purls)
  then consider "e \<in> set (bs_pending (batch_scanned c purls))" | "waits_for c q e"
    by (auto simp: pending_snoc waits_for_def split: if_splits)
  then show ?case using snoc.IH by cases auto
qed

lemma scan_pending_keys:
  "purl \<in> set purls \<Longrightarrow> waits_for c purl e \<Longrightarrow> fst e \<in> fst ` set (bs_pending (batch_scanned c purls))"
proof (induction purls rule: rev_induct)
  case Nil
  then show ?case by simp
next
  case (snoc q purls)
  have sub: "fst ` set (bs_pending (batch_scanned c purls)) \<subseteq> fst ` set (bs_pending (batch_scanned c (purls @ [q])))"
    unfolding pending_snoc by auto
  show ?case
  proof (cases "purl \<in> set purls")
    case True
    then show ?thesis using snoc sub by blast
  next
    case False
    then have "waits_for c q e" using snoc.prems by simp
    then have "the (entry_of q) = e" and
      "set (bs_pending (batch_scanned c (purls @ [q]))) =
        (if fst e \<notin> fst ` set (bs_pending (batch_scanned c purls)) then insert e (set (bs_pending (batch_scanned c purls)))
         else set (bs_pending (batch_scanned c purls)))"
      by (auto simp: pending_snoc waits_for_def)
    then show ?thesis by simp
  qed
qed


subsubsection \<open>The plan\<close>

text \<open>
  What holds of a plan: the values it has are the service's, the keys it wants fetched are concrete,
  and a key that stands for another has its value and is looked up.
\<close>

definition batch_plan_ok :: "depsdev_api \<Rightarrow> batch_plan \<Rightarrow> bool" where
  "batch_plan_ok api p \<longleftrightarrow> answers api (bp_resolved p) \<and> (\<forall>pv \<in> set (bp_items p). concrete_item pv) \<and>
     (\<forall>k ck. bp_default_of p k = Some ck \<longrightarrow>
        depsdev_value api k = depsdev_value api ck \<and> ck \<in> dom (bp_resolved p) \<union> depsdev_cache_key ` set (bp_items p))"

text \<open>A key is answered when it is looked up itself, or another stands for it.\<close>

definition planned :: "batch_plan \<Rightarrow> string \<Rightarrow> bool" where
  "planned p k \<longleftrightarrow> k \<in> dom (bp_default_of p) \<union> dom (bp_resolved p) \<union> depsdev_cache_key ` set (bp_items p)"

lemma plan_default_cases:
  assumes "default_version api (pv_system pv) (pv_name pv) = (v, reason)"
  shows "plan_default api c (key, pv) p =
     (if v = [] then p\<lparr>bp_resolved := (bp_resolved p)(key \<mapsto> negative_cache_value reason)\<rparr>
      else let ck = depsdev_cache_key (pv\<lparr>pv_version := v\<rparr>)
           in p\<lparr>bp_default_of := (bp_default_of p)(key \<mapsto> ck),
                bp_resolved := (case c ck of Some x \<Rightarrow> (bp_resolved p)(ck \<mapsto> x) | None \<Rightarrow> bp_resolved p),
                bp_items := (if c ck = None \<and> \<not> queued p ck then bp_items p @ [pv\<lparr>pv_version := v\<rparr>] else bp_items p)\<rparr>)"
  using assms by (auto simp: plan_default_def Let_def load_value_def queued_def split: option.split)

lemma batch_plan_ok_extend:
  assumes "batch_plan_ok api p" "answers api m" "dom (bp_resolved p) \<subseteq> dom m" "set (bp_items p) \<subseteq> set items"
    and "\<And>pv. pv \<in> set items \<Longrightarrow> concrete_item pv" "depsdev_value api key = depsdev_value api ck"
    and "ck \<in> dom m \<union> depsdev_cache_key ` set items"
  shows "batch_plan_ok api (p\<lparr>bp_default_of := (bp_default_of p)(key \<mapsto> ck), bp_resolved := m, bp_items := items\<rparr>)"
proof -
  have "depsdev_value api k = depsdev_value api ck' \<and> ck' \<in> dom m \<union> depsdev_cache_key ` set items"
    if "((bp_default_of p)(key \<mapsto> ck)) k = Some ck'" for k ck'
  proof (cases "k = key")
    case True
    then show ?thesis using that assms(6,7) by simp
  next
    case False
    then have "bp_default_of p k = Some ck'" using that by simp
    then show ?thesis using assms(1,3,4) unfolding batch_plan_ok_def by blast
  qed
  then show ?thesis using assms(2,5) by (simp add: batch_plan_ok_def del: fun_upd_apply)
qed

lemma plan_step:
  assumes "regular_service api" "memo.holds (depsdev_value api) c" "batch_plan_ok api p"
    and "keyed pv" "pv_version pv = any_version" "key = depsdev_cache_key pv"
  shows "batch_plan_ok api (plan_default api c (key, pv) p)" "planned (plan_default api c (key, pv) p) key"
    "planned p k \<Longrightarrow> planned (plan_default api c (key, pv) p) k"
proof -
  obtain v reason where d: "default_version api (pv_system pv) (pv_name pv) = (v, reason)" by fastforce
  note p' = plan_default_cases [OF d, of c key p]
  have val: "depsdev_value api key = latest_value api pv"
    unfolding assms(6) using assms(4,5) by (rule value_any)
  show "planned (plan_default api c (key, pv) p) key"
    by (simp add: p' planned_def Let_def)
  show "planned (plan_default api c (key, pv) p) k" if "planned p k"
    using that by (auto simp: p' planned_def Let_def split: option.split)
  show "batch_plan_ok api (plan_default api c (key, pv) p)"
  proof (cases "v = []")
    case True
    then have "answers api ((bp_resolved p)(key \<mapsto> negative_cache_value reason))"
      using assms(3) val d by (intro answers_upd) (simp_all add: batch_plan_ok_def latest_value_def)
    then show ?thesis using True assms(3) by (auto simp: p' batch_plan_ok_def simp del: fun_upd_apply)
  next
    case False
    define item where "item = pv\<lparr>pv_version := v\<rparr>"
    define ck where "ck = depsdev_cache_key item"
    have reg: "default_regular api" using assms(1) by (simp add: regular_service_def)
    note dc = default_concrete [OF reg assms(4) d False, folded item_def, folded ck_def]
    have res: "answers api (case c ck of Some x \<Rightarrow> (bp_resolved p)(ck \<mapsto> x) | None \<Rightarrow> bp_resolved p)"
      using assms(2,3)
      by (auto simp: batch_plan_ok_def memo.holds_def load_value_def intro!: answers_upd simp del: fun_upd_apply split: option.splits)
    have p'': "plan_default api c (key, pv) p =
        p\<lparr>bp_default_of := (bp_default_of p)(key \<mapsto> ck),
          bp_resolved := (case c ck of Some x \<Rightarrow> (bp_resolved p)(ck \<mapsto> x) | None \<Rightarrow> bp_resolved p),
          bp_items := (if c ck = None \<and> \<not> queued p ck then bp_items p @ [item] else bp_items p)\<rparr>"
      using False by (simp only: p' Let_def if_False item_def [symmetric] ck_def [symmetric])
    have covered: "ck \<in> dom (case c ck of Some x \<Rightarrow> (bp_resolved p)(ck \<mapsto> x) | None \<Rightarrow> bp_resolved p) \<union>
        depsdev_cache_key ` set (if c ck = None \<and> \<not> queued p ck then bp_items p @ [item] else bp_items p)"
      by (cases "c ck") (auto simp: queued_def ck_def)
    have grow: "dom (bp_resolved p) \<subseteq> dom (case c ck of Some x \<Rightarrow> (bp_resolved p)(ck \<mapsto> x) | None \<Rightarrow> bp_resolved p)"
      "set (bp_items p) \<subseteq> set (if c ck = None \<and> \<not> queued p ck then bp_items p @ [item] else bp_items p)"
      by (auto split: option.split)
    have "concrete_item x" if "x \<in> set (if c ck = None \<and> \<not> queued p ck then bp_items p @ [item] else bp_items p)" for x
      using that dc(1) assms(3) by (auto simp: batch_plan_ok_def split: if_splits)
    moreover have "depsdev_value api key = depsdev_value api ck" using val dc(2) by simp
    ultimately show ?thesis
      unfolding p'' using batch_plan_ok_extend [OF assms(3) res grow _ _ covered] by blast
  qed
qed

lemma plan_wildcards:
  assumes "regular_service api" "memo.holds (depsdev_value api) c" "batch_plan_ok api p"
    and "\<And>key pv. (key, pv) \<in> set entries \<Longrightarrow> keyed pv \<and> pv_version pv = any_version \<and> key = depsdev_cache_key pv"
  shows "batch_plan_ok api (fold (plan_default api c) entries p)"
    "planned p k \<or> k \<in> fst ` set entries \<Longrightarrow> planned (fold (plan_default api c) entries p) k"
proof -
  have "batch_plan_ok api (fold (plan_default api c) entries p) \<and>
      (planned p k \<or> k \<in> fst ` set entries \<longrightarrow> planned (fold (plan_default api c) entries p) k)"
    using assms(3,4)
  proof (induction entries arbitrary: p)
    case (Cons e entries)
    obtain key pv where e: "e = (key, pv)" by fastforce
    have entry: "keyed pv" "pv_version pv = any_version" "key = depsdev_cache_key pv"
      using Cons.prems(2) [of key pv] by (simp_all add: e)
    note step = plan_step [OF assms(1,2) Cons.prems(1) entry]
    have "batch_plan_ok api (fold (plan_default api c) entries (plan_default api c (key, pv) p)) \<and>
      (planned (plan_default api c (key, pv) p) k \<or> k \<in> fst ` set entries \<longrightarrow>
         planned (fold (plan_default api c) entries (plan_default api c (key, pv) p)) k)"
      using Cons.prems(2) by (intro Cons.IH step(1)) auto
    then show ?case using step(2,3) by (auto simp: e)
  qed simp
  then show "batch_plan_ok api (fold (plan_default api c) entries p)"
    "planned p k \<or> k \<in> fst ` set entries \<Longrightarrow> planned (fold (plan_default api c) entries p) k"
    by auto
qed

lemma plan_batch_ok:
  assumes "regular_service api" "memo.holds (depsdev_value api) c"
    and "\<And>key pv. (key, pv) \<in> set pending \<Longrightarrow> keyed pv \<and> key = depsdev_cache_key pv"
  shows "batch_plan_ok api (plan_batch api c pending)" "k \<in> fst ` set pending \<Longrightarrow> planned (plan_batch api c pending) k"
proof -
  define items where "items = map snd (filter (\<lambda>(key, pv). pv_version pv \<noteq> any_version) (dd_order api 0 pending))"
  define wild where "wild = filter (\<lambda>(key, pv). pv_version pv = any_version) (dd_order api 1 pending)"
  define p where "p = \<lparr>bp_resolved = Map.empty, bp_default_of = Map.empty, bp_items = items\<rparr>"
  have order: "set (dd_order api i pending) = set pending" for i
    using assms(1) by (metis regular_service_def set_mset_mset)
  have plan: "plan_batch api c pending = fold (plan_default api c) wild p"
    by (simp add: plan_batch_def wild_def p_def items_def)
  have ok: "batch_plan_ok api p"
    using assms(3) by (auto simp: batch_plan_ok_def p_def items_def answers_def order concrete_item_def)
  have wild: "keyed pv \<and> pv_version pv = any_version \<and> key = depsdev_cache_key pv" if "(key, pv) \<in> set wild" for key pv
    using that assms(3) by (auto simp: wild_def order)
  show "batch_plan_ok api (plan_batch api c pending)"
    unfolding plan by (rule plan_wildcards(1) [OF assms(1,2) ok wild])
  show "planned (plan_batch api c pending) k" if k: "k \<in> fst ` set pending"
  proof -
    from k obtain pv where e: "(k, pv) \<in> set pending" by auto
    have "planned p k \<or> k \<in> fst ` set wild"
    proof (cases "pv_version pv = any_version")
      case True
      then have "(k, pv) \<in> set wild" using e by (simp add: wild_def order)
      then show ?thesis by force
    next
      case False
      then have "pv \<in> set items" using e by (force simp: items_def order)
      then show ?thesis using assms(3) [OF e] by (simp add: planned_def p_def)
    qed
    then show ?thesis
      using plan_wildcards(2) [OF assms(1,2) ok, of wild k] wild unfolding plan by blast
  qed
qed


subsubsection \<open>Answers and stored values\<close>

lemma fold_same: "fold (\<lambda>x m. m(x \<mapsto> v)) xs m x = (if x \<in> set xs then Some v else m x)"
  by (induction xs arbitrary: m) auto

lemma answers_out:
  assumes "\<And>e. e \<in> set es \<Longrightarrow> purl \<in> set (bs_purls s (fst e)) \<Longrightarrow> fst (split_cache_value (pending_value p r (fst e))) = lic"
  shows "fold (answer_pending s p r) es out purl =
     (if \<exists>e \<in> set es. purl \<in> set (bs_purls s (fst e)) then Some lic else out purl)"
  using assms
proof (induction es arbitrary: out)
  case (Cons e es)
  have "answer_pending s p r e out purl = (if purl \<in> set (bs_purls s (fst e)) then Some lic else out purl)"
    using Cons.prems [of e] by (simp add: answer_pending_def Let_def fold_same)
  then show ?case using Cons by auto
qed simp

lemma entry_regular:
  assumes "entry_of purl = Some (key, pv)" "regular_purl purl"
  shows "keyed pv \<and> key = depsdev_cache_key pv"
  using assms wanted_keyed by (auto simp: entry_of_def)

text \<open>The parts of \<open>ResolveBatch\<close>: what waits, the plan, the values fetched, the cache left.\<close>

definition waiting :: "resolver_cache \<Rightarrow> string list \<Rightarrow> (string \<times> package_version) list" where
  "waiting c purls = bs_pending (batch_scanned c purls)"

definition the_plan :: "depsdev_api \<Rightarrow> string list \<Rightarrow> resolver_cache \<Rightarrow> batch_plan" where
  "the_plan api purls c = plan_batch api c (waiting c purls)"

definition batch_answers :: "depsdev_api \<Rightarrow> string list \<Rightarrow> resolver_cache \<Rightarrow> (string \<rightharpoonup> string)" where
  "batch_answers api purls c =
     fold (fetch_slice api) (chunked max_batch_size (bp_items (the_plan api purls c))) (bp_resolved (the_plan api purls c))"

definition extra_items :: "depsdev_api \<Rightarrow> string list \<Rightarrow> resolver_cache \<Rightarrow> package_version list" where
  "extra_items api purls c =
     filter (\<lambda>pv. depsdev_cache_key pv \<notin> fst ` set (waiting c purls)) (bp_items (the_plan api purls c))"

definition extra_cache :: "depsdev_api \<Rightarrow> string list \<Rightarrow> resolver_cache \<Rightarrow> resolver_cache" where
  "extra_cache api purls c =
     fold (\<lambda>pv. store_value (depsdev_cache_key pv) (resolved_value (batch_answers api purls c) (depsdev_cache_key pv)))
       (extra_items api purls c) c"

definition batch_cache :: "depsdev_api \<Rightarrow> string list \<Rightarrow> resolver_cache \<Rightarrow> resolver_cache" where
  "batch_cache api purls c =
     fold (\<lambda>e. store_value (fst e) (pending_value (the_plan api purls c) (batch_answers api purls c) (fst e)))
       (dd_order api 2 (waiting c purls)) (extra_cache api purls c)"

lemma resolve_batch_parts:
  "resolve_batch api purls c =
     (if waiting c purls = [] then (bs_out (batch_scanned c purls), c)
      else (fold (answer_pending (batch_scanned c purls) (the_plan api purls c) (batch_answers api purls c))
              (dd_order api 2 (waiting c purls)) (bs_out (batch_scanned c purls)),
            batch_cache api purls c))"
  unfolding resolve_batch_def batch_scanned_def [symmetric] Let_def waiting_def the_plan_def batch_answers_def extra_items_def
    extra_cache_def batch_cache_def ..

text \<open>A service that answers the batch as it answers single requests, a cache of its answers, regular purls.\<close>

definition batch_input :: "depsdev_api \<Rightarrow> string list \<Rightarrow> resolver_cache \<Rightarrow> bool" where
  "batch_input api purls c \<longleftrightarrow>
     regular_service api \<and> memo.holds (depsdev_value api) c \<and> (\<forall>purl \<in> set purls. regular_purl purl)"

lemma batch_inputD:
  assumes "batch_input api purls c"
  shows "regular_service api" "memo.holds (depsdev_value api) c" "\<forall>purl \<in> set purls. regular_purl purl"
  using assms by (simp_all add: batch_input_def)

lemma order_set: "batch_input api purls c \<Longrightarrow> set (dd_order api 2 (waiting c purls)) = set (waiting c purls)"
  using batch_inputD(1) by (metis regular_service_def set_mset_mset)

lemma waiting_keyed: "batch_input api purls c \<Longrightarrow> (key, pv) \<in> set (waiting c purls) \<Longrightarrow> keyed pv \<and> key = depsdev_cache_key pv"
  using scan_pending [of "(key, pv)" c purls] batch_inputD(3) entry_regular unfolding waits_for_def waiting_def by blast

lemma plan_facts:
  assumes "batch_input api purls c"
  shows "batch_plan_ok api (the_plan api purls c)" "k \<in> fst ` set (waiting c purls) \<Longrightarrow> planned (the_plan api purls c) k"
  unfolding the_plan_def using plan_batch_ok [OF batch_inputD(1,2) [OF assms] waiting_keyed [OF assms]] by blast+

lemma batch_answers_facts:
  assumes "batch_input api purls c"
  shows "answers api (batch_answers api purls c)"
    "k \<in> dom (bp_resolved (the_plan api purls c)) \<union> depsdev_cache_key ` set (bp_items (the_plan api purls c)) \<Longrightarrow>
     k \<in> dom (batch_answers api purls c)"
proof -
  let ?p = "the_plan api purls c"
  have "concat (chunked max_batch_size (bp_items ?p)) = bp_items ?p"
    by (simp add: chunked_concat max_batch_size_def)
  then have items: "\<Union> (set ` set (chunked max_batch_size (bp_items ?p))) = set (bp_items ?p)"
    by (metis set_concat)
  have "answers api (bp_resolved ?p)" "\<forall>pv \<in> set (bp_items ?p). concrete_item pv"
    using plan_facts(1) [OF assms] by (simp_all add: batch_plan_ok_def)
  then have "answers api (batch_answers api purls c) \<and>
      dom (bp_resolved ?p) \<union> depsdev_cache_key ` set (bp_items ?p) \<subseteq> dom (batch_answers api purls c)"
    using fetch_slices [OF batch_inputD(1) [OF assms], of "bp_resolved ?p" "chunked max_batch_size (bp_items ?p)"]
    unfolding batch_answers_def items by blast
  then show "answers api (batch_answers api purls c)"
    "k \<in> dom (bp_resolved ?p) \<union> depsdev_cache_key ` set (bp_items ?p) \<Longrightarrow> k \<in> dom (batch_answers api purls c)"
    by blast+
qed

lemma waiting_value:
  assumes "batch_input api purls c" "key \<in> fst ` set (waiting c purls)"
  shows "pending_value (the_plan api purls c) (batch_answers api purls c) key = depsdev_value api key"
proof (cases "bp_default_of (the_plan api purls c) key")
  case None
  then have "key \<in> dom (batch_answers api purls c)"
    using plan_facts(2) [OF assms] batch_answers_facts(2) [OF assms(1)] by (auto simp: planned_def)
  then show ?thesis using None answers_resolved [OF batch_answers_facts(1) [OF assms(1)]] by (simp add: pending_value_def)
next
  case (Some ck)
  then have "depsdev_value api key = depsdev_value api ck" "ck \<in> dom (batch_answers api purls c)"
    using plan_facts(1) [OF assms(1)] batch_answers_facts(2) [OF assms(1)] unfolding batch_plan_ok_def by blast+
  then show ?thesis using Some answers_resolved [OF batch_answers_facts(1) [OF assms(1)]] by (simp add: pending_value_def)
qed

lemma extra_value:
  "batch_input api purls c \<Longrightarrow> pv \<in> set (extra_items api purls c) \<Longrightarrow>
     resolved_value (batch_answers api purls c) (depsdev_cache_key pv) = depsdev_value api (depsdev_cache_key pv)"
  by (rule answers_resolved [OF batch_answers_facts]) (auto simp: extra_items_def)

lemma batch_cache_holds: "batch_input api purls c \<Longrightarrow> memo.holds (depsdev_value api) (batch_cache api purls c)"
  unfolding batch_cache_def extra_cache_def
  by (intro memo.holds_stores batch_inputD(2) extra_value waiting_value) (auto simp: order_set)

lemma cached_value: "batch_input api purls c \<Longrightarrow> c key = Some v \<Longrightarrow> v = depsdev_value api key"
  using batch_inputD(2) [of api purls c] by (simp add: memo.holds_def load_value_def split: option.splits)

lemma resolve_batch_out:
  assumes "batch_input api purls c"
  shows "fst (resolve_batch api purls c) purl =
     (case entry_of purl of
        None \<Rightarrow> None
      | Some (key, pv) \<Rightarrow> if purl \<in> set purls then Some (fst (split_cache_value (depsdev_value api key))) else None)"
proof (cases "\<exists>e. purl \<in> set purls \<and> waits_for c purl e")
  case False
  then have "purl \<notin> set (bs_purls (batch_scanned c purls) k)" for k
    using scan_purls [of purl c purls k] by auto
  then have "fst (resolve_batch api purls c) purl = cached_answer c purls purl"
    using scan_out [of c purls purl]
      answers_out [of "dd_order api 2 (waiting c purls)" purl "batch_scanned c purls" "the_plan api purls c" "batch_answers api purls c"]
    by (simp add: resolve_batch_parts)
  then show ?thesis
    using False cached_value [OF assms] by (auto simp: cached_answer_def waits_for_def split: option.splits)
next
  case True
  then obtain key pv where e: "purl \<in> set purls" "waits_for c purl (key, pv)" by auto
  have k: "key \<in> fst ` set (waiting c purls)" using scan_pending_keys [OF e] by (simp add: waiting_def)
  have "purl \<in> set (bs_purls (batch_scanned c purls) k') \<longleftrightarrow> k' = key" for k'
    using scan_purls [of purl c purls k'] e by (auto simp: waits_for_def)
  then have "fold (answer_pending (batch_scanned c purls) (the_plan api purls c) (batch_answers api purls c))
        (dd_order api 2 (waiting c purls)) (bs_out (batch_scanned c purls)) purl = Some (fst (split_cache_value (depsdev_value api key)))"
    using answers_out [of "dd_order api 2 (waiting c purls)" purl "batch_scanned c purls" "the_plan api purls c" "batch_answers api purls c"]
      k waiting_value [OF assms k] by (auto simp: order_set [OF assms])
  moreover have "waiting c purls \<noteq> []" using k by auto
  ultimately show ?thesis using e by (simp add: resolve_batch_parts waits_for_def)
qed

lemma resolve_batch_holds: "batch_input api purls c \<Longrightarrow> memo.holds (depsdev_value api) (snd (resolve_batch api purls c))"
  using batch_inputD(2) batch_cache_holds by (simp add: resolve_batch_parts)

lemma resolve_batch_stored:
  assumes "batch_input api purls c" "purl \<in> set purls" "entry_of purl = Some (key, pv)" "depsdev_value api key \<noteq> []"
  shows "snd (resolve_batch api purls c) key = Some (depsdev_value api key)"
proof -
  have "(\<exists>e. e \<in> set (waiting c purls) \<and> fst e = key) \<or> c key = Some (depsdev_value api key)"
    using scan_pending_keys [of purl purls c "(key, pv)"] cached_value [OF assms(1), of key] assms
    by (cases "c key") (auto simp: waits_for_def waiting_def)
  then show ?thesis
  proof (elim disjE exE)
    fix e assume e: "e \<in> set (waiting c purls) \<and> fst e = key"
    then have "load_value (batch_cache api purls c) key = (depsdev_value api key, True)"
      unfolding batch_cache_def using waiting_value [OF assms(1)] assms(4)
      by (intro memo.load_stores [where x = e]) (auto simp: order_set [OF assms(1)])
    moreover have "waiting c purls \<noteq> []" using e by auto
    ultimately show ?thesis by (simp add: resolve_batch_parts load_value_def split: option.splits)
  next
    assume l: "c key = Some (depsdev_value api key)"
    have "load_value (extra_cache api purls c) key = (depsdev_value api key, True)"
      unfolding extra_cache_def using assms(4) l extra_value [OF assms(1)]
      by (intro memo.load_stores) (auto simp: load_value_def)
    then have "load_value (batch_cache api purls c) key = (depsdev_value api key, True)"
      unfolding batch_cache_def using waiting_value [OF assms(1)] assms(4) by (intro memo.load_stores) (auto simp: order_set [OF assms(1)])
    then show ?thesis using l by (simp add: resolve_batch_parts load_value_def split: option.splits)
  qed
qed

subsection \<open>What the batch does differently\<close>

text \<open>
  A purl whose version is an asterisk shares its key with the purl that names no version, and the
  two lookups read it differently: \<open>Resolve\<close> asks for a version of that name, \<open>ResolveBatch\<close> for the
  default version. The first answer is then kept for both.
\<close>

definition asterisk_service :: depsdev_api where
  "asterisk_service =
     \<lparr>dd_wait_version = (\<lambda>_. True), dd_wait_package = (\<lambda>_ _. True),
      dd_version = (\<lambda>pv. if pv_version pv = ''1'' then HttpResponse 200 (Some \<lparr>vr_licenses = [''MIT''], vr_details = []\<rparr>)
                          else HttpResponse 404 None),
      dd_package = (\<lambda>_ _. HttpResponse 200 (Some [(''1'', True)])),
      dd_batch = (\<lambda>_. []), dd_order = (\<lambda>_ xs. xs)\<rparr>"

lemma asterisk_read_twice:
  "fst (depsdev_resolve asterisk_service ''pkg:npm/p@*'' Map.empty) = []"
  "fst (resolve_batch asterisk_service [''pkg:npm/p@*''] Map.empty) ''pkg:npm/p@*'' = Some ''MIT''"
  "fst (depsdev_resolve asterisk_service ''pkg:npm/p'' (snd (depsdev_resolve asterisk_service ''pkg:npm/p@*'' Map.empty))) = []"
  by code_simp+

subsection \<open>Properties\<close>

text \<open>
  C5: the licenses deps.dev lists are folded into the conjunction of all of them, whatever operators
  they contain. The conditions: there is a listed license after trimming and deduplication, each of
  them is a well-formed expression without a comma, and none that contains an operator begins and
  ends with a parenthesis (\<open>details_unparenthesised_choice\<close> is why). Then the folded text parses to the
  conjunction of their trees. Its category is that of one of them: the most severe outside the mode
  permissive-wins, so that no obligation is under-reported, and the mildest in that mode, which asks
  for it.
\<close>

theorem details_never_underreport:
  assumes "detail_parts ds \<noteq> []"
    and "\<forall>p \<in> set (detail_parts ds). parse_expression p = Inr (tree p) \<and> CHR '','' \<notin> set p \<and>
      \<not> (contains_operator p \<and> has_prefix p ''('' \<and> has_suffix p '')'')"
  shows "parse_expression (normalize_license_details ds) = Inr (collapse AndNode (map tree (detail_parts ds))) \<and>
     (\<exists>c. evaluate (collapse AndNode (map tree (detail_parts ds))) mode lookup = Some c \<and>
        (\<exists>p \<in> set (detail_parts ds). evaluate (tree p) mode lookup = Some c) \<and>
        (\<forall>p \<in> set (detail_parts ds). \<exists>d. evaluate (tree p) mode lookup = Some d \<and>
           (if mode = ModePermissiveWins then severity c \<le> severity d else severity d \<le> severity c)))"
proof
  show n: "parse_expression (normalize_license_details ds) = Inr (collapse AndNode (map tree (detail_parts ds)))"
    unfolding normalize_license_details_def using assms by (intro join_licenses_parse) auto
  then obtain c where c: "evaluate (collapse AndNode (map tree (detail_parts ds))) mode lookup = Some c"
    using parsed_evaluate by blast
  have "(\<exists>p \<in> set (detail_parts ds). evaluate (tree p) mode lookup = Some c) \<and>
        (\<forall>p \<in> set (detail_parts ds). \<exists>d. evaluate (tree p) mode lookup = Some d \<and>
           (if mode = ModePermissiveWins then severity c \<le> severity d else severity d \<le> severity c))"
    using c evaluate_conjunction [of "map tree (detail_parts ds)" mode lookup c] by auto
  with c show "\<exists>c. evaluate (collapse AndNode (map tree (detail_parts ds))) mode lookup = Some c \<and>
        (\<exists>p \<in> set (detail_parts ds). evaluate (tree p) mode lookup = Some c) \<and>
        (\<forall>p \<in> set (detail_parts ds). \<exists>d. evaluate (tree p) mode lookup = Some d \<and>
           (if mode = ModePermissiveWins then severity c \<le> severity d else severity d \<le> severity c))" by blast
qed

theorem details_never_underreport_witness:
  "parse_expression (normalize_license_details
       [\<lparr>ld_license = ''x'', ld_spdx = ''MIT OR ISC''\<rparr>, \<lparr>ld_license = [], ld_spdx = ''GPL-3.0-only''\<rparr>]) =
     Inr (AndNode [OrNode [Leaf ''MIT'', Leaf ''ISC''], Leaf ''GPL-3.0-only'']) \<and>
   (\<exists>c. evaluate (AndNode [OrNode [Leaf ''MIT'', Leaf ''ISC''], Leaf ''GPL-3.0-only'']) ModeStrict
       (\<lambda>i. if i = ''GPL-3.0-only'' then Copyleft else Permissive) = Some c \<and> 3 \<le> severity c)"
proof -
  let ?ds = "[\<lparr>ld_license = ''x'', ld_spdx = ''MIT OR ISC''\<rparr>, \<lparr>ld_license = [], ld_spdx = ''GPL-3.0-only''\<rparr>]"
  let ?lookup = "\<lambda>i. if i = ''GPL-3.0-only'' then Copyleft else Permissive"
  let ?tree = "\<lambda>p. if p = ''GPL-3.0-only'' then Leaf p else OrNode [Leaf ''MIT'', Leaf ''ISC'']"
  have parts: "detail_parts ?ds = [''MIT OR ISC'', ''GPL-3.0-only'']" by code_simp
  have p1: "parse_expression ''MIT OR ISC'' = Inr (OrNode [Leaf ''MIT'', Leaf ''ISC''])" by code_simp
  have p2: "parse_expression ''GPL-3.0-only'' = Inr (Leaf ''GPL-3.0-only'')" "\<not> contains_operator ''GPL-3.0-only''"
    by code_simp+
  have e: "evaluate (Leaf ''GPL-3.0-only'') ModeStrict ?lookup = Some Copyleft" by code_simp
  have "\<forall>p \<in> set (detail_parts ?ds). parse_expression p = Inr (?tree p) \<and> CHR '','' \<notin> set p \<and>
      \<not> (contains_operator p \<and> has_prefix p ''('' \<and> has_suffix p '')'')"
    unfolding parts by (simp add: p1 p2 has_prefix_def)
  note it = details_never_underreport [OF _ this, of ModeStrict ?lookup]
  have tree: "collapse AndNode (map ?tree (detail_parts ?ds)) = AndNode [OrNode [Leaf ''MIT'', Leaf ''ISC''], Leaf ''GPL-3.0-only'']"
    unfolding parts by (simp add: collapse_def)
  from it obtain c where n: "parse_expression (normalize_license_details ?ds) = Inr (AndNode [OrNode [Leaf ''MIT'', Leaf ''ISC''], Leaf ''GPL-3.0-only''])"
      "evaluate (AndNode [OrNode [Leaf ''MIT'', Leaf ''ISC''], Leaf ''GPL-3.0-only'']) ModeStrict ?lookup = Some c"
      and le: "\<forall>p \<in> set (detail_parts ?ds). \<exists>d. evaluate (?tree p) ModeStrict ?lookup = Some d \<and> severity d \<le> severity c"
    unfolding tree unfolding parts by auto
  from le have "3 \<le> severity c" using e unfolding parts by auto
  then show ?thesis using n by blast
qed

text \<open>
  C18: the batch lookup is the single lookup, done at once. For a service whose two endpoints agree and
  a cache that holds its answers, \<open>ResolveBatch\<close> gives every purl the license \<open>Resolve\<close> gives it, in
  whatever order the maps are run through, over however many pages the batch endpoint spreads its
  answer and however its requests fail; the cache still holds answers of the service, and every definite
  one, so that no purl of the batch is asked for again. It is about purls whose version contains no at
  sign and is not an asterisk, and of the service it needs this of its default versions: for an asterisk
  the two lookups differ (\<open>asterisk_read_twice\<close>).
\<close>

theorem batch_as_single:
  assumes "regular_service api" "memo.holds (depsdev_value api) c" "\<forall>purl \<in> set purls. regular_purl purl"
  shows "fst (resolve_batch api purls c) =
       (\<lambda>purl. if purl \<in> set purls \<and> extract_package purl \<noteq> None
                then Some (fst (depsdev_resolve api purl c)) else None) \<and>
     memo.holds (depsdev_value api) (snd (resolve_batch api purls c)) \<and>
     (\<forall>purl \<in> set purls. \<forall>pv. extract_package purl = Some pv \<longrightarrow>
        depsdev_value api (depsdev_cache_key (lookup_version pv)) \<noteq> [] \<longrightarrow>
        snd (resolve_batch api purls c) (depsdev_cache_key (lookup_version pv)) =
          Some (depsdev_value api (depsdev_cache_key (lookup_version pv))))"
proof (intro conjI ext ballI allI impI)
  have input: "batch_input api purls c" using assms by (simp add: batch_input_def)
  have reg: "default_regular api" using assms(1) by (simp add: regular_service_def)
  fix purl
  show "fst (resolve_batch api purls c) purl =
      (if purl \<in> set purls \<and> extract_package purl \<noteq> None then Some (fst (depsdev_resolve api purl c)) else None)"
    using resolve_value [OF reg _ _ assms(2), of purl] assms(3)
    by (auto simp: resolve_batch_out [OF input] entry_of_def split: option.split)
  show "memo.holds (depsdev_value api) (snd (resolve_batch api purls c))" by (rule resolve_batch_holds [OF input])
  fix pv assume "purl \<in> set purls" "extract_package purl = Some pv"
    "depsdev_value api (depsdev_cache_key (lookup_version pv)) \<noteq> []"
  then show "snd (resolve_batch api purls c) (depsdev_cache_key (lookup_version pv)) =
      Some (depsdev_value api (depsdev_cache_key (lookup_version pv)))"
    by (intro resolve_batch_stored [OF input, of purl _ "lookup_version pv"]) (simp_all add: entry_of_def)
qed

text \<open>A service that spreads every answer over two pages.\<close>

definition sample_page :: "string \<Rightarrow> package_version list \<Rightarrow> batch_exchange" where
  "sample_page token part = BatchAnswer (HttpResponse 200 (Some
     \<lparr>bg_responses = map (\<lambda>pv. (pv, Some \<lparr>vr_licenses = [''MIT''], vr_details = []\<rparr>)) part, bg_next_token = token\<rparr>))"

definition sample_service :: depsdev_api where
  "sample_service =
     \<lparr>dd_wait_version = (\<lambda>_. True), dd_wait_package = (\<lambda>_ _. True),
      dd_version = (\<lambda>_. HttpResponse 200 (Some \<lparr>vr_licenses = [''MIT''], vr_details = []\<rparr>)),
      dd_package = (\<lambda>_ _. HttpResponse 200 (Some [(''1'', True)])),
      dd_batch = (\<lambda>part. [sample_page ''next'' (take 1 part), sample_page [] (drop 1 part)]),
      dd_order = (\<lambda>_ xs. rev xs)\<rparr>"

lemma sample_value: "depsdev_value sample_service k = ''MIT''"
proof -
  have "version_cache_value \<lparr>vr_licenses = [''MIT''], vr_details = []\<rparr> = ''MIT''" by code_simp
  then show ?thesis
    by (simp add: depsdev_value_def version_value_def latest_value_def fetch_version_def default_version_def
        sample_service_def Let_def)
qed

lemma sample_regular: "regular_service sample_service"
proof -
  have "honest_pages sample_service part part (dd_batch sample_service part)" for part
  proof -
    have items: "honest_item sample_service part (pv, Some \<lparr>vr_licenses = [''MIT''], vr_details = []\<rparr>)" if "pv \<in> set part" for pv
      using that by (simp add: honest_item_def sample_service_def)
    have "set part \<subseteq> set (take 1 part) \<union> set (drop 1 part)" by (metis append_take_drop_id set_append subset_refl)
    then have "left_out (left_out part (map (\<lambda>pv. (pv, Some \<lparr>vr_licenses = [''MIT''], vr_details = []\<rparr>)) (take 1 part)))
        (map (\<lambda>pv. (pv, Some \<lparr>vr_licenses = [''MIT''], vr_details = []\<rparr>)) (drop 1 part)) = []"
      by (auto simp: left_out_def filter_empty_conv image_image)
    moreover have "dd_batch sample_service part = [sample_page ''next'' (take 1 part), sample_page [] (drop 1 part)]"
      by (simp add: sample_service_def)
    ultimately show ?thesis
      using items by (auto simp: sample_page_def dest: in_set_takeD in_set_dropD)
  qed
  moreover have "default_regular sample_service"
    by (simp add: default_regular_def regular_version_def any_version_def default_version_def sample_service_def)
  moreover have "mset (dd_order sample_service i xs) = mset xs" for i xs by (simp add: sample_service_def)
  ultimately show ?thesis unfolding regular_service_def by blast
qed

theorem batch_as_single_witness:
  "fst (resolve_batch sample_service [''pkg:npm/a@1'', ''pkg:pypi/b'', ''pkg:x/y''] Map.empty) ''pkg:pypi/b'' =
     Some (fst (depsdev_resolve sample_service ''pkg:pypi/b'' Map.empty)) \<and>
   fst (depsdev_resolve sample_service ''pkg:pypi/b'' Map.empty) = ''MIT''"
proof -
  have "list_all regular_purl [''pkg:npm/a@1'', ''pkg:pypi/b'', ''pkg:x/y'']" by code_simp
  then have reg: "\<forall>purl \<in> set [''pkg:npm/a@1'', ''pkg:pypi/b'', ''pkg:x/y'']. regular_purl purl"
    by (simp add: list_all_iff)
  have ex: "extract_package ''pkg:pypi/b'' \<noteq> None" by code_simp
  have "fst (depsdev_resolve sample_service ''pkg:pypi/b'' Map.empty) = ''MIT''" by code_simp
  moreover have "memo.holds (depsdev_value sample_service) Map.empty"
    by (simp add: memo.holds_def load_value_def)
  ultimately show ?thesis
    using batch_as_single [OF sample_regular _ reg] ex by simp
qed

end
