(* ===== verification/Nuget_Resolver.thy ===== *)
theory Nuget_Resolver
  imports Github_Resolver
begin

text \<open>
  The NuGet license resolver, \<open>backend/internal/nuget/resolver.go\<close>: package id and version of a purl,
  the registration leaf and the catalog entry it points at, the licenses that well-known URLs name, and
  the delegation to the resolver of source repositories (\<open>RepoResolver\<close>, whose state \<open>'g\<close> is threaded
  through). The two requests and the two waits of a lookup are arguments.
\<close>

subsection \<open>Package id and version of a purl\<close>

definition extract_nuget_package :: "string \<Rightarrow> (string \<times> string) option" where
  "extract_nuget_package purl =
     (if \<not> has_prefix purl ''pkg:nuget/'' then None
      else
        let rest = before_any (drop 10 purl) ''?#'';
            (id0, version0) =
              (case str_last_index rest ''@'' of
                 Some i \<Rightarrow> if i > 0 then (take i rest, drop (Suc i) rest) else (rest, [])
               | None \<Rightarrow> (rest, []));
            pkg_id = trim_space (unescape_or_keep id0); version = unescape_or_keep version0
        in if pkg_id = [] \<or> contains_any pkg_id [CHR ''/'', CHR 0x5C, CHR '' ''] \<or> contains_str pkg_id ''..'' then None
           else Some (pkg_id, trim_space version))"

definition nuget_cache_key :: "string \<Rightarrow> string \<Rightarrow> string" where
  "nuget_cache_key pkg_id version =
     (if version = [] then to_lower pkg_id else to_lower pkg_id @ ''@'' @ to_lower version)"

subsection \<open>Licenses of URLs\<close>

definition well_known_license_urls :: "(string \<times> string) list" where
  "well_known_license_urls =
     [(''opensource.org/licenses/mit'', ''MIT''),
      (''opensource.org/licenses/mit-license.php'', ''MIT''),
      (''opensource.org/licenses/apache-2.0'', ''Apache-2.0''),
      (''apache.org/licenses/license-2.0'', ''Apache-2.0''),
      (''apache.org/licenses/license-2.0.html'', ''Apache-2.0''),
      (''apache.org/licenses/license-2.0.txt'', ''Apache-2.0''),
      (''opensource.org/licenses/bsd-2-clause'', ''BSD-2-Clause''),
      (''opensource.org/licenses/bsd-3-clause'', ''BSD-3-Clause''),
      (''opensource.org/licenses/isc'', ''ISC''),
      (''opensource.org/licenses/mpl-2.0'', ''MPL-2.0''),
      (''mozilla.org/mpl/2.0'', ''MPL-2.0''),
      (''opensource.org/licenses/lgpl-2.1'', ''LGPL-2.1-only''),
      (''opensource.org/licenses/lgpl-3.0'', ''LGPL-3.0-only''),
      (''gnu.org/licenses/lgpl-2.1.html'', ''LGPL-2.1-only''),
      (''gnu.org/licenses/lgpl-3.0.html'', ''LGPL-3.0-only''),
      (''gnu.org/licenses/gpl-2.0.html'', ''GPL-2.0-only''),
      (''gnu.org/licenses/gpl-3.0.html'', ''GPL-3.0-only''),
      (''opensource.org/licenses/gpl-2.0'', ''GPL-2.0-only''),
      (''opensource.org/licenses/gpl-3.0'', ''GPL-3.0-only''),
      (''unlicense.org'', ''Unlicense''),
      (''creativecommons.org/publicdomain/zero/1.0'', ''CC0-1.0''),
      (''licenses.nuget.org/mit'', ''MIT''),
      (''licenses.nuget.org/apache-2.0'', ''Apache-2.0''),
      (''licenses.nuget.org/bsd-3-clause'', ''BSD-3-Clause''),
      (''licenses.nuget.org/bsd-2-clause'', ''BSD-2-Clause''),
      (''go.microsoft.com/fwlink/?linkid=2028464'', ''MIT''),
      (''github.com/dotnet/corefx/blob/master/license.txt'', ''MIT'')]"

definition license_from_url :: "string \<Rightarrow> string" where
  "license_from_url raw0 =
     (let raw1 = trim_space (to_lower raw0)
      in if raw1 = [] then []
         else
           let raw = trim_right_by (\<lambda>c. c = CHR ''/'')
                       (trim_prefix (trim_prefix (trim_prefix raw1 ''https://'') ''http://'') ''www.'')
           in (case map_of well_known_license_urls raw of Some spdx \<Rightarrow> spdx | None \<Rightarrow> []))"

definition repo_char :: "char \<Rightarrow> bool" where
  "repo_char c \<longleftrightarrow> is_letter c \<or> is_digit c \<or> c = CHR ''_'' \<or> c = CHR ''.'' \<or> c = CHR ''-''"

definition github_url_re :: rx where
  "github_url_re =
     rseq [ropt (rseq [rlit_fold ''http'', ropt (rlit_fold ''s''), rlit ''://'']),
           ropt (rlit_fold ''www.''), ropt (rlit_fold ''raw.''), rlit_fold ''github'', ropt (rlit_fold ''usercontent''),
           rlit_fold ''.com'', rlit ''/'', RGrp 1 (rplus (RP repo_char)), rlit ''/'', RGrp 2 (rplus (RP repo_char))]"

text \<open>\<open>FindStringSubmatch\<close> of an expression anchored at the start only.\<close>

definition find_prefix_submatch :: "rx \<Rightarrow> string \<Rightarrow> captures option" where
  "find_prefix_submatch r s = (case rmatch r (s, []) of [] \<Rightarrow> None | st # _ \<Rightarrow> Some (snd st))"

definition github_repo_from_url :: "string \<Rightarrow> (string \<times> string) option" where
  "github_repo_from_url raw =
     (case find_prefix_submatch github_url_re (trim_space raw) of
        None \<Rightarrow> None
      | Some m \<Rightarrow>
          let owner = group m 1; repo = trim_suffix (group m 2) ''.git''
          in if owner = [] \<or> repo = [] then None else Some (owner, repo))"

subsection \<open>Answers of the registry\<close>

record catalog_entry =
  ce_expression :: string
  ce_license_url :: string
  ce_project_url :: string

text \<open>
  The raw \<open>catalogEntry\<close> of a leaf by its first byte: a quote, a brace, or anything else, with what
  decoding gives (\<open>None\<close>: a decoder error).
\<close>

datatype catalog_ref = CatalogUrl "string option" | CatalogInline "catalog_entry option" | CatalogOther

datatype json_error = JsonNotFound | JsonFailed

definition get_json :: "'a http_response \<Rightarrow> json_error + 'a" where
  "get_json resp =
     (case resp of
        NoResponse \<Rightarrow> Inl JsonFailed
      | HttpResponse status body \<Rightarrow>
          if status = 404 then Inl JsonNotFound
          else if status \<noteq> 200 then Inl JsonFailed
          else (case body of None \<Rightarrow> Inl JsonFailed | Some x \<Rightarrow> Inr x))"

record nuget_api =
  ng_wait :: bool
  ng_catalog_wait :: bool
  ng_leaf :: "string \<Rightarrow> string \<Rightarrow> catalog_ref http_response"
  ng_catalog :: "string \<Rightarrow> catalog_entry http_response"

type_synonym 'g repo_resolver = "string \<Rightarrow> 'g \<Rightarrow> string \<times> 'g"

subsection \<open>The license of a catalog entry\<close>

fun first_repo_license :: "'g repo_resolver \<Rightarrow> string list \<Rightarrow> 'g \<Rightarrow> string \<times> 'g" where
  "first_repo_license resolve [] g = ([], g)"
| "first_repo_license resolve (u # us) g =
     (case github_repo_from_url u of
        None \<Rightarrow> first_repo_license resolve us g
      | Some (owner, repo) \<Rightarrow>
          (case resolve (''pkg:github/'' @ owner @ ''/'' @ repo) g of
             (spdx, g') \<Rightarrow> if spdx \<noteq> [] then (spdx, g') else first_repo_license resolve us g'))"

definition license_from_entry :: "'g repo_resolver option \<Rightarrow> catalog_entry \<Rightarrow> 'g \<Rightarrow> string \<times> 'g" where
  "license_from_entry repo_resolver e g =
     (if trim_space (ce_expression e) \<noteq> [] then (trim_space (ce_expression e), g)
      else if license_from_url (ce_license_url e) \<noteq> [] then (license_from_url (ce_license_url e), g)
      else (case repo_resolver of
              None \<Rightarrow> ([], g)
            | Some resolve \<Rightarrow> first_repo_license resolve [ce_license_url e, ce_project_url e] g))"

definition load_entry :: "nuget_api \<Rightarrow> catalog_ref \<Rightarrow> catalog_entry option" where
  "load_entry api ref =
     (case ref of
        CatalogUrl u \<Rightarrow>
          (case u of
             None \<Rightarrow> None
           | Some url \<Rightarrow>
               if url = [] then None
               else if \<not> has_prefix url ''https://'' \<and> \<not> has_prefix url ''http://'' then None
               else if \<not> ng_catalog_wait api then None
               else (case get_json (ng_catalog api url) of Inl _ \<Rightarrow> None | Inr e \<Rightarrow> Some e))
      | CatalogInline e \<Rightarrow> e
      | CatalogOther \<Rightarrow> None)"

definition nuget_fetch ::
  "nuget_api \<Rightarrow> 'g repo_resolver option \<Rightarrow> string \<Rightarrow> string \<Rightarrow> 'g \<Rightarrow> (string \<times> string) \<times> 'g" where
  "nuget_fetch api repo_resolver pkg_id version g =
     (case get_json (ng_leaf api (to_lower pkg_id) (to_lower version)) of
        Inl JsonNotFound \<Rightarrow> (([], reason_not_published), g)
      | Inl JsonFailed \<Rightarrow> (([], []), g)
      | Inr ref \<Rightarrow>
          (case load_entry api ref of
             None \<Rightarrow> (([], []), g)
           | Some e \<Rightarrow>
               (case license_from_entry repo_resolver e g of
                  (lic, g') \<Rightarrow>
                    if lic \<noteq> [] then ((lic, []), g')
                    else if trim_space (ce_license_url e) = [] \<and> trim_space (ce_project_url e) = []
                    then (([], reason_no_license_upstream), g')
                    else (([], []), g'))))"

subsection \<open>The lookup\<close>

definition nuget_resolve ::
  "nuget_api \<Rightarrow> 'g repo_resolver option \<Rightarrow> string \<Rightarrow> resolver_cache \<times> 'g \<Rightarrow> string \<times> resolver_cache \<times> 'g" where
  "nuget_resolve api repo_resolver purl st =
     (case st of (c, g) \<Rightarrow>
        (case extract_nuget_package purl of
           None \<Rightarrow> ([], c, g)
         | Some (pkg_id, version) \<Rightarrow>
             if version = [] then ([], c, g)
             else
               let key = nuget_cache_key pkg_id version
               in (case cache_load c key of
                     (lic, reason, ok) \<Rightarrow>
                       if ok then (lic, c, g)
                       else if \<not> ng_wait api then ([], c, g)
                       else (case nuget_fetch api repo_resolver pkg_id version g of
                               ((lic, reason), g') \<Rightarrow> (lic, store_result key lic reason c, g')))))"

subsection \<open>Lemmas\<close>

text \<open>
  A lookup without a definite answer (a failed exchange, an unmapped URL, a repository without a
  license) stores nothing, so that it is made again.
\<close>

lemma nuget_indefinite_retried:
  assumes "extract_nuget_package purl = Some (pkg_id, version)"
    and "fst (nuget_fetch api rr pkg_id version g) = ([], [])"
  shows "fst (snd (nuget_resolve api rr purl (c, g))) = c"
  using assms
  by (auto simp: nuget_resolve_def Let_def cache.store_indefinite split: prod.splits)

lemma nuget_reasons:
  "nuget_fetch api rr pkg_id version g = ((lic, reason), g') \<Longrightarrow>
     reason = [] \<or> lic = [] \<and> (reason = reason_not_published \<or> reason = reason_no_license_upstream)"
  by (auto simp: nuget_fetch_def split: sum.splits json_error.splits option.splits prod.splits if_splits)

text \<open>
  What the strategy at the top of the file does not say: the URL of a raw file or of a project page
  names owner and repository, but so does the first path of any page on github.com, and the license of
  an organisation's page is looked up as a repository's.
\<close>

lemma github_urls:
  "github_repo_from_url ''https://raw.githubusercontent.com/Owner/Repo/master/LICENSE'' = Some (''Owner'', ''Repo'')"
  "github_repo_from_url '' HTTP://www.GitHub.com/o/r.git'' = Some (''o'', ''r'')"
  "github_repo_from_url ''https://github.com/orgs/acme'' = Some (''orgs'', ''acme'')"
  "github_repo_from_url ''https://example.com/github.com/o/r'' = None"
  by code_simp+

lemma license_urls:
  "license_from_url ''https://www.apache.org/licenses/LICENSE-2.0.txt'' = ''Apache-2.0''"
  "license_from_url ''http://opensource.org/licenses/MIT/'' = ''MIT''"
  "license_from_url ''https://aka.ms/deprecateLicenseUrl'' = []"
  by code_simp+

end
