(* ===== verification/Pypi_Resolver.thy ===== *)
theory Pypi_Resolver
  imports Packagist_Resolver
begin

text \<open>
  The PyPI license resolver, \<open>backend/internal/pypi/resolver.go\<close>: package name and version of a purl,
  the license of the package metadata, and the lookup through the cache of encoded values. The index is
  a function from the name and version asked for to the response, the version empty for the latest
  release.
\<close>

subsection \<open>Package and version of a purl\<close>

definition name_separators :: rx where
  "name_separators = rplus (rclass ''-_.'')"

definition extract_pypi_package :: "string \<Rightarrow> (string \<times> string) option" where
  "extract_pypi_package purl =
     (if \<not> has_prefix purl ''pkg:pypi/'' then None
      else
        let rest0 = before_any (drop 9 purl) ''?#'';
            (rest1, version1) =
              (case str_last_index rest0 ''@'' of Some i \<Rightarrow> (take i rest0, drop (Suc i) rest0) | None \<Rightarrow> (rest0, []));
            rest = unescape_or_keep rest1; version2 = unescape_or_keep version1;
            name = replace_all_re name_separators (to_lower (trim_space rest)) ''-''
        in if name = [] \<or> contains_any name [CHR ''/'', CHR 0x5C, CHR '' ''] then None
           else
             let version3 = trim_space version2;
                 version = (if to_lower version3 \<in> {''unknown'', ''noassertion'', ''none'', ''*'', ''latest''} then [] else version3)
             in if contains_any version [CHR ''/'', CHR 0x5C, CHR '' ''] \<or> contains_str version ''${'' then None
                else Some (name, version))"

definition pypi_cache_key :: "string \<Rightarrow> string \<Rightarrow> string" where
  "pypi_cache_key name version = (if version = [] then name @ ''@*'' else name @ ''@'' @ version)"

subsection \<open>The license of the metadata\<close>

definition classifier_spdx :: "(string \<times> string) list" where
  "classifier_spdx =
     [(''MIT License'', ''MIT''),
      (''MIT No Attribution License (MIT-0)'', ''MIT-0''),
      (''ISC License (ISCL)'', ''ISC''),
      (''Python Software Foundation License'', ''PSF-2.0''),
      (''Mozilla Public License 1.0 (MPL)'', ''MPL-1.0''),
      (''Mozilla Public License 1.1 (MPL 1.1)'', ''MPL-1.1''),
      (''Mozilla Public License 2.0 (MPL 2.0)'', ''MPL-2.0''),
      (''GNU General Public License v2 (GPLv2)'', ''GPL-2.0-only''),
      (''GNU General Public License v2 or later (GPLv2+)'', ''GPL-2.0-or-later''),
      (''GNU General Public License v3 (GPLv3)'', ''GPL-3.0-only''),
      (''GNU General Public License v3 or later (GPLv3+)'', ''GPL-3.0-or-later''),
      (''GNU Lesser General Public License v2 (LGPLv2)'', ''LGPL-2.0-only''),
      (''GNU Lesser General Public License v2 or later (LGPLv2+)'', ''LGPL-2.0-or-later''),
      (''GNU Lesser General Public License v3 (LGPLv3)'', ''LGPL-3.0-only''),
      (''GNU Lesser General Public License v3 or later (LGPLv3+)'', ''LGPL-3.0-or-later''),
      (''GNU Affero General Public License v3'', ''AGPL-3.0-only''),
      (''GNU Affero General Public License v3 or later (AGPLv3+)'', ''AGPL-3.0-or-later''),
      (''Eclipse Public License 1.0 (EPL-1.0)'', ''EPL-1.0''),
      (''Eclipse Public License 2.0 (EPL-2.0)'', ''EPL-2.0''),
      (''Boost Software License 1.0 (BSL-1.0)'', ''BSL-1.0''),
      (''The Unlicense (Unlicense)'', ''Unlicense''),
      (''Universal Permissive License (UPL)'', ''UPL-1.0''),
      (''European Union Public Licence 1.1 (EUPL 1.1)'', ''EUPL-1.1''),
      (''European Union Public Licence 1.2 (EUPL 1.2)'', ''EUPL-1.2''),
      (''CC0 1.0 Universal (CC0 1.0) Public Domain Dedication'', ''CC0-1.0''),
      (''Historical Permission Notice and Disclaimer (HPND)'', ''HPND''),
      (''zlib/libpng License'', ''Zlib''),
      (''PostgreSQL License'', ''PostgreSQL''),
      (''Python License (CNRI Python License)'', ''CNRI-Python''),
      (''Microsoft Public License'', ''MS-PL''),
      (''Apache Software License 2.0 (Apache-2.0)'', ''Apache-2.0''),
      (''Other/Proprietary License'', ''LicenseRef-proprietary'')]"

text \<open>\<open>strings.Split\<close> at a separator of two characters.\<close>

function split_str :: "string \<Rightarrow> string \<Rightarrow> string list" where
  "split_str sep s =
     (case str_index s sep of
        None \<Rightarrow> [s]
      | Some i \<Rightarrow> if sep = [] then [s] else take i s # split_str sep (drop (i + length sep) s))"
  by pat_completeness auto
termination
proof (relation "measure (\<lambda>(sep, s). length s)")
  fix sep s :: string and i
  assume "str_index s sep = Some i" "sep \<noteq> []"
  then show "((sep, drop (i + length sep) s), sep, s) \<in> measure (\<lambda>(sep, s). length s)"
    using str_index_Some [of s sep i] by (cases sep) auto
qed simp

declare split_str.simps [simp del]

definition classifier_license :: "string \<Rightarrow> string option" where
  "classifier_license c =
     (let parts = split_str ''::'' c
      in if length parts < 2 \<or> trim_space (hd parts) \<noteq> ''License'' then None
         else let l = trim_space (last parts)
              in if l \<in> {[], ''OSI Approved'', ''DFSG approved'', ''Freely Distributable'', ''Freeware''} then None
                 else Some l)"

text \<open>The licenses the table knows, in the order they appear, and the first other one as a reference.\<close>

definition take_classifier :: "string \<Rightarrow> string list \<times> string \<Rightarrow> string list \<times> string" where
  "take_classifier c acc =
     (case acc of (mapped, first_ref) \<Rightarrow>
        (case classifier_license c of
           None \<Rightarrow> (mapped, first_ref)
         | Some name \<Rightarrow>
             (case map_of classifier_spdx name of
                None \<Rightarrow> (mapped, if first_ref = [] then license_ref name else first_ref)
              | Some lic \<Rightarrow> (if lic \<in> set mapped then mapped else mapped @ [lic], first_ref))))"

definition max_license_text :: nat where "max_license_text = 100"

definition pypi_expression :: "string \<Rightarrow> string \<Rightarrow> string list \<Rightarrow> string" where
  "pypi_expression license_expression license_field classifiers =
     (if recover license_expression \<noteq> [] then recover license_expression
      else
        let (mapped, first_ref) = fold take_classifier classifiers ([], [])
        in if length mapped > 0 then join_with '' AND '' mapped
           else
             let t = trim_space license_field
             in if t \<noteq> [] \<and> length t \<le> max_license_text \<and> \<not> contains_str t [CHR 0x0A] \<and> recover t \<noteq> []
                then recover t
                else first_ref)"

subsection \<open>The lookup\<close>

record project_info =
  pi_expression :: string
  pi_license :: string
  pi_classifiers :: "string list"

definition pypi_fetch :: "(string \<Rightarrow> string \<Rightarrow> project_info http_response) \<Rightarrow> string \<Rightarrow> string \<Rightarrow> string" where
  "pypi_fetch index name version =
     (case index name version of
        NoResponse \<Rightarrow> []
      | HttpResponse status body \<Rightarrow>
          if status = 404 then negative_cache_value reason_not_published
          else if status \<noteq> 200 then []
          else (case body of
                  None \<Rightarrow> []
                | Some p \<Rightarrow>
                    let lic = pypi_expression (pi_expression p) (pi_license p) (pi_classifiers p)
                    in if lic \<noteq> [] then lic else negative_cache_value reason_no_license_upstream))"

definition pypi_resolve ::
  "(string \<Rightarrow> string \<Rightarrow> project_info http_response) \<Rightarrow> bool \<Rightarrow> string \<Rightarrow> resolver_cache \<Rightarrow> string \<times> resolver_cache" where
  "pypi_resolve index admitted purl c =
     (case extract_pypi_package purl of
        None \<Rightarrow> ([], c)
      | Some (name, version) \<Rightarrow>
          let key = pypi_cache_key name version
          in (case cache_load c key of
                (lic, reason, found) \<Rightarrow>
                  if found then (lic, c)
                  else if \<not> admitted then ([], c)
                  else let value = pypi_fetch index name version
                       in (fst (split_cache_value value), store_value key value c)))"

definition pypi_explain :: "resolver_cache \<Rightarrow> string \<Rightarrow> bool \<times> string \<times> bool" where
  "pypi_explain c purl =
     (case extract_pypi_package purl of
        None \<Rightarrow> (False, [], False)
      | Some (name, version) \<Rightarrow> (True, cache_reason c (pypi_cache_key name version), version = []))"

subsection \<open>Values never look negative\<close>

lemma mapped_chars:
  assumes "fold take_classifier cs (mapped, ref) = (mapped', ref')"
    and "\<And>l. l \<in> set mapped \<Longrightarrow> l \<in> snd ` set classifier_spdx" "ref = [] \<or> (\<exists>n. ref = license_ref n)"
  shows "(\<forall>l \<in> set mapped'. l \<in> snd ` set classifier_spdx) \<and> (ref' = [] \<or> (\<exists>n. ref' = license_ref n))"
  using assms
proof (induction cs arbitrary: mapped ref)
  case (Cons c cs)
  obtain m r where step: "take_classifier c (mapped, ref) = (m, r)" by fastforce
  have "(\<forall>l \<in> set m. l \<in> snd ` set classifier_spdx) \<and> (r = [] \<or> (\<exists>n. r = license_ref n))"
    using step Cons.prems(2,3)
    by (auto simp: take_classifier_def dest!: map_of_SomeD split: option.splits if_splits; force)
  then show ?case using Cons.IH [of m r] Cons.prems(1) step by auto
qed auto

lemma classifier_spdx_plain: "list_all (\<lambda>(n, l). list_all (\<lambda>c. c \<noteq> CHR ''!'') l) classifier_spdx"
  by code_simp

lemma license_ref_chars: "c \<in> set (license_ref n) \<Longrightarrow> c \<noteq> CHR ''!''"
proof -
  have "\<forall>x \<in> set ''LicenseRef-''. id_char x" "\<not> id_char CHR ''!''"
    by (simp_all add: id_char_def is_letter_def is_digit_def char_between_def)
  then have "\<forall>x \<in> set (license_ref n). id_char x"
    using license_ref_cases [of n] by (elim disjE exE conjE) (simp_all only: set_append ball_Un, simp)
  with \<open>\<not> id_char CHR ''!''\<close> show "c \<in> set (license_ref n) \<Longrightarrow> c \<noteq> CHR ''!''" by blast
qed

lemma pypi_expression_chars: "c \<in> set (pypi_expression e f cs) \<Longrightarrow> c \<noteq> CHR ''!''"
proof -
  obtain mapped ref where fold: "fold take_classifier cs ([], []) = (mapped, ref)" by fastforce
  have parts: "(\<forall>l \<in> set mapped. l \<in> snd ` set classifier_spdx) \<and> (ref = [] \<or> (\<exists>n. ref = license_ref n))"
    using mapped_chars [OF fold] by simp
  have joined: "x \<noteq> CHR ''!''" if "x \<in> set (join_with '' AND '' mapped)" for x
  proof -
    have "x \<in> set '' AND '' \<or> (\<exists>l \<in> set mapped. x \<in> set l)"
      using that set_join_with [of "'' AND ''" mapped] by auto
    then show ?thesis using parts classifier_spdx_plain by (fastforce simp: list_all_iff)
  qed
  assume "c \<in> set (pypi_expression e f cs)"
  then have "(\<exists>r. c \<in> set (recover r)) \<or> c \<in> set (join_with '' AND '' mapped) \<or> c \<in> set ref"
    by (auto simp: pypi_expression_def fold Let_def split: if_splits)
  then show ?thesis using joined recover_chars parts license_ref_chars by (metis empty_iff empty_set)
qed

end
