(* ===== verification/Registry_Chain.thy ===== *)
theory Registry_Chain
  imports Config Depsdev_Resolver Nuget_Resolver Pypi_Resolver Provenance
begin

text \<open>
  The license resolvers of the parsing worker put together, \<open>newRegistryResolvers\<close>,
  \<open>buildRegistryResolvers\<close> and \<open>persistRegistryCaches\<close> of \<open>backend/cmd/parsing-worker/registry_resolvers.go\<close>
  with \<open>backend/internal/clickhouse/queries_registry_cache.go\<close>: the chain the configuration enables,
  over one state that holds the cache of every resolver, its caches read from and written to the table
  \<open>registry_license_cache\<close>, and the resolution of the packages of a document by it.
\<close>

subsection \<open>Registries and caches\<close>

record registries =
  rg_npm :: "string \<Rightarrow> string \<Rightarrow> npm_manifest http_response"
  rg_npm_wait :: "string \<Rightarrow> bool"
  rg_nuget :: nuget_api
  rg_depsdev :: depsdev_api
  rg_mirror :: mirror
  rg_mirror_wait :: "string \<Rightarrow> bool"
  rg_index :: "string \<Rightarrow> string \<Rightarrow> project_info http_response"
  rg_index_wait :: "string \<Rightarrow> bool"
  rg_github :: github_api

record chain_state =
  cs_npm :: resolver_cache
  cs_nuget :: resolver_cache
  cs_depsdev :: resolver_cache
  cs_packagist :: resolver_cache
  cs_files :: file_cache
  cs_pypi :: resolver_cache
  cs_github :: github_state

subsection \<open>The resolvers\<close>

definition npm_registry :: "registries \<Rightarrow> chain_state registry_resolver" where
  "npm_registry rg =
     \<lparr>rr_name = ''npm'',
      rr_resolve = (\<lambda>purl w. case npm_resolve (rg_npm rg) (rg_npm_wait rg purl) purl (cs_npm w) of
        (lic, c) \<Rightarrow> (lic, w\<lparr>cs_npm := c\<rparr>)),
      rr_batch = None,
      rr_explain = Some (\<lambda>purl w. npm_explain (cs_npm w) purl)\<rparr>"

text \<open>\<open>nuget.Resolver\<close> has no method \<open>Explain\<close>.\<close>

definition nuget_registry :: "bool \<Rightarrow> registries \<Rightarrow> chain_state registry_resolver" where
  "nuget_registry github rg =
     \<lparr>rr_name = ''nuget'',
      rr_resolve = (\<lambda>purl w. case nuget_resolve (rg_nuget rg) (if github then Some (resolve_swallow (rg_github rg)) else None)
                               purl (cs_nuget w, cs_github w) of
        (lic, c, g) \<Rightarrow> (lic, w\<lparr>cs_nuget := c, cs_github := g\<rparr>)),
      rr_batch = None,
      rr_explain = None\<rparr>"

definition depsdev_registry :: "registries \<Rightarrow> chain_state registry_resolver" where
  "depsdev_registry rg =
     \<lparr>rr_name = ''depsdev'',
      rr_resolve = (\<lambda>purl w. case depsdev_resolve (rg_depsdev rg) purl (cs_depsdev w) of
        (lic, c) \<Rightarrow> (lic, w\<lparr>cs_depsdev := c\<rparr>)),
      rr_batch = Some (\<lambda>purls w. case resolve_batch (rg_depsdev rg) purls (cs_depsdev w) of
        (out, c) \<Rightarrow> (out, w\<lparr>cs_depsdev := c\<rparr>)),
      rr_explain = Some (\<lambda>purl w. depsdev_explain (cs_depsdev w) purl)\<rparr>"

definition packagist_registry :: "registries \<Rightarrow> chain_state registry_resolver" where
  "packagist_registry rg =
     \<lparr>rr_name = ''packagist'',
      rr_resolve = (\<lambda>purl w. case packagist_resolve (rg_mirror rg) (rg_mirror_wait rg) purl (cs_packagist w, cs_files w) of
        (lic, c, files) \<Rightarrow> (lic, w\<lparr>cs_packagist := c, cs_files := files\<rparr>)),
      rr_batch = None,
      rr_explain = Some (\<lambda>purl w. packagist_explain (cs_packagist w) purl)\<rparr>"

definition pypi_registry :: "registries \<Rightarrow> chain_state registry_resolver" where
  "pypi_registry rg =
     \<lparr>rr_name = ''pypi'',
      rr_resolve = (\<lambda>purl w. case pypi_resolve (rg_index rg) (rg_index_wait rg purl) purl (cs_pypi w) of
        (lic, c) \<Rightarrow> (lic, w\<lparr>cs_pypi := c\<rparr>)),
      rr_batch = None,
      rr_explain = Some (\<lambda>purl w. pypi_explain (cs_pypi w) purl)\<rparr>"

text \<open>\<open>github\<close> says whether there is a GitHub resolver.\<close>

definition build_registry_resolvers :: "config \<Rightarrow> bool \<Rightarrow> registries \<Rightarrow> chain_state registry_resolver list" where
  "build_registry_resolvers cfg github rg =
     (if \<not> cf_skip_npm_resolve cfg then [npm_registry rg] else []) @
     (if \<not> cf_skip_nuget_resolve cfg then [nuget_registry github rg] else []) @
     (if \<not> cf_skip_depsdev_resolve cfg then [depsdev_registry rg] else []) @
     (if \<not> cf_skip_packagist_resolve cfg then [packagist_registry rg] else []) @
     (if \<not> cf_skip_pypi_resolve cfg then [pypi_registry rg] else [])"

definition chain_lookup :: "registries \<Rightarrow> (github_error, chain_state) github_lookup" where
  "chain_lookup rg purl w =
     (case worker_lookup (rg_github rg) purl (cs_github w) of (r, g) \<Rightarrow> (r, w\<lparr>cs_github := g\<rparr>))"

definition worker_resolve ::
  "config \<Rightarrow> registries \<Rightarrow> string list \<Rightarrow> string list \<Rightarrow> nat list \<Rightarrow> chain_state \<Rightarrow> github_error + work \<times> chain_state" where
  "worker_resolve cfg rg purls licenses roots w =
     (let github = \<not> cf_skip_github_resolve cfg
      in resolve_package_licenses (if github then Some (chain_lookup rg) else None)
           (build_registry_resolvers cfg github rg) purls licenses roots w)"

subsection \<open>The caches in the database\<close>

text \<open>
  The table after \<open>FINAL\<close>: one value per registry and package, the one inserted last. A failed query
  is \<open>None\<close>; \<open>ok\<close> says which inserts succeed (their errors are ignored).
\<close>

type_synonym cache_table = "string \<times> string \<rightharpoonup> string"

definition query_registry_license_cache :: "cache_table \<Rightarrow> string \<Rightarrow> resolver_cache" where
  "query_registry_license_cache t registry =
     (\<lambda>pkg. case t (registry, pkg) of None \<Rightarrow> None | Some v \<Rightarrow> if v = [] then None else Some v)"

definition insert_registry_license_cache :: "string \<Rightarrow> resolver_cache \<Rightarrow> cache_table \<Rightarrow> cache_table" where
  "insert_registry_license_cache registry cached t =
     (\<lambda>(r, pkg). if r = registry
        then (case cached pkg of None \<Rightarrow> t (r, pkg) | Some v \<Rightarrow> if v = [] then t (r, pkg) else Some v)
        else t (r, pkg))"

definition preload_entries :: "resolver_cache \<Rightarrow> resolver_cache \<Rightarrow> resolver_cache" where
  "preload_entries cached c = (\<lambda>k. case cached k of None \<Rightarrow> c k | Some v \<Rightarrow> if v = [] then c k else Some v)"

definition chain_cache :: "string \<Rightarrow> chain_state \<Rightarrow> resolver_cache" where
  "chain_cache name w =
     (if name = ''npm'' then cs_npm w else if name = ''nuget'' then cs_nuget w
      else if name = ''depsdev'' then cs_depsdev w else if name = ''packagist'' then cs_packagist w else cs_pypi w)"

definition set_chain_cache :: "string \<Rightarrow> resolver_cache \<Rightarrow> chain_state \<Rightarrow> chain_state" where
  "set_chain_cache name c w =
     (if name = ''npm'' then w\<lparr>cs_npm := c\<rparr> else if name = ''nuget'' then w\<lparr>cs_nuget := c\<rparr>
      else if name = ''depsdev'' then w\<lparr>cs_depsdev := c\<rparr> else if name = ''packagist'' then w\<lparr>cs_packagist := c\<rparr>
      else w\<lparr>cs_pypi := c\<rparr>)"

definition preload_one :: "(string \<Rightarrow> resolver_cache option) \<Rightarrow> chain_state registry_resolver \<Rightarrow> chain_state \<Rightarrow> chain_state" where
  "preload_one query rr w =
     (case query (rr_name rr) of
        None \<Rightarrow> w
      | Some cached \<Rightarrow> set_chain_cache (rr_name rr) (preload_entries cached (chain_cache (rr_name rr) w)) w)"

definition new_registry_resolvers ::
  "config \<Rightarrow> bool \<Rightarrow> registries \<Rightarrow> (string \<Rightarrow> resolver_cache option) \<Rightarrow> chain_state \<Rightarrow> chain_state" where
  "new_registry_resolvers cfg github rg query w =
     fold (preload_one query) (build_registry_resolvers cfg github rg) w"

definition persist_one ::
  "(string \<Rightarrow> bool) \<Rightarrow> chain_state \<Rightarrow> chain_state registry_resolver \<Rightarrow> cache_table \<Rightarrow> cache_table" where
  "persist_one ok w rr t =
     (if chain_cache (rr_name rr) w = Map.empty \<or> \<not> ok (rr_name rr) then t
      else insert_registry_license_cache (rr_name rr) (chain_cache (rr_name rr) w) t)"

definition persist_registry_caches ::
  "(string \<Rightarrow> bool) \<Rightarrow> chain_state registry_resolver list \<Rightarrow> chain_state \<Rightarrow> cache_table \<Rightarrow> cache_table" where
  "persist_registry_caches ok resolvers w t = fold (persist_one ok w) resolvers t"

subsection \<open>Reasons in the caches\<close>

text \<open>
  A value of a cache is lawful when it is a license or a documented reason. What a registry calls a
  license must not begin with the marker of negative values for that.
\<close>

definition plain_license :: "string \<Rightarrow> bool" where
  "plain_license lic \<longleftrightarrow> \<not> has_prefix lic negative_marker"

definition lawful_value :: "string \<Rightarrow> bool" where
  "lawful_value v \<longleftrightarrow> (let reason = snd (split_cache_value v) in reason = [] \<or> is_unresolved_reason reason)"

definition lawful_cache :: "resolver_cache \<Rightarrow> bool" where
  "lawful_cache c \<longleftrightarrow> (\<forall>k v. c k = Some v \<longrightarrow> lawful_value v)"

lemma lawful_plain: "plain_license v \<Longrightarrow> lawful_value v"
  by (simp add: plain_license_def lawful_value_def split_cache_value_def)

lemma lawful_negative [simp]:
  "lawful_value []" "lawful_value (negative_cache_value [])"
  "lawful_value (negative_cache_value reason_not_published)"
  "lawful_value (negative_cache_value reason_no_license_upstream)"
  by (simp_all add: lawful_value_def is_unresolved_reason_def unresolved_reasons_def)
     (simp_all add: split_cache_value_def negative_marker_def has_prefix_def)

lemma lawful_empty [simp]: "lawful_cache Map.empty"
  by (simp add: lawful_cache_def)

lemma lawful_store: "lawful_cache c \<Longrightarrow> lawful_value v \<Longrightarrow> lawful_cache (store_value k v c)"
  by (auto simp: lawful_cache_def store_value_def)

lemma lawful_stores:
  "lawful_cache c \<Longrightarrow> (\<And>x. x \<in> set xs \<Longrightarrow> lawful_value (val x)) \<Longrightarrow> lawful_cache (fold (\<lambda>x. store_value (key x) (val x)) xs c)"
  by (rule fold_invariant [where I = lawful_cache]) (auto intro: lawful_store)

lemma lawful_store_result:
  "lawful_cache c \<Longrightarrow> plain_license lic \<Longrightarrow> lawful_value (negative_cache_value reason) \<Longrightarrow>
     lawful_cache (store_result k lic reason c)"
  by (simp add: store_result_def lawful_store lawful_plain)

lemma lawful_reason: "lawful_cache c \<Longrightarrow> cache_reason c k = [] \<or> is_unresolved_reason (cache_reason c k)"
  by (auto simp: cache_reason_def cache_load_split load_value_def lawful_cache_def lawful_value_def Let_def split: option.split)

lemma no_marker_plain: "(\<And>c. c \<in> set lic \<Longrightarrow> c \<noteq> CHR ''!'') \<Longrightarrow> plain_license lic"
  by (cases lic) (auto simp: plain_license_def negative_marker_def has_prefix_def)

lemma plain_Nil [simp]: "plain_license []"
  by (simp add: plain_license_def negative_marker_def has_prefix_def)

subsubsection \<open>The registries\<close>

text \<open>What a registry calls a license does not begin with the marker.\<close>

definition npm_plain :: "(string \<Rightarrow> string \<Rightarrow> npm_manifest http_response) \<Rightarrow> bool" where
  "npm_plain registry \<longleftrightarrow> (\<forall>name version. plain_license (fst (npm_fetch_license registry name version)))"

definition nuget_plain :: "nuget_api \<Rightarrow> bool" where
  "nuget_plain api \<longleftrightarrow>
     (\<forall>pkg_id version ref e. get_json (ng_leaf api pkg_id version) = Inr ref \<longrightarrow> load_entry api ref = Some e \<longrightarrow>
        plain_license (trim_space (ce_expression e)))"

definition depsdev_plain :: "depsdev_api \<Rightarrow> bool" where
  "depsdev_plain api \<longleftrightarrow>
     (\<forall>pv status vr. dd_version api pv = HttpResponse status (Some vr) \<longrightarrow> plain_license (version_expression vr)) \<and>
     (\<forall>part status page pv vr. BatchAnswer (HttpResponse status (Some page)) \<in> set (dd_batch api part) \<longrightarrow>
        (pv, Some vr) \<in> set (bg_responses page) \<longrightarrow> plain_license (version_expression vr))"

definition github_plain :: "github_api \<Rightarrow> bool" where
  "github_plain api \<longleftrightarrow>
     (\<forall>owner repo r lr. ga_license api owner repo = GhReply r \<longrightarrow> gy_body r = Some lr \<longrightarrow>
        plain_license (license_of_response api lr)) \<and>
     (\<forall>owner repo r rr. ga_repo api owner repo = GhReply r \<longrightarrow> gy_body r = Some rr \<longrightarrow> plain_license (repo_license_of rr))"

definition registries_plain :: "registries \<Rightarrow> bool" where
  "registries_plain rg \<longleftrightarrow>
     npm_plain (rg_npm rg) \<and> nuget_plain (rg_nuget rg) \<and> depsdev_plain (rg_depsdev rg) \<and> github_plain (rg_github rg)"

lemma npm_lawful:
  assumes "npm_plain registry" "lawful_cache c"
  shows "lawful_cache (snd (npm_resolve registry ok purl c))"
proof -
  have "lawful_value (negative_cache_value (snd (npm_fetch_license registry name version)))" for name version
    by (auto simp: npm_fetch_license_def npm_read_response_def Let_def split: http_response.split option.split)
  then show ?thesis
    using assms
    by (auto simp: npm_resolve_def npm_plain_def intro!: lawful_store_result split: option.split prod.split)
       (metis fst_conv snd_conv)+
qed

lemma pypi_lawful:
  assumes "lawful_cache c"
  shows "lawful_cache (snd (pypi_resolve index ok purl c))"
proof -
  have "plain_license (pypi_expression e f cs)" for e f cs
    using pypi_expression_chars by (intro no_marker_plain) blast
  then have "lawful_value (pypi_fetch index name version)" for name version
    by (auto simp: pypi_fetch_def Let_def intro: lawful_plain split: http_response.split option.split)
  then show ?thesis
    using assms by (auto simp: pypi_resolve_def Let_def intro!: lawful_store split: option.split prod.split)
qed

lemma packagist_lawful:
  assumes "lawful_cache c"
  shows "lawful_cache (fst (snd (packagist_resolve mirror ok purl (c, files))))"
proof -
  have lic: "lawful_value (license_value ls)" for ls
    using composer_expression_chars [of _ ls]
    by (auto simp: license_value_def Let_def intro!: lawful_plain no_marker_plain)
  have "lawful_value (latest_marker @ v)" for v
    by (rule lawful_plain) (simp add: plain_license_def negative_marker_def latest_marker_def has_prefix_def)
  then have stable: "lawful_value (stable_value releases version)" for releases version
    using lic by (auto simp: stable_value_def Let_def split: option.split list.split)
  have "lawful_value (fst (packagist_lookup mirror ok name version files))" for name version
    using lic stable by (auto simp: packagist_lookup_def Let_def split: option.split prod.split)
  then show ?thesis
    using assms lawful_store
    by (auto simp: packagist_resolve_def Let_def split: option.split prod.split) (metis fst_conv)
qed

subsubsection \<open>deps.dev\<close>

definition lawful_map :: "(string \<rightharpoonup> string) \<Rightarrow> bool" where
  "lawful_map m \<longleftrightarrow> (\<forall>k v. m k = Some v \<longrightarrow> lawful_value v)"

lemma lawful_map_upd: "lawful_map m \<Longrightarrow> lawful_value v \<Longrightarrow> lawful_map (m(k \<mapsto> v))"
  by (simp add: lawful_map_def)

lemma version_value_lawful: "plain_license (version_expression vr) \<Longrightarrow> lawful_value (version_cache_value vr)"
  by (simp add: version_cache_value_def Let_def lawful_plain)

lemma fetch_version_lawful: "depsdev_plain api \<Longrightarrow> lawful_value (fetch_version api pv)"
  by (auto simp: fetch_version_def depsdev_plain_def intro: version_value_lawful split: http_response.split option.split)

lemma default_reason_lawful: "lawful_value (negative_cache_value (snd (default_version api system name)))"
  by (auto simp: default_version_def split: http_response.split option.split prod.split)

definition pages_plain :: "batch_exchange list \<Rightarrow> bool" where
  "pages_plain exs \<longleftrightarrow>
     (\<forall>status page pv vr. BatchAnswer (HttpResponse status (Some page)) \<in> set exs \<longrightarrow>
        (pv, Some vr) \<in> set (bg_responses page) \<longrightarrow> plain_license (version_expression vr))"

lemma read_pages_lawful: "read_pages exs m = Some b \<Longrightarrow> pages_plain exs \<Longrightarrow> lawful_map m \<Longrightarrow> lawful_map b"
proof (induction exs arbitrary: m)
  case (Cons ex later)
  show ?case
  proof (cases ex)
    case BatchRefused
    then show ?thesis using Cons.prems by simp
  next
    case (BatchAnswer resp)
    then obtain page where page: "resp = HttpResponse 200 (Some page)"
      using Cons.prems(1) by (auto split: http_response.splits if_splits option.splits)
    have plain: "plain_license (version_expression vr)" if "(pv, Some vr) \<in> set (bg_responses page)" for pv vr
      using Cons.prems(2) BatchAnswer page that by (auto simp: pages_plain_def)
    have page_ok: "lawful_map (fold take_response (bg_responses page) m)"
    proof (rule fold_invariant [where I = lawful_map])
      fix item m assume item: "item \<in> set (bg_responses page)" and m: "lawful_map m"
      obtain pv v where e: "item = (pv, v)" by fastforce
      have "lawful_value (case v of None \<Rightarrow> negative_cache_value reason_not_published | Some vr \<Rightarrow> version_cache_value vr)"
        using item plain [of pv] by (auto simp: e intro: version_value_lawful split: option.split)
      then show "lawful_map (take_response item m)"
        using m by (simp add: take_response_def e lawful_map_upd del: fun_upd_apply)
    qed (rule Cons.prems(3))
    have "pages_plain later" using Cons.prems(2) by (auto simp: pages_plain_def)
    then show ?thesis
      using Cons.IH [OF _ _ page_ok] Cons.prems(1) BatchAnswer page page_ok by (auto simp: Let_def split: if_splits)
  qed
qed simp

lemma batch_lawful:
  assumes "depsdev_plain api" "fetch_license_batch api part = Some b"
  shows "lawful_map b"
proof -
  have "lawful_map (fold (\<lambda>pv m. m(depsdev_cache_key pv \<mapsto> [])) part Map.empty)"
    by (rule fold_invariant [where I = lawful_map]) (auto intro: lawful_map_upd simp: lawful_map_def)
  then show ?thesis
    using assms read_pages_lawful unfolding fetch_license_batch_def depsdev_plain_def pages_plain_def by blast
qed

lemma slice_lawful:
  assumes "depsdev_plain api" "lawful_map m"
  shows "lawful_map (fetch_slice api part m)"
proof (cases "fetch_license_batch api part")
  case None
  have "lawful_map (fold (fetch_one api) part m)"
    by (rule fold_invariant [where I = lawful_map])
       (auto simp: fetch_one_def intro!: lawful_map_upd fetch_version_lawful assms)
  then show ?thesis using None by (simp add: fetch_slice_def)
next
  case (Some b)
  then show ?thesis
    using batch_lawful [OF assms(1) Some] assms(2) by (auto simp: fetch_slice_def lawful_map_def map_add_Some_iff)
qed

lemma plan_lawful:
  assumes "lawful_cache c"
  shows "lawful_map (bp_resolved (plan_batch api c pending))"
proof -
  have step: "lawful_map (bp_resolved (plan_default api c e p))" if "lawful_map (bp_resolved p)" for e p
  proof -
    obtain key pv where e: "e = (key, pv)" by fastforce
    obtain v reason where d: "default_version api (pv_system pv) (pv_name pv) = (v, reason)" by fastforce
    have "lawful_value (negative_cache_value reason)"
      using default_reason_lawful [of api "pv_system pv" "pv_name pv"] by (simp add: d)
    then show ?thesis
      using that assms unfolding e plan_default_cases [OF d]
      by (auto simp: Let_def lawful_cache_def intro!: lawful_map_upd simp del: fun_upd_apply split: option.split)
  qed
  show ?thesis
    unfolding plan_batch_def Let_def
    by (rule fold_invariant [where I = "\<lambda>p. lawful_map (bp_resolved p)"]) (rule step, assumption, simp add: lawful_map_def)
qed

lemma resolved_lawful: "lawful_map m \<Longrightarrow> lawful_value (resolved_value m k)"
  by (auto simp: resolved_value_def lawful_map_def split: option.split)

lemma pending_lawful: "lawful_map m \<Longrightarrow> lawful_value (pending_value p m k)"
  by (simp add: pending_value_def resolved_lawful split: option.split)

lemma depsdev_batch_lawful:
  assumes "depsdev_plain api" "lawful_cache c"
  shows "lawful_cache (snd (resolve_batch api purls c))"
proof -
  have "lawful_map (batch_answers api purls c)"
    unfolding batch_answers_def the_plan_def
    by (rule fold_invariant [where I = lawful_map]) (auto intro: slice_lawful plan_lawful assms)
  then have "lawful_cache (batch_cache api purls c)"
    unfolding batch_cache_def extra_cache_def
    by (intro lawful_stores assms(2) resolved_lawful pending_lawful)
  then show ?thesis using assms(2) by (simp add: resolve_batch_parts)
qed

lemma depsdev_lawful:
  assumes "depsdev_plain api" "lawful_cache c"
  shows "lawful_cache (snd (depsdev_resolve api purl c))"
proof -
  have one: "lawful_value (fst (resolve_one_value api pv c)) \<and> lawful_cache (snd (resolve_one_value api pv c))" for pv
    using assms fetch_version_lawful [OF assms(1), of pv]
    by (auto simp: resolve_one_value_def load_value_def lawful_cache_def [of c] Let_def intro!: lawful_store split: option.split)
  have two: "lawful_value (fst r) \<and> lawful_cache (snd r)"
    if "r = (if v \<noteq> [] then resolve_one_value api pv c
             else (negative_cache_value (snd (default_version api system name)), c))" for r v pv system name
    using one [of pv] default_reason_lawful assms(2) that by auto
  show ?thesis
  proof (cases "extract_package purl")
    case (Some pv)
    obtain v reason where d: "default_version api (pv_system pv) (pv_name pv) = (v, reason)" by fastforce
    then have reason: "reason = snd (default_version api (pv_system pv) (pv_name pv))" by simp
    define r where "r = (if v \<noteq> [] then resolve_one_value api (pv\<lparr>pv_version := v\<rparr>) c else (negative_cache_value reason, c))"
    have r: "lawful_value (fst r)" "lawful_cache (snd r)"
      using two [OF r_def [unfolded reason]] by simp_all
    have "snd (depsdev_resolve api purl c) =
        (if pv_version pv \<noteq> [] then snd (resolve_one_value api pv c)
         else if snd (snd (cache_load c (depsdev_cache_key (pv\<lparr>pv_version := any_version\<rparr>)))) then c
         else store_value (depsdev_cache_key (pv\<lparr>pv_version := any_version\<rparr>)) (fst r) (snd r))"
      unfolding depsdev_resolve_def Some option.case d prod.case r_def [symmetric] Let_def
      by (simp split: prod.split)
    then show ?thesis using one r assms(2) by (simp add: lawful_store)
  qed (simp add: depsdev_resolve_def assms(2))
qed

subsubsection \<open>NuGet and GitHub\<close>

definition github_lawful :: "github_state \<Rightarrow> bool" where
  "github_lawful g \<longleftrightarrow> (\<forall>k v. gs_licenses g k = Some v \<longrightarrow> plain_license v)"

lemma overrides_plain: "list_all (\<lambda>(k, l). \<not> has_prefix l negative_marker) known_license_overrides"
  by code_simp

lemma override_plain: "plain_license spdx \<Longrightarrow> plain_license (with_override key spdx)"
  using overrides_plain
  by (auto simp: with_override_def plain_license_def list_all_iff negative_marker_def has_prefix_def
      dest!: map_of_SomeD split: option.split)

lemma fetch_license_plain:
  "github_plain api \<Longrightarrow> fetch_license api owner repo g = (Inr spdx, g') \<Longrightarrow> plain_license spdx \<and> gs_licenses g' = gs_licenses g"
  by (auto simp: fetch_license_def github_plain_def split: gh_exchange.splits if_splits option.splits)

lemma fetch_metadata_plain:
  assumes "github_plain api" "fetch_repo_metadata api owner repo g = (Inr (Some m), g')"
  shows "plain_license (rm_spdx_id m) \<and> gs_licenses g' = gs_licenses g"
proof -
  have kept: "g' = g" by (rule fetch_metadata_kept [OF assms(2)])
  obtain r rr where r: "ga_repo api owner repo = GhReply r" "gy_body r = Some rr"
    using assms(2) by (auto simp: fetch_repo_metadata_def split: gh_exchange.splits if_splits option.splits)
  then have own: "plain_license (repo_license_of rr)" using assms(1) unfolding github_plain_def by blast
  have "\<exists>spdx. plain_license spdx \<and> m = metadata_of api (repo_key owner repo) rr spdx"
  proof (cases "repo_license_of rr = [] \<and> ga_second_wait_ok api")
    case True
    then obtain spdx g1 where "fetch_license api owner repo g = (Inr spdx, g1)" "m = metadata_of api (repo_key owner repo) rr spdx"
      using assms(2) r by (auto simp: fetch_repo_metadata_def Let_def split: if_splits prod.splits sum.splits)
    then show ?thesis using fetch_license_plain [OF assms(1)] by blast
  next
    case False
    then have "m = metadata_of api (repo_key owner repo) rr (repo_license_of rr)"
      using assms(2) r by (auto simp: fetch_repo_metadata_def Let_def split: if_splits)
    then show ?thesis using own by blast
  qed
  then show ?thesis using kept by (auto simp: metadata_of_def intro: override_plain)
qed

lemma limited_licenses:
  "fetch_license api owner repo g = (Inl e, g') \<Longrightarrow> gs_licenses g' = gs_licenses g"
  by (auto simp: fetch_license_def note_rate_limit_def Let_def split: gh_exchange.splits if_splits option.splits)

lemma github_lawful_upd:
  "github_lawful g \<Longrightarrow> gs_licenses g' = gs_licenses g \<Longrightarrow> plain_license v \<Longrightarrow>
     github_lawful (g'\<lparr>gs_licenses := (gs_licenses g')(k \<mapsto> v)\<rparr>)"
  by (simp add: github_lawful_def)

lemma swallow_lawful:
  assumes "github_plain api" "github_lawful g"
  shows "plain_license (fst (resolve_swallow api purl g)) \<and> github_lawful (snd (resolve_swallow api purl g))"
proof (cases "extract_github_repo purl")
  case (Some p)
  obtain owner repo where p: "p = (owner, repo)" by fastforce
  obtain r g' where f: "fetch_license api owner repo g = (r, g')" by fastforce
  show ?thesis
  proof (cases "gs_licenses g (repo_key owner repo)")
    case (Some v)
    then show ?thesis
      using assms(2) \<open>extract_github_repo purl = Some p\<close> p
      by (simp add: resolve_swallow_def resolve_err_def Let_def github_lawful_def)
  next
    case None
    have run: "resolve_swallow api purl g =
        (if is_rate_limited (ga_now api) g \<or> \<not> ga_wait_ok api then ([], g)
         else case r of
           Inl e \<Rightarrow> ([], g')
         | Inr spdx \<Rightarrow> (with_override (repo_key owner repo) spdx,
             g'\<lparr>gs_licenses := (gs_licenses g')(repo_key owner repo \<mapsto> with_override (repo_key owner repo) spdx)\<rparr>))"
      using None f \<open>extract_github_repo purl = Some p\<close> unfolding resolve_swallow_def resolve_err_def p
      by (cases r) (simp_all add: Let_def)
    show ?thesis
    proof (cases r)
      case (Inl e)
      then have "gs_licenses g' = gs_licenses g" using f limited_licenses by blast
      then show ?thesis using assms(2) run Inl by (simp add: github_lawful_def)
    next
      case (Inr spdx)
      then have "plain_license spdx \<and> gs_licenses g' = gs_licenses g" using f fetch_license_plain [OF assms(1)] by blast
      then show ?thesis using assms(2) run Inr override_plain github_lawful_upd by simp
    qed
  qed
qed (simp add: resolve_swallow_def resolve_err_def assms(2))

lemma lookup_lawful:
  assumes "github_plain api" "github_lawful g" "worker_lookup api purl g = (Inr spdx, g')"
  shows "github_lawful g'"
proof (cases "extract_github_repo purl")
  case None
  then show ?thesis using assms(2,3) by (simp add: worker_lookup_def resolve_with_metadata_err_def)
next
  case (Some p)
  obtain owner repo where p: "p = (owner, repo)" by fastforce
  obtain r g1 where f: "fetch_repo_metadata api owner repo g = (r, g1)" by fastforce
  show ?thesis
  proof (cases "gs_metadata g (repo_key owner repo) = None \<and> \<not> is_rate_limited (ga_now api) g \<and> ga_wait_ok api")
    case False
    then show ?thesis
      using assms(2,3) Some p
      by (auto simp: worker_lookup_def resolve_with_metadata_err_def Let_def split: option.splits if_splits)
  next
    case True
    then have run: "worker_lookup api purl g =
        (case r of
           Inl e \<Rightarrow> (Inl e, g1)
         | Inr None \<Rightarrow> (Inr [], g1\<lparr>gs_metadata := (gs_metadata g1)(repo_key owner repo \<mapsto> unknown_repo (repo_key owner repo))\<rparr>)
         | Inr (Some m) \<Rightarrow> (Inr (rm_spdx_id m),
             g1\<lparr>gs_metadata := (gs_metadata g1)(repo_key owner repo \<mapsto> m),
                gs_licenses := (gs_licenses g1)(repo_key owner repo \<mapsto> rm_spdx_id m)\<rparr>))"
      using True f unfolding worker_lookup_def resolve_with_metadata_err_def Some p
      by (cases r; cases "projr r") (simp_all add: Let_def)
    show ?thesis
    proof (cases r)
      case (Inl e)
      then show ?thesis using run assms(3) by simp
    next
      case (Inr x)
      then show ?thesis
        using run assms(2,3) f fetch_metadata_kept [of api owner repo g x g1] fetch_metadata_plain [OF assms(1), of owner repo g _ g1]
        by (cases x) (auto simp: github_lawful_def)
    qed
  qed
qed

lemma well_known_plain: "list_all (\<lambda>(u, l). \<not> has_prefix l negative_marker) well_known_license_urls"
  by code_simp

lemma url_license_plain: "plain_license (license_from_url u)"
  using well_known_plain
  by (auto simp: license_from_url_def Let_def plain_license_def list_all_iff negative_marker_def has_prefix_def
      dest!: map_of_SomeD split: option.split)

lemma first_repo_lawful:
  assumes "github_plain api" "github_lawful g"
  shows "plain_license (fst (first_repo_license (resolve_swallow api) us g)) \<and>
     github_lawful (snd (first_repo_license (resolve_swallow api) us g))"
  using assms(2)
proof (induction us arbitrary: g)
  case (Cons u us)
  show ?case
  proof (cases "github_repo_from_url u")
    case (Some p)
    obtain owner repo where p: "p = (owner, repo)" by fastforce
    obtain spdx g' where r: "resolve_swallow api (''pkg:github/'' @ owner @ ''/'' @ repo) g = (spdx, g')" by fastforce
    then have "plain_license spdx" "github_lawful g'"
      using swallow_lawful [OF assms(1) Cons.prems, of "''pkg:github/'' @ owner @ ''/'' @ repo"] by simp_all
    then show ?thesis using Some p r Cons.IH by simp
  qed (simp add: Cons)
qed simp

lemma entry_lawful:
  assumes "github_plain gh" "github_lawful g" "plain_license (trim_space (ce_expression e))"
    and "rr = (if github then Some (resolve_swallow gh) else None)"
  shows "plain_license (fst (license_from_entry rr e g)) \<and> github_lawful (snd (license_from_entry rr e g))"
  using assms first_repo_lawful [OF assms(1,2)] url_license_plain
  by (simp add: license_from_entry_def del: first_repo_license.simps)

lemma nuget_lawful:
  assumes "nuget_plain api" "github_plain gh" "lawful_cache c" "github_lawful g"
    and rr: "rr = (if github then Some (resolve_swallow gh) else None)"
  shows "lawful_cache (fst (snd (nuget_resolve api rr purl (c, g)))) \<and> github_lawful (snd (snd (nuget_resolve api rr purl (c, g))))"
proof -
  have fetch: "plain_license lic \<and> github_lawful g' \<and> lawful_value (negative_cache_value reason)"
    if "nuget_fetch api rr pkg_id version g = ((lic, reason), g')" for pkg_id version lic reason g'
  proof -
    have "lawful_value (negative_cache_value reason)" using nuget_reasons [OF that] by auto
    moreover have "plain_license lic \<and> github_lawful g'"
    proof (cases "\<exists>ref e. get_json (ng_leaf api (to_lower pkg_id) (to_lower version)) = Inr ref \<and> load_entry api ref = Some e")
      case True
      then obtain ref e where e: "get_json (ng_leaf api (to_lower pkg_id) (to_lower version)) = Inr ref" "load_entry api ref = Some e"
        by blast
      then have "plain_license (trim_space (ce_expression e))" using assms(1) unfolding nuget_plain_def by blast
      from entry_lawful [OF assms(2,4) this rr] show ?thesis
        using that e by (auto simp: nuget_fetch_def split: prod.splits if_splits)
    next
      case False
      then show ?thesis
        using that assms(4) by (auto simp: nuget_fetch_def split: sum.splits json_error.splits option.splits)
    qed
    ultimately show ?thesis by simp
  qed
  show ?thesis
  proof (cases "extract_nuget_package purl")
    case (Some p)
    obtain pkg_id version where p: "p = (pkg_id, version)" by fastforce
    obtain lic reason g' where f: "nuget_fetch api rr pkg_id version g = ((lic, reason), g')" by (metis surj_pair)
    have "nuget_resolve api rr purl (c, g) =
        (if version = [] then ([], c, g)
         else if snd (snd (cache_load c (nuget_cache_key pkg_id version)))
         then (fst (cache_load c (nuget_cache_key pkg_id version)), c, g)
         else if \<not> ng_wait api then ([], c, g)
         else (lic, store_result (nuget_cache_key pkg_id version) lic reason c, g'))"
      unfolding nuget_resolve_def Some p option.case prod.case f Let_def by (simp split: prod.split)
    then show ?thesis using fetch [OF f] assms(3,4) by (simp add: lawful_store_result)
  qed (simp add: nuget_resolve_def assms(3,4))
qed

subsubsection \<open>The chain\<close>

definition chain_lawful :: "chain_state \<Rightarrow> bool" where
  "chain_lawful w \<longleftrightarrow>
     lawful_cache (cs_npm w) \<and> lawful_cache (cs_nuget w) \<and> lawful_cache (cs_depsdev w) \<and>
     lawful_cache (cs_packagist w) \<and> lawful_cache (cs_pypi w) \<and> github_lawful (cs_github w)"

lemma in_chain:
  "rr \<in> set (build_registry_resolvers cfg github rg) \<Longrightarrow>
     rr \<in> {npm_registry rg, nuget_registry github rg, depsdev_registry rg, packagist_registry rg, pypi_registry rg}"
  by (auto simp: build_registry_resolvers_def split: if_splits)

lemma chain_resolve_lawful:
  assumes "registries_plain rg" "chain_lawful w" "rr \<in> set (build_registry_resolvers cfg github rg)"
  shows "chain_lawful (snd (rr_resolve rr purl w))"
proof -
  have plain: "npm_plain (rg_npm rg)" "nuget_plain (rg_nuget rg)" "depsdev_plain (rg_depsdev rg)" "github_plain (rg_github rg)"
    using assms(1) by (simp_all add: registries_plain_def)
  have caches: "lawful_cache (cs_npm w)" "lawful_cache (cs_nuget w)" "lawful_cache (cs_depsdev w)"
    "lawful_cache (cs_packagist w)" "lawful_cache (cs_pypi w)" "github_lawful (cs_github w)"
    using assms(2) by (simp_all add: chain_lawful_def)
  note kept = npm_lawful [OF plain(1) caches(1), of "rg_npm_wait rg purl" purl]
    nuget_lawful [OF plain(2,4) caches(2,6) refl, of github purl]
    depsdev_lawful [OF plain(3) caches(3), of purl]
    packagist_lawful [OF caches(4), of "rg_mirror rg" "rg_mirror_wait rg" purl "cs_files w"]
    pypi_lawful [OF caches(5), of "rg_index rg" "rg_index_wait rg purl" purl]
  from in_chain [OF assms(3)] show ?thesis
    using kept caches
    by (elim insertE emptyE)
       (auto simp: npm_registry_def nuget_registry_def depsdev_registry_def packagist_registry_def pypi_registry_def
          chain_lawful_def split: prod.split)
qed

lemma chain_batch_lawful:
  assumes "registries_plain rg" "chain_lawful w" "rr \<in> set (build_registry_resolvers cfg github rg)" "rr_batch rr = Some batch"
  shows "chain_lawful (snd (batch purls w))"
proof -
  have "batch = (\<lambda>purls w. case resolve_batch (rg_depsdev rg) purls (cs_depsdev w) of (out, c) \<Rightarrow> (out, w\<lparr>cs_depsdev := c\<rparr>))"
    using in_chain [OF assms(3)] assms(4)
    by (auto simp: npm_registry_def nuget_registry_def depsdev_registry_def packagist_registry_def pypi_registry_def)
  moreover have "lawful_cache (snd (resolve_batch (rg_depsdev rg) purls (cs_depsdev w)))"
    using assms(1,2) by (intro depsdev_batch_lawful) (simp_all add: registries_plain_def chain_lawful_def)
  ultimately show ?thesis using assms(2) by (auto simp: chain_lawful_def split: prod.split)
qed

definition reason_ok :: "string \<Rightarrow> bool" where
  "reason_ok reason \<longleftrightarrow> reason = [] \<or> is_unresolved_reason reason"

lemma explain_reasons:
  "lawful_cache c \<Longrightarrow> reason_ok (fst (snd (npm_explain c purl)))"
  "lawful_cache c \<Longrightarrow> reason_ok (fst (snd (depsdev_explain c purl)))"
  "lawful_cache c \<Longrightarrow> reason_ok (fst (snd (pypi_explain c purl)))"
  "lawful_cache c \<Longrightarrow> reason_ok (fst (snd (packagist_explain c purl)))"
proof -
  assume c: "lawful_cache c"
  have cached: "reason_ok (cache_reason c k)" for k using lawful_reason [OF c] by (simp add: reason_ok_def)
  show "reason_ok (fst (snd (npm_explain c purl)))" "reason_ok (fst (snd (depsdev_explain c purl)))"
    "reason_ok (fst (snd (pypi_explain c purl)))"
    by (simp_all add: npm_explain_def depsdev_explain_def pypi_explain_def Let_def cached reason_ok_def [of "[]"]
        split: option.split prod.split)
  show "reason_ok (fst (snd (packagist_explain c purl)))"
    using c by (auto simp: packagist_explain_def load_value_def lawful_cache_def lawful_value_def reason_ok_def Let_def
        split: option.split prod.split)
qed

lemma chain_explain_lawful:
  assumes "chain_lawful w"
  shows "explainers_lawful (build_registry_resolvers cfg github rg) w"
proof -
  have caches: "lawful_cache (cs_npm w)" "lawful_cache (cs_depsdev w)" "lawful_cache (cs_packagist w)" "lawful_cache (cs_pypi w)"
    using assms by (simp_all add: chain_lawful_def)
  have "reason_ok (fst (snd (explain purl w)))"
    if "rr \<in> set (build_registry_resolvers cfg github rg)" "rr_explain rr = Some explain" for rr explain purl
    using in_chain [OF that(1)] that(2) explain_reasons caches
    by (auto simp: npm_registry_def nuget_registry_def depsdev_registry_def packagist_registry_def pypi_registry_def)
  then show ?thesis unfolding explainers_lawful_def reason_ok_def by blast
qed

text \<open>What every resolver and the GitHub lookup keep of the state, the resolution of a document keeps.\<close>

lemma github_loop_keeps:
  assumes "\<And>purl w spdx w'. I w \<Longrightarrow> gh purl w = (Inr spdx, w') \<Longrightarrow> I w'"
  shows "github_loop gh purls is (wk, w) = Inr st' \<Longrightarrow> I w \<Longrightarrow> I (snd st')"
proof (induction "is" arbitrary: wk w)
  case (Cons i "is")
  obtain r w1 where r: "gh (purl_of purls i) w = (r, w1)" by fastforce
  show ?case
  proof (cases "wants_license purls wk i")
    case True
    then obtain spdx wk1 where "r = Inr spdx" "github_loop gh purls is (wk1, w1) = Inr st'"
      using Cons.prems(1) r by (cases r) (auto split: if_splits)
    then show ?thesis using Cons.IH assms [OF Cons.prems(2)] r by blast
  next
    case False
    then show ?thesis using Cons by simp
  qed
qed auto

lemma apply_resolver_keeps:
  assumes "\<And>purl w. I w \<Longrightarrow> I (snd (rr_resolve rr purl w))"
    and "\<And>batch ps w. rr_batch rr = Some batch \<Longrightarrow> I w \<Longrightarrow> I (snd (batch ps w))" "I (snd st)"
  shows "I (snd (apply_resolver purls rr st))"
proof -
  obtain wk w where st: "st = (wk, w)" by fastforce
  show ?thesis
  proof (cases "rr_batch rr")
    case None
    have step: "I (snd (offer_one rr purls i s))" if "I (snd s)" for i s
      using that assms(1) [of "snd s" "purl_of purls i"] by (cases s) (auto simp: offer_one_def split: prod.split)
    have "I (snd (fold (offer_one rr purls) [0..<length (wk_licenses wk)] (wk, w)))"
      by (rule fold_invariant [where I = "\<lambda>s. I (snd s)"]) (use step assms(3) st in auto)
    then show ?thesis using None by (simp add: apply_resolver_def st)
  next
    case (Some batch)
    then show ?thesis
      using assms(2) [OF Some, of w "map (purl_of purls) (filter (wants_license purls wk) [0..<length (wk_licenses wk)])"] assms(3)
      by (auto simp: apply_resolver_def st Let_def split: prod.split)
  qed
qed

lemma resolve_packages_keeps:
  fixes w :: 'b
  assumes "resolve_package_licenses gh rs purls lics roots w = Inr (wk, w')" "I w"
    and "\<And>g purl w spdx w'. gh = Some g \<Longrightarrow> I w \<Longrightarrow> g purl w = (Inr spdx, w') \<Longrightarrow> I w'"
    and "\<And>rr purl w. rr \<in> set rs \<Longrightarrow> I w \<Longrightarrow> I (snd (rr_resolve rr purl w))"
    and "\<And>rr batch ps w. rr \<in> set rs \<Longrightarrow> rr_batch rr = Some batch \<Longrightarrow> I w \<Longrightarrow> I (snd (batch ps w))"
  shows "I w'"
proof -
  obtain st where st: "(case gh of None \<Rightarrow> Inr (start_work lics, w)
      | Some g \<Rightarrow> github_loop g purls [0..<length lics] (start_work lics, w)) = Inr st"
    and w': "snd (apply_registry_resolvers purls rs st) = w'"
    using assms(1) by (auto simp: resolve_package_licenses_def Let_def split: sum.splits prod.splits)
  have "I (snd st)"
  proof (cases gh)
    case None
    then show ?thesis using st assms(2) by auto
  next
    case (Some g)
    then have "github_loop g purls [0..<length lics] (start_work lics, w) = Inr st" using st by simp
    then show ?thesis by (rule github_loop_keeps [where I = I, rotated]) (use assms(2,3) Some in blast)+
  qed
  then have "I (snd (apply_registry_resolvers purls rs st))"
    unfolding apply_registry_resolvers_def
  proof (rule fold_invariant [where I = "\<lambda>s. I (snd s)", rotated])
    fix rr and s :: "work \<times> 'b" assume "rr \<in> set rs" "I (snd s)"
    show "I (snd (apply_resolver purls rr s))"
    proof (rule apply_resolver_keeps)
      show "I (snd (rr_resolve rr purl w))" if "I w" for purl w using assms(4) \<open>rr \<in> set rs\<close> that .
      show "I (snd (batch ps w))" if "rr_batch rr = Some batch" "I w" for batch ps w
        using assms(5) \<open>rr \<in> set rs\<close> that .
    qed (rule \<open>I (snd s)\<close>)
  qed
  then show ?thesis by (simp add: w')
qed

lemma worker_keeps_lawful:
  assumes "worker_resolve cfg rg purls lics roots w = Inr (wk, w')" "registries_plain rg" "chain_lawful w"
  shows "chain_lawful w'"
proof -
  have keeps: "chain_lawful w2" if w1: "chain_lawful w1" and l: "chain_lookup rg purl w1 = (Inr spdx, w2)" for purl w1 spdx w2
  proof -
    obtain g where "worker_lookup (rg_github rg) purl (cs_github w1) = (Inr spdx, g)" "w2 = w1\<lparr>cs_github := g\<rparr>"
      using l by (auto simp: chain_lookup_def split: prod.splits)
    then show ?thesis
      using w1 assms(2) lookup_lawful [of "rg_github rg" "cs_github w1" purl spdx g]
      by (simp add: chain_lawful_def registries_plain_def)
  qed
  show ?thesis
  proof (rule resolve_packages_keeps [where I = chain_lawful])
    show "resolve_package_licenses (if \<not> cf_skip_github_resolve cfg then Some (chain_lookup rg) else None)
        (build_registry_resolvers cfg (\<not> cf_skip_github_resolve cfg) rg) purls lics roots w = Inr (wk, w')"
      using assms(1) by (simp add: worker_resolve_def Let_def)
  qed (use assms(3) keeps chain_resolve_lawful [OF assms(2)] chain_batch_lawful [OF assms(2)] in \<open>auto split: if_splits\<close>)
qed

subsection \<open>Restarts\<close>

definition registry_names :: "string set" where
  "registry_names = {''npm'', ''nuget'', ''depsdev'', ''packagist'', ''pypi''}"

lemma chain_cache_set:
  assumes "name \<in> registry_names" "name' \<in> registry_names"
  shows "chain_cache name' (set_chain_cache name c w) = (if name' = name then c else chain_cache name' w)"
  using assms unfolding registry_names_def
  by (elim insertE emptyE) (simp_all add: chain_cache_def set_chain_cache_def)

lemma preload_one_cache:
  assumes "rr_name rr \<in> registry_names" "name \<in> registry_names"
  shows "chain_cache name (preload_one query rr w) =
    (case query (rr_name rr) of
       None \<Rightarrow> chain_cache name w
     | Some cached \<Rightarrow> if name = rr_name rr then preload_entries cached (chain_cache name w) else chain_cache name w)"
  by (simp add: preload_one_def chain_cache_set [OF assms] split: option.split)

lemma chain_names:
  "rr \<in> set (build_registry_resolvers cfg github rg) \<Longrightarrow> rr_name rr \<in> registry_names"
  using in_chain [of rr cfg github rg]
  by (auto simp: registry_names_def npm_registry_def nuget_registry_def depsdev_registry_def packagist_registry_def pypi_registry_def)

lemma preload_remembers:
  assumes "query (rr_name rr) = Some cached" "cached key = Some v" "v \<noteq> []" "rr \<in> set rs"
    and "\<And>r. r \<in> set rs \<Longrightarrow> rr_name r \<in> registry_names"
  shows "chain_cache (rr_name rr) (fold (preload_one query) rs w) key = Some v"
proof -
  have step: "chain_cache (rr_name rr) (preload_one query r w) key = Some v"
    if "r \<in> set rs" "rr_name r = rr_name rr \<or> chain_cache (rr_name rr) w key = Some v" for r w
    using that assms(1-3) preload_one_cache [OF assms(5) [OF that(1)] assms(5) [OF assms(4)], of query w]
    by (cases "rr_name r = rr_name rr") (simp_all add: preload_entries_def split: option.split)
  have "chain_cache (rr_name rr) (fold (preload_one query) xs w) key = Some v"
    if "set xs \<subseteq> set rs" "rr \<in> set xs \<or> chain_cache (rr_name rr) w key = Some v" for xs w
    using that
  proof (induction xs arbitrary: w)
    case (Cons r xs)
    then show ?case
      using step [of r w] by (cases "rr \<in> set xs") auto
  qed simp
  then show ?thesis using assms(4) by blast
qed

lemma persist_keeps:
  assumes "\<And>name. ok name" "cache_ok (chain_cache (rr_name rr) w)" "chain_cache (rr_name rr) w key = Some v" "rr \<in> set rs"
  shows "persist_registry_caches ok rs w t (rr_name rr, key) = Some v"
proof -
  have v: "v \<noteq> []" using assms(2,3) by (auto simp: cache_ok_def)
  have "chain_cache (rr_name rr) w \<noteq> Map.empty" using assms(3) by auto
  then have step: "persist_one ok w r t (rr_name rr, key) = Some v"
    if "rr_name r = rr_name rr \<or> t (rr_name rr, key) = Some v" for r t
    using that assms(1,3) v
    by (cases "rr_name r = rr_name rr") (simp_all add: persist_one_def insert_registry_license_cache_def)
  have "fold (persist_one ok w) xs t (rr_name rr, key) = Some v"
    if "rr \<in> set xs \<or> t (rr_name rr, key) = Some v" for xs t
    using that
  proof (induction xs arbitrary: t)
    case (Cons r xs)
    then show ?case using step [of r t] by (cases "rr \<in> set xs") auto
  qed simp
  then show ?thesis using assms(4) by (simp add: persist_registry_caches_def)
qed

subsection \<open>Observations\<close>

text \<open>
  The NuGet resolver stores why a package has no license but does not implement \<open>explainer\<close>: when
  deps.dev, which covers the same packages, is switched off, the reason is never reported.
\<close>

lemma nuget_reason_unreported:
  assumes "purl_type purl = ''nuget''" "\<not> is_first_party_purl purl"
  shows "unresolved_reason [nuget_registry github rg] w purl False = reason_unresolved"
proof -
  have "purl \<noteq> []" using assms(1) by (auto simp: purl_type_def cut_prefix_def has_prefix_def)
  then show ?thesis
    using assms by (simp add: unresolved_reason_def resolver_reason_def nuget_registry_def covered_purl_types_def Let_def)
qed

text \<open>
  With deps.dev in the chain its reason is reported, whatever the documentation says of NuGet.
\<close>

lemma nuget_reason_from_depsdev:
  assumes "purl_type purl = ''nuget''" "\<not> is_first_party_purl purl"
    and "depsdev_explain (cs_depsdev w) purl = (True, reason_not_published, is_latest)"
  shows "unresolved_reason [nuget_registry github rg, depsdev_registry rg] w purl False = reason_not_published"
proof -
  have "purl \<noteq> []" using assms(1) by (auto simp: purl_type_def cut_prefix_def has_prefix_def)
  then show ?thesis
    using assms by (simp add: unresolved_reason_def resolver_reason_def nuget_registry_def depsdev_registry_def
        covered_purl_types_def Let_def)
qed

text \<open>
  A license that begins with an exclamation mark is the answer of the first lookup, and a negative
  answer with an undocumented reason of every later one.
\<close>

lemma marker_license_lost:
  "let registry = (\<lambda>_ _. HttpResponse 200 (Some \<lparr>mf_license = RawString (Some ''!odd''), mf_licenses = RawAbsent\<rparr>));
       (first, c) = npm_resolve registry True ''pkg:npm/a@1'' Map.empty
   in first = ''!odd'' \<and> fst (npm_resolve registry True ''pkg:npm/a@1'' c) = [] \<and>
      npm_explain c ''pkg:npm/a@1'' = (True, ''odd'', False) \<and> \<not> is_unresolved_reason ''odd''"
  by code_simp

subsection \<open>Properties\<close>

text \<open>Where a license came from: the source without its modifiers.\<close>

definition origin_of :: "string \<Rightarrow> string" where
  "origin_of source = hd (split_char (CHR ''+'') source)"

definition chain_sources :: "string list" where
  "chain_sources = [source_declared, source_github, ''npm'', ''nuget'', ''depsdev'', ''packagist'', ''pypi'']"

lemma plain_origin: "CHR ''+'' \<notin> set s \<Longrightarrow> origin_of s = s"
proof -
  assume "CHR ''+'' \<notin> set s"
  then have "\<forall>c \<in> set s. \<not> c = CHR ''+''" by auto
  from split_by_word [OF this] show ?thesis by (simp add: origin_of_def split_char_def)
qed

lemma modified_origin: "s \<noteq> [] \<Longrightarrow> m \<in> {modifier_latest, modifier_normalized} \<Longrightarrow> origin_of (with_modifier s m) = origin_of s"
  using with_modifier_extends [of s m] by (auto simp: origin_of_def modifier_latest_def modifier_normalized_def)

lemma chain_origins:
  assumes "src \<in> origins (build_registry_resolvers cfg github rg) \<union>
      (\<lambda>src. with_modifier src modifier_normalized) ` origins (build_registry_resolvers cfg github rg)"
  shows "origin_of src \<in> set chain_sources"
proof -
  have sources: "s \<in> set chain_sources \<Longrightarrow> origin_of s = s \<and> s \<noteq> []" for s
    by (auto simp: chain_sources_def source_declared_def source_github_def plain_origin)
  have named: "rr_name rr \<in> set chain_sources" if "rr \<in> set (build_registry_resolvers cfg github rg)" for rr
    using chain_names [OF that] by (auto simp: chain_sources_def registry_names_def)
  have own: "origin_of s \<in> set chain_sources \<and> s \<noteq> []" if "s \<in> origins (build_registry_resolvers cfg github rg)" for s
  proof -
    have "source_declared \<in> set chain_sources" "source_github \<in> set chain_sources"
      by (simp_all add: chain_sources_def)
    then have "\<exists>b \<in> set chain_sources. s = b \<or> s = with_modifier b modifier_latest"
      using that named unfolding origins_def by blast
    then obtain b where b: "b \<in> set chain_sources" "s = b \<or> s = with_modifier b modifier_latest" by blast
    moreover have "with_modifier b modifier_latest \<noteq> []" using sources [OF b(1)] by (simp add: with_modifier_def)
    ultimately show ?thesis using sources [OF b(1)] modified_origin [of b modifier_latest] by auto
  qed
  show ?thesis using assms own modified_origin by auto
qed

text \<open>
  C17: whatever resolvers the configuration enables, the worker's resolution of a document leaves every
  package with a license and where it came from, or with one of the documented reasons why it has none:
  a declared license is only normalised, and the origin of any other is GitHub or one of the five
  registries. The caches keep holding licenses and documented reasons only, so that this holds for
  document after document. It needs registries whose licenses do not begin with the marker of negative
  answers.
\<close>

theorem worker_accounts_licenses:
  assumes "worker_resolve cfg rg purls lics roots w = Inr (wk, w')" "registries_plain rg" "chain_lawful w"
    and "i < length lics"
  shows "chain_lawful w' \<and> length (wk_licenses wk) = length lics \<and> length (wk_sources wk) = length lics \<and>
    (\<not> is_unknown_license (lics ! i) \<longrightarrow> wk_licenses wk ! i = normalize (lics ! i)) \<and>
    (if is_unknown_license (wk_licenses wk ! i) then is_unresolved_reason (wk_sources wk ! i)
     else origin_of (wk_sources wk ! i) \<in> set chain_sources)"
proof -
  have w': "chain_lawful w'" by (rule worker_keeps_lawful [OF assms(1-3)])
  have "resolve_package_licenses (if \<not> cf_skip_github_resolve cfg then Some (chain_lookup rg) else None)
      (build_registry_resolvers cfg (\<not> cf_skip_github_resolve cfg) rg) purls lics roots w = Inr (wk, w')"
    using assms(1) by (simp add: worker_resolve_def Let_def)
  note accounted = every_license_accounted [OF this chain_explain_lawful [OF w'] assms(4)]
  show ?thesis
  proof (cases "is_unknown_license (wk_licenses wk ! i)")
    case True
    then have "is_unresolved_reason (wk_sources wk ! i)" using accounted unfolding if_P [OF True] by blast
    then show ?thesis using True accounted w' by simp
  next
    case False
    then have "wk_sources wk ! i \<in> origins (build_registry_resolvers cfg (\<not> cf_skip_github_resolve cfg) rg) \<union>
        (\<lambda>src. with_modifier src modifier_normalized) ` origins (build_registry_resolvers cfg (\<not> cf_skip_github_resolve cfg) rg)"
      using accounted by simp
    from chain_origins [OF this] show ?thesis using False accounted w' by simp
  qed
qed

text \<open>A configuration from an empty environment but without GitHub, and registries that know one npm package.\<close>

definition sample_config :: config where
  "sample_config = (defaults (\<lambda>_. None))\<lparr>cf_skip_github_resolve := True\<rparr>"

definition silent_github :: github_api where
  "silent_github = \<lparr>ga_now = 0, ga_wait_ok = True, ga_second_wait_ok = True, ga_license = (\<lambda>_ _. GhFailed),
     ga_repo = (\<lambda>_ _. GhFailed), ga_base64 = (\<lambda>_. None), ga_detect = (\<lambda>_. []), ga_parse_time = (\<lambda>_. None)\<rparr>"

definition silent_depsdev :: depsdev_api where
  "silent_depsdev = \<lparr>dd_wait_version = (\<lambda>_. True), dd_wait_package = (\<lambda>_ _. True), dd_version = (\<lambda>_. NoResponse),
     dd_package = (\<lambda>_ _. NoResponse), dd_batch = (\<lambda>_. []), dd_order = (\<lambda>_ xs. xs)\<rparr>"

definition sample_registries :: registries where
  "sample_registries =
     \<lparr>rg_npm = (\<lambda>name version. if name = ''a''
        then HttpResponse 200 (Some \<lparr>mf_license = RawString (Some ''MIT''), mf_licenses = RawAbsent\<rparr>) else HttpResponse 404 None),
      rg_npm_wait = (\<lambda>_. True),
      rg_nuget = \<lparr>ng_wait = True, ng_catalog_wait = True, ng_leaf = (\<lambda>_ _. NoResponse), ng_catalog = (\<lambda>_. NoResponse)\<rparr>,
      rg_depsdev = silent_depsdev, rg_mirror = (\<lambda>_. NoResponse), rg_mirror_wait = (\<lambda>_. True),
      rg_index = (\<lambda>_ _. NoResponse), rg_index_wait = (\<lambda>_. True), rg_github = silent_github\<rparr>"

definition empty_chain :: chain_state where
  "empty_chain = \<lparr>cs_npm = Map.empty, cs_nuget = Map.empty, cs_depsdev = Map.empty, cs_packagist = Map.empty,
     cs_files = Map.empty, cs_pypi = Map.empty, cs_github = empty_github\<rparr>"

lemma sample_chain:
  "build_registry_resolvers sample_config github rg =
     [npm_registry rg, nuget_registry github rg, depsdev_registry rg, packagist_registry rg, pypi_registry rg]"
  "cf_skip_github_resolve sample_config"
  by (simp_all add: build_registry_resolvers_def sample_config_def defaults_def get_env_bool_def get_env_def)

lemma sample_registries_plain: "registries_plain sample_registries"
proof -
  have mit: "npm_normalize_license (RawString (Some ''MIT'')) RawAbsent = ''MIT''" by code_simp
  have "npm_plain (rg_npm sample_registries)"
    by (simp add: npm_plain_def npm_fetch_license_def npm_read_response_def sample_registries_def mit Let_def)
       (simp add: plain_license_def negative_marker_def has_prefix_def)
  moreover have "nuget_plain (rg_nuget sample_registries)"
    by (simp add: nuget_plain_def get_json_def sample_registries_def)
  ultimately show ?thesis
    by (simp add: registries_plain_def sample_registries_def depsdev_plain_def silent_depsdev_def github_plain_def silent_github_def)
qed

theorem worker_accounts_licenses_witness:
  "\<exists>wk w'. worker_resolve sample_config sample_registries [''pkg:npm/a@1'', ''pkg:npm/b@1'', ''pkg:deb/c''] [[], ''NONE'', []] []
      empty_chain = Inr (wk, w') \<and>
    wk_sources wk = [''npm'', ''not-published'', ''unsupported-ecosystem''] \<and> chain_lawful w'"
proof -
  let ?r = "worker_resolve sample_config sample_registries [''pkg:npm/a@1'', ''pkg:npm/b@1'', ''pkg:deb/c''] [[], ''NONE'', []] [] empty_chain"
  have "case resolve_package_licenses None
      [npm_registry sample_registries, nuget_registry False sample_registries, depsdev_registry sample_registries,
       packagist_registry sample_registries, pypi_registry sample_registries]
      [''pkg:npm/a@1'', ''pkg:npm/b@1'', ''pkg:deb/c''] [[], ''NONE'', []] [] empty_chain :: github_error + work \<times> chain_state of
        Inl _ \<Rightarrow> False
      | Inr (wk, _) \<Rightarrow> wk_sources wk = [''npm'', ''not-published'', ''unsupported-ecosystem'']"
    by code_simp
  then obtain wk w' where r: "?r = Inr (wk, w')" "wk_sources wk = [''npm'', ''not-published'', ''unsupported-ecosystem'']"
    by (auto simp: worker_resolve_def sample_chain split: sum.splits prod.splits)
  have "chain_lawful empty_chain"
    by (simp add: chain_lawful_def empty_chain_def github_lawful_def empty_github_def)
  then have "chain_lawful w'"
    using worker_accounts_licenses [OF r(1) sample_registries_plain _, of 0] by simp
  with r show ?thesis by blast
qed

text \<open>
  C19: what a worker has learnt from the registries survives it. When its caches are persisted and a new
  worker preloads them, every answer, license or reason, of every enabled resolver is found again under
  its key, whatever else the table held.
\<close>

theorem restart_remembers:
  assumes "\<And>name. ok name" "rr \<in> set (build_registry_resolvers cfg github rg)"
    and "cache_ok (chain_cache (rr_name rr) w)" "chain_cache (rr_name rr) w key = Some v"
    and "t' = persist_registry_caches ok (build_registry_resolvers cfg github rg) w t"
  shows "chain_cache (rr_name rr)
      (new_registry_resolvers cfg github rg (\<lambda>name. Some (query_registry_license_cache t' name)) w0) key = Some v"
proof -
  have "t' (rr_name rr, key) = Some v" unfolding assms(5) by (rule persist_keeps [OF assms(1,3,4,2)])
  moreover have "v \<noteq> []" using assms(3,4) by (auto simp: cache_ok_def)
  ultimately show ?thesis
    unfolding new_registry_resolvers_def
    by (intro preload_remembers [OF refl _ _ assms(2) chain_names]) (simp_all add: query_registry_license_cache_def)
qed

theorem restart_remembers_witness:
  "cs_npm (new_registry_resolvers sample_config False sample_registries
      (\<lambda>name. Some (query_registry_license_cache
         (persist_registry_caches (\<lambda>_. True) (build_registry_resolvers sample_config False sample_registries)
            (empty_chain\<lparr>cs_npm := [''b@1'' \<mapsto> ''!not-published'']\<rparr>) [(''npm'', ''a@1'') \<mapsto> ''MIT'']) name)) empty_chain) ''b@1'' =
    Some ''!not-published''"
proof -
  let ?w = "empty_chain\<lparr>cs_npm := [''b@1'' \<mapsto> ''!not-published'']\<rparr>"
  let ?rr = "npm_registry sample_registries"
  have name: "rr_name ?rr = ''npm''" "chain_cache ''npm'' w = cs_npm w" for w
    by (simp_all add: npm_registry_def chain_cache_def)
  have "?rr \<in> set (build_registry_resolvers sample_config False sample_registries)" by (simp add: sample_chain)
  moreover have "cache_ok (chain_cache (rr_name ?rr) ?w)" "chain_cache (rr_name ?rr) ?w ''b@1'' = Some ''!not-published''"
    by (simp_all add: name cache_ok_def)
  ultimately show ?thesis
    using restart_remembers [of "\<lambda>_. True" ?rr sample_config False sample_registries ?w "''b@1''" "''!not-published''" _
        "[(''npm'', ''a@1'') \<mapsto> ''MIT'']" empty_chain]
    by (simp add: name)
qed

end
